(* ===== verification/Prelude.thy ===== *)
theory Prelude
  imports Main "HOL-Library.Word" "HOL-Library.Sublist"
begin

section \<open>Shared vocabulary of the luce-seed development\<close>

text \<open>
  What every component of the compiler shares: source bytes as \<open>char list\<close>, the
  \<open>std::string\<close> and \<open>std::string_view\<close> operations the code calls (\<open>find\<close>, \<open>rfind\<close>,
  \<open>substr\<close>, \<open>to_string\<close>), and the fact collections the component proofs use.
  A \<open>size_t\<close> or \<open>uint32_t\<close> that counts bytes, lines or columns of one source is a
  \<open>nat\<close>: a source is at most 64 MiB (\<open>Source::max_bytes\<close>), so these counters do not
  wrap. Where a machine integer can wrap, it is a word.
\<close>

unbundle bit_operations_syntax

named_theorems scan_simps "equations of the character classifiers"
named_theorems frame_simps "fields an operation leaves alone"

type_synonym bytes = string

abbreviation byte_value :: "char \<Rightarrow> nat" where
  "byte_value c \<equiv> of_char c"

lemma byte_value_less [simp]: "byte_value c < 256"
  by simp

subsection \<open>String operations\<close>

definition nul :: char where "nul = CHR 0x00"
definition lf :: char where "lf = CHR 0x0A"
definition cr :: char where "cr = CHR 0x0D"
definition tab :: char where "tab = CHR 0x09"
definition squote :: char where "squote = CHR 0x27"
definition dquote :: char where "dquote = CHR 0x22"
definition backslash :: char where "backslash = CHR 0x5C"

lemmas control_chars = nul_def lf_def cr_def tab_def squote_def dquote_def backslash_def

text \<open>\<open>s.substr(pos, len)\<close> for \<open>pos \<le> s.size()\<close>.\<close>

definition substr :: "bytes \<Rightarrow> nat \<Rightarrow> nat \<Rightarrow> bytes" where
  "substr s pos len = take len (drop pos s)"

lemma length_substr [simp]: "length (substr s pos len) = min len (length s - pos)"
  by (simp add: substr_def min.commute)

text \<open>\<open>s.find(c, from)\<close>: the least position at or after \<open>from\<close>, \<open>None\<close> for \<open>npos\<close>.\<close>

function find_from :: "bytes \<Rightarrow> char \<Rightarrow> nat \<Rightarrow> nat option" where
  "find_from s c i = (if i < length s then (if s ! i = c then Some i else find_from s c (Suc i)) else None)"
  by pat_completeness auto
termination by (relation "measure (\<lambda>(s, c, i). length s - i)") auto

declare find_from.simps [simp del]

text \<open>\<open>s.rfind(c, upto)\<close> restricted to positions below \<open>n\<close>: the greatest, if any.\<close>

fun rfind_below :: "bytes \<Rightarrow> char \<Rightarrow> nat \<Rightarrow> nat option" where
  "rfind_below s c 0 = None"
| "rfind_below s c (Suc n) = (if n < length s \<and> s ! n = c then Some n else rfind_below s c n)"

lemma find_from_SomeD:
  "find_from s c i = Some k \<Longrightarrow> i \<le> k \<and> k < length s \<and> s ! k = c \<and> (\<forall>j. i \<le> j \<and> j < k \<longrightarrow> s ! j \<noteq> c)"
proof (induction s c i rule: find_from.induct)
  case (1 s c i)
  have lt: "i < length s"
    using "1.prems" by (simp add: find_from.simps[of s c i] split: if_splits)
  show ?case
  proof (cases "s ! i = c")
    case True
    with "1.prems" lt have "k = i" by (simp add: find_from.simps[of s c i])
    with True lt show ?thesis by auto
  next
    case False
    with "1.prems" lt have "find_from s c (Suc i) = Some k"
      by (simp add: find_from.simps[of s c i])
    from "1.IH"[OF lt False this] False show ?thesis
      by (metis Suc_leD Suc_leI order_le_imp_less_or_eq)
  qed
qed

lemma find_from_NoneD:
  "find_from s c i = None \<Longrightarrow> i \<le> j \<Longrightarrow> j < length s \<Longrightarrow> s ! j \<noteq> c"
proof (induction s c i rule: find_from.induct)
  case (1 s c i)
  have "i < length s" using "1.prems" by simp
  with "1.prems"(1) have ne: "s ! i \<noteq> c" and rest: "find_from s c (Suc i) = None"
    by (auto simp: find_from.simps[of s c i] split: if_splits)
  show ?case
    using "1.IH"[OF \<open>i < length s\<close> ne rest] "1.prems"(2,3) ne
    by (cases "j = i") auto
qed

lemma rfind_below_SomeD:
  "rfind_below s c n = Some k \<Longrightarrow> k < n \<and> k < length s \<and> s ! k = c"
  by (induction n) (auto split: if_splits)

text \<open>\<open>std::to_string\<close> of an unsigned and of a signed number.\<close>

fun dec_digits :: "nat \<Rightarrow> string" where
  "dec_digits n = (if n < 10 then [char_of (48 + n)] else dec_digits (n div 10) @ [char_of (48 + n mod 10)])"

declare dec_digits.simps [simp del]

definition to_string_nat :: "nat \<Rightarrow> string" where
  "to_string_nat n = dec_digits n"

definition to_string_int :: "int \<Rightarrow> string" where
  "to_string_int i = (if i < 0 then CHR ''-'' # dec_digits (nat (- i)) else dec_digits (nat i))"

subsection \<open>Counting and prefixes\<close>

lemma count_list_append [simp]: "count_list (xs @ ys) x = count_list xs x + count_list ys x"
  by (induction xs) auto

lemma take_Suc_snoc: "n < length xs \<Longrightarrow> take (Suc n) xs = take n xs @ [xs ! n]"
  by (rule take_Suc_conv_app_nth)

lemma drop_eq_Cons: "i < length xs \<Longrightarrow> drop i xs = xs ! i # drop (Suc i) xs"
  by (simp add: Cons_nth_drop_Suc)

text \<open>Bits shifted left, and bits below them.\<close>

lemma or_low:
  assumes "(b::nat) < 2 ^ n"
  shows "push_bit n v OR b = v * 2 ^ n + b"
proof -
  have b: "take_bit n b = b" using assms by (simp add: take_bit_nat_eq_self)
  have "push_bit n v AND take_bit n b = 0"
    by (rule bit_eqI) (auto simp: bit_simps)
  then have "push_bit n v OR b = push_bit n v + b"
    using b by (simp add: disjunctive_add_eq_or)
  then show ?thesis by (simp add: push_bit_eq_mult)
qed

end
