(* ===== verification/Big.thy ===== *)
theory Big
  imports Prelude
begin

section \<open>Big integers of 32-bit limbs\<close>

text \<open>
  The struct \<open>Big\<close> of \<open>src/support/decimal.cpp\<close>: the limbs in use, least significant first,
  are a list of words; the rest of the array is zero and is not represented. An operation that
  returns false when the capacity is exceeded is an \<open>option\<close>. The locale \<open>big_number\<close> states
  what the conversion in theory \<open>Decimal\<close> relies on, in terms of the natural number a value
  stands for, and proves the restoring division once; the limb model is its interpretation.
\<close>

type_synonym big = "32 word list"

definition k_limbs :: nat where
  "k_limbs = 192"

lemma unat_drop_bit: "unat (drop_bit n w) = unat w div 2 ^ n"
  by (subst unsigned_drop_bit_eq) (simp add: drop_bit_eq_div take_bit_nat_eq_self)

function big_set :: "64 word \<Rightarrow> big" where
  "big_set v = (if v \<noteq> 0 then ucast v # big_set (drop_bit 32 v) else [])"
  by pat_completeness auto
termination
proof (relation "measure unat", goal_cases)
  case (2 v)
  then have "0 < unat v" by (simp add: unat_gt_0)
  then have "unat v div 2 ^ 32 < unat v" by simp
  then show ?case by (simp add: unat_drop_bit)
qed simp

declare big_set.simps [simp del]

definition big_is_zero :: "big \<Rightarrow> bool" where
  "big_is_zero b \<longleftrightarrow> b = []"

fun mul_add_limbs :: "big \<Rightarrow> 32 word \<Rightarrow> 64 word \<Rightarrow> big \<times> 64 word" where
  "mul_add_limbs [] m carry = ([], carry)"
| "mul_add_limbs (l # ls) m carry =
     (let t = ucast l * ucast m + carry;
          (rest, out) = mul_add_limbs ls m (drop_bit 32 t)
      in (ucast t # rest, out))"

definition big_mul_add :: "32 word \<Rightarrow> 32 word \<Rightarrow> big \<Rightarrow> big option" where
  "big_mul_add m a b =
     (let (ls, carry) = mul_add_limbs b m (ucast a) in
      if carry \<noteq> 0 then (if length b = k_limbs then None else Some (ls @ [ucast carry])) else Some ls)"

function limb_bits :: "32 word \<Rightarrow> nat" where
  "limb_bits w = (if w \<noteq> 0 then Suc (limb_bits (drop_bit 1 w)) else 0)"
  by pat_completeness auto
termination
proof (relation "measure unat", goal_cases)
  case (2 v)
  then have "0 < unat v" by (simp add: unat_gt_0)
  then have "unat v div 2 < unat v" by simp
  then show ?case by (simp add: unat_drop_bit)
qed simp

declare limb_bits.simps [simp del]

definition big_bit_length :: "big \<Rightarrow> int" where
  "big_bit_length b = (if b = [] then 0 else (int (length b) - 1) * 32 + int (limb_bits (last b)))"

definition big_trim :: "big \<Rightarrow> big" where
  "big_trim b = rev (dropWhile (\<lambda>l. l = 0) (rev b))"

text \<open>
  The loop of \<open>shift_left\<close>, from the least significant limb: \<open>carry\<close> is the part of the
  limb below that crosses into this one.
\<close>

fun shift_limbs :: "nat \<Rightarrow> 32 word \<Rightarrow> big \<Rightarrow> big" where
  "shift_limbs rest carry [] = [carry]"
| "shift_limbs rest carry (l # ls) =
     (let t = push_bit rest (ucast l :: 64 word)
      in (ucast t OR carry) # shift_limbs rest (ucast (drop_bit 32 t)) ls)"

definition big_shift_left :: "nat \<Rightarrow> big \<Rightarrow> big option" where
  "big_shift_left bits b =
     (if bits = 0 \<or> b = [] then Some b
      else let words = bits div 32; rest = bits mod 32 in
        if k_limbs < length b + words + 1 then None
        else Some (big_trim (replicate words 0 @ shift_limbs rest 0 b)))"

fun halve_limbs :: "big \<Rightarrow> big" where
  "halve_limbs [] = []"
| "halve_limbs [l] = [drop_bit 1 l]"
| "halve_limbs (l # k # ls) = (drop_bit 1 l OR push_bit 31 (k AND 1)) # halve_limbs (k # ls)"

definition big_shift_right_one :: "big \<Rightarrow> big" where
  "big_shift_right_one b = big_trim (halve_limbs b)"

text \<open>The comparison loop runs from the most significant limb down.\<close>

fun limbs_at_least :: "big \<Rightarrow> big \<Rightarrow> bool" where
  "limbs_at_least (x # xs) (y # ys) = (if x \<noteq> y then y < x else limbs_at_least xs ys)"
| "limbs_at_least _ _ = True"

definition big_at_least :: "big \<Rightarrow> big \<Rightarrow> bool" where
  "big_at_least b other =
     (if length b \<noteq> length other then length other < length b else limbs_at_least (rev b) (rev other))"

fun subtract_limbs :: "int \<Rightarrow> big \<Rightarrow> big \<Rightarrow> big" where
  "subtract_limbs borrow [] other = []"
| "subtract_limbs borrow (l # ls) other =
     (let t = uint l - (case other of [] \<Rightarrow> 0 | k # _ \<Rightarrow> uint k) - borrow;
          borrow = (if t < 0 then 1 else 0)
      in word_of_int (t + borrow * 2 ^ 32) # subtract_limbs borrow ls (tl other))"

definition big_subtract :: "big \<Rightarrow> big \<Rightarrow> big" where
  "big_subtract b other = big_trim (subtract_limbs 0 b other)"

subsection \<open>The number a value stands for\<close>

fun big_val :: "big \<Rightarrow> nat" where
  "big_val [] = 0"
| "big_val (l # ls) = unat l + 2 ^ 32 * big_val ls"

definition big_ok :: "big \<Rightarrow> bool" where
  "big_ok b \<longleftrightarrow> (b = [] \<or> last b \<noteq> 0) \<and> length b \<le> k_limbs"

lemma big_val_append: "big_val (xs @ ys) = big_val xs + 2 ^ (32 * length xs) * big_val ys"
  by (induction xs) (simp_all add: algebra_simps power_add)

lemma big_val_replicate [simp]: "big_val (replicate n 0) = 0"
  by (induction n) simp_all

lemma limb_less: "unat (l :: 32 word) < 2 ^ 32"
  using unsigned_less[of l] by simp

lemma big_val_less: "big_val b < 2 ^ (32 * length b)"
proof (induction b)
  case (Cons l ls)
  then have "big_val ls + 1 \<le> 2 ^ (32 * length ls)" by simp
  then have "2 ^ 32 * (big_val ls + 1) \<le> 2 ^ 32 * 2 ^ (32 * length ls)" by (rule mult_le_mono2)
  then show ?case using limb_less[of l] by (simp add: power_add)
qed simp

lemma big_trim_snoc: "big_trim (b @ [l]) = (if l = 0 then big_trim b else b @ [l])"
  by (simp add: big_trim_def)

lemma big_trim_val [simp]: "big_val (big_trim b) = big_val b"
  by (induction b rule: rev_induct) (simp_all add: big_trim_snoc big_val_append big_trim_def[of "[]"])

lemma big_trim_last: "big_trim b = [] \<or> last (big_trim b) \<noteq> 0"
  by (induction b rule: rev_induct) (simp_all add: big_trim_snoc big_trim_def[of "[]"])

lemma big_trim_length: "length (big_trim b) \<le> length b"
  by (induction b rule: rev_induct) (simp_all add: big_trim_snoc big_trim_def[of "[]"])

lemma big_val_zero: "big_ok b \<Longrightarrow> big_val b = 0 \<longleftrightarrow> b = []"
proof (induction b)
  case (Cons l ls)
  then show ?case by (cases ls) (auto simp: big_ok_def unat_eq_0)
qed simp

text \<open>The most significant limb bounds the number from below.\<close>

lemma big_val_ge:
  assumes "b \<noteq> []"
  shows "2 ^ (32 * (length b - 1)) * unat (last b) \<le> big_val b"
    "big_val b < 2 ^ (32 * (length b - 1)) * (unat (last b) + 1)"
proof -
  obtain xs l where b: "b = xs @ [l]" using assms by (metis rev_exhaust)
  show "2 ^ (32 * (length b - 1)) * unat (last b) \<le> big_val b" by (simp add: b big_val_append)
  show "big_val b < 2 ^ (32 * (length b - 1)) * (unat (last b) + 1)"
    using big_val_less[of xs] by (simp add: b big_val_append)
qed

lemma big_val_ok_ge: "big_ok b \<Longrightarrow> b \<noteq> [] \<Longrightarrow> 2 ^ (32 * (length b - 1)) \<le> big_val b"
  using big_val_ge(1)[of b] unat_gt_0[of "last b"] by (auto simp: big_ok_def intro: order.trans[rotated])

subsection \<open>What each operation computes\<close>

lemma unat_ucast_low: "unat (ucast (w :: 64 word) :: 32 word) = unat w mod 2 ^ 32"
  by (simp add: unsigned_ucast_eq take_bit_eq_mod)

lemma unat_ucast_up: "unat (ucast (w :: 32 word) :: 64 word) = unat w"
  using limb_less[of w] by (simp add: unsigned_ucast_eq take_bit_eq_mod)

lemma split_word: "unat (w :: 64 word) = unat (ucast w :: 32 word) + 2 ^ 32 * unat (drop_bit 32 w)"
  by (simp add: unat_ucast_low unat_drop_bit)

lemma big_set_val: "big_val (big_set v) = unat v"
proof (induction v rule: big_set.induct)
  case (1 v)
  then show ?case
    using split_word[of v] by (subst big_set.simps) (auto simp: unat_gt_0)
qed

lemma big_set_ok: "big_ok (big_set v)"
proof -
  have small: "big_set v = [] \<or> (last (big_set v) \<noteq> 0)" for v
  proof (induction v rule: big_set.induct)
    case (1 v)
    show ?case
    proof (cases "v = 0")
      case False
      with 1 have IH: "big_set (drop_bit 32 v) = [] \<or> last (big_set (drop_bit 32 v)) \<noteq> 0" by blast
      have "ucast v \<noteq> (0 :: 32 word)" if "big_set (drop_bit 32 v) = []"
      proof -
        have "unat (drop_bit 32 v) = 0" using that big_set_val[of "drop_bit 32 v"] by simp
        then have "unat (ucast v :: 32 word) = unat v" using split_word[of v] by simp
        then show ?thesis using False by (metis unat_eq_0)
      qed
      with IH False show ?thesis by (subst (1 2) big_set.simps) auto
    qed (subst big_set.simps, simp)
  qed
  have "2 ^ (32 * (length (big_set v) - 1)) \<le> unat v" if "big_set v \<noteq> []"
    using big_val_ge(1)[OF that] small[of v] that unat_gt_0[of "last (big_set v)"]
    by (auto simp: big_set_val intro: order.trans[rotated])
  then have "length (big_set v) \<le> 2"
  proof (cases "big_set v = []")
    case False
    assume a: "big_set v \<noteq> [] \<Longrightarrow> 2 ^ (32 * (length (big_set v) - 1)) \<le> unat v"
    show ?thesis
    proof (rule ccontr)
      assume "\<not> length (big_set v) \<le> 2"
      then have "(2::nat) ^ 64 \<le> 2 ^ (32 * (length (big_set v) - 1))" by (intro power_increasing) auto
      moreover have "unat v < 2 ^ 64" using unsigned_less[of v] by simp
      ultimately show False using a[OF False] by linarith
    qed
  qed simp
  then show ?thesis using small[of v] by (simp add: big_ok_def k_limbs_def)
qed

lemma mul_add_step:
  assumes "unat (carry :: 64 word) < 2 ^ 32"
  shows "unat (ucast (l :: 32 word) * ucast (m :: 32 word) + carry) = unat l * unat m + unat carry"
    "unat (drop_bit 32 (ucast l * ucast m + carry)) < 2 ^ 32"
proof -
  have "unat l * unat m \<le> (2 ^ 32 - 1) * (2 ^ 32 - 1)"
    using limb_less[of l] limb_less[of m] by (intro mult_le_mono) auto
  then have lt: "unat l * unat m + unat carry < 2 ^ 64" using assms by simp
  then show val: "unat (ucast l * ucast m + carry) = unat l * unat m + unat carry"
    by (simp add: unat_word_ariths unat_ucast_up)
  show "unat (drop_bit 32 (ucast l * ucast m + carry)) < 2 ^ 32"
    using lt by (simp add: unat_drop_bit val less_mult_imp_div_less)
qed

lemma mul_add_limbs_val:
  assumes "mul_add_limbs b m carry = (ls, out)" "unat carry < 2 ^ 32"
  shows "length ls = length b \<and> unat out < 2 ^ 32 \<and>
    big_val ls + 2 ^ (32 * length b) * unat out = big_val b * unat m + unat carry"
  using assms
proof (induction b arbitrary: carry ls)
  case (Cons l b)
  let ?t = "ucast l * ucast m + carry"
  obtain rest where r: "mul_add_limbs b m (drop_bit 32 ?t) = (rest, out)" "ls = ucast ?t # rest"
    using Cons.prems(1) by (auto simp: Let_def split: prod.splits)
  note t = mul_add_step[OF Cons.prems(2), of l m]
  note IH = Cons.IH[OF r(1) t(2)]
  have "unat (ucast ?t :: 32 word) + 2 ^ 32 * unat (drop_bit 32 ?t) = unat l * unat m + unat carry"
    using split_word[of ?t] t(1) by simp
  then show ?case using IH r(2) by (simp add: algebra_simps power_add)
qed simp

lemma mul_add_limbs_last:
  assumes "mul_add_limbs b m carry = (ls, 0)" "unat carry < 2 ^ 32" "b \<noteq> []" "last b \<noteq> 0" "m \<noteq> 0"
  shows "last ls \<noteq> 0"
  using assms
proof (induction b arbitrary: carry ls)
  case (Cons l b)
  let ?t = "ucast l * ucast m + carry"
  obtain rest where r: "mul_add_limbs b m (drop_bit 32 ?t) = (rest, 0)" "ls = ucast ?t # rest"
    using Cons.prems(1) by (auto simp: Let_def split: prod.splits)
  note t = mul_add_step[OF Cons.prems(2), of l m]
  show ?case
  proof (cases "b = []")
    case True
    then have "drop_bit 32 ?t = 0" using r(1) by simp
    then have "unat (ucast ?t :: 32 word) = unat l * unat m + unat carry" using split_word[of ?t] t(1) by simp
    moreover have "0 < unat l * unat m" using Cons.prems(4,5) True by (simp add: unat_gt_0)
    ultimately have "ucast ?t \<noteq> (0 :: 32 word)" by (metis add_is_0 less_numeral_extra(3) unat_0)
    then show ?thesis using True r by simp
  next
    case False
    then have "last rest \<noteq> 0" using Cons.IH[OF r(1) t(2) False] Cons.prems(4,5) by simp
    moreover have "rest \<noteq> []" using mul_add_limbs_val[OF r(1) t(2)] False by auto
    ultimately show ?thesis using r(2) by simp
  qed
qed simp

lemma big_mul_add_val:
  assumes "big_ok b" "m \<noteq> 0" "big_val b * unat m + unat a < 2 ^ (32 * k_limbs)"
  obtains b' where "big_mul_add m a b = Some b'" "big_ok b'" "big_val b' = big_val b * unat m + unat a"
proof -
  obtain ls out where r: "mul_add_limbs b m (ucast a) = (ls, out)" by fastforce
  have a: "unat (ucast a :: 64 word) < 2 ^ 32" using limb_less[of a] by (simp add: unat_ucast_up)
  note val = mul_add_limbs_val[OF r a]
  have len: "length b \<le> k_limbs" using assms(1) by (simp add: big_ok_def)
  show ?thesis
  proof (cases "out = 0")
    case True
    have "ls = [] \<or> last ls \<noteq> 0"
    proof (cases "b = []")
      case False
      then show ?thesis using mul_add_limbs_last[of b m "ucast a" ls] r True a assms(1,2) by (simp add: big_ok_def)
    qed (use r in simp)
    then show ?thesis
      using that[of ls] r True val len by (simp add: big_mul_add_def big_ok_def unat_ucast_up)
  next
    case False
    then have "1 \<le> unat out" using unat_gt_0[of out] by linarith
    then have "2 ^ (32 * length b) * 1 \<le> 2 ^ (32 * length b) * unat out" by (rule mult_le_mono2)
    then have "(2::nat) ^ (32 * length b) \<le> big_val b * unat m + unat a" using val unat_ucast_up[of a] by linarith
    then have "(2::nat) ^ (32 * length b) < 2 ^ (32 * k_limbs)" using assms(3) by linarith
    then have lt: "length b < k_limbs" by simp
    have top: "unat (ucast out :: 32 word) = unat out" using val by (simp add: unat_ucast_low)
    then have "ucast out \<noteq> (0 :: 32 word)" using False by (metis unat_eq_0)
    then show ?thesis
      using that[of "ls @ [ucast out]"] r False val lt top
      by (simp add: big_mul_add_def big_ok_def big_val_append unat_ucast_up)
  qed
qed

subsection \<open>Lengths and shifts\<close>

text \<open>The number of bits of a natural number.\<close>

function nbits :: "nat \<Rightarrow> nat" where
  "nbits n = (if n = 0 then 0 else Suc (nbits (n div 2)))"
  by pat_completeness auto
termination by (relation "measure id") auto

declare nbits.simps [simp del]

lemma nbits_zero [simp]: "nbits 0 = 0"
  by (simp add: nbits.simps)

lemma nbits_power: "0 < n \<Longrightarrow> n < 2 ^ nbits n \<and> 2 ^ nbits n \<le> 2 * n"
proof (induction n rule: nbits.induct)
  case (1 n)
  have eq: "nbits n = Suc (nbits (n div 2))" using 1(2) by (simp add: nbits.simps[of n])
  show ?case
  proof (cases "n div 2 = 0")
    case True
    then have "n = 1" using 1(2) by simp
    then show ?thesis by (simp add: nbits.simps)
  next
    case False
    define p :: nat where "p = 2 ^ nbits (n div 2)"
    have "n div 2 < p" "p \<le> 2 * (n div 2)" using 1 False by (simp_all add: p_def)
    then have "n < 2 * p" "2 * p \<le> 2 * n" by linarith+
    then show ?thesis by (simp add: eq p_def)
  qed
qed

lemma nbits_pos: "0 < n \<Longrightarrow> 0 < nbits n"
  by (simp add: nbits.simps[of n])

lemma nbits_bounds: "0 < n \<Longrightarrow> 2 ^ (nbits n - 1) \<le> n \<and> n < 2 ^ nbits n \<and> 0 < nbits n"
proof -
  assume n: "0 < n"
  obtain k where k: "nbits n = Suc k" using nbits_pos[OF n] by (cases "nbits n") auto
  then show ?thesis using nbits_power[OF n] by simp
qed

lemma nbits_unique: "2 ^ k \<le> n \<Longrightarrow> n < 2 ^ Suc k \<Longrightarrow> nbits n = Suc k"
proof -
  assume a: "2 ^ k \<le> n" "n < 2 ^ Suc k"
  moreover have "0 < (2::nat) ^ k" by simp
  ultimately have "0 < n" by linarith
  then have b: "2 ^ (nbits n - 1) \<le> n" "n < 2 ^ nbits n" "0 < nbits n" using nbits_bounds by blast+
  have "(2::nat) ^ (nbits n - 1) < 2 ^ Suc k" "(2::nat) ^ k < 2 ^ nbits n" using a b by linarith+
  then have "nbits n - 1 < Suc k" "k < nbits n"
    using power_less_imp_less_exp[of "2::nat" "nbits n - 1" "Suc k"] power_less_imp_less_exp[of "2::nat" k "nbits n"]
    by (simp_all only: one_less_numeral_iff semiring_norm)
  with b(3) show ?thesis by linarith
qed

lemma limb_bits_nbits: "limb_bits w = nbits (unat w)"
proof (induction w rule: limb_bits.induct)
  case (1 w)
  show ?case
  proof (cases "w = 0")
    case True
    then show ?thesis by (simp add: limb_bits.simps)
  next
    case False
    then have "unat w \<noteq> 0" by (simp add: unat_eq_0)
    then show ?thesis
      using 1[OF False] False by (simp add: limb_bits.simps[of w] nbits.simps[of "unat w"] unat_drop_bit)
  qed
qed

lemma big_bit_length_val:
  assumes "big_ok b"
  shows "big_bit_length b = int (nbits (big_val b))"
proof (cases "b = []")
  case True
  then show ?thesis by (simp add: big_bit_length_def)
next
  case False
  then have "0 < unat (last b)" using assms by (simp add: big_ok_def unat_gt_0)
  then obtain k where k: "nbits (unat (last b)) = Suc k" "2 ^ k \<le> unat (last b)" "unat (last b) < 2 ^ Suc k"
    using nbits_bounds[of "unat (last b)"] by (cases "nbits (unat (last b))") auto
  let ?p = "32 * (length b - 1)"
  have "2 ^ ?p * 2 ^ k \<le> 2 ^ ?p * unat (last b)" "2 ^ ?p * (unat (last b) + 1) \<le> 2 ^ ?p * 2 ^ Suc k"
    using k(2,3) by (intro mult_le_mono2; simp)+
  moreover have "(2::nat) ^ (?p + k) = 2 ^ ?p * 2 ^ k" "(2::nat) ^ Suc (?p + k) = 2 ^ ?p * 2 ^ Suc k"
    by (simp_all add: power_add)
  ultimately have "2 ^ (?p + k) \<le> big_val b" "big_val b < 2 ^ Suc (?p + k)"
    using big_val_ge[OF False] by linarith+
  then have "nbits (big_val b) = Suc (?p + k)" by (rule nbits_unique)
  moreover have "1 \<le> length b" using False by (cases b) auto
  ultimately show ?thesis using False k(1) by (simp add: big_bit_length_def limb_bits_nbits of_nat_diff)
qed

lemma shift_limb_step:
  assumes "r < 32" "unat (carry :: 32 word) < 2 ^ r"
  shows "unat (ucast (push_bit r (ucast l :: 64 word)) OR carry :: 32 word) + 2 ^ 32 * unat (ucast (drop_bit 32 (push_bit r (ucast (l :: 32 word) :: 64 word))) :: 32 word)
      = unat l * 2 ^ r + unat carry"
    "unat (ucast (drop_bit 32 (push_bit r (ucast l :: 64 word))) :: 32 word) < 2 ^ r"
proof -
  let ?t = "push_bit r (ucast l :: 64 word)"
  have "unat l * 2 ^ r < 2 ^ 32 * 2 ^ r" using limb_less[of l] by simp
  also have "\<dots> \<le> 2 ^ 32 * 2 ^ 31" using assms(1) by (intro mult_le_mono2 power_increasing) auto
  finally have lt: "unat l * 2 ^ r < 2 ^ 64" by simp
  have t: "unat ?t = unat l * 2 ^ r"
    using lt by (subst unsigned_push_bit_eq) (simp add: unat_ucast_up push_bit_eq_mult take_bit_nat_eq_self)
  have hi: "unat (ucast (drop_bit 32 ?t) :: 32 word) = unat l * 2 ^ r div 2 ^ 32"
    using lt by (simp add: unat_ucast_low unat_drop_bit t less_mult_imp_div_less)
  show "unat (ucast (drop_bit 32 ?t) :: 32 word) < 2 ^ r"
    using limb_less[of l] by (simp add: hi less_mult_imp_div_less mult.commute)
  have "unat l * 2 ^ r mod (2 ^ (32 - r) * 2 ^ r) = unat l mod 2 ^ (32 - r) * 2 ^ r" by (rule mult_mod_left[symmetric])
  moreover have "(2::nat) ^ (32 - r) * 2 ^ r = 2 ^ 32" using assms(1) by (simp flip: power_add)
  ultimately have low: "unat (ucast ?t :: 32 word) = push_bit r (unat l mod 2 ^ (32 - r))"
    by (simp only: unat_ucast_low t) (simp add: push_bit_eq_mult)
  have or: "unat ((ucast ?t :: 32 word) OR carry) = unat (ucast ?t :: 32 word) + unat carry"
    by (simp only: unsigned_or_eq low or_low[OF assms(2)]) (simp only: push_bit_eq_mult)
  have "unat ?t = unat (ucast ?t :: 32 word) + 2 ^ 32 * unat (drop_bit 32 ?t)" by (rule split_word)
  then show "unat (ucast ?t OR carry :: 32 word) + 2 ^ 32 * unat (ucast (drop_bit 32 ?t) :: 32 word) = unat l * 2 ^ r + unat carry"
    using hi by (simp add: or t unat_drop_bit)
qed

lemma shift_limbs_val:
  assumes "r < 32" "unat carry < 2 ^ r"
  shows "big_val (shift_limbs r carry b) = big_val b * 2 ^ r + unat carry \<and> length (shift_limbs r carry b) = Suc (length b)"
  using assms(2)
proof (induction b arbitrary: carry)
  case (Cons l b)
  note step = shift_limb_step[OF assms(1) Cons.prems, of l]
  show ?case using Cons.IH[OF step(2)] step(1) by (simp add: Let_def algebra_simps)
qed simp

lemma big_shift_left_val:
  assumes "big_ok b" "big_val b * 2 ^ bits < 2 ^ (32 * (k_limbs - 2))"
  obtains b' where "big_shift_left bits b = Some b'" "big_ok b'" "big_val b' = big_val b * 2 ^ bits"
proof (cases "bits = 0 \<or> b = []")
  case True
  then show ?thesis using that[of b] assms(1) by (auto simp: big_shift_left_def)
next
  case False
  let ?words = "bits div 32" and ?rest = "bits mod 32"
  let ?ls = "replicate ?words 0 @ shift_limbs ?rest 0 b"
  have s: "big_val (shift_limbs ?rest 0 b) = big_val b * 2 ^ ?rest" "length (shift_limbs ?rest 0 b) = Suc (length b)"
    using shift_limbs_val[of ?rest 0 b] by simp_all
  have val: "big_val ?ls = big_val b * 2 ^ bits"
  proof -
    have "(2::nat) ^ bits = 2 ^ (32 * ?words) * 2 ^ ?rest" by (simp flip: power_add)
    then show ?thesis by (simp add: big_val_append s)
  qed
  have "2 ^ (32 * (length b - 1)) * 2 ^ (32 * ?words) \<le> big_val b * 2 ^ bits"
    using big_val_ok_ge[OF assms(1)] False by (intro mult_le_mono power_increasing) auto
  then have "(2::nat) ^ (32 * (length b - 1) + 32 * ?words) < 2 ^ (32 * (k_limbs - 2))"
    using assms(2) by (simp add: power_add)
  then have "32 * (length b - 1) + 32 * ?words < 32 * (k_limbs - 2)"
    by (rule power_less_imp_less_exp[rotated]) simp
  then have fits: "length b + ?words + 1 \<le> k_limbs" using False by (cases b) (auto simp: k_limbs_def)
  then have "length (big_trim ?ls) \<le> k_limbs" using big_trim_length[of ?ls] s by simp
  then have "big_ok (big_trim ?ls)" using big_trim_last[of ?ls] by (simp add: big_ok_def)
  then show ?thesis
    using that[of "big_trim ?ls"] False fits val by (simp add: big_shift_left_def Let_def)
qed

lemma halve_limb:
  "unat (drop_bit 1 l OR push_bit 31 (k AND 1) :: 32 word) = unat l div 2 + 2 ^ 31 * (unat k mod 2)"
proof -
  have "unat l div 2 < 2 ^ 31" using limb_less[of l] by simp
  then have "push_bit 31 (unat k mod 2) OR unat l div 2 = (unat k mod 2) * 2 ^ 31 + unat l div 2"
    by (rule or_low)
  moreover have "unat (k AND 1) = unat k mod 2" by (simp add: and_one_eq unat_mod)
  then have "unat (push_bit 31 (k AND 1) :: 32 word) = take_bit 32 (push_bit 31 (unat k mod 2))"
    by (simp only: unsigned_push_bit_eq) simp
  moreover have "push_bit 31 (unat k mod 2) < 2 ^ 32" by (simp add: push_bit_eq_mult)
  then have "take_bit 32 (push_bit 31 (unat k mod 2)) = push_bit 31 (unat k mod 2)" by (rule take_bit_nat_eq_self)
  moreover have "unat (drop_bit 1 l) = unat l div 2" by (simp only: unat_drop_bit power_one_right)
  ultimately show ?thesis
    by (simp only: unsigned_or_eq or.commute[of "unat (drop_bit 1 l)"]) (simp only: or.commute mult.commute add.commute)
qed

lemma halve_limbs_val: "big_val (halve_limbs b) = big_val b div 2 \<and> length (halve_limbs b) = length b"
proof (induction b rule: halve_limbs.induct)
  case (3 l k ls)
  define m where "m = big_val (k # ls)"
  have "m mod 2 = unat k mod 2" by (simp add: m_def mod_add_right_eq[symmetric] mod_mult_left_eq[symmetric])
  then have "m = 2 * (m div 2) + unat k mod 2" using mult_div_mod_eq[of 2 m] by simp
  moreover have "big_val (l # k # ls) = unat l + 2 * (2 ^ 31 * m)" by (simp add: m_def)
  then have "big_val (l # k # ls) div 2 = unat l div 2 + 2 ^ 31 * m" by simp
  moreover have "big_val (halve_limbs (k # ls)) = m div 2" using 3 by (simp add: m_def)
  moreover have "big_val (halve_limbs (l # k # ls)) = unat l div 2 + 2 ^ 31 * (unat k mod 2) + 2 ^ 32 * big_val (halve_limbs (k # ls))"
    by (simp only: halve_limbs.simps big_val.simps halve_limb)
  moreover have "2 ^ 31 * (2 * q + s) = 2 ^ 31 * s + 2 ^ 32 * q" for q s :: nat by simp
  ultimately have "big_val (halve_limbs (l # k # ls)) = big_val (l # k # ls) div 2"
    by (metis add.assoc)
  then show ?case using 3 by simp
qed (simp_all add: unat_drop_bit)

lemma big_shift_right_one_val:
  assumes "big_ok b"
  shows "big_val (big_shift_right_one b) = big_val b div 2" "big_ok (big_shift_right_one b)"
  using assms halve_limbs_val[of b] big_trim_last[of "halve_limbs b"] big_trim_length[of "halve_limbs b"]
  by (simp_all add: big_shift_right_one_def big_ok_def)

subsection \<open>Comparison and subtraction\<close>

lemma limbs_at_least_val:
  "length xs = length ys \<Longrightarrow> limbs_at_least (rev xs) (rev ys) = (big_val ys \<le> big_val xs)"
proof (induction xs ys rule: rev_induct2)
  case (4 x xs y ys)
  have len: "length xs = length ys" using 4 by simp
  have "2 ^ (32 * length ys) * unat x + big_val xs < 2 ^ (32 * length ys) * (unat x + 1)"
    "2 ^ (32 * length ys) * unat y + big_val ys < 2 ^ (32 * length ys) * (unat y + 1)"
    using big_val_less[of xs] big_val_less[of ys] len by simp_all
  moreover have "2 ^ (32 * length ys) * (unat y + 1) \<le> 2 ^ (32 * length ys) * unat x" if "y < x"
    using that by (intro mult_le_mono2) (simp add: word_less_nat_alt)
  moreover have "2 ^ (32 * length ys) * (unat x + 1) \<le> 2 ^ (32 * length ys) * unat y" if "x < y"
    using that by (intro mult_le_mono2) (simp add: word_less_nat_alt)
  ultimately show ?case
    using 4 len by (cases x y rule: linorder_cases) (auto simp: big_val_append)
qed auto

lemma big_at_least_val:
  assumes "big_ok b" "big_ok c"
  shows "big_at_least b c = (big_val c \<le> big_val b)"
proof -
  have less: "big_val xs < big_val ys" if "length xs < length ys" "big_ok ys" for xs ys
  proof -
    have "big_val xs < 2 ^ (32 * length xs)" by (rule big_val_less)
    also have "\<dots> \<le> 2 ^ (32 * (length ys - 1))" using that(1) by (intro power_increasing) auto
    also have "\<dots> \<le> big_val ys" using that by (intro big_val_ok_ge) auto
    finally show ?thesis .
  qed
  show ?thesis
    using less[of b c] less[of c b] assms limbs_at_least_val[of b c]
    by (cases "length b" "length c" rule: linorder_cases) (auto simp: big_at_least_def)
qed

text \<open>
  A final borrow would carry the difference past every limb: it does not happen when the
  number subtracted is the smaller one, which is the comment of \<open>subtract\<close>.
\<close>

lemma subtract_limb_step:
  assumes "t = uint (l :: 32 word) - uint (k :: 32 word) - c" "c \<in> {0, 1}" "b = (if t < 0 then 1 else 0)"
  shows "int (unat (word_of_int (t + b * 2 ^ 32) :: 32 word)) = t + b * 2 ^ 32"
proof -
  have "uint l < 2 ^ 32" "uint k < 2 ^ 32" "0 \<le> uint l" "0 \<le> uint k"
    using unsigned_less[of l] unsigned_less[of k] by simp_all
  moreover have "c = 0 \<or> c = 1" using assms(2) by blast
  ultimately have "0 \<le> t + b * 2 ^ 32" "t + b * 2 ^ 32 < 2 ^ 32"
    unfolding assms(1,3) by (cases "uint l - uint k - c < 0"; simp; linarith)+
  moreover have "int (unat (word_of_int s :: 32 word)) = s mod 2 ^ 32" for s by (simp add: uint_word_of_int)
  ultimately show ?thesis by (simp only: mod_pos_pos_trivial)
qed

lemma subtract_limbs_val:
  assumes "length other \<le> length b" "c \<in> {0, 1}"
  shows "length (subtract_limbs c b other) = length b \<and>
    (\<exists>k \<in> {0, 1}. int (big_val (subtract_limbs c b other))
      = int (big_val b) - int (big_val other) - c + k * 2 ^ (32 * length b))"
  using assms
proof (induction b arbitrary: c other)
  case (Cons l ls)
  define k where "k = (case other of [] \<Rightarrow> 0 | k # _ \<Rightarrow> k)"
  have k: "(case other of [] \<Rightarrow> 0 | k # _ \<Rightarrow> uint k) = uint k" by (simp add: k_def split: list.split)
  define t where "t = uint l - uint k - c"
  define d :: int where "d = (if t < 0 then 1 else 0)"
  have "big_val other = unat k + 2 ^ 32 * big_val (tl other)" by (cases other) (simp_all add: k_def)
  then have other: "int (big_val other) = uint k + 2 ^ 32 * int (big_val (tl other))" by simp
  have eq: "subtract_limbs c (l # ls) other = word_of_int (t + d * 2 ^ 32) # subtract_limbs d ls (tl other)"
    by (simp only: subtract_limbs.simps Let_def k t_def d_def)
  have limb: "int (unat (word_of_int (t + d * 2 ^ 32) :: 32 word)) = t + d * 2 ^ 32"
    using t_def Cons.prems(2) d_def by (rule subtract_limb_step)
  have prem: "length (tl other) \<le> length ls" "d \<in> {0, 1}" using Cons.prems(1) by (auto simp: d_def)
  obtain e where e: "e \<in> {0, 1}" "int (big_val (subtract_limbs d ls (tl other)))
      = int (big_val ls) - int (big_val (tl other)) - d + e * 2 ^ (32 * length ls)"
    and len: "length (subtract_limbs d ls (tl other)) = length ls" using Cons.IH[OF prem] by blast
  have "int (big_val (subtract_limbs c (l # ls) other))
      = int (big_val (l # ls)) - int (big_val other) - c + e * 2 ^ (32 * length (l # ls))"
    using e(2) limb unfolding eq other by (simp add: t_def power_add algebra_simps)
  then show ?case using e(1) len unfolding eq by auto
qed auto

lemma big_length_mono: "big_ok b \<Longrightarrow> big_ok c \<Longrightarrow> big_val c \<le> big_val b \<Longrightarrow> length c \<le> length b"
  using big_at_least_val[of b c] by (simp add: big_at_least_def split: if_splits)

lemma big_subtract_val:
  assumes "big_ok b" "big_ok c" "big_val c \<le> big_val b"
  shows "big_val (big_subtract b c) = big_val b - big_val c" "big_ok (big_subtract b c)"
proof -
  obtain k :: int where k: "k \<in> {0, 1}" "int (big_val (subtract_limbs 0 b c))
      = int (big_val b) - int (big_val c) - 0 + k * 2 ^ (32 * length b)"
    and len: "length (subtract_limbs 0 b c) = length b"
    using subtract_limbs_val[OF big_length_mono[OF assms], of 0] by auto
  have "int (big_val (subtract_limbs 0 b c)) < int (2 ^ (32 * length b))"
    using big_val_less[of "subtract_limbs 0 b c"] len by (simp only: of_nat_less_iff)
  then have "k = 0" using k assms(3) by auto
  then show "big_val (big_subtract b c) = big_val b - big_val c"
    using k(2) assms(3) by (simp add: big_subtract_def)
  show "big_ok (big_subtract b c)"
    using big_trim_last[of "subtract_limbs 0 b c"] big_trim_length[of "subtract_limbs 0 b c"] len assms(1)
    by (simp add: big_subtract_def big_ok_def)
qed

subsection \<open>Restoring division\<close>

text \<open>
  The loop of \<open>decimal_to_bits\<close> that finds the quotient bit by bit, from its highest, over the
  operations it calls. \<open>steps\<close> counts the values of \<open>j\<close> from \<open>top\<close> down to 0.
\<close>

fun restoring_division ::
  "('b \<Rightarrow> 'b \<Rightarrow> bool) \<Rightarrow> ('b \<Rightarrow> 'b \<Rightarrow> 'b) \<Rightarrow> ('b \<Rightarrow> 'b) \<Rightarrow> nat \<Rightarrow> 64 word \<Rightarrow> 'b \<Rightarrow> 'b \<Rightarrow> 64 word \<times> 'b" where
  "restoring_division at_least subtract shift_right_one 0 quot num den = (quot, num)"
| "restoring_division at_least subtract shift_right_one (Suc steps) quot num den =
     (let quot = push_bit 1 quot in
      if at_least num den
      then restoring_division at_least subtract shift_right_one steps (quot OR 1) (subtract num den) (shift_right_one den)
      else restoring_division at_least subtract shift_right_one steps quot num (shift_right_one den))"

text \<open>What the loop asks of the numbers.\<close>

locale big_number =
  fixes val :: "'b \<Rightarrow> nat"
    and ok :: "'b \<Rightarrow> bool"
    and at_least :: "'b \<Rightarrow> 'b \<Rightarrow> bool"
    and subtract :: "'b \<Rightarrow> 'b \<Rightarrow> 'b"
    and shift_right_one :: "'b \<Rightarrow> 'b"
  assumes at_least_val: "ok a \<Longrightarrow> ok b \<Longrightarrow> at_least a b \<longleftrightarrow> val b \<le> val a"
    and subtract_val: "ok a \<Longrightarrow> ok b \<Longrightarrow> val b \<le> val a \<Longrightarrow> val (subtract a b) = val a - val b"
    and subtract_ok: "ok a \<Longrightarrow> ok b \<Longrightarrow> val b \<le> val a \<Longrightarrow> ok (subtract a b)"
    and shift_right_val: "ok a \<Longrightarrow> val (shift_right_one a) = val a div 2"
    and shift_right_ok: "ok a \<Longrightarrow> ok (shift_right_one a)"
begin

lemma divide_step:
  assumes "ok num" "ok den" "val num < 2 * val den"
  obtains num' bit where "ok num'" "bit \<in> {0, 1}" "val num = bit * val den + val num'" "val num' < val den"
    "\<And>steps quot. unat quot < 2 ^ 63 \<Longrightarrow> \<exists>quot'. unat quot' = 2 * unat quot + bit \<and>
      restoring_division at_least subtract shift_right_one (Suc steps) quot num den
        = restoring_division at_least subtract shift_right_one steps quot' num' (shift_right_one den)"
proof -
  have twice: "unat (push_bit 1 q) = 2 * unat q" if "unat q < 2 ^ 63" for q :: "64 word"
    using that by (subst unsigned_push_bit_eq) (simp add: push_bit_eq_mult take_bit_nat_eq_self)
  have odd: "unat (push_bit 1 q OR 1) = 2 * unat q + 1" if "unat q < 2 ^ 63" for q :: "64 word"
    using or_low[of 1 1 "unat q"] twice[OF that] by (simp add: unsigned_or_eq push_bit_eq_mult mult.commute)
  show thesis
  proof (cases "at_least num den")
    case True
    then have le: "val den \<le> val num" using at_least_val assms by simp
    show thesis
    proof (rule that)
      show "ok (subtract num den)" by (rule subtract_ok[OF assms(1,2) le])
      show "val num = 1 * val den + val (subtract num den)" "val (subtract num den) < val den"
        using subtract_val[OF assms(1,2) le] le assms(3) by simp_all
      show "\<exists>quot'. unat quot' = 2 * unat quot + 1 \<and>
          restoring_division at_least subtract shift_right_one (Suc steps) quot num den
            = restoring_division at_least subtract shift_right_one steps quot' (subtract num den) (shift_right_one den)"
        if "unat quot < 2 ^ 63" for steps quot
        using odd[OF that] True by (intro exI[of _ "push_bit 1 quot OR 1"]) (simp add: Let_def)
    qed simp
  next
    case False
    then have "val num < val den" using at_least_val assms by simp
    then show thesis
    proof (intro that[of num 0])
      show "\<exists>quot'. unat quot' = 2 * unat quot + 0 \<and>
          restoring_division at_least subtract shift_right_one (Suc steps) quot num den
            = restoring_division at_least subtract shift_right_one steps quot' num (shift_right_one den)"
        if "unat quot < 2 ^ 63" for steps quot
        using twice[OF that] False by (intro exI[of _ "push_bit 1 quot"]) (simp add: Let_def)
    qed (use assms in simp_all)
  qed
qed

text \<open>The remainder stays below twice the divisor, so each step finds one bit of the quotient.\<close>

lemma divide_val:
  assumes "ok num" "ok den" "val den = d * 2 ^ n" "val num < 2 * val den" "0 < d"
    "(unat quot + 1) * 2 ^ Suc n \<le> 2 ^ 64"
    "restoring_division at_least subtract shift_right_one (Suc n) quot num den = (quot', r)"
  shows "ok r \<and> unat quot' = unat quot * 2 ^ Suc n + val num div d \<and> val r = val num mod d"
  using assms
proof (induction n arbitrary: quot num den)
  case 0
  obtain num' bit where step: "ok num'" "bit \<in> {0, 1}" "val num = bit * val den + val num'" "val num' < val den"
    "\<And>steps quot. unat quot < 2 ^ 63 \<Longrightarrow> \<exists>quot'. unat quot' = 2 * unat quot + bit \<and>
      restoring_division at_least subtract shift_right_one (Suc steps) quot num den
        = restoring_division at_least subtract shift_right_one steps quot' num' (shift_right_one den)"
    using divide_step[OF 0(1,2,4)] by metis
  have "unat quot < 2 ^ 63" using 0(6) by simp
  then have "unat quot' = 2 * unat quot + bit" "r = num'" using step(5)[of quot 0] 0(7) by auto
  moreover have "val num = val num' + d * bit" "val num' < d" using step(3,4) 0(3) by simp_all
  ultimately show ?case using step(1) by simp
next
  case (Suc n)
  obtain num' bit where step: "ok num'" "bit \<in> {0, 1}" "val num = bit * val den + val num'" "val num' < val den"
    "\<And>steps quot. unat quot < 2 ^ 63 \<Longrightarrow> \<exists>quot'. unat quot' = 2 * unat quot + bit \<and>
      restoring_division at_least subtract shift_right_one (Suc steps) quot num den
        = restoring_division at_least subtract shift_right_one steps quot' num' (shift_right_one den)"
    using divide_step[OF Suc.prems(1,2,4)] by metis
  have "(unat quot + 1) * 2 \<le> (unat quot + 1) * 2 ^ Suc (Suc n)" by (intro mult_le_mono2) simp
  moreover have "(unat quot + 1) * 2 ^ Suc (Suc n) \<le> 2 ^ 64" by (rule Suc.prems(6))
  ultimately have "unat quot < 2 ^ 63" by simp
  then obtain q where q: "unat q = 2 * unat quot + bit"
    "restoring_division at_least subtract shift_right_one (Suc n) q num' (shift_right_one den) = (quot', r)"
    using step(5)[of quot "Suc n"] Suc.prems(7) by metis
  have half: "val (shift_right_one den) = d * 2 ^ n" using shift_right_val[OF Suc.prems(2)] Suc.prems(3) by simp
  then have lt: "val num' < 2 * val (shift_right_one den)" using step(4) Suc.prems(3) by simp
  have "(unat q + 1) * 2 ^ Suc n \<le> ((unat quot + 1) * 2) * 2 ^ Suc n"
    using step(2) q(1) by (intro mult_le_mono1) auto
  also have "\<dots> \<le> 2 ^ 64" using Suc.prems(6) by (simp add: mult.assoc)
  finally have fits: "(unat q + 1) * 2 ^ Suc n \<le> 2 ^ 64" .
  have IH: "ok r \<and> unat quot' = unat q * 2 ^ Suc n + val num' div d \<and> val r = val num' mod d"
    using Suc.IH[OF step(1) shift_right_ok[OF Suc.prems(2)] half lt Suc.prems(5) fits q(2)] .
  have num: "val num = val num' + d * (bit * 2 ^ Suc n)" using step(3) Suc.prems(3) by (simp add: algebra_simps)
  have "val num div d = bit * 2 ^ Suc n + val num' div d" "val num mod d = val num' mod d"
    unfolding num using Suc.prems(5) by simp_all
  with IH q(1) show ?case by (simp add: algebra_simps)
qed

end

text \<open>The limb model keeps these promises.\<close>

interpretation limbs: big_number big_val big_ok big_at_least big_subtract big_shift_right_one
  by unfold_locales (simp_all add: big_at_least_val big_subtract_val big_shift_right_one_val)

text \<open>
  C23: the division loop of the conversion, run on limbs, finds the exact quotient and leaves the
  exact remainder, for a divisor that was shifted up to the dividend's length.
\<close>

theorem restoring_division_exact:
  assumes "big_ok num" "big_ok den" "big_val den = d * 2 ^ n" "big_val num < 2 * big_val den" "0 < d" "n < 64"
  shows "\<exists>quot r. restoring_division big_at_least big_subtract big_shift_right_one (Suc n) 0 num den = (quot, r)
    \<and> big_ok r \<and> unat quot = big_val num div d \<and> big_val r = big_val num mod d"
proof -
  obtain quot r where run: "restoring_division big_at_least big_subtract big_shift_right_one (Suc n) 0 num den = (quot, r)"
    by fastforce
  have "(2::nat) ^ Suc n \<le> 2 ^ 64" using assms(6) by (intro power_increasing) auto
  then have "(unat (0 :: 64 word) + 1) * 2 ^ Suc n \<le> 2 ^ 64" by simp
  from limbs.divide_val[OF assms(1-5) this run] run show ?thesis by simp
qed

theorem restoring_division_exact_witness:
  "\<exists>quot r. restoring_division big_at_least big_subtract big_shift_right_one (Suc 2) 0 [23] [12] = (quot, r)
    \<and> big_ok r \<and> unat quot = 7 \<and> big_val r = 2"
  using restoring_division_exact[of "[23]" "[12]" 3 2] by (simp add: big_ok_def k_limbs_def)

end
