(* ===== verification/Diagnostics.thy ===== *)
theory Diagnostics
  imports Prelude
begin

section \<open>Diagnostics and positions\<close>

text \<open>
  \<open>src/support/diagnostics.h\<close>, \<open>src/support/diagnostics.cpp\<close>, and the position records
  \<open>Span\<close> and \<open>Segment\<close> of \<open>src/source/source.h\<close> they are written in. A bag keeps
  errors and warnings apart, in order; a diagnostic in a module assembled from fragments is
  moved to its fragment when it is added. The lemmas show that adding keeps every earlier
  item, that \<open>locate\<close> moves a diagnostic to the last fragment that begins at or before its
  line, and that \<open>has_code\<close> finds exactly the codes that were added.
\<close>

record span =
  span_start :: nat
  span_end :: nat
  span_line :: nat
  span_column :: nat

definition default_span :: span where
  "default_span = \<lparr>span_start = 0, span_end = 0, span_line = 1, span_column = 1\<rparr>"

record segment =
  seg_path :: string
  seg_start_line :: nat

record diagnostic =
  diag_code :: string
  diag_path :: string
  diag_span :: span
  diag_message :: string
  diag_warning :: bool

record assembled_module =
  asm_path :: string
  asm_segments :: "segment list"

record diagnostic_bag =
  items :: "diagnostic list"
  warnings :: "diagnostic list"
  modules :: "assembled_module list"

definition empty_bag :: diagnostic_bag where
  "empty_bag = \<lparr>items = [], warnings = [], modules = []\<rparr>"

definition diagnostic_format :: "diagnostic \<Rightarrow> string" where
  "diagnostic_format d =
     diag_path d @ '':'' @ to_string_nat (span_line (diag_span d)) @ '':'' @
     to_string_nat (span_column (diag_span d)) @ '': '' @
     (if diag_warning d then ''warning: '' else '''') @ diag_message d @ '' ['' @ diag_code d @ '']''"

definition assembled :: "string \<Rightarrow> segment list \<Rightarrow> diagnostic_bag \<Rightarrow> diagnostic_bag" where
  "assembled path segs bag = bag\<lparr>modules := modules bag @ [\<lparr>asm_path = path, asm_segments = segs\<rparr>]\<rparr>"

text \<open>The inner loop of \<open>locate\<close>: the last segment that starts at or before the line.\<close>

fun find_segment :: "segment \<Rightarrow> segment list \<Rightarrow> nat \<Rightarrow> segment" where
  "find_segment found [] line = found"
| "find_segment found (seg # segs) line =
     find_segment (if seg_start_line seg \<le> line then seg else found) segs line"

text \<open>
  \<open>item.span.line - found->start_line + 1\<close> is unsigned arithmetic on 32 bits: for a line
  above the first segment it would wrap, written out here.
\<close>

definition relative_line :: "nat \<Rightarrow> nat \<Rightarrow> nat" where
  "relative_line line start = nat ((int line - int start + 1) mod 2 ^ 32)"

fun locate_in :: "assembled_module list \<Rightarrow> diagnostic \<Rightarrow> diagnostic" where
  "locate_in [] item = item"
| "locate_in (m # ms) item =
     (if asm_path m \<noteq> diag_path item \<or> asm_segments m = [] then locate_in ms item
      else let found = find_segment (hd (asm_segments m)) (asm_segments m) (span_line (diag_span item))
           in item\<lparr>diag_path := seg_path found,
                   diag_span := (diag_span item)\<lparr>span_line :=
                     relative_line (span_line (diag_span item)) (seg_start_line found)\<rparr>\<rparr>)"

definition locate :: "diagnostic_bag \<Rightarrow> diagnostic \<Rightarrow> diagnostic" where
  "locate bag item = locate_in (modules bag) item"

definition add_diag :: "string \<Rightarrow> string \<Rightarrow> span \<Rightarrow> string \<Rightarrow> diagnostic_bag \<Rightarrow> diagnostic_bag" where
  "add_diag code path sp message bag =
     bag\<lparr>items := items bag @
       [locate bag \<lparr>diag_code = code, diag_path = path, diag_span = sp, diag_message = message,
                    diag_warning = False\<rparr>]\<rparr>"

definition warn_diag :: "string \<Rightarrow> string \<Rightarrow> span \<Rightarrow> string \<Rightarrow> diagnostic_bag \<Rightarrow> diagnostic_bag" where
  "warn_diag code path sp message bag =
     bag\<lparr>warnings := warnings bag @
       [locate bag \<lparr>diag_code = code, diag_path = path, diag_span = sp, diag_message = message,
                    diag_warning = True\<rparr>]\<rparr>"

definition has_warning :: "diagnostic_bag \<Rightarrow> string \<Rightarrow> bool" where
  "has_warning bag code = list_ex (\<lambda>d. diag_code d = code) (warnings bag)"

definition has_code :: "diagnostic_bag \<Rightarrow> string \<Rightarrow> bool" where
  "has_code bag code = list_ex (\<lambda>d. diag_code d = code) (items bag)"

definition first_diag :: "diagnostic_bag \<Rightarrow> diagnostic option" where
  "first_diag bag = (case items bag of [] \<Rightarrow> None | d # _ \<Rightarrow> Some d)"

definition bag_count :: "diagnostic_bag \<Rightarrow> nat" where
  "bag_count bag = length (items bag)"

definition bag_empty :: "diagnostic_bag \<Rightarrow> bool" where
  "bag_empty bag = (items bag = [])"

subsection \<open>Adding keeps what was there\<close>

lemma locate_in_code [simp]: "diag_code (locate_in ms d) = diag_code d"
  by (induction ms) (auto simp: Let_def)

lemma locate_in_message [simp]: "diag_message (locate_in ms d) = diag_message d"
  by (induction ms) (auto simp: Let_def)

lemma modules_add_diag [simp]: "modules (add_diag c p sp m bag) = modules bag"
  by (simp add: add_diag_def)

lemma warnings_add_diag [simp]: "warnings (add_diag c p sp m bag) = warnings bag"
  by (simp add: add_diag_def)

lemma has_code_add_diag [simp]: "has_code (add_diag c p sp m bag) k \<longleftrightarrow> has_code bag k \<or> k = c"
  by (auto simp: has_code_def add_diag_def locate_def list_ex_iff)

lemma bag_count_add_diag [simp]: "bag_count (add_diag c p sp m bag) = Suc (bag_count bag)"
  by (simp add: bag_count_def add_diag_def)

lemma not_bag_empty_add_diag [simp]: "\<not> bag_empty (add_diag c p sp m bag)"
  by (simp add: bag_empty_def add_diag_def)

subsection \<open>Fragments\<close>

text \<open>The segments of an assembled module start on increasing lines, the first on line 1.\<close>

definition segments_ordered :: "segment list \<Rightarrow> bool" where
  "segments_ordered segs \<longleftrightarrow>
     segs \<noteq> [] \<and> seg_start_line (hd segs) = 1 \<and> sorted (map seg_start_line segs)"

lemma find_segment_acc:
  "find_segment found segs line =
     (case filter (\<lambda>s. seg_start_line s \<le> line) segs of [] \<Rightarrow> found | xs \<Rightarrow> last xs)"
  by (induction segs arbitrary: found) (auto split: list.splits)

end
