(* ===== verification/Utf8.thy ===== *)
theory Utf8
  imports Prelude
begin

section \<open>UTF-8 scalars\<close>

text \<open>
  The two halves of the compiler's UTF-8 codec: \<open>utf8_next\<close> of \<open>src/source/source.cpp\<close>, the
  one decoder the source gate and the lexer use, and \<open>append_utf8\<close> of
  \<open>src/support/literal.cpp\<close>, the encoder of a decoded escape; with the two code-point
  classifiers of \<open>source.cpp\<close>. A code point is a \<open>nat\<close>: a decoded one has at most 21 bits,
  so the \<open>char32_t\<close> it lives in never wraps. The locale \<open>utf8_codec\<close> is the contract between
  the two halves, interpreted below on the code's own functions.
\<close>

subsection \<open>The decoder\<close>

text \<open>The continuation bytes: \<open>value = (value << 6) | (cont & 0x3F)\<close> from position \<open>i\<close> on.\<close>

function utf8_continue :: "bytes \<Rightarrow> nat \<Rightarrow> nat \<Rightarrow> nat \<Rightarrow> nat \<Rightarrow> nat option" where
  "utf8_continue s at i width value =
     (if i < width then
        (let cont = byte_value (s ! (at + i)) in
         if cont AND 0xC0 \<noteq> 0x80 then None
         else utf8_continue s at (Suc i) width (push_bit 6 value OR (cont AND 0x3F)))
      else Some value)"
  by pat_completeness auto
termination by (relation "measure (\<lambda>(s, at, i, width, value). width - i)") auto

declare utf8_continue.simps [simp del]

text \<open>\<open>None\<close> is the return value 0; \<open>Some (width, codepoint)\<close> a decoded scalar.\<close>

definition utf8_next :: "bytes \<Rightarrow> nat \<Rightarrow> (nat \<times> nat) option" where
  "utf8_next s at =
     (if length s \<le> at then None
      else let lead = byte_value (s ! at) in
        if lead < 0x80 then Some (1, lead)
        else
          (case (if lead AND 0xE0 = 0xC0 then Some (2, lead AND 0x1F)
                 else if lead AND 0xF0 = 0xE0 then Some (3, lead AND 0x0F)
                 else if lead AND 0xF8 = 0xF0 then Some (4, lead AND 0x07)
                 else None) of
             None \<Rightarrow> None
           | Some (width, start) \<Rightarrow>
               if length s < at + width then None
               else (case utf8_continue s at 1 width start of
                   None \<Rightarrow> None
                 | Some value \<Rightarrow>
                     if width = 2 \<and> value < 0x80 then None
                     else if width = 3 \<and> value < 0x800 then None
                     else if width = 4 \<and> value < 0x10000 then None
                     else if 0x10FFFF < value \<or> (0xD800 \<le> value \<and> value \<le> 0xDFFF) then None
                     else Some (width, value))))"

definition is_bidi_control :: "nat \<Rightarrow> bool" where
  "is_bidi_control c =
     (if c = 0x061C \<or> c = 0x200E \<or> c = 0x200F then True
      else if 0x202A \<le> c \<and> c \<le> 0x202E then True
      else 0x2066 \<le> c \<and> c \<le> 0x2069)"

definition confusable_hint :: "nat \<Rightarrow> string option" where
  "confusable_hint c =
     (if c = 0x00A0 \<or> c = 0x1680 \<or> (0x2000 \<le> c \<and> c \<le> 0x200A) \<or> c = 0x202F \<or> c = 0x205F \<or> c = 0x3000
      then Some ''a Unicode space; write an ordinary space''
      else if c = 0x00AD \<or> c = 0x034F \<or> (0x200B \<le> c \<and> c \<le> 0x200D) \<or> (0x2060 \<le> c \<and> c \<le> 0x2064) \<or> c = 0xFEFF
      then Some ''an invisible character; delete it''
      else if c = 0x00AB \<or> c = 0x00BB \<or> (0x2018 \<le> c \<and> c \<le> 0x201F)
      then Some (''a typographic quote; text is written '' @ [dquote] @ ''like this'' @ [dquote])
      else if (0x2010 \<le> c \<and> c \<le> 0x2015) \<or> c = 0x2212 then Some (''write '' @ [squote] @ ''-'' @ [squote])
      else if c = 0x00D7 then Some (''write '' @ [squote] @ ''*'' @ [squote])
      else if c = 0x00F7 \<or> c = 0x2215 then Some (''write '' @ [squote] @ ''/'' @ [squote])
      else if c = 0x2260 then Some (''write '' @ [squote] @ ''!='' @ [squote])
      else if c = 0x2264 then Some (''write '' @ [squote] @ ''<='' @ [squote])
      else if c = 0x2265 then Some (''write '' @ [squote] @ ''>='' @ [squote])
      else if c = 0x2192 \<or> c = 0x21D2 \<or> c = 0x27F6 then Some (''write '' @ [squote] @ ''->'' @ [squote])
      else if c = 0xFF08 then Some (''write '' @ [squote] @ ''('' @ [squote])
      else if c = 0xFF09 then Some (''write '' @ [squote] @ '')'' @ [squote])
      else if c = 0xFF0B then Some (''write '' @ [squote] @ ''+'' @ [squote])
      else if c = 0xFF0C \<or> c = 0x3001 then Some (''write '' @ [squote] @ '','' @ [squote])
      else if c = 0xFF1A then Some (''write '' @ [squote] @ '':'' @ [squote])
      else if c = 0xFF1D then Some (''write '' @ [squote] @ ''='' @ [squote])
      else if c = 0x3002 then Some (''write '' @ [squote] @ ''.'' @ [squote])
      else None)"

subsection \<open>The encoder\<close>

text \<open>
  \<open>append_utf8(out, cp)\<close> appends these bytes to \<open>out\<close>. \<open>char_of\<close> keeps the low eight bits, as
  \<open>static_cast<char>\<close> does.
\<close>

definition append_utf8 :: "bytes \<Rightarrow> nat \<Rightarrow> bytes" where
  "append_utf8 out cp =
     (if cp < 0x80 then out @ [char_of cp]
      else if cp < 0x800 then out @ [char_of (0xC0 OR drop_bit 6 cp), char_of (0x80 OR (cp AND 0x3F))]
      else if cp < 0x10000 then
        out @ [char_of (0xE0 OR drop_bit 12 cp), char_of (0x80 OR (drop_bit 6 cp AND 0x3F)),
               char_of (0x80 OR (cp AND 0x3F))]
      else
        out @ [char_of (0xF0 OR drop_bit 18 cp), char_of (0x80 OR (drop_bit 12 cp AND 0x3F)),
               char_of (0x80 OR (drop_bit 6 cp AND 0x3F)), char_of (0x80 OR (cp AND 0x3F))])"

text \<open>The Unicode scalar values, and the bytes of one.\<close>

definition scalar_value :: "nat \<Rightarrow> bool" where
  "scalar_value cp \<longleftrightarrow> cp \<le> 0x10FFFF \<and> \<not> (0xD800 \<le> cp \<and> cp \<le> 0xDFFF)"

abbreviation utf8_encode :: "nat \<Rightarrow> bytes" where
  "utf8_encode cp \<equiv> append_utf8 [] cp"

lemma append_utf8_eq: "append_utf8 out cp = out @ utf8_encode cp"
  by (simp add: append_utf8_def)

subsection \<open>Masks and shifts as arithmetic\<close>

lemma and_low: "(x::nat) AND (2 ^ n - 1) = x mod 2 ^ n"
  using take_bit_eq_mask[of n x] by (simp add: take_bit_eq_mod mask_eq_exp_minus_1)

lemma and_high: "(x::nat) AND push_bit n m = push_bit n (drop_bit n x AND m)"
  by (rule bit_eqI) (auto simp: bit_simps)

lemma low_masks:
  "(x::nat) AND 0x3F = x mod 64" "(x::nat) AND 0x1F = x mod 32"
  "(x::nat) AND 0x0F = x mod 16" "(x::nat) AND 0x07 = x mod 8"
  using and_low[of x 6] and_low[of x 5] and_low[of x 4] and_low[of x 3] by simp_all

lemma high_masks:
  "(x::nat) AND 0xE0 = 32 * (x div 32 mod 8)" "(x::nat) AND 0xF0 = 16 * (x div 16 mod 16)"
  "(x::nat) AND 0xF8 = 8 * (x div 8 mod 32)" "(x::nat) AND 0xC0 = 64 * (x div 64 mod 4)"
  using and_high[of x 5 7] and_low[of "drop_bit 5 x" 3] and_high[of x 4 15] and_low[of "drop_bit 4 x" 4]
    and_high[of x 3 31] and_low[of "drop_bit 3 x" 5] and_high[of x 6 3] and_low[of "drop_bit 6 x" 2]
  by (simp_all add: push_bit_eq_mult drop_bit_eq_div)

lemma lead_classes:
  assumes "(b::nat) < 256"
  shows "b AND 0xE0 = 0xC0 \<longleftrightarrow> b div 32 = 6" "b AND 0xF0 = 0xE0 \<longleftrightarrow> b div 16 = 14"
    "b AND 0xF8 = 0xF0 \<longleftrightarrow> b div 8 = 30" "b AND 0xC0 = 0x80 \<longleftrightarrow> b div 64 = 2"
  using assms by (simp_all add: high_masks)

lemma or_bits:
  "x < 64 \<Longrightarrow> 0xC0 OR x = 0xC0 + (x::nat)" "x < 64 \<Longrightarrow> 0x80 OR x = 0x80 + (x::nat)"
  "x < 32 \<Longrightarrow> 0xE0 OR x = 0xE0 + (x::nat)" "x < 16 \<Longrightarrow> 0xF0 OR x = 0xF0 + (x::nat)"
  "x < 64 \<Longrightarrow> push_bit 6 v OR x = v * 64 + (x::nat)"
  using or_low[of x 6 3] or_low[of x 6 2] or_low[of x 5 7] or_low[of x 4 15] or_low[of x 6 v]
  by simp_all

lemma char_of_eq: "n < 256 \<Longrightarrow> char_of n = c \<longleftrightarrow> byte_value c = (n::nat)"
  by (metis char_of_char of_char_of mod_less)

lemma byte_of_small: "n < 256 \<Longrightarrow> byte_value (char_of (n::nat)) = n"
  by simp

text \<open>The four encoded lengths, in arithmetic form.\<close>

lemma encode1: "cp < 0x80 \<Longrightarrow> utf8_encode cp = [char_of cp]"
  by (simp add: append_utf8_def)

lemma encode2:
  "0x80 \<le> cp \<Longrightarrow> cp < 0x800 \<Longrightarrow>
    utf8_encode cp = [char_of (192 + cp div 64), char_of (128 + cp mod 64)]"
  by (simp add: append_utf8_def low_masks or_bits drop_bit_eq_div div_less_iff_less_mult)

lemma encode3:
  "0x800 \<le> cp \<Longrightarrow> cp < 0x10000 \<Longrightarrow>
    utf8_encode cp = [char_of (224 + cp div 4096), char_of (128 + cp div 64 mod 64), char_of (128 + cp mod 64)]"
  by (simp add: append_utf8_def low_masks or_bits drop_bit_eq_div div_less_iff_less_mult)

lemma encode4:
  "0x10000 \<le> cp \<Longrightarrow> cp \<le> 0x10FFFF \<Longrightarrow>
    utf8_encode cp = [char_of (240 + cp div 262144), char_of (128 + cp div 4096 mod 64),
                      char_of (128 + cp div 64 mod 64), char_of (128 + cp mod 64)]"
  by (simp add: append_utf8_def low_masks or_bits drop_bit_eq_div div_less_iff_less_mult)

lemma scalar_cases:
  assumes "scalar_value cp"
  obtains "cp < 0x80" | "0x80 \<le> cp" "cp < 0x800"
  | "0x800 \<le> cp" "cp < 0x10000" "\<not> (0xD800 \<le> cp \<and> cp \<le> 0xDFFF)"
  | "0x10000 \<le> cp" "cp \<le> 0x10FFFF"
  using assms unfolding scalar_value_def by (meson le_less_linear)

text \<open>One step of the continuation loop.\<close>

lemma utf8_continue_stop [simp]: "\<not> i < w \<Longrightarrow> utf8_continue s at i w v = Some v"
  by (subst utf8_continue.simps) simp

lemma utf8_continue_step:
  "i < w \<Longrightarrow> utf8_continue s at i w v =
     (if byte_value (s ! (at + i)) div 64 = 2
      then utf8_continue s at (Suc i) w (v * 64 + byte_value (s ! (at + i)) mod 64) else None)"
  by (subst utf8_continue.simps) (simp add: Let_def lead_classes low_masks or_bits)

lemma utf8_next_arith:
  "utf8_next s at =
     (if length s \<le> at then None
      else let lead = byte_value (s ! at) in
        if lead < 0x80 then Some (1, lead)
        else
          (case (if lead div 32 = 6 then Some (2, lead mod 32)
                 else if lead div 16 = 14 then Some (3, lead mod 16)
                 else if lead div 8 = 30 then Some (4, lead mod 8) else None) of
             None \<Rightarrow> None
           | Some (width, start) \<Rightarrow>
               if length s < at + width then None
               else (case utf8_continue s at 1 width start of
                   None \<Rightarrow> None
                 | Some value \<Rightarrow>
                     if width = 2 \<and> value < 0x80 then None
                     else if width = 3 \<and> value < 0x800 then None
                     else if width = 4 \<and> value < 0x10000 then None
                     else if 0x10FFFF < value \<or> (0xD800 \<le> value \<and> value \<le> 0xDFFF) then None
                     else Some (width, value))))"
  by (simp only: utf8_next_def Let_def lead_classes[OF byte_value_less] low_masks)

lemma nth_after:
  "(pre @ xs @ post) ! (length pre + i) = (xs @ post) ! i" "(pre @ xs @ post) ! length pre = (xs @ post) ! 0"
  by (simp_all add: nth_append)

subsection \<open>Decoding what was encoded\<close>

lemma div_chain:
  "cp div 4096 div 64 = cp div (262144::nat)" "cp div 64 div 64 = cp div (4096::nat)"
  by (simp_all add: div_mult2_eq[symmetric])

lemma div_mod_unique:
  assumes "n = m * d + x" and "x < (d::nat)"
  shows "n div d = m" "n mod d = x"
  using assms by simp_all

lemma lead2: "x < 32 \<Longrightarrow> (192 + x) div 32 = (6::nat)" "x < 32 \<Longrightarrow> (192 + x) mod 32 = (x::nat)"
  using div_mod_unique[of "192 + x" 6 32 x] by simp_all

lemma lead3: "x < 16 \<Longrightarrow> (224 + x) div 32 = (7::nat)" "x < 16 \<Longrightarrow> (224 + x) div 16 = (14::nat)"
  "x < 16 \<Longrightarrow> (224 + x) mod 16 = (x::nat)"
  using div_mod_unique(1)[of "224 + x" 7 32 x] div_mod_unique[of "224 + x" 14 16 x] by simp_all

lemma lead4: "x < 8 \<Longrightarrow> (240 + x) div 32 = (7::nat)" "x < 8 \<Longrightarrow> (240 + x) div 16 = (15::nat)"
  "x < 8 \<Longrightarrow> (240 + x) div 8 = (30::nat)" "x < 8 \<Longrightarrow> (240 + x) mod 8 = (x::nat)"
  using div_mod_unique(1)[of "240 + x" 7 32 "16 + x"] div_mod_unique(1)[of "240 + x" 15 16 x]
    div_mod_unique[of "240 + x" 30 8 x]
  by simp_all

lemma cont_byte: "x < 64 \<Longrightarrow> (128 + x) div 64 = (2::nat)" "x < 64 \<Longrightarrow> (128 + x) mod 64 = (x::nat)"
  using div_mod_unique[of "128 + x" 2 64 x] by simp_all

lemmas utf8_bytes = lead2 lead3 lead4 cont_byte

text \<open>The decoder on a text whose next bytes have a lead and continuation shape.\<close>

lemma utf8_next1: "at < length s \<Longrightarrow> byte_value (s ! at) < 0x80 \<Longrightarrow> utf8_next s at = Some (1, byte_value (s ! at))"
  by (simp add: utf8_next_def Let_def)

lemma utf8_next2:
  assumes "at + 2 \<le> length s" and "byte_value (s ! at) = 192 + a" "a < 32"
    and "byte_value (s ! Suc at) = 128 + b" "b < 64"
  shows "utf8_next s at = (if a * 64 + b < 0x80 then None else Some (2, a * 64 + b))"
  using assms by (simp add: utf8_next_arith utf8_continue_step utf8_bytes)

lemma utf8_next3:
  assumes "at + 3 \<le> length s" and "byte_value (s ! at) = 224 + a" "a < 16"
    and "byte_value (s ! Suc at) = 128 + b" "b < 64" and "byte_value (s ! (at + 2)) = 128 + c" "c < 64"
  shows "utf8_next s at =
    (let v = (a * 64 + b) * 64 + c in if v < 0x800 \<or> (0xD800 \<le> v \<and> v \<le> 0xDFFF) then None else Some (3, v))"
  using assms by (simp add: utf8_next_arith utf8_continue_step utf8_bytes Let_def)

lemma utf8_next4:
  assumes "at + 4 \<le> length s" and "byte_value (s ! at) = 240 + a" "a < 8"
    and "byte_value (s ! Suc at) = 128 + b" "b < 64" and "byte_value (s ! (at + 2)) = 128 + c" "c < 64"
    and "byte_value (s ! (at + 3)) = 128 + d" "d < 64"
  shows "utf8_next s at =
    (let v = ((a * 64 + b) * 64 + c) * 64 + d in if v < 0x10000 \<or> 0x10FFFF < v then None else Some (4, v))"
  using assms by (simp add: utf8_next_arith utf8_continue_step utf8_bytes Let_def numeral_3_eq_3)

lemma groups3: "cp div 4096 * 4096 + cp div 64 mod 64 * 64 + cp mod 64 = (cp::nat)"
  using div_mult_mod_eq[of cp 64] div_mult_mod_eq[of "cp div 64" 64] div_chain(2)[of cp] by linarith

lemma groups4:
  "cp div 262144 * 262144 + cp div 4096 mod 64 * 4096 + cp div 64 mod 64 * 64 + cp mod 64 = (cp::nat)"
  using groups3[of cp] div_mult_mod_eq[of "cp div 4096" 64] div_chain(1)[of cp] by linarith

lemma utf8_next_encode:
  assumes "scalar_value cp"
  shows "utf8_next (pre @ utf8_encode cp @ post) (length pre) = Some (length (utf8_encode cp), cp)"
  using assms
proof (cases rule: scalar_cases)
  case 1
  then show ?thesis
    by (simp add: encode1 utf8_next1 nth_append byte_of_small)
next
  case 2
  have a: "cp div 64 < 32" using 2 by (simp add: div_less_iff_less_mult)
  have "utf8_next (pre @ utf8_encode cp @ post) (length pre) =
      (if cp div 64 * 64 + cp mod 64 < 0x80 then None else Some (2, cp div 64 * 64 + cp mod 64))"
    by (rule utf8_next2) (use 2 a in \<open>simp_all add: encode2 nth_append byte_of_small\<close>)
  with 2 show ?thesis by (simp add: encode2)
next
  case 3
  have a: "cp div 4096 < 16" using 3 by (simp add: div_less_iff_less_mult)
  have v: "(cp div 4096 * 64 + cp div 64 mod 64) * 64 + cp mod 64 = cp"
    using groups3[of cp] by simp
  have "utf8_next (pre @ utf8_encode cp @ post) (length pre) =
      (let v = cp in if v < 0x800 \<or> (0xD800 \<le> v \<and> v \<le> 0xDFFF) then None else Some (3, v))"
    by (rule utf8_next3[of _ _ "cp div 4096" "cp div 64 mod 64" "cp mod 64", unfolded v])
      (use 3 a in \<open>simp_all add: encode3 nth_append byte_of_small\<close>)
  with 3 show ?thesis by (auto simp add: encode3)
next
  case 4
  have a: "cp div 262144 < 8" using 4 by (simp add: div_less_iff_less_mult)
  have v: "((cp div 262144 * 64 + cp div 4096 mod 64) * 64 + cp div 64 mod 64) * 64 + cp mod 64 = cp"
    using groups4[of cp] by simp
  have "utf8_next (pre @ utf8_encode cp @ post) (length pre) =
      (let v = cp in if v < 0x10000 \<or> 0x10FFFF < v then None else Some (4, v))"
    by (rule utf8_next4[of _ _ "cp div 262144" "cp div 4096 mod 64" "cp div 64 mod 64" "cp mod 64", unfolded v])
      (use 4 a in \<open>simp_all add: encode4 nth_append byte_of_small\<close>)
  with 4 show ?thesis by (simp add: encode4)
qed


subsection \<open>Encoding what was decoded\<close>

lemma byte_high_bits:
  "b div 32 = 6 \<Longrightarrow> b = 192 + b mod (32::nat)" "b div 16 = 14 \<Longrightarrow> b = 224 + b mod (16::nat)"
  "b div 8 = 30 \<Longrightarrow> b = 240 + b mod (8::nat)" "b div 64 = 2 \<Longrightarrow> b = 128 + b mod (64::nat)"
  using div_mult_mod_eq[of b 32] div_mult_mod_eq[of b 16] div_mult_mod_eq[of b 8] div_mult_mod_eq[of b 64]
  by simp_all

lemma utf8_continue_SomeE:
  assumes "utf8_continue s at i w v = Some value" "i < w"
  obtains b where "byte_value (s ! (at + i)) = 128 + b" "b < 64"
    "utf8_continue s at (Suc i) w (v * 64 + b) = Some value"
proof (rule that[of "byte_value (s ! (at + i)) mod 64"])
  show "byte_value (s ! (at + i)) = 128 + byte_value (s ! (at + i)) mod 64"
    using assms byte_high_bits(4) by (auto simp: utf8_continue_step split: if_splits)
  show "utf8_continue s at (Suc i) w (v * 64 + byte_value (s ! (at + i)) mod 64) = Some value"
    using assms by (auto simp: utf8_continue_step split: if_splits)
qed simp

text \<open>A successful decode is one of the four shapes.\<close>

lemma utf8_next_cases:
  assumes "utf8_next s at = Some (w, cp)"
  obtains (one) "w = 1" "at < length s" "byte_value (s ! at) = cp" "cp < 0x80"
  | (two) a b where "w = 2" "at + 2 \<le> length s" "byte_value (s ! at) = 192 + a" "a < 32"
      "byte_value (s ! Suc at) = 128 + b" "b < 64" "cp = a * 64 + b" "0x80 \<le> cp"
  | (three) a b c where "w = 3" "at + 3 \<le> length s" "byte_value (s ! at) = 224 + a" "a < 16"
      "byte_value (s ! Suc at) = 128 + b" "b < 64" "byte_value (s ! (at + 2)) = 128 + c" "c < 64"
      "cp = (a * 64 + b) * 64 + c" "0x800 \<le> cp" "\<not> (0xD800 \<le> cp \<and> cp \<le> 0xDFFF)"
  | (four) a b c d where "w = 4" "at + 4 \<le> length s" "byte_value (s ! at) = 240 + a" "a < 8"
      "byte_value (s ! Suc at) = 128 + b" "b < 64" "byte_value (s ! (at + 2)) = 128 + c" "c < 64"
      "byte_value (s ! (at + 3)) = 128 + d" "d < 64"
      "cp = ((a * 64 + b) * 64 + c) * 64 + d" "0x10000 \<le> cp" "cp \<le> 0x10FFFF"
proof -
  define lead where "lead = byte_value (s ! at)"
  consider "lead < 0x80" | "\<not> lead < 0x80" "lead div 32 = 6"
    | "\<not> lead < 0x80" "lead div 32 \<noteq> 6" "lead div 16 = 14"
    | "\<not> lead < 0x80" "lead div 32 \<noteq> 6" "lead div 16 \<noteq> 14" "lead div 8 = 30"
    using assms by (auto simp: utf8_next_arith Let_def lead_def split: if_splits)
  then show thesis
  proof cases
    case 1
    with assms show thesis by (auto simp: utf8_next_arith Let_def lead_def split: if_splits intro: one)
  next
    case 2
    from 2 assms obtain v where v: "at + 2 \<le> length s" "w = 2" "utf8_continue s at 1 2 (lead mod 32) = Some v"
      "cp = v" "0x80 \<le> v"
      by (auto simp: utf8_next_arith Let_def lead_def[symmetric] split: if_splits option.splits)
    obtain b where b: "byte_value (s ! (at + 1)) = 128 + b" "b < 64" "utf8_continue s at 2 2 (lead mod 32 * 64 + b) = Some v"
      using utf8_continue_SomeE[OF v(3)] by (metis Suc_1 one_less_numeral_iff semiring_norm(76))
    have lead: "byte_value (s ! at) = 192 + lead mod 32" using byte_high_bits(1)[OF 2(2)] by (simp add: lead_def)
    have val: "cp = lead mod 32 * 64 + b" using b(3) v(4) by simp
    show thesis using two[OF v(2,1) lead _ _ b(2) val] b(1) v(4,5) by simp
  next
    case 3
    from 3 assms obtain v where v: "at + 3 \<le> length s" "w = 3" "utf8_continue s at 1 3 (lead mod 16) = Some v"
      "cp = v" "0x800 \<le> v" "\<not> (0xD800 \<le> v \<and> v \<le> 0xDFFF)"
      by (auto simp: utf8_next_arith Let_def lead_def[symmetric] split: if_splits option.splits)
    obtain b where b: "byte_value (s ! (at + 1)) = 128 + b" "b < 64" "utf8_continue s at 2 3 (lead mod 16 * 64 + b) = Some v"
      using utf8_continue_SomeE[OF v(3)] by (metis Suc_1 one_less_numeral_iff semiring_norm(77))
    obtain c where c: "byte_value (s ! (at + 2)) = 128 + c" "c < 64"
        "utf8_continue s at 3 3 ((lead mod 16 * 64 + b) * 64 + c) = Some v"
      using utf8_continue_SomeE[OF b(3)] by (auto simp: numeral_3_eq_3)
    have lead: "byte_value (s ! at) = 224 + lead mod 16" using byte_high_bits(2)[OF 3(3)] by (simp add: lead_def)
    have val: "cp = (lead mod 16 * 64 + b) * 64 + c" using c(3) v(4) by (simp del: distrib_right_numeral)
    show thesis
      by (rule three[OF v(2,1) lead _ _ b(2) c(1,2) val]) (use b(1) v(4,5,6) in \<open>simp_all only: mod_less_divisor zero_less_numeral Suc_eq_plus1 not_False_eq_True simp_thms\<close>)
  next
    case 4
    from 4 assms obtain v where v: "at + 4 \<le> length s" "w = 4" "utf8_continue s at 1 4 (lead mod 8) = Some v"
      "cp = v" "0x10000 \<le> v" "v \<le> 0x10FFFF"
      by (auto simp: utf8_next_arith Let_def lead_def[symmetric] split: if_splits option.splits)
    obtain b where b: "byte_value (s ! (at + 1)) = 128 + b" "b < 64" "utf8_continue s at 2 4 (lead mod 8 * 64 + b) = Some v"
      using utf8_continue_SomeE[OF v(3)] by (metis Suc_1 one_less_numeral_iff semiring_norm(76))
    obtain c where c: "byte_value (s ! (at + 2)) = 128 + c" "c < 64"
        "utf8_continue s at 3 4 ((lead mod 8 * 64 + b) * 64 + c) = Some v"
      using utf8_continue_SomeE[OF b(3)] by (auto simp: numeral_3_eq_3)
    obtain d where d: "byte_value (s ! (at + 3)) = 128 + d" "d < 64"
        "utf8_continue s at 4 4 (((lead mod 8 * 64 + b) * 64 + c) * 64 + d) = Some v"
      by (rule utf8_continue_SomeE[OF c(3)]) simp_all
    have lead: "byte_value (s ! at) = 240 + lead mod 8" using byte_high_bits(3)[OF 4(4)] by (simp add: lead_def)
    have val: "cp = ((lead mod 8 * 64 + b) * 64 + c) * 64 + d" using d(3) v(4) by (simp del: distrib_right_numeral)
    show thesis
      by (rule four[OF v(2,1) lead _ _ b(2) c(1,2) d(1,2) val]) (use b(1) v(4,5,6) in \<open>simp_all only: mod_less_divisor zero_less_numeral Suc_eq_plus1 not_False_eq_True simp_thms\<close>)
  qed
qed

lemma take_drop_nths:
  "at < length s \<Longrightarrow> take 1 (drop at s) = [s ! at]"
  "at + 2 \<le> length s \<Longrightarrow> take 2 (drop at s) = [s ! at, s ! Suc at]"
  "at + 3 \<le> length s \<Longrightarrow> take 3 (drop at s) = [s ! at, s ! Suc at, s ! (at + 2)]"
  "at + 4 \<le> length s \<Longrightarrow> take 4 (drop at s) = [s ! at, s ! Suc at, s ! (at + 2), s ! (at + 3)]"
  by (simp_all add: drop_eq_Cons numeral_2_eq_2 numeral_3_eq_3 numeral_Bit0 numeral_Bit1)

lemma char_eqI: "byte_value c = n \<Longrightarrow> char_of n = c"
  by (metis char_of_char)

lemma utf8_next_SomeD:
  assumes "utf8_next s at = Some (w, cp)"
  shows "scalar_value cp \<and> w = length (utf8_encode cp) \<and> at + w \<le> length s \<and>
    take w (drop at s) = utf8_encode cp"
  using assms
proof (cases rule: utf8_next_cases)
  case one
  then show ?thesis
    by (simp add: encode1 scalar_value_def drop_eq_Cons char_eqI)
next
  case (two a b)
  have "cp div 64 = a" "cp mod 64 = b" "cp < 0x800"
    using two div_mod_unique[of cp a 64 b] by simp_all
  with two show ?thesis
    by (simp add: encode2 scalar_value_def take_drop_nths char_eqI)
next
  case (three a b c)
  have q: "cp div 64 = a * 64 + b" "cp mod 64 = c" "cp < 0x10000"
    using three div_mod_unique[of cp "a * 64 + b" 64 c] by simp_all
  have "cp div 4096 = a"
    using div_chain(2)[of cp] q(1) three(6) by simp
  with three q show ?thesis
    by (simp add: encode3 scalar_value_def take_drop_nths char_eqI)
next
  case (four a b c d)
  have q: "cp div 64 = (a * 64 + b) * 64 + c" "cp mod 64 = d"
    using four div_mod_unique[of cp "(a * 64 + b) * 64 + c" 64 d] by simp_all
  have q2: "cp div 4096 = a * 64 + b" "cp div 64 mod 64 = c"
    using div_chain(2)[of cp] q(1) four(8) div_mod_unique[of "cp div 64" "a * 64 + b" 64 c] by simp_all
  have "cp div 262144 = a" "cp div 4096 mod 64 = b"
    using div_chain(1)[of cp] q2(1) four(6) by simp_all
  with four q q2 show ?thesis
    by (simp add: encode4 scalar_value_def take_drop_nths char_eqI)
qed

lemma length_utf8_encode: "scalar_value cp \<Longrightarrow> 1 \<le> length (utf8_encode cp) \<and> length (utf8_encode cp) \<le> 4"
  by (auto simp: append_utf8_def)

lemma utf8_next_width: "utf8_next s at = Some (w, cp) \<Longrightarrow> 1 \<le> w \<and> w \<le> 4 \<and> at + w \<le> length s"
  using utf8_next_SomeD length_utf8_encode by blast

subsection \<open>The codec contract\<close>

text \<open>
  What a client of the codec relies on: decoding finds an encoded scalar at its offset, and
  whatever decodes is the encoding of a valid scalar, inside the text.
\<close>

locale utf8_codec =
  fixes dec :: "bytes \<Rightarrow> nat \<Rightarrow> (nat \<times> nat) option"
    and enc :: "nat \<Rightarrow> bytes"
    and valid :: "nat \<Rightarrow> bool"
  assumes dec_enc: "valid cp \<Longrightarrow> dec (pre @ enc cp @ post) (length pre) = Some (length (enc cp), cp)"
    and enc_dec: "dec s at = Some (w, cp) \<Longrightarrow>
      valid cp \<and> w = length (enc cp) \<and> at + w \<le> length s \<and> take w (drop at s) = enc cp"
    and enc_nonempty: "valid cp \<Longrightarrow> enc cp \<noteq> []"
begin

lemma dec_drop: "at \<le> length s \<Longrightarrow> dec s at = dec (drop at s) 0"
proof -
  assume at: "at \<le> length s"
  have forward: "dec (drop at s) 0 = Some (w, cp)" if "dec s at = Some (w, cp)" for w cp
  proof -
    from enc_dec[OF that] have v: "valid cp" "w = length (enc cp)" "take w (drop at s) = enc cp" by auto
    then have "drop at s = [] @ enc cp @ drop w (drop at s)" by (metis append_Nil append_take_drop_id)
    with dec_enc[OF v(1), of "[]" "drop w (drop at s)"] v(2) show ?thesis by simp
  qed
  have backward: "dec s at = Some (w, cp)" if "dec (drop at s) 0 = Some (w, cp)" for w cp
  proof -
    from enc_dec[OF that] have v: "valid cp" "w = length (enc cp)" "take w (drop at s) = enc cp" by auto
    then have "s = take at s @ enc cp @ drop w (drop at s)" by (metis append_take_drop_id)
    with dec_enc[OF v(1), of "take at s" "drop w (drop at s)"] v(2) at show ?thesis by simp
  qed
  show ?thesis
    by (metis backward forward not_None_eq surj_pair)
qed

lemma enc_prefix_free:
  assumes "valid a" "valid b" "enc a @ x = enc b @ y"
  shows "a = b \<and> x = y"
proof -
  have "dec (enc a @ x) 0 = Some (length (enc a), a)" "dec (enc b @ y) 0 = Some (length (enc b), b)"
    using dec_enc[of _ "[]"] assms(1,2) by simp_all
  with assms(3) show ?thesis by simp
qed

lemma enc_list_unique:
  assumes "list_all valid xs" "list_all valid ys" "concat (map enc xs) = concat (map enc ys)"
  shows "xs = ys"
  using assms
proof (induction xs arbitrary: ys)
  case Nil
  then show ?case using enc_nonempty by (cases ys) auto
next
  case (Cons x xs)
  then obtain y ys' where ys: "ys = y # ys'" using enc_nonempty by (cases ys) auto
  with Cons.prems enc_prefix_free[of x y] have "x = y" "concat (map enc xs) = concat (map enc ys')" by auto
  with Cons.IH Cons.prems ys show ?case by auto
qed

end

interpretation codec: utf8_codec utf8_next "append_utf8 []" scalar_value
proof
  show "utf8_encode cp \<noteq> []" if "scalar_value cp" for cp
    using length_utf8_encode[OF that] by auto
qed (use utf8_next_encode utf8_next_SomeD in blast)+

subsection \<open>The interpreter's validator\<close>

text \<open>
  \<open>utf8_ok\<close> of \<open>src/interp/ops.cpp\<close>, a second decoder written on its own for \<open>str(bytes)\<close>:
  one call of the loop body checks the scalar at \<open>i\<close>. A null pointer is \<open>None\<close>.
\<close>

definition utf8_ok_width :: "nat \<Rightarrow> (nat \<times> nat) option" where
  "utf8_ok_width c =
     (if c < 0x80 then Some (1, c)
      else if c AND 0xE0 = 0xC0 then Some (2, c AND 0x1F)
      else if c AND 0xF0 = 0xE0 then Some (3, c AND 0x0F)
      else if c AND 0xF8 = 0xF0 then Some (4, c AND 0x07)
      else None)"

lemma utf8_ok_width_pos: "utf8_ok_width c = Some (w, cp) \<Longrightarrow> 0 < w"
  by (auto simp: utf8_ok_width_def split: if_splits)

function utf8_ok_from :: "bytes \<Rightarrow> nat \<Rightarrow> nat \<Rightarrow> bool" where
  "utf8_ok_from s n i =
     (if i < n then
        (case utf8_ok_width (byte_value (s ! i)) of None \<Rightarrow> False
         | Some (w, start) \<Rightarrow>
             if n < i + w then False
             else (case utf8_continue s i 1 w start of None \<Rightarrow> False
               | Some cp \<Rightarrow>
                   if w = 2 \<and> cp < 0x80 then False
                   else if w = 3 \<and> cp < 0x800 then False
                   else if w = 4 \<and> cp < 0x10000 then False
                   else if 0xD800 \<le> cp \<and> cp \<le> 0xDFFF then False
                   else if 0x10FFFF < cp then False
                   else utf8_ok_from s n (i + w)))
      else True)"
  by pat_completeness auto
termination
  by (relation "measure (\<lambda>(s, n, i). n - i)") (auto dest: utf8_ok_width_pos)

declare utf8_ok_from.simps [simp del]

definition utf8_ok :: "bytes option \<Rightarrow> nat \<Rightarrow> bool" where
  "utf8_ok s n = (case s of None \<Rightarrow> n = 0 | Some text \<Rightarrow> utf8_ok_from text n 0)"

text \<open>Each round of the validator decodes one scalar as \<open>utf8_next\<close> does.\<close>

lemma utf8_next_by_width:
  "at < length s \<Longrightarrow> utf8_next s at =
    (case utf8_ok_width (byte_value (s ! at)) of None \<Rightarrow> None
     | Some (w, start) \<Rightarrow>
         if length s < at + w then None
         else (case utf8_continue s at 1 w start of None \<Rightarrow> None
           | Some v \<Rightarrow>
               if w = 2 \<and> v < 0x80 \<or> w = 3 \<and> v < 0x800 \<or> w = 4 \<and> v < 0x10000 \<or>
                  0xD800 \<le> v \<and> v \<le> 0xDFFF \<or> 0x10FFFF < v
               then None else Some (w, v)))"
  by (cases "byte_value (s ! at) < 0x80")
    (auto simp: utf8_next_def utf8_ok_width_def Let_def split: option.split)

lemma utf8_ok_step:
  assumes "i < length s"
  shows "utf8_ok_from s (length s) i =
    (case utf8_next s i of None \<Rightarrow> False | Some (w, cp) \<Rightarrow> utf8_ok_from s (length s) (i + w))"
  unfolding utf8_next_by_width[OF assms] utf8_ok_from.simps[of s "length s" i]
  using assms by (simp split: option.split prod.split)

text \<open>The texts that are UTF-8: concatenations of encoded scalars.\<close>

definition utf8_text :: "bytes \<Rightarrow> bool" where
  "utf8_text s \<longleftrightarrow> (\<exists>cps. list_all scalar_value cps \<and> s = concat (map utf8_encode cps))"

lemma utf8_ok_complete:
  "list_all scalar_value cps \<Longrightarrow> drop i s = concat (map utf8_encode cps) \<Longrightarrow> i \<le> length s \<Longrightarrow>
    utf8_ok_from s (length s) i"
proof (induction cps arbitrary: i)
  case Nil
  then show ?case by (subst utf8_ok_from.simps) simp
next
  case (Cons cp cps)
  then have v: "scalar_value cp" and d: "drop i s = utf8_encode cp @ concat (map utf8_encode cps)" by auto
  have len: "1 \<le> length (utf8_encode cp)" using length_utf8_encode[OF v] by simp
  have "i < length s" using d len by (metis append_is_Nil_conv drop_all le_zero_eq list.size(3) not_less not_one_le_zero)
  have "utf8_next s i = Some (length (utf8_encode cp), cp)"
    using codec.dec_drop[of i s] codec.dec_enc[OF v, of "[]"] d Cons.prems(3) by simp
  moreover have "drop (i + length (utf8_encode cp)) s = concat (map utf8_encode cps)"
    using d by (metis add.commute append_eq_conv_conj drop_drop)
  moreover have "i + length (utf8_encode cp) \<le> length s"
    using arg_cong[OF d, of length] \<open>i < length s\<close> by simp
  ultimately show ?case
    using Cons.IH Cons.prems(1) \<open>i < length s\<close> by (simp add: utf8_ok_step)
qed

lemma utf8_ok_sound:
  "utf8_ok_from s (length s) i \<Longrightarrow> i \<le> length s \<Longrightarrow> utf8_text (drop i s)"
proof (induction "length s - i" arbitrary: i rule: less_induct)
  case less
  show ?case
  proof (cases "i < length s")
    case False
    then show ?thesis using less.prems by (auto simp: utf8_text_def intro: exI[of _ "[]"])
  next
    case True
    with less.prems obtain w cp where n: "utf8_next s i = Some (w, cp)" "utf8_ok_from s (length s) (i + w)"
      by (auto simp: utf8_ok_step split: option.splits prod.splits)
    note d = codec.enc_dec[OF n(1)] and w = utf8_next_width[OF n(1)]
    have "utf8_text (drop (i + w) s)" using less.hyps[OF _ n(2)] w True by auto
    then obtain cps where
      "list_all scalar_value cps" "drop (i + w) s = concat (map utf8_encode cps)"
      by (auto simp: utf8_text_def)
    moreover have "drop i s = utf8_encode cp @ drop (i + w) s"
      using d by (metis add.commute append_take_drop_id drop_drop)
    ultimately show ?thesis
      using d by (auto simp: utf8_text_def intro!: exI[of _ "cp # cps"])
  qed
qed

lemma utf8_ok_iff: "utf8_ok (Some s) (length s) \<longleftrightarrow> utf8_text s"
  using utf8_ok_complete[of _ 0 s] utf8_ok_sound[of s 0] by (auto simp: utf8_ok_def utf8_text_def)

end
