(* ===== verification/Source.thy ===== *)
theory Source
  imports Diagnostics Utf8
begin

section \<open>Source text and positions\<close>

text \<open>
  \<open>src/source/source.h\<close> and \<open>src/source/source.cpp\<close>: a source owns the bytes of one module,
  rejects what the encoding rules forbid at the first offending byte, answers which line and
  column a byte stands on, and assembles the fragments of a directory module. The theorems
  say that a source is accepted exactly when its text is the UTF-8 encoding of admissible
  scalars, that positions count the newlines and scalars before a byte, and that a fragment's
  recorded first line is the line of the assembled text it begins at.
\<close>

record directive =
  dir_base_line :: nat
  dir_file :: string
  dir_line :: nat
  dir_column :: nat
  dir_fragment :: bool

record source =
  src_path :: string
  src_bytes :: bytes
  src_directives :: "directive list"
  src_segments :: "segment list"
  scan_start :: nat
  src_ok :: bool

definition max_bytes :: nat where
  "max_bytes = 64 * 1024 * 1024"

subsection \<open>The encoding gate\<close>

definition add_at :: "diagnostic_bag \<Rightarrow> string \<Rightarrow> nat \<Rightarrow> nat \<Rightarrow> nat \<Rightarrow> string \<Rightarrow> string \<Rightarrow> diagnostic_bag" where
  "add_at bag path byte line column code message =
     add_diag code path \<lparr>span_start = byte, span_end = byte, span_line = line, span_column = column\<rparr> message bag"

definition named_foreign_bom :: "bytes \<Rightarrow> string option" where
  "named_foreign_bom s =
     (if 4 \<le> length s \<and> map byte_value (take 4 s) = [0x00, 0x00, 0xFE, 0xFF] then Some ''UTF-32 (big-endian)''
      else if 4 \<le> length s \<and> map byte_value (take 4 s) = [0xFF, 0xFE, 0x00, 0x00] then Some ''UTF-32 (little-endian)''
      else if 2 \<le> length s \<and> map byte_value (take 2 s) = [0xFE, 0xFF] then Some ''UTF-16 (big-endian)''
      else if 2 \<le> length s \<and> map byte_value (take 2 s) = [0xFF, 0xFE] then Some ''UTF-16 (little-endian)''
      else None)"

text \<open>The bytes of the UTF-8 byte-order mark, admitted at byte zero only.\<close>

definition has_utf8_bom :: "bytes \<Rightarrow> bool" where
  "has_utf8_bom s \<longleftrightarrow> 3 \<le> length s \<and> map byte_value (take 3 s) = [0xEF, 0xBB, 0xBF]"

text \<open>
  The loop of \<open>from_bytes\<close>: the diagnostic of the first forbidden scalar, at its line and
  column, or \<open>None\<close> when the text is accepted.
\<close>

function scan_source :: "bytes \<Rightarrow> nat \<Rightarrow> nat \<Rightarrow> nat \<Rightarrow> (nat \<times> nat \<times> nat \<times> string \<times> string) option" where
  "scan_source s at line column =
     (if at < length s then
        (case utf8_next s at of
           None \<Rightarrow> Some (at, line, column, ''lucb.source.utf8'', ''invalid UTF-8'')
         | Some (width, cp) \<Rightarrow>
             if cp = 0 then Some (at, line, column, ''lucb.source.nul'', ''NUL is not allowed in source'')
             else if cp = 0xFEFF then
               Some (at, line, column, ''lucb.source.bom'', ''a UTF-8 BOM is allowed only at byte zero'')
             else if is_bidi_control cp then
               Some (at, line, column, ''lucb.source.bidi'', ''bidirectional controls are not allowed in source'')
             else if cp = 9 then Some (at, line, column, ''lucb.lex.tab'', ''tabs are not allowed; use spaces'')
             else if cp = 13 then
               (if length s \<le> at + 1 \<or> s ! (at + 1) \<noteq> lf
                then Some (at, line, column, ''lucb.source.cr'', ''carriage return must be followed by newline'')
                else scan_source s (at + 2) (line + 1) 1)
             else if cp = 10 then scan_source s (at + 1) (line + 1) 1
             else scan_source s (at + width) line (column + 1))
      else None)"
  by pat_completeness auto
termination
  by (relation "measure (\<lambda>(s, at, line, column). length s - at)") (auto dest: utf8_next_width)

declare scan_source.simps [simp del]

subsection \<open>Position directives\<close>

text \<open>The \<open>number\<close> lambda of \<open>scan_directives\<close>: digits, refused once the value so far passes 10^8.\<close>

fun dir_digits :: "string \<Rightarrow> nat \<Rightarrow> nat option" where
  "dir_digits [] n = Some n"
| "dir_digits (c # cs) n =
     (if byte_value c < 48 \<or> 57 < byte_value c \<or> 100000000 < n then None
      else dir_digits cs (n * 10 + (byte_value c - 48)))"

definition dir_number :: "string \<Rightarrow> nat option" where
  "dir_number t = (if t = [] then None else dir_digits t 0)"

text \<open>The text after \<open>#:\<close>, spaces and a carriage return trimmed: a bare restore or \<open>file:line:column\<close>.\<close>

definition parse_directive :: "nat \<Rightarrow> string \<Rightarrow> directive option" where
  "parse_directive base rest =
     (if rest = [] then
        Some \<lparr>dir_base_line = base, dir_file = [], dir_line = 0, dir_column = 0, dir_fragment = False\<rparr>
      else (case rfind_below rest (CHR '':'') (length rest) of
          None \<Rightarrow> None
        | Some c2 \<Rightarrow>
            if c2 = 0 then None
            else (case rfind_below rest (CHR '':'') c2 of
                None \<Rightarrow> None
              | Some c1 \<Rightarrow>
                  if c1 = 0 then None
                  else (case (dir_number (substr rest (c1 + 1) (c2 - c1 - 1)), dir_number (drop (c2 + 1) rest)) of
                      (Some l, Some c) \<Rightarrow>
                        Some \<lparr>dir_base_line = base, dir_file = take c1 rest, dir_line = l, dir_column = c,
                              dir_fragment = False\<rparr>
                    | _ \<Rightarrow> None))))"

definition trim_directive :: "string \<Rightarrow> string" where
  "trim_directive s =
     rev (dropWhile (\<lambda>c. c = CHR '' '' \<or> c = cr) (rev (dropWhile (\<lambda>c. c = CHR '' '') s)))"

definition line_directive :: "nat \<Rightarrow> string \<Rightarrow> directive list" where
  "line_directive line text =
     (let body = dropWhile (\<lambda>c. c = CHR '' '') text in
      if 2 \<le> length body \<and> body ! 0 = CHR ''#'' \<and> body ! 1 = CHR '':'' then
        (case parse_directive (line + 1) (trim_directive (drop 2 body)) of None \<Rightarrow> [] | Some d \<Rightarrow> [d])
      else [])"

function scan_directives_from :: "bytes \<Rightarrow> nat \<Rightarrow> nat \<Rightarrow> directive list" where
  "scan_directives_from s line at =
     (if at < length s then
        let end = (case find_from s lf at of None \<Rightarrow> length s | Some e \<Rightarrow> e)
        in line_directive line (substr s at (end - at)) @ scan_directives_from s (line + 1) (end + 1)
      else [])"
  by pat_completeness auto
termination
  by (relation "measure (\<lambda>(s, line, at). length s - at)")
    (auto dest: find_from_SomeD split: option.splits)

declare scan_directives_from.simps [simp del]

definition scan_directives :: "bytes \<Rightarrow> directive list" where
  "scan_directives s = scan_directives_from s 1 0"

subsection \<open>Loading\<close>

definition from_bytes :: "string \<Rightarrow> bytes \<Rightarrow> diagnostic_bag \<Rightarrow> source \<times> diagnostic_bag" where
  "from_bytes path s bag =
     (let source = \<lparr>src_path = path, src_bytes = s, src_directives = scan_directives s,
                    src_segments = [], scan_start = 0, src_ok = True\<rparr>
      in if max_bytes < length s then
           (source\<lparr>src_ok := False\<rparr>,
            add_at bag path 0 1 1 ''lucb.source.too_large'' ''source file is larger than 64 MiB'')
         else (case named_foreign_bom s of
             Some encoding \<Rightarrow>
               (source\<lparr>src_ok := False\<rparr>,
                add_at bag path 0 1 1 ''lucb.source.encoding'' (encoding @ ''; save the file as UTF-8''))
           | None \<Rightarrow>
               let at = (if has_utf8_bom s then 3 else 0); source = source\<lparr>scan_start := at\<rparr>
               in (case scan_source s at 1 1 of
                   None \<Rightarrow> (source, bag)
                 | Some (byte, line, column, code, message) \<Rightarrow>
                     (source\<lparr>src_ok := False\<rparr>, add_at bag path byte line column code message))))"

function span_walk :: "bytes \<Rightarrow> nat \<Rightarrow> nat \<Rightarrow> nat \<Rightarrow> nat \<Rightarrow> nat \<times> nat" where
  "span_walk s byte at line column =
     (if at < byte \<and> at < length s then
        if s ! at = cr then
          span_walk s byte (at + (if at + 1 < length s \<and> s ! (at + 1) = lf then 2 else 1)) (line + 1) 1
        else if s ! at = lf then span_walk s byte (at + 1) (line + 1) 1
        else span_walk s byte (at + (case utf8_next s at of None \<Rightarrow> 1 | Some (width, _) \<Rightarrow> width)) line (column + 1)
      else (line, column))"
  by pat_completeness auto
termination
  by (relation "measure (\<lambda>(s, byte, at, line, column). length s - at)")
    (auto dest: utf8_next_width split: option.splits)

declare span_walk.simps [simp del]

definition span_at :: "source \<Rightarrow> nat \<Rightarrow> nat \<Rightarrow> span" where
  "span_at src byte end_byte =
     (let (line, column) = span_walk (src_bytes src) byte (scan_start src) 1 1
      in \<lparr>span_start = byte, span_end = end_byte, span_line = line, span_column = column\<rparr>)"

text \<open>
  The loop of \<open>assembled\<close> over \<open>paths\<close> and \<open>texts\<close> in step: the bytes and segments so far and
  the line the next fragment begins on.
\<close>

fun assemble_fragments :: "string list \<Rightarrow> bytes list \<Rightarrow> bytes \<Rightarrow> segment list \<Rightarrow> nat \<Rightarrow> bytes \<times> segment list" where
  "assemble_fragments (p # ps) (t # ts) s segs line =
     (let segs = segs @ [\<lparr>seg_path = p, seg_start_line = line\<rparr>];
          s = s @ t;
          line = line + count_list t lf
      in if t = [] \<or> last t \<noteq> lf then assemble_fragments ps ts (s @ [lf]) segs (line + 1)
         else assemble_fragments ps ts s segs line)"
| "assemble_fragments _ _ s segs line = (s, segs)"

definition source_assembled :: "string \<Rightarrow> string list \<Rightarrow> bytes list \<Rightarrow> diagnostic_bag \<Rightarrow> source \<times> diagnostic_bag" where
  "source_assembled path paths texts bag =
     (let (s, segs) = assemble_fragments paths texts [] [] 1;
          (source, bag) = from_bytes path s bag
      in (source\<lparr>src_segments := segs\<rparr>, bag))"

subsection \<open>What the gate admits\<close>

definition admissible :: "nat \<Rightarrow> bool" where
  "admissible c \<longleftrightarrow> scalar_value c \<and> c \<noteq> 0 \<and> c \<noteq> 0xFEFF \<and> \<not> is_bidi_control c \<and> c \<noteq> 9"

fun crs_paired :: "nat list \<Rightarrow> bool" where
  "crs_paired [] = True"
| "crs_paired (c # cs) = ((c = 13 \<longrightarrow> cs \<noteq> [] \<and> hd cs = 10) \<and> crs_paired cs)"

text \<open>The texts the language admits after the byte-order mark.\<close>

definition admitted_text :: "bytes \<Rightarrow> bool" where
  "admitted_text s \<longleftrightarrow>
     (\<exists>cps. list_all admissible cps \<and> crs_paired cps \<and> s = concat (map utf8_encode cps))"

lemma admissible_scalar: "admissible c \<Longrightarrow> scalar_value c"
  by (simp add: admissible_def)

lemma utf8_encode_lf [simp]: "utf8_encode 10 = [lf]" and utf8_encode_cr [simp]: "utf8_encode 13 = [cr]"
  by (simp_all add: append_utf8_def lf_def cr_def char_of_eq)

lemma utf8_encode_hd_lf:
  assumes "scalar_value c" "utf8_encode c @ x = lf # y"
  shows "c = 10"
  using codec.enc_prefix_free[of c 10 x y] assms by (simp add: scalar_value_def)

text \<open>The decoder at the start of a text of encoded scalars.\<close>

lemma utf8_next_drop:
  assumes "drop at s = utf8_encode c @ x" "scalar_value c"
  shows "at < length s" and "utf8_next s at = Some (length (utf8_encode c), c)"
    and "drop (at + length (utf8_encode c)) s = x"
proof -
  show at: "at < length s"
    using assms codec.enc_nonempty by (metis append_is_Nil_conv drop_all not_less)
  show "utf8_next s at = Some (length (utf8_encode c), c)"
    using codec.dec_drop[of at s] codec.dec_enc[OF assms(2), of "[]" x] assms(1) at by simp
  show "drop (at + length (utf8_encode c)) s = x"
    using assms(1) by (metis add.commute append_eq_conv_conj drop_drop)
qed

lemma utf8_next_drop_eq:
  assumes "utf8_next s at = Some (w, cp)"
  shows "drop at s = utf8_encode cp @ drop (at + w) s"
  using codec.enc_dec[OF assms] by (metis add.commute append_take_drop_id drop_drop)

lemma admitted_Nil [simp]: "admitted_text []"
  unfolding admitted_text_def by (rule exI[of _ "[]"]) simp

lemma admitted_Cons:
  assumes "admissible c" "c \<noteq> 13" "admitted_text x"
  shows "admitted_text (utf8_encode c @ x)"
proof -
  obtain cps where "list_all admissible cps" "crs_paired cps" "x = concat (map utf8_encode cps)"
    using assms(3) by (auto simp: admitted_text_def)
  with assms(1,2) show ?thesis
    unfolding admitted_text_def by (intro exI[of _ "c # cps"]) simp
qed

lemma admitted_crlf:
  assumes "admitted_text x"
  shows "admitted_text (cr # lf # x)"
proof -
  obtain cps where "list_all admissible cps" "crs_paired cps" "x = concat (map utf8_encode cps)"
    using assms by (auto simp: admitted_text_def)
  then show ?thesis
    unfolding admitted_text_def
    by (intro exI[of _ "13 # 10 # cps"]) (simp add: admissible_def scalar_value_def is_bidi_control_def)
qed

lemma scan_source_None_admitted:
  "scan_source s at line column = None \<Longrightarrow> admitted_text (drop at s)"
proof (induction s at line column rule: scan_source.induct)
  case (1 s at line column)
  show ?case
  proof (cases "at < length s")
    case False
    then show ?thesis by simp
  next
    case True
    with "1.prems" obtain w cp where n: "utf8_next s at = Some (w, cp)"
      by (subst (asm) scan_source.simps) (auto split: option.splits)
    have adm: "admissible cp"
      using "1.prems" True n utf8_next_SomeD[OF n]
      by (subst (asm) scan_source.simps) (auto simp: admissible_def split: if_splits)
    note eq = utf8_next_drop_eq[OF n]
    consider (cr) "cp = 13" | (lf) "cp = 10" | (other) "cp \<noteq> 13" "cp \<noteq> 10" by blast
    then show ?thesis
    proof cases
      case cr
      with "1.prems" True n adm have l: "\<not> (length s \<le> at + 1 \<or> s ! (at + 1) \<noteq> lf)"
        and rest: "scan_source s (at + 2) (line + 1) 1 = None"
        by (subst (asm) scan_source.simps; auto simp: admissible_def split: if_splits)+
      have w: "w = 1" using utf8_next_SomeD[OF n] cr by simp
      have "drop at s = cr # lf # drop (at + 2) s"
        using eq l w cr by (simp add: drop_eq_Cons)
      moreover have "admitted_text (drop (at + 2) s)"
        using "1.IH"(1)[OF True n refl] adm cr l rest by (auto simp: admissible_def)
      ultimately show ?thesis by (simp add: admitted_crlf)
    next
      case lf
      have "scan_source s (at + 1) (line + 1) 1 = None"
        using "1.prems" True n adm lf by (subst (asm) scan_source.simps) (auto simp: admissible_def)
      then have "admitted_text (drop (at + w) s)"
        using "1.IH"(2)[OF True n refl] adm lf utf8_next_SomeD[OF n] by (auto simp: admissible_def)
      with eq adm lf show ?thesis by (metis admitted_Cons numeral_eq_iff semiring_norm(88))
    next
      case other
      have "scan_source s (at + w) line (column + 1) = None"
        using "1.prems" True n adm other by (subst (asm) scan_source.simps) (auto simp: admissible_def)
      then have "admitted_text (drop (at + w) s)"
        using "1.IH"(3)[OF True n refl] adm other by (auto simp: admissible_def)
      with eq adm other show ?thesis by (metis admitted_Cons)
    qed
  qed
qed

lemma scan_source_admitted_None:
  "list_all admissible cps \<Longrightarrow> crs_paired cps \<Longrightarrow> drop at s = concat (map utf8_encode cps) \<Longrightarrow>
    scan_source s at line column = None"
proof (induction "length cps" arbitrary: cps at line column rule: less_induct)
  case less
  show ?case
  proof (cases cps)
    case Nil
    with less.prems show ?thesis by (subst scan_source.simps) simp
  next
    case (Cons c cs)
    then have c: "admissible c" and d: "drop at s = utf8_encode c @ concat (map utf8_encode cs)"
      using less.prems by auto
    note step = utf8_next_drop[OF d admissible_scalar[OF c]]
    show ?thesis
    proof (cases "c = 13")
      case True
      then obtain cs' where cs: "cs = 10 # cs'" using less.prems Cons by (cases cs) auto
      then have "drop at s = cr # lf # concat (map utf8_encode cs')" using d True by simp
      note d2 = this
      have "at + 1 < length s" using arg_cong[OF d2, of length] by simp
      moreover have "s ! (at + 1) = lf" using nth_drop[of at s 1] d2 step(1) by simp
      moreover have "drop (at + 2) s = concat (map utf8_encode cs')"
        using arg_cong[OF d2, of "drop 2"] by (simp add: add.commute)
      ultimately show ?thesis
        using less.hyps[of cs' "at + 2" "line + 1" 1] less.prems Cons cs step True
        by (subst scan_source.simps) (simp add: is_bidi_control_def)
    next
      case False
      have IH: "scan_source s (at + length (utf8_encode c)) l k = None" for l k
        using less.hyps[of cs "at + length (utf8_encode c)" l k] less.prems Cons step(3) by simp
      show ?thesis
        using IH step c False
        by (subst scan_source.simps) (cases "c = 10", auto simp: admissible_def)
    qed
  qed
qed

lemma scan_source_None_iff: "scan_source s at line column = None \<longleftrightarrow> admitted_text (drop at s)"
  using scan_source_None_admitted scan_source_admitted_None unfolding admitted_text_def by blast

lemma from_bytes_ok_iff:
  "src_ok (fst (from_bytes path s bag)) \<longleftrightarrow>
     length s \<le> max_bytes \<and> named_foreign_bom s = None \<and>
     admitted_text (drop (if has_utf8_bom s then 3 else 0) s)"
  using scan_source_None_iff[of s "if has_utf8_bom s then 3 else 0" 1 1]
  by (auto simp: from_bytes_def Let_def split: option.splits if_splits)

lemma from_bytes_fields:
  "src_bytes (fst (from_bytes path s bag)) = s" "src_path (fst (from_bytes path s bag)) = path"
  by (auto simp: from_bytes_def Let_def split: option.splits if_splits)

lemma from_bytes_bag:
  "src_ok (fst (from_bytes path s bag)) \<Longrightarrow> snd (from_bytes path s bag) = bag"
  "\<not> src_ok (fst (from_bytes path s bag)) \<Longrightarrow> bag_count (snd (from_bytes path s bag)) = Suc (bag_count bag)"
  by (auto simp: from_bytes_def Let_def add_at_def split: option.splits prod.splits if_splits)

lemma from_bytes_scan_start:
  "src_ok (fst (from_bytes path s bag)) \<Longrightarrow>
    scan_start (fst (from_bytes path s bag)) = (if has_utf8_bom s then 3 else 0)"
  by (auto simp: from_bytes_def Let_def split: option.splits if_splits)

subsection \<open>Positions\<close>

lemma utf8_encode_hd_cr:
  assumes "scalar_value c" "utf8_encode c @ x = cr # y"
  shows "c = 13"
  using codec.enc_prefix_free[of c 13 x y] assms by (simp add: scalar_value_def)

lemma takeWhile_rev_Cons:
  "takeWhile P (rev (x # xs)) =
    (if \<forall>y \<in> set xs. P y then rev xs @ (if P x then [x] else []) else takeWhile P (rev xs))"
  by (auto simp: takeWhile_append)

definition column_after :: "nat list \<Rightarrow> nat \<Rightarrow> nat" where
  "column_after cps column =
     (if 10 \<in> set cps then 1 + length (takeWhile (\<lambda>c. c \<noteq> 10) (rev cps)) else column + length cps)"

lemma column_after_simps:
  "column_after [] k = k"
  "column_after (10 # cps) k = column_after cps 1"
  "c \<noteq> 10 \<Longrightarrow> column_after (c # cps) k = column_after cps (k + 1)"
  by (auto simp: column_after_def takeWhile_rev_Cons simp del: rev.simps)

lemma drop_two_Cons: "drop at s = x # y # z \<Longrightarrow> Suc at < length s \<and> s ! at = x \<and> s ! Suc at = y \<and> drop (at + 2) s = z"
proof -
  assume a: "drop at s = x # y # z"
  then have "length s - at = Suc (Suc (length z))" by (metis length_drop length_Cons)
  moreover have "s ! at = (x # y # z) ! 0" "s ! Suc at = (x # y # z) ! 1"
    using nth_drop[of at s 0] nth_drop[of at s 1] a calculation by simp_all
  moreover have "drop (at + 2) s = drop 2 (x # y # z)"
    by (simp add: add.commute flip: a)
  ultimately show ?thesis by simp
qed

lemma column_after_one: "column_after as 1 = 1 + length (takeWhile (\<lambda>c. c \<noteq> 10) (rev as))"
proof (cases "10 \<in> set as")
  case False
  then have "\<forall>c \<in> set (rev as). c \<noteq> 10" by auto
  then have "takeWhile (\<lambda>c. c \<noteq> 10) (rev as) = rev as" by (simp only: takeWhile_eq_all_conv)
  note all = this
  show ?thesis using False by (simp add: column_after_def all)
qed (simp add: column_after_def)

lemma span_walk_counts:
  "list_all scalar_value (as @ bs) \<Longrightarrow> crs_paired (as @ bs) \<Longrightarrow>
    drop at s = concat (map utf8_encode (as @ bs)) \<Longrightarrow> as = [] \<or> last as \<noteq> 13 \<Longrightarrow>
    byte = at + length (concat (map utf8_encode as)) \<Longrightarrow>
    span_walk s byte at line column = (line + count_list as 10, column_after as column)"
proof (induction "length as" arbitrary: as at line column rule: less_induct)
  case less
  show ?case
  proof (cases as)
    case Nil
    with less.prems show ?thesis by (subst span_walk.simps) (simp add: column_after_simps)
  next
    case (Cons c cs)
    then have c: "scalar_value c" and d: "drop at s = utf8_encode c @ concat (map utf8_encode (cs @ bs))"
      using less.prems by auto
    note step = utf8_next_drop[OF d c]
    have lt: "at < byte"
      using less.prems(5) Cons codec.enc_nonempty[OF c] by simp
    have first: "drop at s = s ! at # drop (Suc at) s"
      using step(1) by (rule drop_eq_Cons)
    show ?thesis
    proof (cases "c = 13")
      case True
      then obtain cs' where cs: "cs = 10 # cs'"
        using less.prems(2,4) Cons by (cases cs) auto
      have d2: "drop at s = cr # lf # concat (map utf8_encode (cs' @ bs))"
        using d True cs by simp
      note nth = drop_two_Cons[OF d2]
      have "span_walk s byte (at + 2) (line + 1) 1 = (line + 1 + count_list cs' 10, column_after cs' 1)"
        by (rule less.hyps) (use less.prems Cons cs True nth in \<open>auto split: if_splits\<close>)
      moreover have "span_walk s byte at line column = span_walk s byte (at + 2) (line + 1) 1"
        using nth lt by (subst span_walk.simps) simp
      moreover have "as = 13 # 10 # cs'" using Cons cs True by simp
      ultimately show ?thesis by (simp add: column_after_simps)
    next
      case False
      have ne: "s ! at \<noteq> cr" using utf8_encode_hd_cr[OF c] d first False by metis
      have IH: "span_walk s byte (at + length (utf8_encode c)) l k = (l + count_list cs 10, column_after cs k)" for l k
      proof (rule less.hyps)
        show "drop (at + length (utf8_encode c)) s = concat (map utf8_encode (cs @ bs))" by (rule step(3))
        show "byte = at + length (utf8_encode c) + length (concat (map utf8_encode cs))"
          using less.prems(5) Cons by simp
        show "length cs < length as" using Cons by simp
        show "list_all scalar_value (cs @ bs)" using less.prems(1) Cons by simp
        show "crs_paired (cs @ bs)" using less.prems(2) Cons False by simp
        show "cs = [] \<or> last cs \<noteq> 13" using less.prems(4) Cons by (cases cs) simp_all
      qed
      show ?thesis
      proof (cases "c = 10")
        case True
        then have "s ! at = lf" using d first by simp
        with ne lt step(1) have "span_walk s byte at line column = span_walk s byte (at + 1) (line + 1) 1"
          by (subst span_walk.simps) simp
        with IH[of "line + 1" 1] True Cons show ?thesis by (simp add: column_after_simps)
      next
        case False
        then have "s ! at \<noteq> lf" using utf8_encode_hd_lf[OF c] d first by metis
        with ne lt step(1,2) have "span_walk s byte at line column =
            span_walk s byte (at + length (utf8_encode c)) line (column + 1)"
          by (subst span_walk.simps) simp
        with IH[of line "column + 1"] False Cons show ?thesis by (simp add: column_after_simps)
      qed
    qed
  qed
qed

lemma accepted_scalars:
  assumes "src_ok (fst (from_bytes path s bag))"
    and "list_all scalar_value cps"
    and "drop (scan_start (fst (from_bytes path s bag))) s = concat (map utf8_encode cps)"
  shows "list_all admissible cps \<and> crs_paired cps"
proof -
  obtain cps' where c: "list_all admissible cps'" "crs_paired cps'"
    "drop (scan_start (fst (from_bytes path s bag))) s = concat (map utf8_encode cps')"
    using assms(1) from_bytes_ok_iff[of path s bag] from_bytes_scan_start[OF assms(1)]
    by (auto simp: admitted_text_def)
  moreover have "list_all scalar_value cps'"
    using c(1) admissible_scalar by (auto simp: list_all_iff)
  ultimately show ?thesis
    using codec.enc_list_unique[of cps' cps] assms(2,3) by metis
qed

subsection \<open>Fragments of an assembled module\<close>

text \<open>A fragment as it stands in the assembled text: it ends with a newline of its own.\<close>

definition fragment_text :: "bytes \<Rightarrow> bytes" where
  "fragment_text t = (if t = [] \<or> last t \<noteq> lf then t @ [lf] else t)"

definition text_before :: "bytes list \<Rightarrow> nat \<Rightarrow> bytes" where
  "text_before texts k = concat (map fragment_text (take k texts))"

fun fragment_segments :: "string list \<Rightarrow> bytes list \<Rightarrow> nat \<Rightarrow> segment list" where
  "fragment_segments (p # ps) (t # ts) line =
     \<lparr>seg_path = p, seg_start_line = line\<rparr> # fragment_segments ps ts (line + count_list (fragment_text t) lf)"
| "fragment_segments _ _ line = []"

lemma assemble_fragments_eq:
  "length ps = length ts \<Longrightarrow> assemble_fragments ps ts s segs line =
     (s @ concat (map fragment_text ts), segs @ fragment_segments ps ts line)"
  by (induction ps ts s segs line rule: assemble_fragments.induct)
    (auto simp: fragment_text_def Let_def add.assoc)

lemma fragment_segments_nth:
  "length ps = length ts \<Longrightarrow> k < length ts \<Longrightarrow>
    fragment_segments ps ts line ! k =
      \<lparr>seg_path = ps ! k, seg_start_line = line + count_list (text_before ts k) lf\<rparr>"
proof (induction ps ts line arbitrary: k rule: fragment_segments.induct)
  case (1 p ps t ts line)
  then show ?case by (cases k) (auto simp: text_before_def)
qed auto

lemma length_fragment_segments [simp]:
  "length ps = length ts \<Longrightarrow> length (fragment_segments ps ts line) = length ts"
  by (induction ps ts line rule: fragment_segments.induct) auto

lemma count_fragment_text: "1 \<le> count_list (fragment_text t) lf"
proof (cases "t = [] \<or> last t \<noteq> lf")
  case False
  then have "lf \<in> set t" by (metis last_in_set)
  with False show ?thesis by (simp add: fragment_text_def Suc_le_eq count_list_0_iff flip: neq0_conv)
qed (simp add: fragment_text_def)

text \<open>A proper prefix of a fragment has fewer newlines than the fragment's assembled text.\<close>

lemma count_proper_prefix:
  assumes "t = t1 @ t2" "t2 \<noteq> []"
  shows "count_list t1 lf < count_list (fragment_text t) lf"
proof (cases "last t = lf")
  case True
  then have "lf \<in> set t2" using assms by (metis last_appendR last_in_set)
  then have "0 < count_list t2 lf" by (simp add: count_list_0_iff flip: neq0_conv)
  with assms True show ?thesis by (simp add: fragment_text_def)
next
  case False
  with assms show ?thesis by (simp add: fragment_text_def)
qed

lemma text_before_Suc: "k < length ts \<Longrightarrow> text_before ts (Suc k) = text_before ts k @ fragment_text (ts ! k)"
  by (simp add: text_before_def take_Suc_snoc)

lemma text_before_mono: "j \<le> k \<Longrightarrow> k \<le> length ts \<Longrightarrow> count_list (text_before ts j) lf \<le> count_list (text_before ts k) lf"
  by (induction rule: dec_induct) (auto simp: text_before_Suc)

text \<open>The loop of \<open>locate\<close> over the segments of the module finds the fragment of a line.\<close>

lemma find_segment_last:
  assumes "k < length segs" "\<forall>i \<le> k. seg_start_line (segs ! i) \<le> line"
    and "\<forall>i. k < i \<and> i < length segs \<longrightarrow> line < seg_start_line (segs ! i)"
  shows "find_segment found segs line = segs ! k"
proof -
  have "filter (\<lambda>s. seg_start_line s \<le> line) (take (Suc k) segs) = take (Suc k) segs"
    using assms(2) by (auto simp: filter_id_conv in_set_conv_nth)
  moreover have "filter (\<lambda>s. seg_start_line s \<le> line) (drop (Suc k) segs) = []"
  proof (subst filter_empty_conv, intro ballI)
    fix x assume "x \<in> set (drop (Suc k) segs)"
    then obtain i where "i < length segs - Suc k" "x = segs ! (Suc k + i)"
      by (auto simp: in_set_conv_nth)
    with assms(1,3) show "\<not> seg_start_line x \<le> line" by (simp add: not_le)
  qed
  ultimately have "filter (\<lambda>s. seg_start_line s \<le> line) segs = take (Suc k) segs"
    by (metis append_Nil2 append_take_drop_id filter_append)
  then have "filter (\<lambda>s. seg_start_line s \<le> line) segs = take k segs @ [segs ! k]"
    using assms(1) by (simp add: take_Suc_snoc)
  then show ?thesis by (cases "take k segs") (simp_all add: find_segment_acc)
qed

lemma find_segment_fragment:
  assumes len: "length paths = length texts" and k: "k < length texts" "texts ! k = t1 @ t2" "t2 \<noteq> []"
  shows "find_segment found (fragment_segments paths texts 1) (1 + count_list (text_before texts k @ t1) lf) =
    \<lparr>seg_path = paths ! k, seg_start_line = 1 + count_list (text_before texts k) lf\<rparr>"
proof -
  have after: "count_list (text_before texts k @ t1) lf < count_list (text_before texts i) lf"
    if "k < i" "i \<le> length texts" for i
    using text_before_mono[of "Suc k" i texts] that count_proper_prefix[OF k(2,3)] k(1)
    by (simp add: text_before_Suc)
  have "find_segment found (fragment_segments paths texts 1) (1 + count_list (text_before texts k @ t1) lf) =
      fragment_segments paths texts 1 ! k"
    by (rule find_segment_last)
      (use k len after text_before_mono[of _ k texts] in \<open>auto simp: fragment_segments_nth intro: trans_le_add1\<close>)
  then show ?thesis using len k by (simp add: fragment_segments_nth)
qed

lemma relative_line_within: "start \<le> line \<Longrightarrow> line < 2 ^ 32 \<Longrightarrow> 1 \<le> start \<Longrightarrow> relative_line line start = line - start + 1"
  by (simp add: relative_line_def nat_mod_distrib of_nat_diff flip: of_nat_diff)

lemma locate_in_assembled:
  assumes "\<forall>m \<in> set ms. asm_path m \<noteq> path" "diag_path d = path" "segs \<noteq> []"
  shows "locate_in (ms @ [\<lparr>asm_path = path, asm_segments = segs\<rparr>]) d =
    (let found = find_segment (hd segs) segs (span_line (diag_span d))
     in d\<lparr>diag_path := seg_path found,
          diag_span := (diag_span d)\<lparr>span_line := relative_line (span_line (diag_span d)) (seg_start_line found)\<rparr>\<rparr>)"
  using assms by (induction ms) auto

subsection \<open>Newlines of the text\<close>

lemma utf8_encode_bytes:
  assumes "scalar_value c" "b \<in> set (utf8_encode c)"
  shows "byte_value b < 0xF8 \<and> (if c < 128 then byte_value b = c else 128 \<le> byte_value b)"
  using assms(1)
proof (cases rule: scalar_cases)
  case 1
  with assms(2) have "byte_value b = c" by (simp add: encode1)
  with 1 show ?thesis by simp
next
  case 2
  then obtain x y :: nat where "utf8_encode c = [char_of (192 + x), char_of (128 + y)]" "x < 32" "y < 64"
    using that[of "c div 64" "c mod 64"] encode2[of c] by (simp add: div_less_iff_less_mult)
  with assms(2) 2 show ?thesis by auto
next
  case 3
  then obtain x y z :: nat where "utf8_encode c = [char_of (224 + x), char_of (128 + y), char_of (128 + z)]" "x < 16" "y < 64" "z < 64"
    using that[of "c div 4096" "c div 64 mod 64" "c mod 64"] encode3[of c] by (simp add: div_less_iff_less_mult)
  with assms(2) 3 show ?thesis by auto
next
  case 4
  then obtain x y z w :: nat where "utf8_encode c = [char_of (240 + x), char_of (128 + y), char_of (128 + z), char_of (128 + w)]"
    "x < 8" "y < 64" "z < 64" "w < 64"
    using that[of "c div 262144" "c div 4096 mod 64" "c div 64 mod 64" "c mod 64"] encode4[of c] by (simp add: div_less_iff_less_mult)
  with assms(2) 4 show ?thesis by auto
qed

lemma utf8_encode_no_lf: "scalar_value c \<Longrightarrow> c \<noteq> 10 \<Longrightarrow> lf \<notin> set (utf8_encode c)"
  using utf8_encode_bytes[of c lf] by (auto simp: lf_def split: if_splits)

lemma count_newlines:
  "list_all scalar_value cs \<Longrightarrow> count_list (concat (map utf8_encode cs)) lf = count_list cs 10"
proof (induction cs)
  case (Cons c cs)
  then show ?case
    using utf8_encode_no_lf[of c] by (cases "c = 10") (auto simp: count_list_0_iff)
qed simp

lemma has_utf8_bom_no_lf:
  assumes "has_utf8_bom s"
  shows "lf \<notin> set (take 3 s)"
proof
  assume "lf \<in> set (take 3 s)"
  then have "byte_value lf \<in> set (map byte_value (take 3 s))" by simp
  with assms show False by (simp add: has_utf8_bom_def lf_def)
qed

lemma admitted_hd:
  assumes "admitted_text (b # s)"
  shows "byte_value b \<noteq> 0 \<and> byte_value b < 0xF8"
proof -
  obtain cps where c: "list_all admissible cps" "b # s = concat (map utf8_encode cps)"
    using assms by (auto simp: admitted_text_def)
  then obtain c cs where cs: "cps = c # cs" by (cases cps) auto
  then have v: "scalar_value c" "c \<noteq> 0" using c(1) by (auto simp: admissible_def)
  then have "b \<in> set (utf8_encode c)"
    using c(2) cs codec.enc_nonempty[OF v(1)] by (cases "utf8_encode c") auto
  with v utf8_encode_bytes[OF v(1), of b] show ?thesis by (auto split: if_splits)
qed

text \<open>A text that opens with the byte-order mark of another encoding is never admitted.\<close>

lemma foreign_bom_not_admitted:
  assumes "named_foreign_bom s = Some e"
  shows "\<not> admitted_text (drop (if has_utf8_bom s then 3 else 0) s)"
proof -
  from assms obtain b x where s: "s = b # x" and b: "byte_value b \<in> {0, 0xFE, 0xFF}"
    by (cases s) (auto simp: named_foreign_bom_def split: if_splits)
  then have "\<not> has_utf8_bom s" by (auto simp: has_utf8_bom_def)
  moreover have "\<not> admitted_text s" using s b admitted_hd[of b x] by auto
  ultimately show ?thesis by simp
qed

text \<open>Newline bytes and newline scalars of an accepted text agree.\<close>

lemma count_before:
  assumes "src_ok (fst (from_bytes path s bag))" "list_all scalar_value (as @ bs)"
    and "drop (scan_start (fst (from_bytes path s bag))) s = concat (map utf8_encode (as @ bs))"
    and "byte = scan_start (fst (from_bytes path s bag)) + length (concat (map utf8_encode as))"
  shows "count_list (take byte s) lf = count_list as 10"
proof -
  define start where "start = scan_start (fst (from_bytes path s bag))"
  have "take byte s = take start s @ concat (map utf8_encode as)"
    using assms(3,4) by (simp add: take_add flip: start_def)
  moreover have "count_list (take start s) lf = 0"
    using has_utf8_bom_no_lf[of s] from_bytes_scan_start[OF assms(1)]
    by (simp add: start_def count_list_0_iff)
  ultimately show ?thesis using count_newlines[of as] assms(2) by simp
qed

lemma span_at_counts:
  assumes "src_ok (fst (from_bytes path s bag))" "list_all scalar_value (as @ bs)"
    and "drop (scan_start (fst (from_bytes path s bag))) s = concat (map utf8_encode (as @ bs))"
    and "byte = scan_start (fst (from_bytes path s bag)) + length (concat (map utf8_encode as))"
    and "as = [] \<or> last as \<noteq> 13"
  shows "span_at (fst (from_bytes path s bag)) byte end_byte =
    \<lparr>span_start = byte, span_end = end_byte, span_line = 1 + count_list (take byte s) lf,
     span_column = column_after as 1\<rparr>"
  using span_walk_counts[OF assms(2) _ assms(3) assms(5) assms(4), of 1 1]
    accepted_scalars[OF assms(1,2,3)] count_before[OF assms(1-4)]
  by (simp add: span_at_def from_bytes_fields)

lemma source_assembled_fields:
  assumes "length paths = length texts"
  shows "fst (source_assembled path paths texts bag) =
      (fst (from_bytes path (concat (map fragment_text texts)) bag))
        \<lparr>src_segments := fragment_segments paths texts 1\<rparr>"
    and "src_bytes (fst (source_assembled path paths texts bag)) = concat (map fragment_text texts)"
  using assms
  by (simp_all add: source_assembled_def assemble_fragments_eq from_bytes_fields split: prod.splits)
    (metis from_bytes_fields(1) fst_conv)

lemma text_before_split:
  assumes "k < length texts" "texts ! k = t1 @ t2"
  shows "\<exists>rest. concat (map fragment_text texts) = text_before texts k @ t1 @ rest"
proof -
  have "texts = take k texts @ texts ! k # drop (Suc k) texts"
    using assms(1) by (simp add: id_take_nth_drop)
  then have "concat (map fragment_text texts) =
      text_before texts k @ fragment_text (texts ! k) @ concat (map fragment_text (drop (Suc k) texts))"
    unfolding text_before_def by (metis append.assoc concat.simps(2) concat_append list.simps(9) map_append)
  then show ?thesis using assms(2) by (auto simp: fragment_text_def)
qed

lemma span_at_segments [simp]: "span_at (src\<lparr>src_segments := segs\<rparr>) = span_at src"
  by (simp add: span_at_def fun_eq_iff)

text \<open>Plain ASCII texts, for concrete inputs.\<close>

definition plain_char :: "char \<Rightarrow> bool" where
  "plain_char c \<longleftrightarrow> c = lf \<or> 32 \<le> byte_value c \<and> byte_value c < 128"

lemma plain_encode: "list_all plain_char s \<Longrightarrow> concat (map utf8_encode (map byte_value s)) = s"
proof (induction s)
  case (Cons c s)
  then have "byte_value c < 128" by (auto simp: plain_char_def lf_def)
  then have "utf8_encode (byte_value c) = [c]" by (simp add: encode1)
  with Cons show ?case by simp
qed simp

lemma plain_admissible: "plain_char c \<Longrightarrow> admissible (byte_value c) \<and> byte_value c \<noteq> 13"
  by (auto simp: plain_char_def admissible_def scalar_value_def is_bidi_control_def lf_def)

lemma crs_paired_no_cr: "13 \<notin> set cps \<Longrightarrow> crs_paired cps"
  by (induction cps) auto

lemma plain_admitted:
  assumes "list_all plain_char s"
  shows "admitted_text s"
  unfolding admitted_text_def
proof (intro exI[of _ "map byte_value s"] conjI)
  show "list_all admissible (map byte_value s)" "crs_paired (map byte_value s)"
    using assms plain_admissible by (fastforce simp: list_all_iff intro!: crs_paired_no_cr)+
qed (simp only: plain_encode[OF assms])

lemma plain_from_bytes:
  assumes "list_all plain_char s" "length s \<le> max_bytes"
  shows "src_ok (fst (from_bytes path s bag))" "scan_start (fst (from_bytes path s bag)) = 0"
proof -
  have "\<not> has_utf8_bom s"
  proof
    assume bom: "has_utf8_bom s"
    then obtain b x where "s = b # x" "byte_value b = 0xEF" by (cases s) (auto simp: has_utf8_bom_def)
    with assms(1) show False by (auto simp: plain_char_def lf_def)
  qed
  moreover have "admitted_text s" using assms(1) by (rule plain_admitted)
  ultimately show ok: "src_ok (fst (from_bytes path s bag))"
    using from_bytes_ok_iff[of path s bag] foreign_bom_not_admitted[of s] assms(2)
    by (cases "named_foreign_bom s") auto
  with \<open>\<not> has_utf8_bom s\<close> show "scan_start (fst (from_bytes path s bag)) = 0"
    using from_bytes_scan_start by simp
qed

subsection \<open>Properties\<close>

text \<open>
  C14: loading a module accepts its bytes exactly when they are at most 64 MiB and, after an
  optional UTF-8 byte-order mark, are the UTF-8 encoding of scalar values with no NUL, no
  interior mark, no bidirectional control, no tab and no carriage return without a newline;
  a refused text adds exactly one error, an accepted one none, and the bytes are kept.
\<close>

theorem from_bytes_gate:
  "src_ok (fst (from_bytes path s bag)) =
     (length s \<le> max_bytes \<and> admitted_text (drop (if has_utf8_bom s then 3 else 0) s)) \<and>
   bag_count (snd (from_bytes path s bag)) =
     bag_count bag + (if src_ok (fst (from_bytes path s bag)) then 0 else 1) \<and>
   src_bytes (fst (from_bytes path s bag)) = s"
  using from_bytes_ok_iff[of path s bag] foreign_bom_not_admitted[of s] from_bytes_bag[of path s bag]
  by (cases "named_foreign_bom s") (auto simp: from_bytes_fields)

text \<open>
  C17: in an accepted source the position of a scalar boundary counts what stands before it:
  the line is one more than the newline bytes before it and the column one more than the
  scalars since the last newline, whatever widths the scalars have in UTF-8.
\<close>

theorem span_at_position:
  assumes "src_ok (fst (from_bytes path s bag))" "list_all scalar_value (as @ bs)"
    and "drop (scan_start (fst (from_bytes path s bag))) s = concat (map utf8_encode (as @ bs))"
    and "byte = scan_start (fst (from_bytes path s bag)) + length (concat (map utf8_encode as))"
    and "as = [] \<or> last as \<noteq> 13"
  shows "span_line (span_at (fst (from_bytes path s bag)) byte end_byte) = 1 + count_list (take byte s) lf \<and>
    span_column (span_at (fst (from_bytes path s bag)) byte end_byte) =
      1 + length (takeWhile (\<lambda>c. c \<noteq> 10) (rev as))"
  using span_at_counts[OF assms, of end_byte, unfolded column_after_one] by simp_all

lemma span_at_position_witness:
  "span_line (span_at (fst (from_bytes [] (utf8_encode 233 @ [lf] @ utf8_encode 0x20AC) empty_bag)) 6 6) = 2 \<and>
   span_column (span_at (fst (from_bytes [] (utf8_encode 233 @ [lf] @ utf8_encode 0x20AC) empty_bag)) 6 6) = 2"
proof -
  let ?s = "utf8_encode 233 @ [lf] @ utf8_encode 0x20AC"
  let ?b = "fst (from_bytes [] ?s empty_bag)"
  have s: "utf8_encode 233 = [char_of (195::nat), char_of (169::nat)]"
    "utf8_encode 0x20AC = [char_of (226::nat), char_of (130::nat), char_of (172::nat)]"
    by (simp_all add: encode2 encode3)
  have "has_utf8_bom ?s = False" by (simp add: s has_utf8_bom_def)
  moreover have "admitted_text ?s"
    unfolding admitted_text_def
    by (rule exI[of _ "[233, 10, 0x20AC]"]) (simp add: admissible_def scalar_value_def is_bidi_control_def)
  ultimately have ok: "src_ok ?b"
    using from_bytes_ok_iff[of "[]" ?s empty_bag] foreign_bom_not_admitted[of ?s]
    by (cases "named_foreign_bom ?s") (auto simp: s max_bytes_def)
  then have "scan_start ?b = 0" using from_bytes_scan_start[OF ok] by (simp add: s has_utf8_bom_def)
  then show ?thesis
    using span_at_position[OF ok, of "[233, 10, 0x20AC]" "[]" 6 6]
    by (simp add: scalar_value_def) (simp add: s lf_def char_of_eq)
qed

text \<open>
  C18: a diagnostic reported at a scalar boundary inside fragment \<open>k\<close> of an assembled directory
  module is printed with that fragment's own path and the line within that fragment, whatever
  the fragments before it hold and whether or not they end in a newline.
\<close>

theorem assembled_diagnostic_position:
  assumes "length paths = length texts" "k < length texts" "texts ! k = t1 @ t2" "t2 \<noteq> []"
    and "src = fst (source_assembled path paths texts bag)" "src_ok src"
    and "list_all scalar_value (as @ bs)" "as = [] \<or> last as \<noteq> 13"
    and "drop (scan_start src) (src_bytes src) = concat (map utf8_encode (as @ bs))"
    and "scan_start src + length (concat (map utf8_encode as)) = length (text_before texts k @ t1)"
    and "modules reported = ms @ [\<lparr>asm_path = path, asm_segments = src_segments src\<rparr>]"
    and "\<forall>m \<in> set ms. asm_path m \<noteq> path"
  shows "items (add_diag code path (span_at src (length (text_before texts k @ t1)) e) message reported) =
    items reported @ [\<lparr>diag_code = code, diag_path = paths ! k,
      diag_span = (span_at src (length (text_before texts k @ t1)) e)\<lparr>span_line := 1 + count_list t1 lf\<rparr>,
      diag_message = message, diag_warning = False\<rparr>]"
proof -
  let ?s = "concat (map fragment_text texts)" and ?byte = "length (text_before texts k @ t1)"
  let ?raw = "fst (from_bytes path ?s bag)"
  have src: "src = ?raw\<lparr>src_segments := fragment_segments paths texts 1\<rparr>" "src_bytes src = ?s"
    using source_assembled_fields[OF assms(1)] assms(5) by simp_all
  then have ok: "src_ok ?raw" and start: "scan_start src = scan_start ?raw" using assms(6) by simp_all
  obtain rest where rest: "?s = (text_before texts k @ t1) @ rest"
    using text_before_split[OF assms(2,3)] by auto
  have span: "span_at src ?byte e = \<lparr>span_start = ?byte, span_end = e,
      span_line = 1 + count_list (text_before texts k @ t1) lf, span_column = column_after as 1\<rparr>"
    using span_at_counts[OF ok assms(7) _ _ assms(8), of ?byte e] assms(9,10) src start rest by simp
  have "count_list (text_before texts k @ t1) lf \<le> length ?s"
    using count_le_length[of "text_before texts k @ t1" lf] rest by simp
  also have "\<dots> \<le> max_bytes" using ok from_bytes_ok_iff by blast
  finally have small: "1 + count_list (text_before texts k @ t1) lf < 2 ^ 32"
    by (simp add: max_bytes_def)
  have ne: "fragment_segments paths texts 1 \<noteq> []"
    using assms(1,2) length_fragment_segments[of paths texts 1] by (metis length_0_conv not_less0)
  define sp where "sp = span_at src ?byte e"
  have line: "span_line sp = 1 + count_list (text_before texts k @ t1) lf" by (simp only: sp_def span span.simps)
  define segs where "segs = fragment_segments paths texts 1"
  have "locate_in (ms @ [\<lparr>asm_path = path, asm_segments = segs\<rparr>]) \<lparr>diag_code = code, diag_path = path,
        diag_span = sp, diag_message = message, diag_warning = False\<rparr> =
      \<lparr>diag_code = code, diag_path = paths ! k, diag_span = sp\<lparr>span_line := 1 + count_list t1 lf\<rparr>,
        diag_message = message, diag_warning = False\<rparr>"
    using locate_in_assembled[OF assms(12), of _ segs] ne small find_segment_fragment[OF assms(1-4)]
    by (simp only: segs_def diagnostic.simps line Let_def not_False_eq_True) (simp add: relative_line_within)
  moreover have "modules reported = ms @ [\<lparr>asm_path = path, asm_segments = segs\<rparr>]"
    using assms(11) src(1) by (simp add: segs_def)
  ultimately show ?thesis by (simp add: add_diag_def locate_def sp_def)
qed

lemma assembled_diagnostic_position_witness:
  "let src = fst (source_assembled ''m'' [''a'', ''b''] [''xy'', ''c'' @ [lf] @ ''d''] empty_bag)
   in items (add_diag ''code'' ''m'' (span_at src 5 6) ''text''
        (empty_bag\<lparr>modules := [\<lparr>asm_path = ''m'', asm_segments = src_segments src\<rparr>]\<rparr>)) =
      [\<lparr>diag_code = ''code'', diag_path = ''b'', diag_span = (span_at src 5 6)\<lparr>span_line := 2\<rparr>,
        diag_message = ''text'', diag_warning = False\<rparr>]"
proof -
  let ?texts = "[''xy'', ''c'' @ [lf] @ ''d'']" and ?s = "''xy'' @ [lf] @ ''c'' @ [lf] @ ''d'' @ [lf]"
  let ?src = "fst (source_assembled ''m'' [''a'', ''b''] ?texts empty_bag)"
  have whole: "concat (map fragment_text ?texts) = ?s" "text_before ?texts 1 = ''xy'' @ [lf]"
    by (simp_all add: fragment_text_def text_before_def lf_def)
  have plain: "list_all plain_char ?s" by (simp add: plain_char_def lf_def)
  have src: "src_ok ?src" "scan_start ?src = 0" "src_bytes ?src = ?s"
    using source_assembled_fields[of "[''a'', ''b'']" ?texts "''m''" empty_bag]
      plain_from_bytes[OF plain, of "''m''" empty_bag] whole(1) by (simp_all add: max_bytes_def)
  have enc: "concat (map utf8_encode (map byte_value ''xy'' @ 10 # map byte_value ''c'' @ [10] @ map byte_value ''d'' @ [10])) = ?s"
    using plain_encode[OF plain] by (simp add: lf_def)
  have short: "length (concat (map utf8_encode (map byte_value ''xy'' @ 10 # map byte_value ''c'' @ [10]))) = 5"
    by (simp add: encode1)
  let ?as = "map byte_value ''xy'' @ 10 # map byte_value ''c'' @ [10]"
  let ?bag = "empty_bag\<lparr>modules := [\<lparr>asm_path = ''m'', asm_segments = src_segments ?src\<rparr>]\<rparr>"
  have pos: "length (text_before ?texts 1 @ (''c'' @ [lf])) = 5" by (simp only: whole) simp
  have "items (add_diag ''code'' ''m'' (span_at ?src (length (text_before ?texts 1 @ (''c'' @ [lf]))) 6) ''text'' ?bag) =
    items ?bag @ [\<lparr>diag_code = ''code'', diag_path = [''a'', ''b''] ! 1,
      diag_span = (span_at ?src (length (text_before ?texts 1 @ (''c'' @ [lf]))) 6)
        \<lparr>span_line := 1 + count_list (''c'' @ [lf]) lf\<rparr>,
      diag_message = ''text'', diag_warning = False\<rparr>]"
  proof (rule assembled_diagnostic_position[of _ _ _ _ "''d''" _ _ empty_bag ?as
        "map byte_value ''d'' @ [10]" _ "[]"])
    show "list_all scalar_value (?as @ map byte_value ''d'' @ [10])" by (simp add: scalar_value_def)
    show "drop (scan_start ?src) (src_bytes ?src) = concat (map utf8_encode (?as @ map byte_value ''d'' @ [10]))"
      using src enc by simp
    show "scan_start ?src + length (concat (map utf8_encode ?as)) = length (text_before ?texts 1 @ (''c'' @ [lf]))"
      unfolding pos using src short by simp
  qed (use src in simp_all)
  then show ?thesis unfolding pos by (simp add: Let_def empty_bag_def lf_def)
qed

end
