(* ===== verification/Literal.thy ===== *)
theory Literal
  imports Source
begin

section \<open>Literal decoding\<close>

text \<open>
  \<open>src/support/literal.cpp\<close> and \<open>literal.h\<close>: integer spellings with radix, separators and
  overflow check on 64 bits, character and string literals with their escapes, triple-quoted
  text, and the doubled braces of formatted text. The float spellings are in theory
  \<open>Decimal\<close>. A \<open>bool\<close> result with an out-parameter is an \<open>option\<close>.
\<close>

subsection \<open>Integers\<close>

record parsed_int =
  int_ok :: bool
  int_value :: "64 word"
  int_suffix :: bytes

definition no_int :: parsed_int where
  "no_int = \<lparr>int_ok = False, int_value = 0, int_suffix = []\<rparr>"

definition literal_hex_value :: "char \<Rightarrow> nat option" where
  "literal_hex_value c =
     (if 48 \<le> byte_value c \<and> byte_value c \<le> 57 then Some (byte_value c - 48)
      else if 97 \<le> byte_value c \<and> byte_value c \<le> 102 then Some (byte_value c - 97 + 10)
      else if 65 \<le> byte_value c \<and> byte_value c \<le> 70 then Some (byte_value c - 65 + 10)
      else None)"

text \<open>
  The loop over the digits: \<open>None\<close> is the return of the empty result, otherwise the value,
  whether a digit was seen, and the text from the character the loop stopped at.
\<close>

fun int_digits_loop :: "64 word \<Rightarrow> bytes \<Rightarrow> 64 word \<Rightarrow> bool \<Rightarrow> (64 word \<times> bool \<times> bytes) option" where
  "int_digits_loop base [] value any = Some (value, any, [])"
| "int_digits_loop base (c # cs) value any =
     (if c = CHR ''_'' then int_digits_loop base cs value any
      else (case literal_hex_value c of
          None \<Rightarrow> if 97 \<le> byte_value c \<and> byte_value c \<le> 122 then Some (value, any, c # cs) else None
        | Some d \<Rightarrow>
            let digit = word_of_nat d in
            if base \<le> digit then None
            else if (- 1 - digit) div base < value then None
            else int_digits_loop base cs (value * base + digit) True))"

definition int_base :: "bytes \<Rightarrow> 64 word \<times> nat" where
  "int_base text =
     (if 2 \<le> length text \<and> text ! 0 = CHR ''0'' \<and> text ! 1 \<in> {CHR ''x'', CHR ''o'', CHR ''b''} then
        (if text ! 1 = CHR ''x'' then 16 else if text ! 1 = CHR ''o'' then 8 else 2, 2)
      else (10, 0))"

definition parse_int_literal :: "bytes \<Rightarrow> parsed_int" where
  "parse_int_literal text =
     (if text = [] then no_int
      else let (base, i) = int_base text in
        (case int_digits_loop base (drop i text) 0 False of
           None \<Rightarrow> no_int
         | Some (value, any, rest) \<Rightarrow>
             if \<not> any then no_int else \<lparr>int_ok = True, int_value = value, int_suffix = rest\<rparr>))"

definition parse_i64_literal :: "bytes \<Rightarrow> 64 word option" where
  "parse_i64_literal text =
     (let p = parse_int_literal text in
      if \<not> int_ok p then None else if 0x7FFFFFFFFFFFFFFF < int_value p then None else Some (int_value p))"

subsection \<open>Characters\<close>

text \<open>
  The code points are \<open>uint32_t\<close> in the code; every branch stays below \<open>2 ^ 21\<close>, so they are
  naturals here.
\<close>

fun char_hex_loop :: "bytes \<Rightarrow> nat \<Rightarrow> bool \<Rightarrow> (nat \<times> bool \<times> bytes) option" where
  "char_hex_loop [] v any = Some (v, any, [])"
| "char_hex_loop (d # ds) v any =
     (if d = CHR ''}'' then Some (v, any, d # ds)
      else (case literal_hex_value d of
          None \<Rightarrow> None
        | Some digit \<Rightarrow>
            if 0x10FFFF div 16 < v then None else char_hex_loop ds (v * 16 + digit) True))"

definition named_escape :: "char \<Rightarrow> nat option" where
  "named_escape e =
     (if e = CHR ''n'' then Some 10 else if e = CHR ''t'' then Some 9 else if e = CHR ''r'' then Some 13
      else if e = CHR ''0'' then Some 0 else if e = backslash then Some 92 else if e = squote then Some 39
      else if e = dquote then Some 34 else None)"

text \<open>A character literal of one UTF-8 scalar, its bytes combined without a check of the continuation bits.\<close>

definition char_of_utf8 :: "bytes \<Rightarrow> nat option" where
  "char_of_utf8 inner =
     (let b = (\<lambda>i. byte_value (inner ! i)); c = b 0 in
      if c AND 0xE0 = 0xC0 \<and> 2 \<le> length inner then
        (if length inner \<noteq> 2 then None
         else Some (push_bit 6 (c AND 0x1F) OR (b 1 AND 0x3F)))
      else if c AND 0xF0 = 0xE0 \<and> 3 \<le> length inner then
        (if length inner \<noteq> 3 then None
         else Some (push_bit 12 (c AND 0x0F) OR push_bit 6 (b 1 AND 0x3F) OR (b 2 AND 0x3F)))
      else if c AND 0xF8 = 0xF0 \<and> 4 \<le> length inner then
        (if length inner \<noteq> 4 then None
         else Some (push_bit 18 (c AND 0x07) OR push_bit 12 (b 1 AND 0x3F) OR push_bit 6 (b 2 AND 0x3F) OR (b 3 AND 0x3F)))
      else None)"

definition parse_char_literal :: "bytes \<Rightarrow> nat option" where
  "parse_char_literal text =
     (if length text < 3 \<or> text ! 0 \<noteq> squote \<or> text ! (length text - 1) \<noteq> squote then None
      else let inner = substr text 1 (length text - 2) in
        if inner ! 0 \<noteq> backslash then
          (if byte_value (inner ! 0) < 0x80 then
             (if length inner \<noteq> 1 then None else Some (byte_value (inner ! 0)))
           else char_of_utf8 inner)
        else if length inner < 2 then None
        else if inner ! 1 = CHR ''u'' then
          (if length inner < 5 \<or> inner ! 2 \<noteq> CHR ''{'' then None
           else (case char_hex_loop (drop 3 inner) 0 False of
               Some (v, any, [close]) \<Rightarrow> if any then Some v else None
             | _ \<Rightarrow> None))
        else (case named_escape (inner ! 1) of
            None \<Rightarrow> None
          | Some cp \<Rightarrow> if length inner \<noteq> 2 then None else Some cp))"

subsection \<open>Strings\<close>

fun drop_crs :: "bytes \<Rightarrow> bytes" where
  "drop_crs [] = []"
| "drop_crs [c] = [c]"
| "drop_crs (c # d # cs) = (if c = cr \<and> d = lf then drop_crs (d # cs) else c # drop_crs (d # cs))"

text \<open>\<open>text.rfind('\n')\<close> and the spaces after it: the indentation of the closing delimiter, if it stands alone.\<close>

definition closing_indent :: "bytes \<Rightarrow> nat" where
  "closing_indent text =
     (case rfind_below text lf (length text) of
        None \<Rightarrow> 0
      | Some last_nl \<Rightarrow>
          let indent = length (takeWhile (\<lambda>c. c = CHR '' '') (drop (last_nl + 1) text))
          in if last_nl + 1 + indent \<noteq> length text then 0 else indent)"

text \<open>One line loses at most \<open>indent\<close> leading spaces.\<close>

definition skip_indent :: "nat \<Rightarrow> bytes \<Rightarrow> bytes" where
  "skip_indent indent line = drop (min indent (length (takeWhile (\<lambda>c. c = CHR '' '') line))) line"

function strip_lines :: "nat \<Rightarrow> bytes \<Rightarrow> nat \<Rightarrow> bytes" where
  "strip_lines indent text pos =
     (if pos \<le> length text then
        (case find_from text lf pos of
           None \<Rightarrow> skip_indent indent (drop pos text)
         | Some e \<Rightarrow> skip_indent indent (substr text pos (e - pos)) @ [lf] @ strip_lines indent text (e + 1))
      else [])"
  by pat_completeness auto
termination
  by (relation "measure (\<lambda>(indent, text, pos). Suc (length text) - pos)") (auto dest: find_from_SomeD)

declare strip_lines.simps [simp del]

definition strip_triple :: "bytes \<Rightarrow> bytes" where
  "strip_triple body =
     (let body = (if 2 \<le> length body \<and> body ! 0 = cr \<and> body ! 1 = lf then drop 2 body
                  else if body \<noteq> [] \<and> body ! 0 = lf then drop 1 body else body);
          text = drop_crs body;
          indent = closing_indent text
      in if indent = 0 then text else strip_lines indent text 0)"

text \<open>The value of a \<open>\u{...}\<close> escape in a string, summed on 32 bits, other characters counting as zero.\<close>

definition unicode_value :: "bytes \<Rightarrow> 32 word" where
  "unicode_value hs =
     foldl (\<lambda>cp c. cp * 16 + (case literal_hex_value c of None \<Rightarrow> 0 | Some d \<Rightarrow> word_of_nat d)) 0 hs"

definition simple_escape :: "char \<Rightarrow> char" where
  "simple_escape e =
     (if e = CHR ''n'' then lf else if e = CHR ''r'' then cr else if e = CHR ''t'' then tab
      else if e = CHR ''0'' then nul else e)"

function decode_escapes :: "bool \<Rightarrow> bytes \<Rightarrow> bytes" where
  "decode_escapes is_bytes [] = []"
| "decode_escapes is_bytes [c] = [c]"
| "decode_escapes is_bytes (c # e # rest) =
     (if c \<noteq> backslash then c # decode_escapes is_bytes (e # rest)
      else if e = CHR ''x'' then
        (if is_bytes \<and> 2 \<le> length rest \<and> literal_hex_value (rest ! 0) \<noteq> None \<and> literal_hex_value (rest ! 1) \<noteq> None then
           char_of (the (literal_hex_value (rest ! 0)) * 16 + the (literal_hex_value (rest ! 1)))
             # decode_escapes is_bytes (drop 2 rest)
         else CHR ''x'' # decode_escapes is_bytes rest)
      else if e = CHR ''u'' then
        (if rest \<noteq> [] \<and> rest ! 0 = CHR ''{'' \<and> CHR ''}'' \<in> set (drop 1 rest) then
           let hs = takeWhile (\<lambda>c. c \<noteq> CHR ''}'') (drop 1 rest)
           in append_utf8 [] (unat (unicode_value hs)) @ decode_escapes is_bytes (drop (length hs + 2) rest)
         else CHR ''u'' # decode_escapes is_bytes rest)
      else simple_escape e # decode_escapes is_bytes rest)"
  by pat_completeness auto
termination by (relation "measure (\<lambda>(is_bytes, s). length s)") auto

declare decode_escapes.simps [simp del]

definition triple_quote :: bytes where
  "triple_quote = [dquote, dquote, dquote]"

definition string_body :: "bytes \<Rightarrow> bytes" where
  "string_body token =
     (if 6 \<le> length token \<and> take 3 token = triple_quote \<and> drop (length token - 3) token = triple_quote then
        strip_triple (substr token 3 (length token - 6))
      else if 2 \<le> length token \<and> hd token = dquote \<and> last token = dquote then
        substr token 1 (length token - 2)
      else token)"

definition decode_string_literal :: "bytes \<Rightarrow> bytes" where
  "decode_string_literal token =
     (let raw = 2 \<le> length token \<and> token ! 0 = CHR ''r'' \<and> token ! 1 = dquote;
          is_bytes = \<not> raw \<and> 2 \<le> length token \<and> token ! 0 = CHR ''b'' \<and> token ! 1 = dquote;
          body = string_body (if raw \<or> is_bytes then drop 1 token else token)
      in if raw then body else decode_escapes is_bytes body)"

fun unescape_format_braces :: "bytes \<Rightarrow> bytes" where
  "unescape_format_braces [] = []"
| "unescape_format_braces [c] = [c]"
| "unescape_format_braces (c # d # cs) =
     (if c = CHR ''{'' \<and> d = CHR ''{'' \<or> c = CHR ''}'' \<and> d = CHR ''}''
      then c # unescape_format_braces cs else c # unescape_format_braces (d # cs))"

text \<open>
  The text between the fields of a formatted string: \<open>eval_formatted\<close> of
  \<open>src/interp/ops.cpp\<close> and \<open>emit_formatted\<close> of \<open>src/emit/text.cpp\<close> pass the token's own
  text through both decoders.
\<close>

definition format_text_value :: "bytes \<Rightarrow> bytes" where
  "format_text_value text = unescape_format_braces (decode_string_literal text)"

subsection \<open>Integer spellings are exact\<close>

definition digit_of :: "char \<Rightarrow> nat" where
  "digit_of c = (case literal_hex_value c of None \<Rightarrow> 0 | Some d \<Rightarrow> d)"

definition is_digit_text :: "nat \<Rightarrow> bytes \<Rightarrow> bool" where
  "is_digit_text base ds \<longleftrightarrow>
     list_all (\<lambda>c. c = CHR ''_'' \<or> (literal_hex_value c \<noteq> None \<and> digit_of c < base)) ds"

definition digits_of :: "bytes \<Rightarrow> nat list" where
  "digits_of ds = map digit_of (filter (\<lambda>c. c \<noteq> CHR ''_'') ds)"

text \<open>The number a digit text denotes in its base.\<close>

definition digits_value :: "nat \<Rightarrow> nat \<Rightarrow> nat list \<Rightarrow> nat" where
  "digits_value base v ds = foldl (\<lambda>v d. v * base + d) v ds"

definition stops_digits :: "bytes \<Rightarrow> bool" where
  "stops_digits sfx \<longleftrightarrow> sfx = [] \<or> hd sfx = CHR ''u'' \<or> hd sfx = CHR ''i''"

lemma digits_value_ge: "1 \<le> base \<Longrightarrow> v \<le> digits_value base v ds"
proof (induction ds arbitrary: v)
  case (Cons d ds)
  have "v \<le> v * base + d" using Cons.prems by (simp add: trans_le_add1)
  also have "\<dots> \<le> digits_value base (v * base + d) ds" using Cons by blast
  finally show ?case by (simp add: digits_value_def)
qed (simp add: digits_value_def)

lemma hex_value_bound: "literal_hex_value c = Some d \<Longrightarrow> d < 16"
  by (auto simp: literal_hex_value_def split: if_splits)

text \<open>The guard of the loop is exactly the overflow of the next value.\<close>

lemma overflow_guard:
  assumes "1 \<le> base" "base \<le> 16" "d < 16"
  shows "((- 1 - word_of_nat d) div word_of_nat base < (v :: 64 word)) = (2 ^ 64 \<le> unat v * base + d)"
proof -
  have "unat (- 1 - word_of_nat d :: 64 word) = unat (- 1 :: 64 word) - unat (word_of_nat d :: 64 word)"
    by (rule unat_sub) simp
  then have "unat (- 1 - word_of_nat d :: 64 word) = 2 ^ 64 - 1 - d"
    using assms(3) by (simp add: unat_of_nat unsigned_minus_1_eq_mask mask_eq_exp_minus_1)
  moreover have "unat (word_of_nat base :: 64 word) = base" using assms(2) by (simp add: unat_of_nat)
  ultimately have "((- 1 - word_of_nat d) div word_of_nat base < v) = ((2 ^ 64 - 1 - d) div base < unat v)"
    by (simp add: word_less_nat_alt unat_div)
  also have "\<dots> = (\<not> unat v * base \<le> 2 ^ 64 - 1 - d)"
    using assms(1) by (simp add: less_eq_div_iff_mult_less_eq flip: not_le)
  also have "\<dots> = (2 ^ 64 \<le> unat v * base + d)" using assms(3) by auto
  finally show ?thesis .
qed

lemma stops_loop:
  "stops_digits sfx \<Longrightarrow> int_digits_loop base sfx v any = Some (v, any, sfx)"
  by (cases sfx) (auto simp: stops_digits_def literal_hex_value_def)

lemma int_digits_loop_exact:
  assumes "1 \<le> base" "base \<le> 16" "is_digit_text base ds" "stops_digits sfx"
  shows "int_digits_loop (word_of_nat base) (ds @ sfx) v any =
    (if digits_value base (unat v) (digits_of ds) < 2 ^ 64
     then Some (word_of_nat (digits_value base (unat v) (digits_of ds)), any \<or> digits_of ds \<noteq> [], sfx) else None)"
  using assms(3)
proof (induction ds arbitrary: v any)
  case Nil
  then show ?case
    using stops_loop[OF assms(4)] unsigned_less[of v] by (simp add: digits_of_def digits_value_def)
next
  case (Cons c ds)
  show ?case
  proof (cases "c = CHR ''_''")
    case True
    then show ?thesis using Cons by (simp add: digits_of_def is_digit_text_def)
  next
    case False
    then obtain d where d: "literal_hex_value c = Some d" "digit_of c = d" "d < base"
      using Cons.prems by (auto simp: is_digit_text_def digit_of_def)
    have lt: "d < 16" by (rule hex_value_bound[OF d(1)])
    have small: "\<not> (word_of_nat base :: 64 word) \<le> word_of_nat d"
      using d(3) assms(2) by (simp add: word_le_nat_alt unat_of_nat)
    have ds: "digits_of (c # ds) = d # digits_of ds" using False d(2) by (simp add: digits_of_def)
    show ?thesis
    proof (cases "2 ^ 64 \<le> unat v * base + d")
      case True
      then have "2 ^ 64 \<le> digits_value base (unat v) (d # digits_of ds)"
        using digits_value_ge[OF assms(1), of "unat v * base + d" "digits_of ds"] by (simp add: digits_value_def)
      then show ?thesis
        using True False d(1) small overflow_guard[OF assms(1,2) lt, of v] by (simp add: ds Let_def)
    next
      case fits: False
      have "unat (v * word_of_nat base + word_of_nat d) = unat v * base + d"
        using fits assms(2) lt by (simp add: unat_word_ariths unat_of_nat not_le)
      then show ?thesis
        using fits False d(1) small overflow_guard[OF assms(1,2) lt, of v] Cons
        by (simp add: ds Let_def digits_value_def is_digit_text_def)
    qed
  qed
qed

definition radix_prefix :: "bytes \<Rightarrow> nat \<Rightarrow> bool" where
  "radix_prefix pre base \<longleftrightarrow>
     (pre, base) \<in> {([], 10), (''0x'', 16), (''0o'', 8), (''0b'', 2)}"

lemma int_base_prefix:
  assumes "radix_prefix pre base" "is_digit_text base ds" "stops_digits sfx" "digits_of ds \<noteq> []"
  shows "int_base (pre @ ds @ sfx) = (word_of_nat base, length pre)"
proof (cases "pre = []")
  case False
  then show ?thesis using assms(1) by (auto simp: radix_prefix_def int_base_def)
next
  case True
  then have base: "base = 10" using assms(1) by (auto simp: radix_prefix_def)
  have "(ds @ sfx) ! 1 \<notin> {CHR ''x'', CHR ''o'', CHR ''b''}" if "2 \<le> length (ds @ sfx)"
  proof (cases "1 < length ds")
    case True
    then have "ds ! 1 = CHR ''_'' \<or> (literal_hex_value (ds ! 1) \<noteq> None \<and> digit_of (ds ! 1) < 10)"
      using assms(2) base by (simp add: is_digit_text_def list_all_length)
    with True show ?thesis by (auto simp: nth_append literal_hex_value_def digit_of_def)
  next
    case False
    moreover have "ds \<noteq> []" using assms(4) by (auto simp: digits_of_def)
    ultimately have "length ds = 1" by (cases ds) auto
    then have "sfx \<noteq> []" "(ds @ sfx) ! 1 = hd sfx" using that by (cases sfx; simp add: nth_append)+
    then show ?thesis using assms(3) by (auto simp: stops_digits_def)
  qed
  then show ?thesis using True base by (auto simp: int_base_def)
qed

text \<open>
  C24: an integer literal, with its radix prefix, separators and suffix, decodes to exactly the
  number it spells when that is below \<open>2 ^ 64\<close> and is refused otherwise: the accumulator never
  wraps around.
\<close>

theorem parse_int_literal_exact:
  assumes "radix_prefix pre base" "is_digit_text base ds" "digits_of ds \<noteq> []" "stops_digits sfx"
  shows "parse_int_literal (pre @ ds @ sfx) =
    (if digits_value base 0 (digits_of ds) < 2 ^ 64
     then \<lparr>int_ok = True, int_value = word_of_nat (digits_value base 0 (digits_of ds)), int_suffix = sfx\<rparr> else no_int)"
proof -
  have base: "1 \<le> base" "base \<le> 16" using assms(1) by (auto simp: radix_prefix_def)
  have "ds \<noteq> []" using assms(3) by (auto simp: digits_of_def)
  then show ?thesis
    using int_digits_loop_exact[OF base assms(2,4), of 0 False] int_base_prefix[OF assms(1,2,4,3)] assms(3)
    by (simp add: parse_int_literal_def)
qed

lemma parse_int_literal_exact_witness:
  "parse_int_literal (''0x'' @ ''ff_10'' @ ''u16'') = \<lparr>int_ok = True, int_value = 0xFF10, int_suffix = ''u16''\<rparr>"
  using parse_int_literal_exact[of "''0x''" 16 "''ff_10''" "''u16''"]
  by (simp add: radix_prefix_def is_digit_text_def literal_hex_value_def digit_of_def digits_of_def
      stops_digits_def digits_value_def)

subsection \<open>Character literals\<close>

lemma or_shifted:
  "x < 64 \<Longrightarrow> push_bit 6 v OR x = v * 64 + (x::nat)" "x < 4096 \<Longrightarrow> push_bit 12 v OR x = v * 4096 + (x::nat)"
  "x < 262144 \<Longrightarrow> push_bit 18 v OR x = v * 262144 + (x::nat)"
  using or_low[of x 6 v] or_low[of x 12 v] or_low[of x 18 v] by simp_all

lemma char_of_utf8_encode:
  assumes "scalar_value c" "128 \<le> c"
  shows "char_of_utf8 (utf8_encode c) = Some c"
  using assms(1)
proof (cases rule: scalar_cases)
  case 2
  define x y where "x = c div 64" "y = c mod 64"
  then have xy: "utf8_encode c = [char_of (192 + x), char_of (128 + y)]" "x < 32" "y < 64" "c = x * 64 + y"
    using 2 encode2[of c] by (simp_all add: div_less_iff_less_mult)
  then show ?thesis
    by (simp add: char_of_utf8_def Let_def lead_classes low_masks utf8_bytes or_shifted)
next
  case 3
  define x y z where "x = c div 4096" "y = c div 64 mod 64" "z = c mod 64"
  then have xy: "utf8_encode c = [char_of (224 + x), char_of (128 + y), char_of (128 + z)]" "x < 16" "y < 64" "z < 64"
    "c = x * 4096 + y * 64 + z"
    using 3 encode3[of c] groups3[of c] by (simp_all add: div_less_iff_less_mult)
  then show ?thesis
    by (simp add: char_of_utf8_def Let_def lead_classes low_masks utf8_bytes or_shifted)
next
  case 4
  define x y z w where "x = c div 262144" "y = c div 4096 mod 64" "z = c div 64 mod 64" "w = c mod 64"
  then have xy: "utf8_encode c = [char_of (240 + x), char_of (128 + y), char_of (128 + z), char_of (128 + w)]"
    "x < 8" "y < 64" "z < 64" "w < 64" "c = x * 262144 + y * 4096 + z * 64 + w"
    using 4 encode4[of c] groups4[of c] by (simp_all add: div_less_iff_less_mult)
  then show ?thesis
    by (simp add: char_of_utf8_def Let_def lead_classes low_masks utf8_bytes or_shifted)
qed (use assms(2) in simp)

text \<open>
  C25: a character literal decodes to the scalar it holds: for every scalar value other than the
  backslash, the quoted UTF-8 bytes of the scalar are parsed back to it.
\<close>

theorem parse_char_literal_scalar:
  assumes "scalar_value c" "c \<noteq> 92"
  shows "parse_char_literal (squote # utf8_encode c @ [squote]) = Some c"
proof -
  let ?e = "utf8_encode c"
  have len: "1 \<le> length ?e" using length_utf8_encode[OF assms(1)] by simp
  have ne: "?e \<noteq> []" using codec.enc_nonempty[OF assms(1)] .
  have inner: "substr (squote # ?e @ [squote]) 1 (length (squote # ?e @ [squote]) - 2) = ?e"
    by (simp add: substr_def)
  have ends: "(squote # ?e @ [squote]) ! (length (squote # ?e @ [squote]) - 1) = squote"
    by (simp add: nth_append)
  have hd: "?e ! 0 \<in> set ?e" using len by (intro nth_mem) linarith
  note bytes = utf8_encode_bytes[OF assms(1) hd]
  show ?thesis
  proof (cases "c < 128")
    case True
    then have "?e ! 0 \<noteq> backslash" using bytes assms(2) by (auto simp: backslash_def)
    then show ?thesis
      using True bytes len inner ends by (simp add: parse_char_literal_def Let_def encode1)
  next
    case False
    then have "?e ! 0 \<noteq> backslash" "128 \<le> byte_value (?e ! 0)" using bytes by (auto simp: backslash_def)
    then show ?thesis
      using False len ne inner ends char_of_utf8_encode[OF assms(1)] by (simp add: parse_char_literal_def Let_def)
  qed
qed

lemma parse_char_literal_scalar_witness:
  "parse_char_literal (squote # utf8_encode 0x20AC @ [squote]) = Some 0x20AC"
  by (rule parse_char_literal_scalar) (simp_all add: scalar_value_def)

subsection \<open>String literals\<close>

text \<open>The pieces of a string's spelling, and the bytes each denotes.\<close>

datatype string_piece = Plain char | Named char | HexByte char char | Unicode bytes

fun spell_piece :: "string_piece \<Rightarrow> bytes" where
  "spell_piece (Plain c) = [c]"
| "spell_piece (Named e) = [backslash, e]"
| "spell_piece (HexByte h l) = [backslash, CHR ''x'', h, l]"
| "spell_piece (Unicode hs) = [backslash, CHR ''u'', CHR ''{''] @ hs @ [CHR ''}'']"

definition hex_text_value :: "bytes \<Rightarrow> nat" where
  "hex_text_value hs = digits_value 16 0 (map digit_of hs)"

fun piece_bytes :: "string_piece \<Rightarrow> bytes" where
  "piece_bytes (Plain c) = [c]"
| "piece_bytes (Named e) = [simple_escape e]"
| "piece_bytes (HexByte h l) = [char_of (digit_of h * 16 + digit_of l)]"
| "piece_bytes (Unicode hs) = utf8_encode (hex_text_value hs)"

fun piece_ok :: "bool \<Rightarrow> string_piece \<Rightarrow> bool" where
  "piece_ok is_bytes (Plain c) = (c \<noteq> backslash \<and> c \<noteq> dquote)"
| "piece_ok is_bytes (Named e) = (e \<in> {CHR ''n'', CHR ''r'', CHR ''t'', CHR ''0'', backslash, dquote, squote})"
| "piece_ok is_bytes (HexByte h l) = (is_bytes \<and> literal_hex_value h \<noteq> None \<and> literal_hex_value l \<noteq> None)"
| "piece_ok is_bytes (Unicode hs) = (list_all (\<lambda>c. literal_hex_value c \<noteq> None) hs \<and> length hs \<le> 6)"

lemma decode_plain: "c \<noteq> backslash \<Longrightarrow> decode_escapes b (c # s) = c # decode_escapes b s"
  by (cases s) (simp_all add: decode_escapes.simps)

lemma digits_value_less: "list_all (\<lambda>d. d < base) ds \<Longrightarrow> digits_value base v ds < (v + 1) * base ^ length ds"
proof (induction ds arbitrary: v)
  case (Cons d ds)
  have "digits_value base (v * base + d) ds < (v * base + d + 1) * base ^ length ds" using Cons by simp
  also have "\<dots> \<le> ((v + 1) * base) * base ^ length ds" using Cons.prems by (intro mult_right_mono) auto
  finally have "digits_value base (v * base + d) ds < (v + 1) * base ^ length (d # ds)" by (simp add: algebra_simps)
  then show ?case by (simp add: digits_value_def)
qed (simp add: digits_value_def)

lemma unicode_value_exact:
  assumes "list_all (\<lambda>c. literal_hex_value c \<noteq> None) hs" "length hs \<le> 6"
  shows "unat (unicode_value hs) = hex_text_value hs"
proof -
  have step: "v * 16 + (case literal_hex_value c of None \<Rightarrow> 0 | Some d \<Rightarrow> word_of_nat d) =
      (word_of_nat (n * 16 + digit_of c) :: 32 word)" if "v = word_of_nat n" for v c n
    using that by (simp add: digit_of_def split: option.split)
  have eq: "foldl (\<lambda>cp c. cp * 16 + (case literal_hex_value c of None \<Rightarrow> 0 | Some d \<Rightarrow> word_of_nat d)) v hs =
      (word_of_nat (digits_value 16 n (map digit_of hs)) :: 32 word)" if "v = word_of_nat n" for v n
    using that
  proof (induction hs arbitrary: v n)
    case (Cons c hs)
    show ?case using Cons.IH[OF step[OF Cons.prems]] by (simp add: digits_value_def)
  qed (simp add: digits_value_def)
  have "digit_of c < 16" for c
    using hex_value_bound by (auto simp: digit_of_def split: option.split)
  then have "hex_text_value hs < 16 ^ length hs"
    using digits_value_less[of 16 "map digit_of hs" 0] by (simp add: hex_text_value_def list_all_iff)
  also have "\<dots> \<le> 16 ^ 6" using assms(2) by (intro power_increasing) simp_all
  finally have "hex_text_value hs < 2 ^ 32" by simp
  then show ?thesis using eq[of 0 0] by (simp add: unicode_value_def hex_text_value_def unat_of_nat)
qed

lemma decode_piece:
  assumes "piece_ok b p"
  shows "decode_escapes b (spell_piece p @ s) = piece_bytes p @ decode_escapes b s"
proof (cases p)
  case (Plain c)
  then show ?thesis using assms by (simp add: decode_plain)
next
  case (Named e)
  then show ?thesis using assms by (auto simp: decode_escapes.simps(3) control_chars)
next
  case (HexByte h l)
  then show ?thesis using assms by (auto simp: decode_escapes.simps(3) digit_of_def)
next
  case (Unicode hs)
  have no: "CHR ''}'' \<notin> set hs"
    using assms Unicode by (auto simp: list_all_iff literal_hex_value_def split: if_splits)
  then have "takeWhile (\<lambda>c. c \<noteq> CHR ''}'') (hs @ CHR ''}'' # s) = hs"
    by (induction hs) auto
  then show ?thesis
    using assms Unicode unicode_value_exact[of hs] by (simp add: decode_escapes.simps(3) Let_def)
qed

lemma decode_pieces:
  "list_all (piece_ok b) ps \<Longrightarrow> decode_escapes b (concat (map spell_piece ps)) = concat (map piece_bytes ps)"
  by (induction ps) (simp_all add: decode_piece decode_escapes.simps(1))

text \<open>A quoted spelling is not mistaken for a triple-quoted one.\<close>

lemma spelled_no_quote: "piece_ok b p \<Longrightarrow> spell_piece p \<noteq> [] \<and> hd (spell_piece p) \<noteq> dquote"
  by (cases p) (auto simp: control_chars)

lemma spelled_hd:
  assumes "list_all (piece_ok b) ps"
  shows "concat (map spell_piece ps) = [] \<or> hd (concat (map spell_piece ps)) \<noteq> dquote"
proof (cases ps)
  case (Cons p qs)
  then show ?thesis using assms spelled_no_quote[of b p] by (simp add: hd_append)
qed simp

lemma string_body_quoted:
  assumes "s = [] \<or> hd s \<noteq> dquote"
  shows "string_body (dquote # s @ [dquote]) = s"
proof (cases s)
  case Nil
  then show ?thesis by (simp add: string_body_def substr_def)
next
  case (Cons c cs)
  then have "take 3 (dquote # s @ [dquote]) \<noteq> triple_quote"
    using assms by (cases cs) (auto simp: triple_quote_def)
  then show ?thesis by (simp add: string_body_def substr_def)
qed



subsection \<open>Triple-quoted text\<close>

definition indent_line :: "nat \<Rightarrow> bytes \<Rightarrow> bytes" where
  "indent_line k line = replicate k (CHR '' '') @ line @ [lf]"

lemma drop_crs_no_cr: "cr \<notin> set s \<Longrightarrow> drop_crs s = s"
  by (induction s rule: drop_crs.induct) auto

lemma rfind_below_append:
  "c \<notin> set s2 \<Longrightarrow> rfind_below (s1 @ c # s2) c (length s1 + 1 + k) = Some (length s1)" if "k \<le> length s2"
  using that by (induction k) (auto simp: nth_append nth_Cons' in_set_conv_nth)

lemma closing_indent_lines:
  assumes "lines \<noteq> []"
  shows "closing_indent (concat (map (indent_line k) lines) @ replicate k (CHR '' '')) = k"
proof -
  obtain ls l where lines: "lines = ls @ [l]" using assms by (metis rev_exhaust)
  let ?pre = "concat (map (indent_line k) ls) @ replicate k (CHR '' '') @ l"
  let ?text = "?pre @ lf # replicate k (CHR '' '')"
  have whole: "concat (map (indent_line k) lines) @ replicate k (CHR '' '') = ?text"
    by (simp add: lines indent_line_def)
  have "lf \<notin> set (replicate k (CHR '' ''))" by (auto simp: lf_def)
  then have "rfind_below ?text lf (length ?pre + 1 + k) = Some (length ?pre)"
    by (intro rfind_below_append) simp_all
  moreover have "length ?text = length ?pre + 1 + k" by simp
  ultimately have found: "rfind_below ?text lf (length ?text) = Some (length ?pre)" by metis
  have drop: "drop (length ?pre + 1) ?text = replicate k (CHR '' '')" by simp
  have "takeWhile (\<lambda>c. c = CHR '' '') (replicate k (CHR '' '')) = replicate k (CHR '' '')"
    by (simp add: takeWhile_eq_all_conv)
  then show ?thesis
    unfolding whole closing_indent_def found option.case Let_def drop by simp
qed

lemma find_from_drop:
  assumes "drop pos s = l @ c # rest" "c \<notin> set l"
  shows "find_from s c pos = Some (pos + length l)"
  using assms
proof (induction l arbitrary: pos)
  case Nil
  then have "pos < length s" "s ! pos = c"
    by (metis append_Nil drop_all list.discI not_less, metis append_Nil drop_all hd_drop_conv_nth list.discI list.sel(1) not_less)
  then show ?case by (simp add: find_from.simps)
next
  case (Cons x l)
  have len: "pos < length s" using Cons.prems(1) by (metis append_Cons drop_all list.discI not_less)
  then have x: "s ! pos = x" "drop (Suc pos) s = l @ c # rest"
    using Cons.prems(1) drop_eq_Cons[OF len] by simp_all
  then have "find_from s c (Suc pos) = Some (Suc pos + length l)" using Cons by simp
  then show ?case using len x Cons.prems(2) by (subst find_from.simps) auto
qed

lemma find_from_none: "c \<notin> set (drop pos s) \<Longrightarrow> find_from s c pos = None"
proof (cases "find_from s c pos")
  case (Some k)
  assume "c \<notin> set (drop pos s)"
  moreover have "s ! k \<in> set (drop pos s)"
    using find_from_SomeD[OF Some] nth_mem[of "k - pos" "drop pos s"] by (simp add: diff_less_mono)
  ultimately show ?thesis using find_from_SomeD[OF Some] by simp
qed

lemma skip_indent_line: "skip_indent k (replicate k (CHR '' '') @ line) = line"
  by (simp add: skip_indent_def takeWhile_append takeWhile_eq_all_conv)

lemma strip_lines_indented:
  assumes "pos \<le> length text" "drop pos text = concat (map (indent_line k) lines) @ replicate k (CHR '' '')"
    and "\<forall>l \<in> set lines. lf \<notin> set l"
  shows "strip_lines k text pos = concat (map (\<lambda>l. l @ [lf]) lines)"
  using assms
proof (induction lines arbitrary: pos)
  case Nil
  have "lf \<notin> set (replicate k (CHR '' ''))" by (auto simp: lf_def)
  then have "find_from text lf pos = None" using Nil by (intro find_from_none) simp
  then show ?case using Nil skip_indent_line[of k "[]"] by (subst strip_lines.simps) simp
next
  case (Cons l ls)
  let ?rest = "concat (map (indent_line k) ls) @ replicate k (CHR '' '')"
  let ?l = "replicate k (CHR '' '') @ l"
  have d: "drop pos text = ?l @ lf # ?rest" using Cons.prems(2) by (simp add: indent_line_def[of k l])
  have "lf \<notin> set ?l" using Cons.prems(3) by (auto simp: lf_def)
  then have found: "find_from text lf pos = Some (pos + length ?l)" by (rule find_from_drop[OF d])
  have "drop (pos + length ?l + 1) text = drop (length ?l + 1) (drop pos text)" by (simp add: add_ac)
  also have "\<dots> = ?rest" by (simp add: d)
  finally have next_line: "drop (pos + length ?l + 1) text = ?rest" .
  have "pos + length ?l + 1 \<le> length text" using arg_cong[OF d, of length] Cons.prems(1) by simp
  then have "strip_lines k text (pos + length ?l + 1) = concat (map (\<lambda>l. l @ [lf]) ls)"
    using Cons next_line by simp
  moreover have "substr text pos (pos + length ?l - pos) = ?l" by (simp add: substr_def d)
  ultimately show ?case
    using Cons.prems(1) found skip_indent_line[of k l] by (subst strip_lines.simps) simp
qed



subsection \<open>Braces of formatted text\<close>

definition double_braces :: "bytes \<Rightarrow> bytes" where
  "double_braces s = concat (map (\<lambda>c. if c = CHR ''{'' \<or> c = CHR ''}'' then [c, c] else [c]) s)"

lemma unescape_not_brace: "c \<noteq> CHR ''{'' \<Longrightarrow> c \<noteq> CHR ''}'' \<Longrightarrow> unescape_format_braces (c # s) = c # unescape_format_braces s"
  by (cases s) simp_all

text \<open>
  Doubling the braces of a text and unescaping it as formatted text gives the text back.
\<close>

theorem unescape_double_braces: "unescape_format_braces (double_braces s) = s"
proof (induction s)
  case (Cons c s)
  then show ?case
    by (cases "c = CHR ''{'' \<or> c = CHR ''}''") (auto simp: double_braces_def unescape_not_brace)
qed (simp add: double_braces_def)

lemma format_text_drops_quotes:
  "format_text_value ([dquote] @ ''hi'' @ [dquote]) = ''hi''"
  by (simp add: format_text_value_def decode_string_literal_def string_body_def substr_def triple_quote_def Let_def
      decode_plain decode_escapes.simps(1) control_chars)

lemma format_text_merges_escaped_braces:
  "format_text_value ([backslash] @ ''u{7b}'' @ [backslash] @ ''u{7b}'') = ''{''"
proof -
  have v: "unat (unicode_value ''7b'') = 123"
    by (subst unicode_value_exact) (simp_all add: literal_hex_value_def hex_text_value_def digits_value_def digit_of_def)
  have "decode_string_literal ([backslash] @ ''u{7b}'' @ [backslash] @ ''u{7b}'') = ''{{''"
    by (simp add: decode_string_literal_def string_body_def triple_quote_def Let_def decode_escapes.simps v append_utf8_def
        control_chars char_of_eq)
  then show ?thesis by (simp add: format_text_value_def)
qed

text \<open>
  Two texts of formatted strings do not denote what they spell. Text between two fields of a
  triple-quoted formatted string may begin and end with a quote; the decoder takes the two quotes
  for the delimiters of a literal and drops them. And two escaped braces, decoded before the
  doubled braces are undone, become one.
\<close>

theorem format_text_not_its_spelling:
  "format_text_value ([dquote] @ ''hi'' @ [dquote]) = ''hi'' \<and>
   format_text_value ([backslash] @ ''u{7b}'' @ [backslash] @ ''u{7b}'') = ''{''"
  by (intro conjI format_text_drops_quotes format_text_merges_escaped_braces)

end
