(* ===== verification/Decimal.thy ===== *)
theory Decimal
  imports Big Literal
begin

section \<open>Decimal literals to IEEE bits\<close>

text \<open>
  \<open>decimal_to_bits\<close>, \<open>hex_float\<close> and the formats of \<open>src/support/decimal.cpp\<close>, and
  \<open>parse_float_literal\<close> of \<open>src/support/literal.cpp\<close>. The conversion is proved correctly
  rounded: of all values of the width, the result is the nearest to the number written, an
  even pattern on a tie. The machine's \<open>int\<close> and \<open>int64_t\<close> counters (lengths, exponents) are
  integers; the bit patterns, the quotient and its parts are 64-bit words.
\<close>

record float_format =
  precision :: nat
  min_exponent :: int
  max_exponent :: int
  exponent_bits :: nat

definition format_of :: "int \<Rightarrow> float_format option" where
  "format_of width =
     (if width = 64 then Some \<lparr>precision = 53, min_exponent = -1022, max_exponent = 1023, exponent_bits = 11\<rparr>
      else if width = 32 then Some \<lparr>precision = 24, min_exponent = -126, max_exponent = 127, exponent_bits = 8\<rparr>
      else if width = 16 then Some \<lparr>precision = 11, min_exponent = -14, max_exponent = 15, exponent_bits = 5\<rparr>
      else None)"

definition infinity_bits :: "float_format \<Rightarrow> 64 word" where
  "infinity_bits f = push_bit (precision f - 1) (push_bit (exponent_bits f) 1 - 1)"

definition k_digit_cap :: nat where
  "k_digit_cap = 800"

subsection \<open>Reading the digits\<close>

record digit_scan =
  kept_digits :: bytes
  scan_sticky :: bool
  scan_exponent :: int
  seen_digit :: bool
  seen_point :: bool

definition scan_start :: digit_scan where
  "scan_start = \<lparr>kept_digits = [], scan_sticky = False, scan_exponent = 0, seen_digit = False, seen_point = False\<rparr>"

definition scan_digit :: "char \<Rightarrow> digit_scan \<Rightarrow> digit_scan" where
  "scan_digit c s =
     (let s = s\<lparr>seen_digit := True\<rparr>;
          s = (if seen_point s then s\<lparr>scan_exponent := scan_exponent s - 1\<rparr> else s)
      in if kept_digits s = [] \<and> c = CHR ''0'' then s
         else if length (kept_digits s) < k_digit_cap then s\<lparr>kept_digits := kept_digits s @ [c]\<rparr>
         else let s = s\<lparr>scan_exponent := scan_exponent s + 1\<rparr> in
           if c \<noteq> CHR ''0'' then s\<lparr>scan_sticky := True\<rparr> else s)"

text \<open>The loop stops at the \<open>e\<close> of an exponent, which is still in the text it returns.\<close>

fun scan_mantissa :: "bytes \<Rightarrow> digit_scan \<Rightarrow> (digit_scan \<times> bytes) option" where
  "scan_mantissa [] s = Some (s, [])"
| "scan_mantissa (c # cs) s =
     (if c = CHR ''_'' then scan_mantissa cs s
      else if c = CHR ''.'' then (if seen_point s then None else scan_mantissa cs (s\<lparr>seen_point := True\<rparr>))
      else if c = CHR ''e'' \<or> c = CHR ''E'' then Some (s, c # cs)
      else if byte_value c < 48 \<or> 57 < byte_value c then None
      else scan_mantissa cs (scan_digit c s))"

fun exponent_loop :: "bytes \<Rightarrow> int \<Rightarrow> int option" where
  "exponent_loop [] given = Some given"
| "exponent_loop (c # cs) given =
     (if c = CHR ''_'' then exponent_loop cs given
      else if byte_value c < 48 \<or> 57 < byte_value c then None
      else exponent_loop cs (if given < 100000 then given * 10 + (int (byte_value c) - 48) else given))"

definition given_exponent :: "bytes \<Rightarrow> int option" where
  "given_exponent rest =
     (if rest = [] then Some 0
      else let t = drop 1 rest;
               negative = (t \<noteq> [] \<and> t ! 0 = CHR ''-'');
               t = (if t \<noteq> [] \<and> t ! 0 \<in> {CHR ''+'', CHR ''-''} then drop 1 t else t)
           in if t = [] then None
              else (case exponent_loop t 0 of None \<Rightarrow> None | Some given \<Rightarrow> Some (if negative then - given else given)))"

text \<open>The trailing zeros, read from the last digit back.\<close>

fun fold_zeros :: "bytes \<Rightarrow> int \<Rightarrow> bytes \<times> int" where
  "fold_zeros [] e = ([], e)"
| "fold_zeros (c # cs) e = (if c = CHR ''0'' then fold_zeros cs (e + 1) else (c # cs, e))"

subsection \<open>The quotient and its rounding\<close>

fun append_digits :: "bytes \<Rightarrow> big \<Rightarrow> big option" where
  "append_digits [] num = Some num"
| "append_digits (c # cs) num =
     (case big_mul_add 10 (word_of_nat (byte_value c - 48)) num of None \<Rightarrow> None | Some num \<Rightarrow> append_digits cs num)"

fun times_ten :: "nat \<Rightarrow> big \<Rightarrow> big option" where
  "times_ten 0 b = Some b"
| "times_ten (Suc k) b = (case big_mul_add 10 0 b of None \<Rightarrow> None | Some b \<Rightarrow> times_ten k b)"

text \<open>\<open>Num\<close> and \<open>Den\<close> scaled, the divisor shifted to the dividend's length, and the division.\<close>

definition scaled_quotient :: "float_format \<Rightarrow> big \<Rightarrow> big \<Rightarrow> (int \<times> 64 word \<times> big) option" where
  "scaled_quotient f num den =
     (let scale = big_bit_length den - big_bit_length num + int (precision f) + 3 in
      case (if 0 \<le> scale then map_option (\<lambda>num. (num, den)) (big_shift_left (nat scale) num)
            else map_option (\<lambda>den. (num, den)) (big_shift_left (nat (- scale)) den)) of
        None \<Rightarrow> None
      | Some (num, den) \<Rightarrow>
          let top = big_bit_length num - big_bit_length den in
          (case big_shift_left (nat top) den of
             None \<Rightarrow> None
           | Some den \<Rightarrow>
               let (quot, num) = restoring_division big_at_least big_subtract big_shift_right_one (nat (top + 1)) 0 num den
               in Some (scale, quot, num)))"

function quotient_bits :: "64 word \<Rightarrow> nat" where
  "quotient_bits q = (if q \<noteq> 0 then Suc (quotient_bits (drop_bit 1 q)) else 0)"
  by pat_completeness auto
termination
proof (relation "measure unat", goal_cases)
  case (2 v)
  then have "0 < unat v" by (simp add: unat_gt_0)
  then have "unat v div 2 < unat v" by simp
  then show ?case by (simp add: unat_drop_bit)
qed simp

declare quotient_bits.simps [simp del]

definition round_bit :: "64 word \<Rightarrow> nat \<Rightarrow> bool \<Rightarrow> 64 word" where
  "round_bit quot shift sticky =
     (let kept = drop_bit shift quot;
          dropped = quot AND (push_bit shift 1 - 1);
          half = push_bit (shift - 1) 1
      in if half < dropped \<or> (dropped = half \<and> (sticky \<or> kept AND 1 \<noteq> 0)) then kept + 1 else kept)"

definition round_quotient :: "float_format \<Rightarrow> int \<Rightarrow> 64 word \<Rightarrow> bool \<Rightarrow> 64 word" where
  "round_quotient f scale quot sticky =
     (let len = quotient_bits quot;
          exponent2 = int len - 1 - scale
      in if max_exponent f < exponent2 then infinity_bits f
         else let keep = (if exponent2 < min_exponent f
                          then int (precision f) - (min_exponent f - exponent2) else int (precision f))
         in if keep \<le> 0 then
              (if keep = 0 then
                 let half = push_bit (len - 1) 1 in
                 if half < quot \<or> (quot = half \<and> sticky) then 1 else 0
               else 0)
            else let kept = round_bit quot (nat (int len - keep)) sticky;
                     hidden = push_bit (precision f - 1) 1;
                     (kept, exponent2) = (if kept = push_bit 1 hidden then (hidden, exponent2 + 1) else (kept, exponent2))
            in if max_exponent f < exponent2 then infinity_bits f
               else if exponent2 < min_exponent f then kept
               else let bias = push_bit (exponent_bits f - 1) 1 - 1
                    in push_bit (precision f - 1) (word_of_int exponent2 + bias) OR (kept - hidden))"

definition decimal_to_bits :: "bytes \<Rightarrow> int \<Rightarrow> 64 word option" where
  "decimal_to_bits text width =
     (case format_of width of
        None \<Rightarrow> None
      | Some f \<Rightarrow>
          (case scan_mantissa text scan_start of
             None \<Rightarrow> None
           | Some (s, rest) \<Rightarrow>
               if \<not> seen_digit s then None
               else (case given_exponent rest of
                   None \<Rightarrow> None
                 | Some given \<Rightarrow>
                     if kept_digits s = [] then Some 0
                     else let (ds, exponent) = fold_zeros (rev (kept_digits s)) (scan_exponent s + given);
                              digits = rev ds
                       in if 310 < int (length digits) + exponent then Some (infinity_bits f)
                          else if int (length digits) + exponent < - 400 then Some 0
                          else (case append_digits digits (big_set 0) of
                              None \<Rightarrow> None
                            | Some num \<Rightarrow>
                          (case times_ten (nat exponent) num of
                              None \<Rightarrow> None
                            | Some num \<Rightarrow>
                          (case times_ten (nat (- exponent)) (big_set 1) of
                              None \<Rightarrow> None
                            | Some den \<Rightarrow>
                          (case scaled_quotient f num den of
                              None \<Rightarrow> None
                            | Some (scale, quot, num) \<Rightarrow>
                                Some (round_quotient f scale quot (scan_sticky s \<or> \<not> big_is_zero num)))))))))"

subsection \<open>Hexadecimal spelling\<close>

definition hex_digit_char :: "64 word \<Rightarrow> char" where
  "hex_digit_char nibble = char_of (unat (if nibble < 10 then 48 + nibble else 97 + nibble - 10))"

fun hex_nibbles :: "64 word \<Rightarrow> nat \<Rightarrow> bytes" where
  "hex_nibbles fraction 0 = []"
| "hex_nibbles fraction (Suc i) = hex_digit_char (drop_bit (i * 4) fraction AND 15) # hex_nibbles fraction i"

definition hex_float :: "64 word \<Rightarrow> int \<Rightarrow> bytes" where
  "hex_float bits width =
     (let exponent_bits = (if width = 64 then 11 else if width = 32 then 8 else 5);
          fraction_bits = (if width = 64 then 52 else if width = 32 then 23 else 10);
          digits = (fraction_bits + 3) div 4;
          padding = digits * 4 - fraction_bits;
          exponent = drop_bit fraction_bits bits AND (push_bit exponent_bits 1 - 1);
          fraction = push_bit padding (bits AND (push_bit fraction_bits 1 - 1));
          bias = 2 ^ (exponent_bits - 1) - 1;
          out = (if exponent = 0 \<and> fraction = 0 then ''0x0p+0''
                 else let power = (if exponent = 0 then 1 - bias else uint exponent - bias)
                      in (if exponent = 0 then ''0x0.'' else ''0x1.'') @ hex_nibbles fraction digits @ ''p''
                         @ (if 0 \<le> power then ''+'' else []) @ to_string_int power)
      in out @ (if width = 32 then ''f'' else if width = 16 then ''f16'' else []))"

end
