(* ===== verification/Rounding.thy ===== *)
theory Rounding
  imports Complex_Main Decimal
begin

section \<open>What correct rounding means, and that the quotient is rounded correctly\<close>

text \<open>
  The specification of the conversion: the number a bit pattern stands for, and the pattern
  nearest to a number, an even one on a tie. The pattern of infinity counts as the power of two
  past the largest finite value, which is how IEEE 754 decides an overflow when rounding. The
  second half proves that \<open>round_quotient\<close> finds that pattern from the quotient and the sticky bit.
\<close>

definition hidden :: "float_format \<Rightarrow> nat" where
  "hidden f = 2 ^ (precision f - 1)"

definition bits_value :: "float_format \<Rightarrow> nat \<Rightarrow> rat" where
  "bits_value f b =
     (let q = hidden f; e = b div q; m = b mod q in
      if e = 0 then of_nat m * 2 powi (min_exponent f - int (precision f) + 1)
      else of_nat (q + m) * 2 powi (min_exponent f + int e - int (precision f)))"

definition is_nearest :: "float_format \<Rightarrow> rat \<Rightarrow> nat \<Rightarrow> bool" where
  "is_nearest f x b \<longleftrightarrow> b \<le> unat (infinity_bits f) \<and>
     (\<forall>b' \<le> unat (infinity_bits f). b' \<noteq> b \<longrightarrow>
        \<bar>x - bits_value f b\<bar> < \<bar>x - bits_value f b'\<bar>
        \<or> \<bar>x - bits_value f b\<bar> = \<bar>x - bits_value f b'\<bar> \<and> even b)"

text \<open>Rounding a number of half units: \<open>exact\<close> when nothing is left below the half.\<close>

definition round_half :: "nat \<Rightarrow> bool \<Rightarrow> nat" where
  "round_half h exact = (if even h \<or> (exact \<and> even (h div 2)) then h div 2 else h div 2 + 1)"

text \<open>The unit of the \<open>n\<close>-th binade, counted from the subnormal one.\<close>

definition unit_at :: "float_format \<Rightarrow> nat \<Rightarrow> rat" where
  "unit_at f n = 2 powi (min_exponent f - int (precision f) + 1 + int n)"

lemma unit_at_pos [simp]: "0 < unit_at f n"
  by (simp add: unit_at_def)

lemma unit_at_Suc: "unit_at f (Suc n) = 2 * unit_at f n"
proof -
  define k where "k = min_exponent f - int (precision f) + 1 + int n"
  have "min_exponent f - int (precision f) + 1 + int (Suc n) = k + 1" by (simp add: k_def)
  then have "unit_at f (Suc n) = 2 powi (k + 1)" "unit_at f n = 2 powi k" by (simp_all only: unit_at_def k_def)
  then show ?thesis by (simp add: power_int_add)
qed

lemma bits_value_at:
  assumes "n = 0 \<or> hidden f \<le> k" "k \<le> 2 * hidden f"
  shows "bits_value f (n * hidden f + k) = of_nat k * unit_at f n"
proof -
  define q :: nat where "q = hidden f"
  have q: "0 < q" by (simp add: q_def hidden_def)
  have val: "bits_value f (e * q + m) = (if e = 0 then of_nat m * unit_at f 0 else of_nat (q + m) * unit_at f (e - 1))"
    if "m < q" for e m
  proof -
    have "unit_at f (e - 1) = 2 powi (min_exponent f + int e - int (precision f))" if "e \<noteq> 0"
      unfolding unit_at_def using that by (intro arg_cong[of _ _ "power_int 2"]) simp
    moreover have "unit_at f 0 = 2 powi (min_exponent f - int (precision f) + 1)" by (simp add: unit_at_def)
    moreover have "(e * q + m) div q = e" "(e * q + m) mod q = m" using that q by simp_all
    ultimately show ?thesis by (simp only: bits_value_def Let_def flip: q_def) auto
  qed
  consider "k < q" | "q \<le> k" "k < 2 * q" | "k = 2 * q" using assms(2) by (fold q_def) linarith
  then show ?thesis
  proof cases
    case 1
    then have "n = 0" using assms(1) by (fold q_def) simp
    then show ?thesis using val[of k 0] 1 by (simp flip: q_def)
  next
    case 2
    then have "n * q + k = Suc n * q + (k - q)" by simp
    then show ?thesis using val[of "k - q" "Suc n"] 2 by (simp flip: q_def)
  next
    case 3
    then have "n * q + k = Suc (Suc n) * q + 0" by simp
    then have "bits_value f (n * q + k) = of_nat q * unit_at f (Suc n)"
      using val[of 0 "Suc (Suc n)"] q by (simp only:) simp
    then show ?thesis unfolding q_def 3 by (simp add: unit_at_Suc)
  qed
qed

lemma pattern_split:
  fixes b :: nat
  obtains n k where "b = n * hidden f + k" "n = 0 \<or> hidden f \<le> k" "k < 2 * hidden f"
proof -
  define q :: nat where "q = hidden f"
  have m: "b mod q < q" by (simp add: q_def hidden_def)
  show thesis
  proof (cases "b div q")
    case 0
    then have "b < q" using m by (simp add: div_eq_0_iff)
    then show thesis using that[of 0 b] by (simp add: q_def)
  next
    case (Suc e)
    then have "b = e * q + (q + b mod q)" using div_mult_mod_eq[of b q] by simp
    then show thesis using that[of e "q + b mod q"] m by (simp add: q_def)
  qed
qed

lemma bits_value_less_Suc: "bits_value f b < bits_value f (Suc b)"
proof -
  obtain n k where b: "b = n * hidden f + k" "n = 0 \<or> hidden f \<le> k" "k < 2 * hidden f"
    by (rule pattern_split)
  have "bits_value f b = of_nat k * unit_at f n" "bits_value f (Suc b) = of_nat (Suc k) * unit_at f n"
    using bits_value_at[of n f k] bits_value_at[of n f "Suc k"] b by auto
  then show ?thesis by (simp add: mult_strict_right_mono)
qed

lemma bits_value_mono: "b \<le> c \<Longrightarrow> bits_value f b \<le> bits_value f c"
  by (rule lift_Suc_mono_le[of "bits_value f"]) (auto intro: less_imp_le bits_value_less_Suc)

lemma bits_value_strict: "b < c \<Longrightarrow> bits_value f b < bits_value f c"
  by (rule lift_Suc_mono_less[of "bits_value f"]) (auto intro: bits_value_less_Suc)

lemma bits_value_zero [simp]: "bits_value f 0 = 0"
  using bits_value_at[of 0 f 0] by simp

text \<open>Rounding to a multiple of the unit is within half a unit, and half a unit away only from an even one.\<close>

lemma round_half_close:
  fixes x g :: rat
  assumes "of_nat h * g / 2 \<le> x" "x < (of_nat h + 1) * g / 2" "exact \<longleftrightarrow> x = of_nat h * g / 2" "0 < g"
  shows "\<bar>x - of_nat (round_half h exact) * g\<bar> < g / 2
    \<or> \<bar>x - of_nat (round_half h exact) * g\<bar> = g / 2 \<and> even (round_half h exact)"
proof -
  define j where "j = h div 2"
  define y where "y = of_nat j * g"
  consider "h = 2 * j" | "h = 2 * j + 1" by (cases "even h") (auto simp: j_def)
  then show ?thesis
  proof cases
    case 1
    then have "round_half h exact = j" by (simp add: round_half_def)
    moreover have "y \<le> x" "x < y + g / 2" using assms(1,2) 1 by (simp_all add: y_def field_simps)
    ultimately show ?thesis by (simp add: flip: y_def)
  next
    case 2
    then have lo: "y + g / 2 \<le> x" "x < y + g" "exact \<longleftrightarrow> x = y + g / 2"
      using assms(1-3) by (simp_all add: y_def field_simps)
    show ?thesis
    proof (cases "exact \<and> even j")
      case True
      then have "round_half h exact = j" using 2 by (simp add: round_half_def)
      then show ?thesis using True lo assms(4) by (simp add: flip: y_def)
    next
      case False
      then have r: "round_half h exact = Suc j" using 2 by (simp add: round_half_def)
      have "of_nat (Suc j) * g = y + g" by (simp add: y_def algebra_simps)
      then have "\<bar>x - of_nat (round_half h exact) * g\<bar> = y + g - x" using r lo(2) by simp
      then show ?thesis using lo False r assms(4) by (cases exact) auto
    qed
  qed
qed

lemma round_half_range: "h < 4 * q \<Longrightarrow> round_half h exact \<le> 2 * q" "2 * q \<le> h \<Longrightarrow> q \<le> round_half h exact"
  by (auto simp: round_half_def)

text \<open>The neighbours of a pattern are at least a unit away, unless the number is on the other side.\<close>

lemma round_half_nearest:
  assumes "2 \<le> precision f" "n = 0 \<or> 2 * hidden f \<le> h" "h < 4 * hidden f"
    "of_nat h * unit_at f n / 2 \<le> x" "x < (of_nat h + 1) * unit_at f n / 2" "exact \<longleftrightarrow> x = of_nat h * unit_at f n / 2"
    "b = n * hidden f + round_half h exact" "b' \<noteq> b"
  shows "\<bar>x - bits_value f b\<bar> < \<bar>x - bits_value f b'\<bar>
    \<or> \<bar>x - bits_value f b\<bar> = \<bar>x - bits_value f b'\<bar> \<and> even b"
proof -
  define q :: nat where "q = hidden f"
  define g where "g = unit_at f n"
  define m where "m = round_half h exact"
  have g: "0 < g" by (simp add: g_def)
  have "even q" using assms(1) by (simp add: q_def hidden_def)
  then have even: "even b \<longleftrightarrow> even m" unfolding assms(7) by (fold q_def m_def) simp
  have m: "m \<le> 2 * q" "n = 0 \<or> q \<le> m"
    using assms(2,3) round_half_range(1)[of h q exact] round_half_range(2)[of q h exact] by (auto simp: m_def q_def)
  have at: "bits_value f (n * q + k) = of_nat k * g" if "n = 0 \<or> q \<le> k" "k \<le> 2 * q" for k
    using bits_value_at[of n f k] that by (simp add: q_def g_def)
  have vb: "bits_value f b = of_nat m * g" using at[OF m(2,1)] assms(7) by (simp add: m_def q_def)
  have close: "\<bar>x - of_nat m * g\<bar> < g / 2 \<or> \<bar>x - of_nat m * g\<bar> = g / 2 \<and> even m"
    using round_half_close[OF assms(4-6)] by (simp add: m_def g_def)
  show ?thesis
  proof (cases "b < b'")
    case True
    have "of_nat (Suc m) * g \<le> bits_value f (Suc b)"
    proof (cases "m < 2 * q")
      case True
      then show ?thesis using at[of "Suc m"] m assms(7) by (auto simp: m_def q_def)
    next
      case False
      then have "Suc b = Suc n * q + Suc q" using m assms(7) by (simp add: m_def q_def)
      moreover have "Suc q \<le> 2 * q" by (simp add: q_def hidden_def)
      ultimately have "bits_value f (Suc b) = of_nat (Suc q) * (2 * g)"
        using bits_value_at[of "Suc n" f "Suc q"] by (simp add: unit_at_Suc g_def flip: q_def)
      moreover have "m = 2 * q" using False m by simp
      ultimately show ?thesis using g by (simp add: algebra_simps)
    qed
    also have "\<dots> \<le> bits_value f b'" using True by (intro bits_value_mono) simp
    finally have "of_nat m * g + g \<le> bits_value f b'" by (simp add: algebra_simps)
    then show ?thesis using close g by (auto simp: vb even abs_if split: if_splits)
  next
    case False
    then have lt: "b' < b" using assms(8) by simp
    show ?thesis
    proof (cases "n = 0 \<or> q < m")
      case True
      have "1 \<le> m" using True lt assms(7) by (cases m) (auto simp: m_def q_def)
      moreover have "b - 1 = n * q + (m - 1)" using \<open>1 \<le> m\<close> assms(7) by (simp add: m_def q_def)
      moreover have "n = 0 \<or> q \<le> m - 1" "m - 1 \<le> 2 * q" using True m by auto
      ultimately have "bits_value f (b - 1) = (of_nat m - 1) * g" using at[of "m - 1"] by (simp add: of_nat_diff)
      moreover have "bits_value f b' \<le> bits_value f (b - 1)" using lt by (intro bits_value_mono) simp
      ultimately have "bits_value f b' \<le> of_nat m * g - g" by (simp add: algebra_simps)
      then show ?thesis using close g by (auto simp: vb even abs_if split: if_splits)
    next
      case False
      then have eq: "m = q" "2 * q \<le> h" using m assms(2) by (auto simp: q_def)
      have "of_nat (2 * q) * g \<le> of_nat h * g" using eq(2) g by (intro mult_right_mono) (simp_all only: of_nat_le_iff less_imp_le)
      then have "2 * (of_nat m * g) \<le> of_nat h * g" by (simp add: eq(1) mult.assoc)
      moreover have "of_nat h * g / 2 \<le> x" using assms(4) by (simp only: g_def)
      ultimately have "of_nat m * g \<le> x" by linarith
      then show ?thesis using bits_value_strict[OF lt, of f] vb by simp
    qed
  qed
qed

subsection \<open>The words of the rounding\<close>

text \<open>What the three formats have in common.\<close>

definition format_ok :: "float_format \<Rightarrow> bool" where
  "format_ok f \<longleftrightarrow> 2 \<le> precision f \<and> precision f \<le> 53 \<and> 2 \<le> exponent_bits f \<and> exponent_bits f \<le> 11
     \<and> max_exponent f = 2 ^ (exponent_bits f - 1) - 1 \<and> min_exponent f = 1 - max_exponent f"

lemma format_of_ok: "format_of w = Some f \<Longrightarrow> format_ok f"
  by (auto simp: format_of_def format_ok_def split: if_splits)

lemma unat_push_bit: "unat w * 2 ^ k < 2 ^ 64 \<Longrightarrow> unat (push_bit k (w :: 64 word)) = unat w * 2 ^ k"
  by (subst unsigned_push_bit_eq) (simp add: push_bit_eq_mult take_bit_nat_eq_self)

lemma unat_push_bit_1: "k < 64 \<Longrightarrow> unat (push_bit k (1 :: 64 word)) = 2 ^ k"
  using unat_push_bit[of 1 k] power_strict_increasing[of k 64 "2::nat"] by simp

lemma unat_mask: "k < 64 \<Longrightarrow> unat (push_bit k (1 :: 64 word) - 1) = 2 ^ k - 1"
proof -
  assume k: "k < 64"
  have "(1 :: 64 word) \<le> push_bit k 1"
    by (simp only: word_le_nat_alt unat_push_bit_1[OF k]) simp
  then show ?thesis by (simp add: unat_sub unat_push_bit_1[OF k] del: push_bit_of_1)
qed

lemma unat_and_mask: "k < 64 \<Longrightarrow> unat (w AND (push_bit k (1 :: 64 word) - 1)) = unat w mod 2 ^ k"
  by (simp only: unsigned_and_eq unat_mask mask_eq_exp_minus_1[symmetric] take_bit_eq_mask[symmetric] take_bit_eq_mod)

lemma unat_fields:
  assumes "unat v < 2 ^ k" "unat w * 2 ^ k + unat v < 2 ^ 64"
  shows "unat (push_bit k w OR v :: 64 word) = unat w * 2 ^ k + unat v"
  using or_low[OF assms(1), of "unat w"] unat_push_bit[of w k] assms(2)
  by (simp add: unsigned_or_eq push_bit_eq_mult)

lemma quotient_bits_nbits: "quotient_bits w = nbits (unat w)"
proof (induction w rule: quotient_bits.induct)
  case (1 w)
  show ?case
  proof (cases "w = 0")
    case True
    then show ?thesis by (simp add: quotient_bits.simps)
  next
    case False
    then have "unat w \<noteq> 0" by (simp add: unat_eq_0)
    then show ?thesis
      using 1[OF False] False by (simp add: quotient_bits.simps[of w] nbits.simps[of "unat w"] unat_drop_bit)
  qed
qed

text \<open>The bit above the ones dropped is the lowest bit of the number of half units.\<close>

lemma half_units:
  fixes Q :: nat
  assumes "1 \<le> s"
  defines "r \<equiv> Q mod 2 ^ (s - 1)" and "h \<equiv> Q div 2 ^ (s - 1)"
  shows "Q div 2 ^ s = h div 2"
    "2 ^ (s - 1) < Q mod 2 ^ s \<longleftrightarrow> odd h \<and> 0 < r"
    "Q mod 2 ^ s = 2 ^ (s - 1) \<longleftrightarrow> odd h \<and> r = 0"
proof -
  define t where "t = (2::nat) ^ (s - 1)"
  have s: "2 ^ s = t * 2" using assms(1) by (simp add: t_def flip: power_Suc2)
  have t: "0 < t" "r < t" by (simp_all add: t_def r_def)
  show "Q div 2 ^ s = h div 2" by (simp add: s h_def t_def div_mult2_eq)
  have m: "Q mod 2 ^ s = t * (h mod 2) + r" by (simp add: s h_def r_def t_def mod_mult2_eq)
  show "2 ^ (s - 1) < Q mod 2 ^ s \<longleftrightarrow> odd h \<and> 0 < r" "Q mod 2 ^ s = 2 ^ (s - 1) \<longleftrightarrow> odd h \<and> r = 0"
    using t unfolding m t_def[symmetric] by (cases "even h"; simp add: even_iff_mod_2_eq_zero odd_iff_mod_2_eq_one)+
qed

lemma round_bit_val:
  assumes "1 \<le> s" "s < 64"
  shows "unat (round_bit quot s sticky)
    = round_half (unat quot div 2 ^ (s - 1)) (unat quot mod 2 ^ (s - 1) = 0 \<and> \<not> sticky)"
proof -
  define h where "h = unat quot div 2 ^ (s - 1)"
  define r where "r = unat quot mod 2 ^ (s - 1)"
  note hu = half_units[OF assms(1), of "unat quot", folded h_def r_def]
  have half: "unat (push_bit (s - 1) (1 :: 64 word)) = 2 ^ (s - 1)" using assms by (intro unat_push_bit_1) simp
  have dropped: "unat (quot AND (push_bit s 1 - 1)) = unat quot mod 2 ^ s" by (rule unat_and_mask[OF assms(2)])
  have kept: "unat (drop_bit s quot) = h div 2" by (simp add: unat_drop_bit hu(1))
  have odd: "drop_bit s quot AND 1 \<noteq> 0 \<longleftrightarrow> odd (h div 2)"
    using kept by (simp add: and_one_eq odd_iff_mod_2_eq_one unat_eq_0[symmetric] unat_mod del: unat_eq_0)
  have cond: "push_bit (s - 1) 1 < quot AND (push_bit s 1 - 1)
      \<or> (quot AND (push_bit s 1 - 1) = push_bit (s - 1) 1 \<and> (sticky \<or> drop_bit s quot AND 1 \<noteq> 0))
    \<longleftrightarrow> odd h \<and> (0 < r \<or> sticky \<or> odd (h div 2))"
    unfolding odd unfolding word_less_nat_alt word_unat_eq_iff half dropped using hu(2,3) neq0_conv[of r] by blast
  have "h div 2 < 2 ^ 63"
  proof -
    have "h div 2 = unat quot div 2 ^ s" by (simp add: hu(1))
    also have "\<dots> \<le> unat quot div 2 ^ 1" using assms(1) by (intro div_le_mono2 power_increasing) auto
    also have "\<dots> < 2 ^ 63"
    proof -
      have "unat quot < 2 ^ 64" using unsigned_less[of quot] by simp
      then show ?thesis by simp
    qed
    finally show ?thesis .
  qed
  then have suc: "unat (drop_bit s quot + 1) = h div 2 + 1" by (simp add: unat_word_ariths kept)
  show ?thesis
    unfolding round_bit_def Let_def cond round_half_def h_def[symmetric] r_def[symmetric]
    using kept suc by auto
qed

subsection \<open>The rounded pattern\<close>

lemma nbits_le: "n < 2 ^ k \<Longrightarrow> nbits n \<le> k"
proof (rule ccontr)
  assume a: "n < 2 ^ k" "\<not> nbits n \<le> k"
  then have "0 < n" by (cases n) auto
  then have "2 ^ (nbits n - 1) \<le> n" using nbits_bounds by blast
  moreover have "(2::nat) ^ k \<le> 2 ^ (nbits n - 1)" using a(2) by (intro power_increasing) auto
  ultimately show False using a(1) by linarith
qed

lemma infinity_bits_val:
  assumes "format_ok f"
  shows "unat (infinity_bits f) = (2 ^ exponent_bits f - 1) * hidden f" "(2 ^ exponent_bits f - 1) * hidden f < 2 ^ 63 * 2"
proof -
  have "(2::nat) ^ exponent_bits f \<le> 2 ^ 11" "hidden f \<le> 2 ^ 52" using assms
    unfolding hidden_def format_ok_def by (intro power_increasing; linarith)+
  then have "(2 ^ exponent_bits f - 1) * hidden f \<le> 2 ^ 11 * 2 ^ 52" by (intro mult_le_mono) auto
  then show lt: "(2 ^ exponent_bits f - 1) * hidden f < 2 ^ 63 * 2" by simp
  have "exponent_bits f < 64" using assms by (simp add: format_ok_def)
  note m = unat_mask[OF this]
  show "unat (infinity_bits f) = (2 ^ exponent_bits f - 1) * hidden f"
    unfolding infinity_bits_def using lt by (subst unat_push_bit) (simp_all only: m hidden_def, simp)
qed

text \<open>The biased exponent above a normal mantissa.\<close>

lemma pack_normal:
  fixes kept :: "64 word"
  assumes "format_ok f" "min_exponent f \<le> e" "e \<le> max_exponent f" "hidden f \<le> unat kept" "unat kept < 2 * hidden f"
  shows "unat (push_bit (precision f - 1) (word_of_int e + (push_bit (exponent_bits f - 1) 1 - 1)) OR (kept - push_bit (precision f - 1) 1))
    = nat (e - min_exponent f) * hidden f + unat kept"
    "nat (e - min_exponent f) * hidden f + unat kept < (2 ^ exponent_bits f - 1) * hidden f"
proof -
  define q where "q = hidden f"
  define eb where "eb = exponent_bits f"
  have ok: "2 \<le> eb" "eb \<le> 11" "precision f \<le> 53" "max_exponent f = 2 ^ (eb - 1) - 1" "min_exponent f = 1 - max_exponent f"
    using assms(1) by (simp_all add: format_ok_def eb_def)
  have two: "(2::int) ^ eb = 2 * 2 ^ (eb - 1)" using ok(1) by (simp flip: power_Suc)
  let ?n = "nat (e - min_exponent f)"
  have n: "int ?n = e - min_exponent f" using assms(2) by simp
  have "int ?n + 2 \<le> 2 ^ eb - 1" using n ok(4,5) assms(3) two by linarith
  then have le: "?n + 2 \<le> 2 ^ eb - 1"
  proof -
    assume a: "int ?n + 2 \<le> 2 ^ eb - 1"
    then have "int (?n + 3) \<le> int (2 ^ eb)" by simp
    then show ?thesis by (simp only: of_nat_le_iff)
  qed
  have "(?n + 2) * q \<le> (2 ^ eb - 1) * q" using le by (rule mult_le_mono1)
  moreover have "?n * q + unat kept < (?n + 2) * q" using assms(5) by (simp add: q_def)
  ultimately show lt: "nat (e - min_exponent f) * hidden f + unat kept < (2 ^ exponent_bits f - 1) * hidden f"
    unfolding q_def eb_def by linarith
  have bias: "push_bit (eb - 1) 1 - 1 = (word_of_int (max_exponent f) :: 64 word)"
  proof -
    have "unat (push_bit (eb - 1) 1 - 1 :: 64 word) = 2 ^ (eb - 1) - 1" using ok by (intro unat_mask) simp
    moreover have "w = word_of_nat (unat w)" for w :: "64 word" by simp
    ultimately have "push_bit (eb - 1) 1 - 1 = (word_of_nat (2 ^ (eb - 1) - 1) :: 64 word)" by metis
    moreover have "int (2 ^ (eb - 1) - 1) = max_exponent f" by (simp add: ok(4) of_nat_diff)
    ultimately show ?thesis by (metis of_int_of_nat_eq)
  qed
  have sum: "word_of_int e + (push_bit (eb - 1) 1 - 1) = (word_of_nat (Suc ?n) :: 64 word)"
  proof -
    have "e + max_exponent f = int (Suc ?n)" using n ok(5) by simp
    then show ?thesis unfolding bias by (metis of_int_add of_int_of_nat_eq)
  qed
  have "?n + 2 \<le> 2 ^ 11" using le power_increasing[of eb 11 "2::nat"] ok(2) by simp
  then have "Suc ?n < 2 ^ 64" by simp
  moreover have "unat (word_of_nat k :: 64 word) = k" if "k < 2 ^ 64" for k using that by (simp add: unat_of_nat)
  ultimately have w: "unat (word_of_nat (Suc ?n) :: 64 word) = Suc ?n" by blast
  have h: "unat (push_bit (precision f - 1) (1 :: 64 word)) = q" using ok(3) by (subst unat_push_bit_1) (simp_all add: q_def hidden_def)
  have "push_bit (precision f - 1) 1 \<le> kept" using assms(4) by (simp only: word_le_nat_alt h q_def)
  then have v: "unat (kept - push_bit (precision f - 1) 1) = unat kept - q" by (simp only: unat_sub h)
  have "unat (word_of_nat (Suc ?n) :: 64 word) * 2 ^ (precision f - 1) + unat (kept - push_bit (precision f - 1) 1) = ?n * q + unat kept"
    unfolding w v using assms(4) by (simp add: q_def hidden_def)
  moreover have "unat (kept - push_bit (precision f - 1) 1) < 2 ^ (precision f - 1)"
    unfolding v using assms(5) by (simp add: q_def hidden_def) 
  ultimately show "unat (push_bit (precision f - 1) (word_of_int e + (push_bit (exponent_bits f - 1) 1 - 1)) OR (kept - push_bit (precision f - 1) 1))
      = nat (e - min_exponent f) * hidden f + unat kept"
    using lt infinity_bits_val(2)[OF assms(1)] unfolding eb_def[symmetric] sum q_def
    by (subst unat_fields) simp_all
qed

text \<open>
  The rounding of a quotient of at least \<open>precision + 3\<close> bits, whatever its scale: the
  half units of the binade the value falls in are the high bits of the quotient.
\<close>

definition quotient_exponent :: "float_format \<Rightarrow> int \<Rightarrow> nat \<Rightarrow> int" where
  "quotient_exponent f scale Q = max (int (nbits Q) - 1 - scale) (min_exponent f)"

definition quotient_shift :: "float_format \<Rightarrow> int \<Rightarrow> nat \<Rightarrow> nat" where
  "quotient_shift f scale Q = nat (quotient_exponent f scale Q - int (precision f) + 1 + scale)"

definition rounded_pattern :: "float_format \<Rightarrow> int \<Rightarrow> nat \<Rightarrow> bool \<Rightarrow> nat" where
  "rounded_pattern f scale Q sticky =
     (let s = quotient_shift f scale Q in
      min ((2 ^ exponent_bits f - 1) * hidden f)
        (nat (quotient_exponent f scale Q - min_exponent f) * hidden f
         + round_half (Q div 2 ^ (s - 1)) (Q mod 2 ^ (s - 1) = 0 \<and> \<not> sticky)))"

lemma quotient_shift_pos:
  assumes "format_ok f" "precision f + 3 \<le> nbits Q"
  shows "4 \<le> quotient_shift f scale Q + 1" "int (quotient_shift f scale Q) = quotient_exponent f scale Q - int (precision f) + 1 + scale"
  using assms by (auto simp: quotient_shift_def quotient_exponent_def max_def)

lemma format_exponents:
  "format_ok f \<Longrightarrow> nat (max_exponent f + 1 - min_exponent f + 1) = 2 ^ exponent_bits f - 1"
proof -
  assume ok: "format_ok f"
  then have "(2::int) ^ exponent_bits f = 2 * 2 ^ (exponent_bits f - 1)" by (simp add: format_ok_def flip: power_Suc)
  then have "max_exponent f + 1 - min_exponent f + 1 = int (2 ^ exponent_bits f - 1)"
    using ok by (simp add: format_ok_def of_nat_diff)
  then show ?thesis by (simp only: nat_int)
qed

text \<open>The number of half units fits the binade.\<close>

lemma half_units_range:
  fixes scale :: int
  assumes "format_ok f" "precision f + 3 \<le> nbits Q"
  defines "s \<equiv> quotient_shift f scale Q"
  shows "Q div 2 ^ (s - 1) < 4 * hidden f"
    "min_exponent f \<le> int (nbits Q) - 1 - scale \<Longrightarrow> 2 * hidden f \<le> Q div 2 ^ (s - 1)"
    "int (nbits Q) - 1 - scale < min_exponent f \<Longrightarrow> Q div 2 ^ (s - 1) < 2 * hidden f"
    "int (nbits Q) - 1 - scale < min_exponent f - int (precision f) \<Longrightarrow> Q div 2 ^ (s - 1) = 0"
    "int (nbits Q) - 1 - scale = min_exponent f - int (precision f) \<Longrightarrow> Q div 2 ^ (s - 1) = 1 \<and> s = nbits Q"
proof -
  note s = quotient_shift_pos[OF assms(1,2), of scale, folded s_def]
  have "0 < Q" using assms(2) by (cases Q) auto
  note b = nbits_bounds[OF this]
  have p: "1 \<le> precision f" using assms(1) by (simp add: format_ok_def)
  have twice: "2 * hidden f = 2 ^ precision f" "4 * hidden f = 2 ^ (precision f + 1)"
    using p by (cases "precision f"; simp add: hidden_def)+
  have below: "Q div 2 ^ (s - 1) < 2 ^ k" if "nbits Q \<le> k + (s - 1)" for k
  proof -
    have "Q < 2 ^ nbits Q" using b by blast
    also have "\<dots> \<le> 2 ^ (k + (s - 1))" using that by (intro power_increasing) auto
    finally show ?thesis by (simp add: power_add less_mult_imp_div_less)
  qed
  have above: "2 ^ k \<le> Q div 2 ^ (s - 1)" if "k + (s - 1) \<le> nbits Q - 1" for k
  proof -
    have "(2::nat) ^ (k + (s - 1)) \<le> 2 ^ (nbits Q - 1)" using that by (intro power_increasing) auto
    then have "2 ^ k * 2 ^ (s - 1) \<le> Q" using b by (simp add: power_add)
    then show ?thesis by (simp add: less_eq_div_iff_mult_less_eq)
  qed
  have q: "quotient_exponent f scale Q = max (int (nbits Q) - 1 - scale) (min_exponent f)" by (simp add: quotient_exponent_def)
  show "Q div 2 ^ (s - 1) < 4 * hidden f"
    unfolding twice using s q by (intro below) linarith
  show "min_exponent f \<le> int (nbits Q) - 1 - scale \<Longrightarrow> 2 * hidden f \<le> Q div 2 ^ (s - 1)"
    unfolding twice using s q by (intro above) linarith
  show "int (nbits Q) - 1 - scale < min_exponent f \<Longrightarrow> Q div 2 ^ (s - 1) < 2 * hidden f"
    unfolding twice using s q by (intro below) linarith
  show "int (nbits Q) - 1 - scale < min_exponent f - int (precision f) \<Longrightarrow> Q div 2 ^ (s - 1) = 0"
    using s q below[of 0] by simp
  assume e: "int (nbits Q) - 1 - scale = min_exponent f - int (precision f)"
  then have "s = nbits Q" using s q p by linarith
  then show "Q div 2 ^ (s - 1) = 1 \<and> s = nbits Q" using below[of 1] above[of 0] b by simp
qed

text \<open>The code's branches all compute the rounded pattern.\<close>

lemma round_quotient_val:
  assumes ok: "format_ok f" and len: "precision f + 3 \<le> nbits (unat quot)"
  shows "unat (round_quotient f scale quot sticky) = rounded_pattern f scale (unat quot) sticky"
proof -
  define Q where "Q = unat quot"
  define L where "L = nbits Q"
  define e where "e = int L - 1 - scale"
  define s where "s = quotient_shift f scale Q"
  define n where "n = nat (quotient_exponent f scale Q - min_exponent f)"
  define h where "h = Q div 2 ^ (s - 1)"
  define m where "m = round_half h (Q mod 2 ^ (s - 1) = 0 \<and> \<not> sticky)"
  define top where "top = (2 ^ exponent_bits f - 1) * hidden f"
  have Q: "Q < 2 ^ 64" "precision f + 3 \<le> nbits Q" using unsigned_less[of quot] len by (simp_all add: Q_def)
  have L: "quotient_bits quot = L" "L \<le> 64" using nbits_le[OF Q(1)] by (simp_all add: quotient_bits_nbits Q_def L_def)
  note s = quotient_shift_pos[OF ok Q(2), of scale, folded s_def]
  note h = half_units_range[OF ok Q(2), of scale, folded s_def L_def, folded h_def e_def]
  have mr: "m \<le> 2 * hidden f" "2 * hidden f \<le> h \<Longrightarrow> hidden f \<le> m" "h < 2 * hidden f \<Longrightarrow> m \<le> hidden f"
    unfolding m_def using h(1) by (auto intro: round_half_range) (auto simp: round_half_def)
  have goal: "rounded_pattern f scale (unat quot) sticky = min top (n * hidden f + m)"
    by (simp add: rounded_pattern_def Let_def n_def s_def h_def m_def top_def flip: Q_def)
  have inf: "unat (infinity_bits f) = top" "top < 2 ^ 64" using infinity_bits_val[OF ok] by (simp_all add: top_def)
  have qe: "quotient_exponent f scale Q = max e (min_exponent f)" by (simp add: quotient_exponent_def L_def e_def)
  have exps: "nat (max_exponent f + 1 - min_exponent f + 1) = 2 ^ exponent_bits f - 1" by (rule format_exponents[OF ok])
  have p: "2 \<le> precision f" "precision f \<le> 53" "2 \<le> exponent_bits f" "min_exponent f \<le> max_exponent f" "0 < hidden f"
    using ok by (auto simp: format_ok_def hidden_def self_le_power intro: order.trans[OF _ self_le_power])
  have inf_pos: "hidden f \<le> top" "1 \<le> top"
  proof -
    have "(2::nat) ^ 2 \<le> 2 ^ exponent_bits f" using p(3) by (intro power_increasing) auto
    then have "1 * hidden f \<le> top" unfolding top_def by (intro mult_le_mono1) simp
    then show "hidden f \<le> top" "1 \<le> top" using p(5) by simp_all
  qed
  have kept: "unat (round_bit quot s sticky) = m" if "s < 64"
    using round_bit_val[of s quot sticky] s(1) that by (simp add: m_def h_def Q_def)
  define hw :: "64 word" where "hw = push_bit (precision f - 1) 1"
  define hw2 where "hw2 = push_bit 1 hw"
  have hid: "unat hw = hidden f"
    using p unfolding hw_def by (subst unat_push_bit_1) (simp_all add: hidden_def)
  have "hidden f \<le> 2 ^ 52" unfolding hidden_def using p by (intro power_increasing) auto
  then have twice: "unat hw2 = 2 * hidden f"
    unfolding hw2_def using hid by (subst unat_push_bit) simp_all
  have carry: "round_bit quot s sticky = hw2 \<longleftrightarrow> m = 2 * hidden f" if "s < 64"
    by (simp only: word_unat_eq_iff kept[OF that] twice)
  note rq = round_quotient_def[of f scale quot sticky, unfolded Let_def L(1), folded e_def hw_def, folded hw2_def]
  consider (over) "max_exponent f < e" | (tiny) "e < min_exponent f - int (precision f)"
    | (half) "e = min_exponent f - int (precision f)"
    | (sub) "min_exponent f - int (precision f) < e" "e < min_exponent f"
    | (norm) "min_exponent f \<le> e" "e \<le> max_exponent f" by linarith
  then show ?thesis
  proof cases
    case over
    have "nat (max_exponent f + 1 - min_exponent f + 1) \<le> n + 1" using over p(4) unfolding n_def qe by simp
    then have "2 ^ exponent_bits f - 1 \<le> n + 1" by (simp only: exps)
    then have "top \<le> (n + 1) * hidden f" unfolding top_def by (rule mult_le_mono1)
    moreover have "hidden f \<le> m" using mr(2) h(2) over p(4) by simp
    ultimately have "top \<le> n * hidden f + m" by simp
    then show ?thesis
      using over goal by (simp add: round_quotient_def L Let_def inf e_def)
  next
    case tiny
    then have "h = 0" using h(4) by simp
    then have "m = 0" "n = 0" using tiny by (simp_all add: m_def round_half_def n_def qe)
    then show ?thesis
      using tiny p(4) goal by (simp add: round_quotient_def L Let_def e_def)
  next
    case half
    then have "h = 1" "s = L" using h(5) by auto
    moreover have "n = 0" using half by (simp add: n_def qe)
    moreover have "1 \<le> L" using Q(2) by (simp add: L_def)
    then have w: "unat (push_bit (L - 1) (1 :: 64 word)) = 2 ^ (L - 1)" using L(2) by (intro unat_push_bit_1) simp
    moreover have "Q div 2 ^ (L - 1) = 1" using \<open>h = 1\<close> \<open>s = L\<close> by (simp add: h_def)
    then have "Q = 2 ^ (L - 1) + Q mod 2 ^ (L - 1)" by (metis mult_div_mod_eq mult.right_neutral)
    then have "push_bit (L - 1) 1 < quot \<or> (quot = push_bit (L - 1) 1 \<and> sticky) \<longleftrightarrow> \<not> (Q mod 2 ^ (L - 1) = 0 \<and> \<not> sticky)"
      unfolding word_less_nat_alt word_unat_eq_iff w Q_def[symmetric] by (cases "Q mod 2 ^ (L - 1) = 0") auto
    moreover have "1 \<le> top" using inf_pos by simp
    ultimately show ?thesis
      using half p(2,4) goal by (simp add: round_quotient_def L(1) Let_def e_def[symmetric] m_def round_half_def del: push_bit_of_1) blast
  next
    case sub
    then have "int s = int L - (int (precision f) - (min_exponent f - e))" using s(2) by (simp add: qe e_def)
    then have sh: "nat (int L - (int (precision f) - (min_exponent f - e))) = s" "s < 64" using L(2) sub by linarith+
    have "m \<le> hidden f" "n = 0" using mr(3) h(3) sub by (simp_all add: n_def qe)
    then have "m \<noteq> 2 * hidden f" "m \<le> top" using p(5) inf_pos by simp_all
    then show ?thesis
      using goal sub p(4) \<open>n = 0\<close> kept[OF sh(2)] carry[OF sh(2)]
      unfolding rq by (simp add: sh(1))
  next
    case norm
    then have "int s = int L - int (precision f)" using s(2) by (simp add: qe e_def)
    then have sh: "nat (int L - int (precision f)) = s" "s < 64" using L(2) p(1) by linarith+
    have n: "n = nat (e - min_exponent f)" using norm by (simp add: n_def qe)
    have m: "hidden f \<le> m" "m \<le> 2 * hidden f" using mr h(2) norm by simp_all
    show ?thesis
    proof (cases "m = 2 * hidden f")
      case False
      then have "unat (round_bit quot s sticky) < 2 * hidden f" "hidden f \<le> unat (round_bit quot s sticky)"
        using m kept[OF sh(2)] by simp_all
      note pack = pack_normal[OF ok norm this(2,1), folded hw_def]
      have "n * hidden f + m < top" using pack(2) by (simp only: n kept[OF sh(2)] top_def)
      then show ?thesis
        using goal norm p(1) pack(1) carry[OF sh(2)] False kept[OF sh(2)] n
        unfolding rq by (simp add: sh(1))
    next
      case True
      then have total: "n * hidden f + m = (n + 2) * hidden f" by simp
      show ?thesis
      proof (cases "e = max_exponent f")
        case at_max: True
        then have "n + 2 = 2 ^ exponent_bits f - 1" using exps norm by (simp add: n)
        then have "n * hidden f + m = top" unfolding total top_def by (simp only:)
        then show ?thesis
          using goal norm p(1) carry[OF sh(2)] True inf(1) at_max
          unfolding rq by (simp add: sh(1))
      next
        case False
        then have "min_exponent f \<le> e + 1" "e + 1 \<le> max_exponent f" using norm by simp_all
        note pack = pack_normal[OF ok this, of hw, unfolded hid, folded hw_def, OF order.refl]
        have n1: "nat (e + 1 - min_exponent f) = n + 1" using norm n by simp
        have pk: "nat (e + 1 - min_exponent f) * hidden f + hidden f = n * hidden f + m" unfolding n1 True by simp
        have "n * hidden f + m < top" using pack(2) p(5) by (simp add: pk top_def)
        then show ?thesis
          using goal norm p(1) False pack(1) p(5) carry[OF sh(2)] True pk
          unfolding rq by (simp add: sh(1))
      qed
    qed
  qed
qed

text \<open>Every pattern nearest to a number, among all of them, is nearest when capped at infinity.\<close>

lemma is_nearest_capped:
  assumes "format_ok f"
    "\<And>b'. b' \<noteq> b \<Longrightarrow> \<bar>x - bits_value f b\<bar> < \<bar>x - bits_value f b'\<bar>
      \<or> \<bar>x - bits_value f b\<bar> = \<bar>x - bits_value f b'\<bar> \<and> even b"
  shows "is_nearest f x (min ((2 ^ exponent_bits f - 1) * hidden f) b)"
proof (cases "b \<le> (2 ^ exponent_bits f - 1) * hidden f")
  case True
  then show ?thesis using assms(2) by (simp add: is_nearest_def infinity_bits_val(1)[OF assms(1)])
next
  case False
  define top where "top = (2 ^ exponent_bits f - 1) * hidden f"
  have lt: "top < b" using False by (simp add: top_def)
  then have v: "bits_value f top < bits_value f b" by (rule bits_value_strict)
  have "\<bar>x - bits_value f b\<bar> \<le> \<bar>x - bits_value f top\<bar>" using assms(2)[of top] lt by auto
  then have x: "bits_value f top < x" using v by (auto simp: abs_if split: if_splits)
  have "\<bar>x - bits_value f top\<bar> < \<bar>x - bits_value f b'\<bar>" if "b' \<le> top" "b' \<noteq> top" for b'
    using bits_value_strict[of b' top f] that x by simp
  then have "is_nearest f x top"
    unfolding is_nearest_def infinity_bits_val(1)[OF assms(1)] top_def[symmetric] by simp
  then show ?thesis using lt unfolding top_def[symmetric] by simp
qed

text \<open>The rounded pattern is nearest to every number between the same two half units.\<close>

lemma rounded_pattern_nearest:
  fixes scale :: int
  assumes "format_ok f" "precision f + 3 \<le> nbits Q"
  defines "n \<equiv> nat (quotient_exponent f scale Q - min_exponent f)" and "s \<equiv> quotient_shift f scale Q"
  assumes "of_nat (Q div 2 ^ (s - 1)) * unit_at f n / 2 \<le> x" "x < (of_nat (Q div 2 ^ (s - 1)) + 1) * unit_at f n / 2"
    "Q mod 2 ^ (s - 1) = 0 \<and> \<not> sticky \<longleftrightarrow> x = of_nat (Q div 2 ^ (s - 1)) * unit_at f n / 2"
  shows "is_nearest f x (rounded_pattern f scale Q sticky)"
proof -
  define h where "h = Q div 2 ^ (s - 1)"
  define exact where "exact \<longleftrightarrow> Q mod 2 ^ (s - 1) = 0 \<and> \<not> sticky"
  note range = half_units_range[OF assms(1,2), of scale, folded s_def, folded h_def]
  have p: "2 \<le> precision f" using assms(1) by (simp add: format_ok_def)
  have n: "n = 0 \<or> 2 * hidden f \<le> h" using range(2) by (auto simp: n_def quotient_exponent_def max_def)
  have pat: "rounded_pattern f scale Q sticky = min ((2 ^ exponent_bits f - 1) * hidden f) (n * hidden f + round_half h exact)"
    by (simp add: rounded_pattern_def Let_def n_def h_def exact_def flip: s_def)
  show ?thesis
    unfolding pat
    using round_half_nearest[OF p n range(1) assms(5-7)[folded h_def exact_def] refl]
    by (intro is_nearest_capped[OF assms(1)]) (simp_all only: exact_def)
qed

text \<open>The half unit, as a power of two relative to the scale of the quotient.\<close>

lemma half_unit:
  assumes "format_ok f" "precision f + 3 \<le> nbits Q"
  shows "unit_at f (nat (quotient_exponent f scale Q - min_exponent f)) / 2 * 2 powi scale
    = 2 ^ (quotient_shift f scale Q - 1)"
proof -
  define s where "s = quotient_shift f scale Q"
  note s = quotient_shift_pos[OF assms, of scale, folded s_def]
  have n: "int (nat (quotient_exponent f scale Q - min_exponent f)) = quotient_exponent f scale Q - min_exponent f"
    by (simp add: quotient_exponent_def)
  have "min_exponent f - int (precision f) + 1 + int (nat (quotient_exponent f scale Q - min_exponent f)) = int (s - 1) + 1 - scale"
    using s unfolding n by linarith
  then have "unit_at f (nat (quotient_exponent f scale Q - min_exponent f)) = 2 powi (int (s - 1) + 1 - scale)"
    by (simp only: unit_at_def)
  also have "\<dots> = 2 ^ (s - 1) * 2 / 2 powi scale" by (simp add: power_int_add power_int_diff)
  finally show ?thesis by (simp flip: s_def)
qed

end
