(* ===== verification/DecimalProof.thy ===== *)
theory DecimalProof
  imports Rounding
begin

section \<open>Decimal literals are correctly rounded\<close>

text \<open>
  The conversion end to end: the digits kept stand for the number written up to the digits past
  the cap, the big integers never overflow their capacity, the scaled quotient is exact with its
  remainder, and the pattern found is the nearest to the number, whatever the length of the
  literal. The digits past the cap cannot matter: a midpoint between two patterns has fewer
  than 800 significant digits.
\<close>

subsection \<open>Numerator and denominator\<close>

lemma nbits_shift: "0 < n \<Longrightarrow> nbits (n * 2 ^ k) = nbits n + k"
proof -
  assume "0 < n"
  then obtain j where j: "nbits n = Suc j" "2 ^ j \<le> n" "n < 2 ^ Suc j"
    using nbits_bounds[of n] by (cases "nbits n") auto
  have "2 ^ (j + k) \<le> n * 2 ^ k" "n * 2 ^ k < 2 ^ Suc (j + k)"
    using j(2,3) by (simp_all add: power_add)
  then show ?thesis using nbits_unique[of "j + k" "n * 2 ^ k"] j(1) by simp
qed

lemma times_ten_val:
  assumes "big_ok b" "big_val b * 10 ^ k < 2 ^ (32 * k_limbs)"
  obtains b' where "times_ten k b = Some b'" "big_ok b'" "big_val b' = big_val b * 10 ^ k"
  using assms
proof (induction k arbitrary: b thesis)
  case (Suc k)
  have "big_val b * 10 \<le> big_val b * 10 ^ Suc k" by simp
  then have "big_val b * 10 < 2 ^ (32 * k_limbs)" using Suc.prems(3) by (rule order.strict_trans1)
  then have "big_val b * unat (10 :: 32 word) + unat (0 :: 32 word) < 2 ^ (32 * k_limbs)" by simp
  then obtain c where c: "big_mul_add 10 0 b = Some c" "big_ok c" "big_val c = big_val b * 10"
    using big_mul_add_val[OF Suc.prems(2), of 10 0] by (auto simp: mult.commute)
  have "big_val c * 10 ^ k < 2 ^ (32 * k_limbs)" using Suc.prems(3) c(3) by (simp add: mult.assoc)
  from Suc.IH[OF _ c(2) this] obtain b' where "times_ten k c = Some b'" "big_ok b'" "big_val b' = big_val c * 10 ^ k" by blast
  then show ?case using Suc.prems(1)[of b'] c by (simp add: mult.assoc)
qed simp

text \<open>The number a text of decimal digits stands for.\<close>

definition decimal_digits :: "bytes \<Rightarrow> bool" where
  "decimal_digits ds \<longleftrightarrow> list_all (\<lambda>c. 48 \<le> byte_value c \<and> byte_value c \<le> 57) ds"

definition decimal_number :: "nat \<Rightarrow> bytes \<Rightarrow> nat" where
  "decimal_number v ds = foldl (\<lambda>v c. v * 10 + (byte_value c - 48)) v ds"

lemma decimal_number_simps [simp]:
  "decimal_number v [] = v" "decimal_number v (c # ds) = decimal_number (v * 10 + (byte_value c - 48)) ds"
  "decimal_number v (ds @ es) = decimal_number (decimal_number v ds) es"
  by (simp_all add: decimal_number_def)

lemma decimal_number_split: "decimal_number v ds = v * 10 ^ length ds + decimal_number 0 ds"
proof (induction ds arbitrary: v rule: rev_induct)
  case (snoc c ds)
  show ?case using snoc[of v] by (simp add: algebra_simps)
qed simp

lemma decimal_number_less: "decimal_digits ds \<Longrightarrow> decimal_number 0 ds < 10 ^ length ds"
proof (induction ds rule: rev_induct)
  case (snoc c ds)
  then have "decimal_number 0 ds + 1 \<le> 10 ^ length ds" and c: "byte_value c \<le> 57" by (auto simp: decimal_digits_def)
  then have "(decimal_number 0 ds + 1) * 10 \<le> 10 ^ length ds * 10" by (intro mult_le_mono1)
  then show ?case using c by (simp add: mult.commute)
qed simp

lemma append_digits_val:
  assumes "big_ok b" "decimal_digits ds" "decimal_number (big_val b) ds < 2 ^ (32 * k_limbs)"
  obtains b' where "append_digits ds b = Some b'" "big_ok b'" "big_val b' = decimal_number (big_val b) ds"
  using assms
proof (induction ds arbitrary: b thesis)
  case (Cons c ds)
  have "unat (word_of_nat k :: 32 word) = k" if "k < 10" for k using that by (simp add: unat_of_nat)
  moreover have "byte_value c - 48 < 10" and ds: "decimal_digits ds" using Cons.prems(3) by (auto simp: decimal_digits_def)
  ultimately have c: "unat (word_of_nat (byte_value c - 48) :: 32 word) = byte_value c - 48" by blast
  define v where "v = big_val b * 10 + (byte_value c - 48)"
  have "v * 1 \<le> v * 10 ^ length ds" by (intro mult_le_mono2) simp
  also have "\<dots> \<le> decimal_number v ds" using decimal_number_split[of v ds] by simp
  finally have "big_val b * unat (10 :: 32 word) + unat (word_of_nat (byte_value c - 48) :: 32 word) < 2 ^ (32 * k_limbs)"
    using Cons.prems(4) c by (simp add: v_def)
  then obtain b1 where b1: "big_mul_add 10 (word_of_nat (byte_value c - 48)) b = Some b1" "big_ok b1" "big_val b1 = v"
    using big_mul_add_val[OF Cons.prems(2), of 10 "word_of_nat (byte_value c - 48)"] c by (auto simp: v_def)
  have "decimal_number (big_val b1) ds < 2 ^ (32 * k_limbs)" using Cons.prems(4) b1(3) by (simp add: v_def)
  from Cons.IH[OF _ b1(2) ds this] obtain b' where
    "append_digits ds b1 = Some b'" "big_ok b'" "big_val b' = decimal_number (big_val b1) ds" by blast
  then show ?case using Cons.prems(1)[of b'] b1 by (simp add: v_def)
qed simp

subsection \<open>The scaled quotient\<close>

lemma quotient_floor:
  fixes N D :: nat
  assumes "0 < D"
  shows "of_nat (N div D) \<le> (of_nat N / of_nat D :: rat)" "(of_nat N / of_nat D :: rat) < of_nat (N div D) + 1"
    "(of_nat N / of_nat D :: rat) = of_nat (N div D) \<longleftrightarrow> N mod D = 0"
proof -
  have "of_nat N = (of_nat (D * (N div D) + N mod D) :: rat)" by simp
  then have N: "of_nat N = (of_nat D * of_nat (N div D) + of_nat (N mod D) :: rat)" by (simp only: of_nat_add of_nat_mult)
  have r: "of_nat (N mod D) < (of_nat D :: rat)" using assms by (simp only: of_nat_less_iff mod_less_divisor)
  have D: "0 < (of_nat D :: rat)" using assms by simp
  show "of_nat (N div D) \<le> (of_nat N / of_nat D :: rat)" "(of_nat N / of_nat D :: rat) < of_nat (N div D) + 1"
    "(of_nat N / of_nat D :: rat) = of_nat (N div D) \<longleftrightarrow> N mod D = 0"
    using r D unfolding N by (simp_all add: field_simps)
qed

lemma scaled_quotient_val:
  assumes ok: "format_ok f" and num: "big_ok num" "0 < big_val num" "big_val num < 2 ^ 4000"
    and den: "big_ok den" "0 < big_val den" "big_val den < 2 ^ 4000"
  obtains scale quot r where "scaled_quotient f num den = Some (scale, quot, r)"
    "precision f + 3 \<le> nbits (unat quot)"
    "of_nat (unat quot) \<le> (of_nat (big_val num) / of_nat (big_val den) * 2 powi scale :: rat)"
    "(of_nat (big_val num) / of_nat (big_val den) * 2 powi scale :: rat) < of_nat (unat quot) + 1"
    "big_is_zero r \<longleftrightarrow> of_nat (big_val num) / of_nat (big_val den) * 2 powi scale = (of_nat (unat quot) :: rat)"
proof -
  define N where "N = big_val num"
  define D where "D = big_val den"
  define p where "p = precision f + 3"
  have p: "p \<le> 56" "5 \<le> p" using ok by (simp_all add: format_ok_def p_def)
  define scale where "scale = int (nbits D) - int (nbits N) + int (precision f) + 3"
  have bits: "nbits N \<le> 4000" "nbits D \<le> 4000" using num(3) den(3) unfolding N_def D_def by (blast intro: nbits_le)+
  have pos: "0 < N" "0 < D" using num den by (simp_all add: N_def D_def)
  define N' where "N' = N * 2 ^ nat scale"
  define D' where "D' = D * 2 ^ nat (- scale)"
  have pos': "0 < N'" "0 < D'" using pos by (simp_all add: N'_def D'_def)
  have nb: "nbits N' = nbits D' + p"
    unfolding N'_def D'_def nbits_shift[OF pos(1)] nbits_shift[OF pos(2)] using scale_def p_def by (cases "0 \<le> scale") auto
  have fit: "n * 2 ^ k < 2 ^ (32 * (k_limbs - 2))" if "0 < n" "nbits n + k \<le> 6000" for n k :: nat
  proof -
    have "n * 2 ^ k < 2 ^ (nbits n + k)" using nbits_bounds[OF that(1)] by (simp add: power_add)
    also have "\<dots> \<le> 2 ^ (32 * (k_limbs - 2))" using that(2) by (intro power_increasing) (simp_all add: k_limbs_def)
    finally show ?thesis .
  qed
  obtain num' den' where sc: "(if 0 \<le> scale then map_option (\<lambda>num. (num, den)) (big_shift_left (nat scale) num)
      else map_option (\<lambda>den. (num, den)) (big_shift_left (nat (- scale)) den)) = Some (num', den')"
    "big_ok num'" "big_ok den'" "big_val num' = N'" "big_val den' = D'"
  proof (cases "0 \<le> scale")
    case True
    have "nbits N + nat scale \<le> 6000" using scale_def bits p p_def True by linarith
    then show ?thesis using big_shift_left_val[OF num(1) fit[OF pos(1), unfolded N_def]] that True den
      by (auto simp: N_def D_def N'_def D'_def)
  next
    case False
    have "nbits D + nat (- scale) \<le> 6000" using scale_def bits p p_def False by linarith
    then show ?thesis using big_shift_left_val[OF den(1) fit[OF pos(2), unfolded D_def]] that False num
      by (auto simp: N_def D_def N'_def D'_def)
  qed
  have top: "big_bit_length num' - big_bit_length den' = int p"
    using nb big_bit_length_val[OF sc(2)] big_bit_length_val[OF sc(3)] sc(4,5) by simp
  have "nbits D' \<le> 4000 + 4000" unfolding D'_def nbits_shift[OF pos(2)] using scale_def bits p p_def by linarith
  have small: "nbits D' \<le> 4000"
  proof (cases "0 \<le> scale")
    case False
    then have "nbits N' \<le> 4000" using bits(1) by (simp add: N'_def)
    then show ?thesis using nb by simp
  qed (use bits in \<open>simp add: D'_def\<close>)
  obtain den'' where d: "big_shift_left (nat (int p)) den' = Some den''" "big_ok den''" "big_val den'' = D' * 2 ^ p"
    using big_shift_left_val[OF sc(3), of p] fit[OF pos'(2), of p] small p sc(5) by auto
  have len: "N' < 2 * (D' * 2 ^ p)"
  proof -
    have "N' < 2 ^ nbits N'" using nbits_bounds[OF pos'(1)] by blast
    also have "\<dots> \<le> 2 * (D' * 2 ^ p)" using nbits_power[of "D' * 2 ^ p"] pos'(2) nb by (simp add: nbits_shift)
    finally show ?thesis .
  qed
  obtain quot r where div: "restoring_division big_at_least big_subtract big_shift_right_one (Suc p) 0 num' den'' = (quot, r)" by fastforce
  have room: "(unat (0 :: 64 word) + 1) * 2 ^ Suc p \<le> 2 ^ 64" using p power_increasing[of "Suc p" 64 "2::nat"] by simp
  have val: "big_ok r" "unat quot = N' div D'" "big_val r = N' mod D'"
    using limbs.divide_val[OF sc(2) d(2) d(3) _ pos'(2) room div] len sc(4) d(3) by simp_all
  have "nat (int p + 1) = Suc p" by simp
  then have run: "scaled_quotient f num den = Some (scale, quot, r)"
    unfolding scaled_quotient_def Let_def big_bit_length_val[OF num(1)] big_bit_length_val[OF den(1)]
      N_def[symmetric] D_def[symmetric] scale_def[symmetric] sc(1)
    by (simp add: top d(1)[unfolded nat_int] div del: restoring_division.simps)
  have y: "of_nat N / of_nat D * 2 powi scale = (of_nat N' / of_nat D' :: rat)"
    using pos by (cases "0 \<le> scale") (simp_all add: N'_def D'_def power_int_def field_simps)
  have "p \<le> nbits (unat quot)"
  proof -
    have "2 ^ (nbits D' + (p - 1)) \<le> N'" using nbits_bounds[OF pos'(1)] nb p by simp
    moreover have "D' * 2 ^ (p - 1) \<le> 2 ^ nbits D' * 2 ^ (p - 1)" using nbits_bounds[OF pos'(2)] by (intro mult_le_mono1) simp
    ultimately have "D' * 2 ^ (p - 1) \<le> N'" unfolding power_add by (rule order.trans[rotated])
    then have q: "2 ^ (p - 1) \<le> unat quot" using pos'(2) val(2) by (simp add: less_eq_div_iff_mult_less_eq mult.commute)
    then have "0 < unat quot" using order.strict_trans2[of 0 "2 ^ (p - 1)" "unat quot"] by simp
    then have "2 ^ (p - 1) < (2::nat) ^ nbits (unat quot)" using nbits_bounds q by (meson order.strict_trans1)
    then have "p - 1 < nbits (unat quot)" by simp
    then show ?thesis by simp
  qed
  moreover have "big_is_zero r \<longleftrightarrow> N' mod D' = 0" using val(3) big_val_zero[OF val(1)] by (simp add: big_is_zero_def)
  ultimately show thesis
    using that[OF run] quotient_floor[OF pos'(2), of N'] y val(2) by (simp add: p_def N_def D_def)
qed

subsection \<open>Reading the text\<close>

definition digit_text :: "bytes \<Rightarrow> bool" where
  "digit_text ds \<longleftrightarrow> list_all (\<lambda>c. c = CHR ''_'' \<or> (48 \<le> byte_value c \<and> byte_value c \<le> 57)) ds"

definition only_digits :: "bytes \<Rightarrow> bytes" where
  "only_digits ds = filter (\<lambda>c. c \<noteq> CHR ''_'') ds"

lemma digit_text_digits: "digit_text ds \<Longrightarrow> decimal_digits (only_digits ds)"
  by (induction ds) (auto simp: digit_text_def decimal_digits_def only_digits_def)

lemma digit_chars:
  "48 \<le> byte_value c \<Longrightarrow> byte_value c \<le> 57 \<Longrightarrow> c \<noteq> CHR ''_'' \<and> c \<noteq> CHR ''.'' \<and> c \<noteq> CHR ''e'' \<and> c \<noteq> CHR ''E'' \<and> c \<noteq> CHR ''+'' \<and> c \<noteq> CHR ''-''"
  by auto

lemma digit_zero: "48 \<le> byte_value c \<Longrightarrow> c \<noteq> CHR ''0'' \<longleftrightarrow> byte_value c - 48 \<noteq> 0"
proof
  assume a: "48 \<le> byte_value c" "c \<noteq> CHR ''0''"
  have "byte_value c \<noteq> 48"
  proof
    assume "byte_value c = 48"
    then have "byte_value c = byte_value (CHR ''0'')" by simp
    then show False using a(2) by (simp only: of_char_eq_iff)
  qed
  then show "byte_value c - 48 \<noteq> 0" using a(1) by simp
qed auto

lemma scan_mantissa_text:
  "digit_text ds \<Longrightarrow> scan_mantissa (ds @ rest) s = scan_mantissa rest (foldl (\<lambda>s c. scan_digit c s) s (only_digits ds))"
proof (induction ds arbitrary: s)
  case (Cons c ds)
  then have "digit_text ds" "c = CHR ''_'' \<or> (48 \<le> byte_value c \<and> byte_value c \<le> 57)" by (simp_all add: digit_text_def)
  then show ?case
    using Cons.IH digit_chars[of c] by (cases "c = CHR ''_''") (simp_all add: only_digits_def)
qed (simp add: only_digits_def)

text \<open>
  What the scan has kept of a number of \<open>count\<close> digits, \<open>places\<close> of them after the point: its
  leading digits, and whether the rest are all zero.
\<close>

definition scan_ok :: "digit_scan \<Rightarrow> nat \<Rightarrow> nat \<Rightarrow> nat \<Rightarrow> bool" where
  "scan_ok s number places count \<longleftrightarrow>
     (\<exists>m r. scan_exponent s = int m - int places \<and> length (kept_digits s) + m \<le> count \<and> places \<le> count
       \<and> decimal_digits (kept_digits s) \<and> (kept_digits s \<noteq> [] \<longrightarrow> hd (kept_digits s) \<noteq> CHR ''0'')
       \<and> length (kept_digits s) \<le> k_digit_cap \<and> (length (kept_digits s) < k_digit_cap \<longrightarrow> m = 0)
       \<and> number = decimal_number 0 (kept_digits s) * 10 ^ m + r \<and> r < 10 ^ m \<and> (scan_sticky s \<longleftrightarrow> r \<noteq> 0))"

lemma scan_ok_start: "scan_ok scan_start 0 0 0"
  by (simp add: scan_ok_def scan_start_def decimal_digits_def k_digit_cap_def)

lemma scan_ok_digit:
  assumes "scan_ok s number places count" "48 \<le> byte_value c" "byte_value c \<le> 57"
  shows "scan_ok (scan_digit c s) (number * 10 + (byte_value c - 48)) (if seen_point s then places + 1 else places) (count + 1)"
proof -
  define d where "d = byte_value c - 48"
  have d: "d \<le> 9" "c \<noteq> CHR ''0'' \<longleftrightarrow> d \<noteq> 0" using assms digit_zero by (simp_all add: d_def)
  obtain m r where mr: "scan_exponent s = int m - int places" "length (kept_digits s) + m \<le> count" "places \<le> count"
    "decimal_digits (kept_digits s)" "kept_digits s \<noteq> [] \<longrightarrow> hd (kept_digits s) \<noteq> CHR ''0''"
    "length (kept_digits s) \<le> k_digit_cap" "length (kept_digits s) < k_digit_cap \<longrightarrow> m = 0"
    "number = decimal_number 0 (kept_digits s) * 10 ^ m + r" "r < 10 ^ m" "scan_sticky s \<longleftrightarrow> r \<noteq> 0"
    using assms(1) unfolding scan_ok_def by blast
  consider (zero) "kept_digits s = []" "c = CHR ''0''"
    | (keep) "\<not> (kept_digits s = [] \<and> c = CHR ''0'')" "length (kept_digits s) < k_digit_cap"
    | (cap) "kept_digits s \<noteq> []" "length (kept_digits s) = k_digit_cap"
    using mr(6) by (fastforce simp: k_digit_cap_def)
  then show ?thesis
  proof cases
    case zero
    then have m: "m = 0" using mr(7) by (simp add: k_digit_cap_def)
    then show ?thesis
      using zero mr d by (auto simp: scan_ok_def scan_digit_def Let_def d_def intro!: exI[of _ 0])
  next
    case keep
    then have m: "m = 0" "r = 0" using mr(7,9) by auto
    have "decimal_digits (kept_digits s @ [c])" using mr(4) assms by (simp add: decimal_digits_def)
    moreover have "hd (kept_digits s @ [c]) \<noteq> CHR ''0''" using keep mr(5) by (cases "kept_digits s") auto
    ultimately show ?thesis
      unfolding scan_ok_def using keep mr m
      by (intro exI[of _ 0]) (auto simp: scan_digit_def Let_def)
  next
    case cap
    have "number * 10 + d = decimal_number 0 (kept_digits s) * 10 ^ (m + 1) + (r * 10 + d)" using mr(8) by (simp add: algebra_simps)
    moreover have "r * 10 + d < 10 ^ (m + 1)"
    proof -
      have "(r + 1) * 10 \<le> 10 ^ m * 10" using mr(9) by (intro mult_le_mono1) simp
      then show ?thesis using d(1) by simp
    qed
    ultimately show ?thesis
      unfolding scan_ok_def using cap mr d
      by (intro exI[of _ "m + 1"] exI[of _ "r * 10 + d"]) (auto simp: scan_digit_def Let_def simp flip: d_def)
  qed
qed

lemma scan_digit_flags [simp]: "seen_point (scan_digit c s) = seen_point s" "seen_digit (scan_digit c s)"
  by (simp_all add: scan_digit_def Let_def)

lemma scan_ok_digits:
  assumes "scan_ok s number places count" "decimal_digits ds"
  shows "scan_ok (foldl (\<lambda>s c. scan_digit c s) s ds) (decimal_number number ds)
      (if seen_point s then places + length ds else places) (count + length ds)
    \<and> seen_point (foldl (\<lambda>s c. scan_digit c s) s ds) = seen_point s
    \<and> seen_digit (foldl (\<lambda>s c. scan_digit c s) s ds) = (seen_digit s \<or> ds \<noteq> [])"
  using assms
proof (induction ds arbitrary: s number places count)
  case (Cons c ds)
  then have c: "48 \<le> byte_value c" "byte_value c \<le> 57" "decimal_digits ds" by (simp_all add: decimal_digits_def)
  show ?case using Cons.IH[OF scan_ok_digit[OF Cons.prems(1) c(1,2)] c(3)] by (auto split: if_splits)
qed simp

lemma exponent_loop_text:
  assumes "digit_text ds"
  obtains g where "exponent_loop ds (int v) = Some (int g)"
    "g = decimal_number v (only_digits ds) \<or> (100000 \<le> g \<and> g \<le> decimal_number v (only_digits ds))"
  using assms
proof (induction ds arbitrary: v thesis)
  case Nil
  then show ?case by (auto simp: only_digits_def)
next
  case (Cons c ds)
  then have ds: "digit_text ds" and c: "c = CHR ''_'' \<or> (48 \<le> byte_value c \<and> byte_value c \<le> 57)" by (simp_all add: digit_text_def)
  consider (sep) "c = CHR ''_''" | (digit) "48 \<le> byte_value c" "byte_value c \<le> 57" "v < 100000"
    | (clamp) "48 \<le> byte_value c" "byte_value c \<le> 57" "100000 \<le> v" using c by linarith
  then show ?case
  proof cases
    case sep
    then show ?thesis using Cons.IH[OF _ ds] Cons.prems(1) by (auto simp: only_digits_def)
  next
    case digit
    define w where "w = v * 10 + (byte_value c - 48)"
    have "int v * 10 + (int (byte_value c) - 48) = int w" using digit by (simp add: w_def of_nat_diff)
    then have "exponent_loop (c # ds) (int v) = exponent_loop ds (int w)" using digit digit_chars[of c] by simp
    moreover have "only_digits (c # ds) = c # only_digits ds" using digit digit_chars[of c] by (simp add: only_digits_def)
    ultimately show ?thesis using Cons.IH[of w, OF _ ds] Cons.prems(1) by (auto simp: w_def)
  next
    case clamp
    then have "exponent_loop (c # ds) (int v) = exponent_loop ds (int v)" using digit_chars[of c] by simp
    moreover have od: "only_digits (c # ds) = c # only_digits ds" using clamp digit_chars[of c] by (simp add: only_digits_def)
    obtain g where g: "exponent_loop ds (int v) = Some (int g)"
      "g = decimal_number v (only_digits ds) \<or> (100000 \<le> g \<and> g \<le> decimal_number v (only_digits ds))"
      using Cons.IH[OF _ ds] by blast
    have le: "decimal_number v (only_digits ds) \<le> decimal_number v (only_digits (c # ds))"
      unfolding od using decimal_number_split[of v "only_digits ds"] decimal_number_split[of "v * 10 + (byte_value c - 48)" "only_digits ds"]
      by (simp add: trans_le_add1)
    have "100000 \<le> decimal_number v (only_digits ds)"
      using decimal_number_split[of v "only_digits ds"] clamp(3) mult_le_mono[of 100000 v 1 "10 ^ length (only_digits ds)"] by simp
    then show ?thesis using Cons.prems(1)[of g] g le calculation by auto
  qed
qed

subsection \<open>The number written\<close>

definition exponent_text :: "bytes \<Rightarrow> int \<Rightarrow> bool" where
  "exponent_text ex e \<longleftrightarrow> ex = [] \<and> e = 0 \<or>
     (\<exists>mark sign ds. ex = mark # sign @ ds \<and> mark \<in> {CHR ''e'', CHR ''E''} \<and> sign \<in> {[], ''+'', ''-''}
       \<and> only_digits ds \<noteq> [] \<and> digit_text ds
       \<and> e = (if sign = ''-'' then - 1 else 1) * int (decimal_number 0 (only_digits ds)))"

definition mantissa_text :: "bytes \<Rightarrow> bytes \<Rightarrow> bytes \<Rightarrow> bool" where
  "mantissa_text text whole fraction \<longleftrightarrow> digit_text whole \<and> digit_text fraction \<and> only_digits (whole @ fraction) \<noteq> []
     \<and> (text = whole \<and> fraction = [] \<or> text = whole @ ''.'' @ fraction)"

definition decimal_value :: "bytes \<Rightarrow> bytes \<Rightarrow> int \<Rightarrow> rat" where
  "decimal_value whole fraction e =
     of_nat (decimal_number 0 (only_digits (whole @ fraction))) * 10 powi (e - int (length (only_digits fraction)))"

text \<open>The exponent read is the one written, or both are past any exponent a width has.\<close>

lemma given_exponent_text:
  assumes "exponent_text ex e"
  obtains g where "given_exponent ex = Some g"
    "g = e \<or> (100000 \<le> g \<and> g \<le> e) \<or> (g \<le> - 100000 \<and> e \<le> g)"
proof (cases "ex = []")
  case True
  then show ?thesis using assms that[of 0] by (simp add: exponent_text_def given_exponent_def)
next
  case False
  then obtain mark sign ds where ex: "ex = mark # sign @ ds" "sign \<in> {[], ''+'', ''-''}" "only_digits ds \<noteq> []" "digit_text ds"
    and e: "e = (if sign = ''-'' then - 1 else 1) * int (decimal_number 0 (only_digits ds))"
    using assms unfolding exponent_text_def by blast
  from ex(3) have ex3: "ds \<noteq> []" by (auto simp: only_digits_def)
  obtain g where g: "exponent_loop ds (int 0) = Some (int g)"
    "g = decimal_number 0 (only_digits ds) \<or> (100000 \<le> g \<and> g \<le> decimal_number 0 (only_digits ds))"
    using exponent_loop_text[OF ex(4), of 0] by blast
  have hd: "ds ! 0 \<noteq> CHR ''+'' \<and> ds ! 0 \<noteq> CHR ''-''"
    using ex3 ex(4) digit_chars by (cases ds) (auto simp: digit_text_def)
  have "given_exponent ex = Some ((if sign = ''-'' then - 1 else 1) * int g)"
    using ex(2) ex3 g(1) hd by (auto simp: ex(1) given_exponent_def Let_def)
  then show ?thesis using that e g(2) by (cases "sign = ''-''") auto
qed

lemma scan_stops_at_exponent: "exponent_text ex e \<Longrightarrow> scan_mantissa ex s = Some (s, ex)"
  by (auto simp: exponent_text_def)

lemma scan_text:
  assumes "mantissa_text text whole fraction" "exponent_text ex e"
  obtains s count where "scan_mantissa (text @ ex) scan_start = Some (s, ex)" "seen_digit s"
    "scan_ok s (decimal_number 0 (only_digits (whole @ fraction))) (length (only_digits fraction)) count"
    "count \<le> length text"
proof -
  define s1 where "s1 = foldl (\<lambda>s c. scan_digit c s) scan_start (only_digits whole)"
  define s2 where "s2 = foldl (\<lambda>s c. scan_digit c s) (s1\<lparr>seen_point := True\<rparr>) (only_digits fraction)"
  have w: "digit_text whole" "digit_text fraction" "only_digits (whole @ fraction) \<noteq> []"
    "text = whole \<and> fraction = [] \<or> text = whole @ ''.'' @ fraction" using assms(1) by (simp_all add: mantissa_text_def)
  have split: "only_digits (whole @ fraction) = only_digits whole @ only_digits fraction" by (simp add: only_digits_def)
  have len: "length (only_digits whole) \<le> length whole" "length (only_digits fraction) \<le> length fraction" by (simp_all add: only_digits_def)
  note ok1 = scan_ok_digits[OF scan_ok_start digit_text_digits[OF w(1)], folded s1_def]
  have start: "\<not> seen_point scan_start" "\<not> seen_digit scan_start" by (simp_all add: scan_start_def)
  have ok1': "scan_ok s1 (decimal_number 0 (only_digits whole)) 0 (length (only_digits whole))" using ok1 start by simp
  then have "scan_ok (s1\<lparr>seen_point := True\<rparr>) (decimal_number 0 (only_digits whole)) 0 (length (only_digits whole))"
    by (simp add: scan_ok_def)
  note ok2 = scan_ok_digits[OF this digit_text_digits[OF w(2)], folded s2_def]
  show thesis
  proof (cases "text = whole \<and> fraction = []")
    case True
    show thesis
    proof (rule that[of s1 "length (only_digits whole)"])
      show "scan_mantissa (text @ ex) scan_start = Some (s1, ex)"
        using True scan_mantissa_text[OF w(1)] scan_stops_at_exponent[OF assms(2)] by (simp add: s1_def)
    qed (use True ok1 ok1' len w(3) start split in \<open>simp_all add: only_digits_def\<close>)
  next
    case False
    then have spelled: "text = whole @ ''.'' @ fraction" using w(4) by blast
    have "\<not> seen_point s1" using ok1 start by simp
    then have "scan_mantissa (text @ ex) scan_start = Some (s2, ex)"
      using scan_mantissa_text[OF w(1), of "''.'' @ fraction @ ex" scan_start] scan_mantissa_text[OF w(2), of ex]
        scan_stops_at_exponent[OF assms(2)] by (simp add: spelled s1_def s2_def)
    then show thesis
      using that[of s2 "length (only_digits whole) + length (only_digits fraction)"] ok1 ok2 len w(3) start
      by (simp add: split spelled)
  qed
qed

text \<open>The digits kept, and how far the number is above them.\<close>

lemma decimal_number_ge:
  "decimal_digits ds \<Longrightarrow> ds \<noteq> [] \<Longrightarrow> hd ds \<noteq> CHR ''0'' \<Longrightarrow> 10 ^ (length ds - 1) \<le> decimal_number 0 ds"
proof (cases ds)
  case (Cons c cs)
  assume "decimal_digits ds" "hd ds \<noteq> CHR ''0''"
  then have "1 \<le> byte_value c - 48" using digit_zero[of c] by (simp add: decimal_digits_def Cons)
  then have "1 * 10 ^ length cs \<le> (byte_value c - 48) * 10 ^ length cs" by (rule mult_le_mono1)
  then have "10 ^ length cs \<le> (byte_value c - 48) * 10 ^ length cs + decimal_number 0 cs" by linarith
  then show ?thesis unfolding Cons using decimal_number_split[of "byte_value c - 48" cs] by (simp only: decimal_number_simps) simp
qed simp

lemma kept_bounds:
  fixes x :: rat
  assumes "scan_ok s number places count" "kept_digits s \<noteq> []" "x = of_nat number * 10 powi (e - int places)"
  defines "K \<equiv> decimal_number 0 (kept_digits s)" and "T \<equiv> 10 powi (scan_exponent s + e)"
  shows "of_nat K * T \<le> x" "x < (of_nat K + 1) * T" "scan_sticky s \<longleftrightarrow> x \<noteq> of_nat K * T"
    "10 powi (int (length (kept_digits s)) + scan_exponent s + e - 1) \<le> x"
    "x < 10 powi (int (length (kept_digits s)) + scan_exponent s + e)"
proof -
  obtain m r where mr: "scan_exponent s = int m - int places" "decimal_digits (kept_digits s)"
    "hd (kept_digits s) \<noteq> CHR ''0''" "number = K * 10 ^ m + r" "r < 10 ^ m" "scan_sticky s \<longleftrightarrow> r \<noteq> 0"
    using assms(1,2) unfolding scan_ok_def K_def by blast
  have T: "0 < T" by (simp add: T_def)
  have "e - int places = scan_exponent s + e - int m" using mr(1) by simp
  moreover have "10 powi (scan_exponent s + e - int m) = T / 10 ^ m" unfolding T_def by (subst power_int_diff) simp_all
  ultimately have "10 powi (e - int places) = T / 10 ^ m" by (simp only:)
  then have x: "x = of_nat K * T + of_nat r / 10 ^ m * T" by (simp add: assms(3) mr(4) field_simps)
  define f :: rat where "f = of_nat r / 10 ^ m"
  have "(of_nat r :: rat) < of_nat (10 ^ m)" using mr(5) by (simp only: of_nat_less_iff)
  then have f: "0 \<le> f" "f < 1" "f = 0 \<longleftrightarrow> r = 0" by (simp_all add: f_def)
  show lo: "of_nat K * T \<le> x" using f(1) T unfolding x f_def[symmetric] by simp
  have "f * T < 1 * T" using f(2) T by (rule mult_strict_right_mono)
  then show hi: "x < (of_nat K + 1) * T" unfolding x f_def[symmetric] by (simp add: algebra_simps)
  show "scan_sticky s \<longleftrightarrow> x \<noteq> of_nat K * T" using T f(3) mr(6) unfolding x f_def[symmetric] by simp
  define l where "l = length (kept_digits s)"
  have l: "int (l - 1) = int l - 1" using assms(2) by (cases "kept_digits s") (simp_all add: l_def)
  have K: "10 ^ (l - 1) \<le> K" "K + 1 \<le> 10 ^ l"
    using decimal_number_ge[OF mr(2) assms(2) mr(3)] decimal_number_less[OF mr(2)] by (simp_all add: K_def l_def)
  have "of_nat (10 ^ (l - 1)) \<le> (of_nat K :: rat)" "of_nat (K + 1) \<le> (of_nat (10 ^ l) :: rat)" using K by (simp_all only: of_nat_le_iff)
  then have "10 powi (int l - 1) * T \<le> of_nat K * T" "(of_nat K + 1) * T \<le> 10 powi int l * T"
    using T by (intro mult_right_mono; simp flip: l)+
  moreover have "10 powi (int l + scan_exponent s + e) = 10 powi int l * T" "10 powi (int l + scan_exponent s + e - 1) = 10 powi (int l - 1) * T"
    unfolding T_def by (subst power_int_add[symmetric]; simp add: algebra_simps)+
  ultimately show "10 powi (int (length (kept_digits s)) + scan_exponent s + e - 1) \<le> x"
    "x < 10 powi (int (length (kept_digits s)) + scan_exponent s + e)" using lo hi unfolding l_def[symmetric] by linarith+
qed

subsection \<open>Digits past the cap\<close>

lemma five_power: "2 ^ 55 * 5 ^ 1075 < (10::nat) ^ 799"
proof -
  have a: "2 ^ 55 \<le> (10::nat) ^ 17" by simp
  have b: "5 ^ 10 \<le> (10::nat) ^ 7" by simp
  have c: "5 ^ 5 \<le> (10::nat) ^ 4" by simp
  have e: "(1075::nat) = 10 * 107 + 5" by simp
  have "2 ^ 55 * ((5 ^ 10) ^ 107 * 5 ^ 5) \<le> 10 ^ 17 * ((10 ^ 7) ^ 107 * (10::nat) ^ 4)"
    by (rule mult_le_mono[OF a mult_le_mono[OF power_mono[OF b le0] c]])
  also have "\<dots> = 10 ^ (17 + (7 * 107 + 4))" by (simp only: power_mult power_add)
  also have "\<dots> < 10 ^ 799" by (rule power_strict_increasing) simp_all
  finally show ?thesis by (simp only: e power_mult power_add)
qed
text \<open>
  Between two decimal numbers of 800 digits that differ by one in the last place there is no
  multiple of half the smallest unit: it would have fewer digits than that.
\<close>

lemma no_midpoint:
  fixes t e :: int
  assumes "10 ^ 799 \<le> K" "e \<le> 0" "H + 1 \<le> 2 ^ 55" "- 1075 \<le> t"
    "of_nat K * 10 powi e < of_nat (H + 1) * (2 powi t :: rat)"
  shows "(of_nat K + 1) * 10 powi e \<le> of_nat (H + 1) * (2 powi t :: rat)"
proof -
  define k where "k = nat (- e)"
  have T: "10 powi e = (1 / 10 ^ k :: rat)" using assms(2) by (simp add: k_def power_int_def field_simps)
  obtain i :: nat where i: "of_nat (H + 1) * (2 powi t :: rat) * 10 ^ k = of_nat i"
  proof (cases "0 \<le> t")
    case True
    have "of_nat (H + 1) * (2 powi t :: rat) * 10 ^ k = of_nat ((H + 1) * 2 ^ nat t * 10 ^ k)"
      using True by (simp only: of_nat_mult of_nat_power) (simp add: power_int_def)
    then show ?thesis by (rule that)
  next
    case False
    define j where "j = nat (- t)"
    have t: "2 powi t = (1 / 2 ^ j :: rat)" "j \<le> 1075" using False assms(4) by (simp_all add: j_def power_int_def field_simps)
    have "j \<le> k"
    proof (rule ccontr)
      assume "\<not> j \<le> k"
      have "of_nat (K * 2 ^ j) < (of_nat ((H + 1) * 10 ^ k) :: rat)"
        using assms(5) unfolding T t(1) by (simp add: field_simps)
      then have "K * 2 ^ j < (H + 1) * 10 ^ k" by (simp only: of_nat_less_iff)
      also have "\<dots> \<le> 2 ^ 55 * 10 ^ j" using assms(3) \<open>\<not> j \<le> k\<close> by (intro mult_le_mono power_increasing) auto
      also have "\<dots> = 2 ^ 55 * 5 ^ j * 2 ^ j" by (simp flip: power_mult_distrib)
      finally have "K < 2 ^ 55 * 5 ^ j" by simp
      also have "\<dots> \<le> 2 ^ 55 * 5 ^ 1075" using t(2) by (intro mult_le_mono2 power_increasing) auto
      finally have "(10::nat) ^ 799 < 2 ^ 55 * 5 ^ 1075" using assms(1) by (rule order.strict_trans1[rotated])
      then show False using five_power by (rule less_asym)
    qed
    have "(2::rat) ^ k = 2 ^ j * 2 ^ (k - j)" using \<open>j \<le> k\<close> by (simp flip: power_add)
    moreover have "(10::rat) ^ k = 2 ^ k * 5 ^ k" by (simp flip: power_mult_distrib)
    ultimately have "(10::rat) ^ k = 2 ^ j * 2 ^ (k - j) * 5 ^ k" by (simp only:)
    then have "of_nat (H + 1) * (2 powi t :: rat) * 10 ^ k = of_nat ((H + 1) * (2 ^ (k - j) * 5 ^ k))"
      unfolding t(1) by (simp only: of_nat_mult of_nat_power) simp
    then show ?thesis by (rule that)
  qed
  have g: "of_nat (H + 1) * (2 powi t :: rat) = of_nat i / 10 ^ k" using i by (simp add: field_simps)
  have "of_nat K < (of_nat i :: rat)" using assms(5) unfolding T g by (simp add: field_simps)
  then have "K + 1 \<le> i" by simp
  then have "of_nat (K + 1) \<le> (of_nat i :: rat)" by (simp only: of_nat_le_iff)
  then show ?thesis unfolding T g by (simp add: divide_right_mono)
qed

lemma fold_zeros_split:
  "fold_zeros rds e = (rds', e') \<Longrightarrow> \<exists>z. rds = replicate z (CHR ''0'') @ rds' \<and> e' = e + int z \<and> (rds' = [] \<or> hd rds' \<noteq> CHR ''0'')"
proof (induction rds e rule: fold_zeros.induct)
  case (2 c cs e)
  show ?case
  proof (cases "c = CHR ''0''")
    case True
    then obtain z where "cs = replicate z (CHR ''0'') @ rds' \<and> e' = (e + 1) + int z \<and> (rds' = [] \<or> hd rds' \<noteq> CHR ''0'')"
      using 2 by auto
    then show ?thesis using True by (intro exI[of _ "Suc z"]) simp
  qed (use 2 in \<open>auto intro: exI[of _ 0]\<close>)
qed auto

lemma decimal_number_zeros: "decimal_number v (replicate z (CHR ''0'')) = v * 10 ^ z"
  by (induction z arbitrary: v) (simp_all add: mult.assoc)

subsection \<open>Numbers out of range\<close>

lemma is_nearest_zero_value: "is_nearest f 0 0"
  using bits_value_strict[of 0 _ f] by (auto simp: is_nearest_def)

lemma format_range:
  assumes "format_of w = Some f"
  shows "bits_value f (unat (infinity_bits f)) < 10 ^ 310" "10 powi (- 401) * 2 < bits_value f 1"
proof -
  have ok: "format_ok f" by (rule format_of_ok[OF assms])
  define n where "n = nat (max_exponent f - min_exponent f)"
  have n: "2 ^ exponent_bits f - 1 = n + 2" "int n = max_exponent f - min_exponent f"
  proof -
    have "min_exponent f \<le> max_exponent f" using assms by (auto simp: format_of_def split: if_splits)
    then show "int n = max_exponent f - min_exponent f" "2 ^ exponent_bits f - 1 = n + 2"
      using format_exponents[OF ok] by (simp_all add: n_def)
  qed
  have "unat (infinity_bits f) = n * hidden f + 2 * hidden f" using infinity_bits_val(1)[OF ok] n(1) by simp
  then have "bits_value f (unat (infinity_bits f)) = of_nat (2 * hidden f) * unit_at f n"
    using bits_value_at[of n f "2 * hidden f"] by simp
  also have "\<dots> = 2 powi (max_exponent f + 1)"
  proof -
    have "precision f = Suc (precision f - 1)" using ok by (simp add: format_ok_def)
    then have "of_nat (2 * hidden f) = (2 powi int (precision f) :: rat)" unfolding hidden_def
      by (metis of_nat_numeral of_nat_power power_Suc power_int_of_nat)
    moreover have "unit_at f n = 2 powi (max_exponent f + 1 - int (precision f))" by (simp add: unit_at_def n(2) algebra_simps)
    moreover have "2 powi a * 2 powi (b - a) = (2 powi b :: rat)" for a b :: int by (simp flip: power_int_add)
    ultimately show ?thesis by (simp only:)
  qed
  also have "\<dots> \<le> 2 powi 1024" using assms by (intro power_int_increasing) (auto simp: format_of_def split: if_splits)
  also have "\<dots> < 10 ^ 310" by (simp add: power_int_def)
  finally show "bits_value f (unat (infinity_bits f)) < 10 ^ 310" .
  have "10 powi (- 401) * 2 < (2 powi (- 1074) :: rat)" by (simp add: power_int_def field_simps)
  also have "\<dots> \<le> 2 powi (min_exponent f - int (precision f) + 1)"
    using assms by (intro power_int_increasing) (auto simp: format_of_def split: if_splits)
  also have "\<dots> = bits_value f 1" using bits_value_at[of 0 f 1] by (simp add: unit_at_def hidden_def)
  finally show "10 powi (- 401) * 2 < bits_value f 1" .
qed

lemma is_nearest_overflow:
  assumes "format_of w = Some f" "10 powi 310 \<le> x"
  shows "is_nearest f x (unat (infinity_bits f))"
proof -
  have "10 ^ 310 \<le> x" using assms(2) by (simp only: power_int_numeral)
  then have top: "bits_value f (unat (infinity_bits f)) < x" by (rule order.strict_trans2[OF format_range(1)[OF assms(1)]])
  have "bits_value f b < bits_value f (unat (infinity_bits f))" if "b \<le> unat (infinity_bits f)" "b \<noteq> unat (infinity_bits f)" for b
    using that by (intro bits_value_strict) simp
  then show ?thesis unfolding is_nearest_def using top by fastforce
qed

lemma is_nearest_underflow:
  assumes "format_of w = Some f" "0 \<le> x" "x \<le> 10 powi (- 401)"
  shows "is_nearest f x 0"
proof -
  have le: "bits_value f 1 \<le> bits_value f b" if "b \<noteq> 0" for b using that by (intro bits_value_mono) simp
  have "2 * x \<le> 2 * 10 powi (- 401)" using assms(3) by (rule mult_left_mono) simp
  also have "\<dots> < bits_value f 1" using format_range(2)[OF assms(1)] by (simp only: mult.commute)
  finally have x: "2 * x < bits_value f 1" .
  have "\<bar>x - bits_value f 0\<bar> < \<bar>x - bits_value f b\<bar>" if "b \<noteq> 0" for b
    using le[OF that] x assms(2) unfolding bits_value_zero by linarith
  then show ?thesis by (simp only: is_nearest_def) blast
qed

subsection \<open>Correct rounding\<close>

lemma fold_kept:
  assumes "decimal_digits ds" "ds \<noteq> []" "hd ds \<noteq> CHR ''0''" "fold_zeros (rev ds) e = (rds, e')"
  obtains z where "decimal_number 0 ds = decimal_number 0 (rev rds) * 10 ^ z" "e' = e + int z" "length ds = length rds + z"
    "decimal_digits (rev rds)" "0 < decimal_number 0 (rev rds)" "rds \<noteq> []"
proof -
  obtain z where z: "rev ds = replicate z (CHR ''0'') @ rds" "e' = e + int z" using fold_zeros_split[OF assms(4)] by blast
  then have ds: "ds = rev rds @ replicate z (CHR ''0'')" by (metis rev_append rev_replicate rev_rev_ident)
  have "rds \<noteq> []"
  proof
    assume "rds = []"
    then have "ds = replicate z (CHR ''0'')" using ds by simp
    then show False using assms(2,3) by (cases z) simp_all
  qed
  moreover from this have "hd (rev rds) \<noteq> CHR ''0''" using assms(3) ds by simp
  moreover have dd: "decimal_digits (rev rds)" using assms(1) ds by (simp add: decimal_digits_def)
  ultimately have "10 ^ (length (rev rds) - 1) \<le> decimal_number 0 (rev rds)" by (intro decimal_number_ge) simp_all
  moreover have "(0::nat) < 10 ^ (length (rev rds) - 1)" by simp
  ultimately have "0 < decimal_number 0 (rev rds)" by linarith
  then show thesis using that[of z] z(2) dd \<open>rds \<noteq> []\<close> by (simp add: ds decimal_number_zeros)
qed

lemma big_start: "big_set 0 = []" "big_ok []" "big_val (big_set 1) = 1" "big_ok (big_set 1)"
  using big_set_val[of 1] big_set_ok[of 1] by (simp_all add: big_set.simps big_ok_def)

text \<open>The numerator and denominator the code builds stand for the digits kept.\<close>

lemma ratio_built:
  assumes "decimal_digits ds" "length ds \<le> 800" "0 < decimal_number 0 ds"
    "int (length ds) + e \<le> 310" "- 400 \<le> int (length ds) + e"
  obtains num0 num den where "append_digits ds (big_set 0) = Some num0" "times_ten (nat e) num0 = Some num"
    "times_ten (nat (- e)) (big_set 1) = Some den" "big_ok num" "big_ok den"
    "0 < big_val num" "big_val num < 2 ^ 4000" "0 < big_val den" "big_val den < 2 ^ 4000"
    "of_nat (big_val num) / of_nat (big_val den) = (of_nat (decimal_number 0 ds) * 10 powi e :: rat)"
proof -
  define K where "K = decimal_number 0 ds"
  have pow: "(10::nat) ^ k < 2 ^ 4000" if "k \<le> 1200" for k
  proof -
    have e: "(1200::nat) = 3 * 400" "(4000::nat) = 10 * 400" by simp_all
    have "(10::nat) ^ k \<le> 10 ^ 1200" using that by (rule power_increasing) simp
    also have "\<dots> = (10 ^ 3) ^ 400" by (simp only: e(1) power_mult)
    also have "\<dots> < (2 ^ 10) ^ 400" by (rule power_strict_mono) simp_all
    also have "\<dots> = 2 ^ 4000" by (simp only: e(2) power_mult)
    finally show ?thesis .
  qed
  have "(2::nat) ^ 4000 \<le> 2 ^ (32 * k_limbs)" by (rule power_increasing) (simp_all add: k_limbs_def)
  then have cap: "n < 2 ^ (32 * k_limbs)" if "n < 2 ^ 4000" for n :: nat by (rule order.strict_trans2[OF that])
  have K: "K < 10 ^ length ds" "0 < K" using decimal_number_less[OF assms(1)] assms(3) by (simp_all add: K_def)
  have "K * 10 ^ nat e < 10 ^ length ds * 10 ^ nat e" using K(1) by simp
  also have "\<dots> = 10 ^ (length ds + nat e)" by (simp add: power_add)
  also have "\<dots> < 2 ^ 4000" using assms(2,4) by (intro pow) linarith
  finally have N: "K * 10 ^ nat e < 2 ^ 4000" .
  have "K * 1 \<le> K * 10 ^ nat e" by (intro mult_le_mono2) simp
  then have "K < 2 ^ 4000" using N by linarith
  then have "decimal_number (big_val []) ds < 2 ^ (32 * k_limbs)" using cap by (simp add: K_def)
  then obtain num0 where n0: "append_digits ds [] = Some num0" "big_ok num0" "big_val num0 = K"
    using append_digits_val[OF big_start(2) assms(1)] by (auto simp: K_def)
  obtain num where n: "times_ten (nat e) num0 = Some num" "big_ok num" "big_val num = K * 10 ^ nat e"
    using times_ten_val[OF n0(2), of "nat e"] cap[OF N] n0(3) by auto
  have D: "10 ^ nat (- e) < (2::nat) ^ 4000" using assms(2,5) by (intro pow) linarith
  then have "big_val (big_set 1) * 10 ^ nat (- e) < 2 ^ (32 * k_limbs)" using cap[OF D] by (simp only: big_start(3) mult_1)
  then obtain den where d: "times_ten (nat (- e)) (big_set 1) = Some den" "big_ok den" "big_val den = 10 ^ nat (- e)"
    using times_ten_val[OF big_start(4)] by (auto simp: big_start(3))
  have "of_nat (big_val num) / of_nat (big_val den) = (of_nat K * 10 powi e :: rat)"
    unfolding n(3) d(3) by (cases "0 \<le> e") (simp_all add: power_int_def field_simps)
  moreover have "append_digits ds (big_set 0) = Some num0" using n0(1) by (simp only: big_start(1))
  moreover have "0 < big_val num" "0 < big_val den" using K(2) by (simp_all add: n(3) d(3))
  moreover have "big_val num < 2 ^ 4000" "big_val den < 2 ^ 4000" using N D by (simp_all only: n(3) d(3))
  ultimately show thesis using n(1,2) d(1,2) by (intro that) (simp_all only: K_def)
qed

text \<open>
  The heart of the conversion: from the digits kept to the nearest pattern, the digits past
  the cap entering only through the sticky bit.
\<close>

lemma quotient_nearest:
  fixes x :: rat
  assumes f: "format_ok f" "- 1075 \<le> min_exponent f - int (precision f)"
    and Q: "precision f + 3 \<le> nbits Q" "of_nat Q \<le> (of_nat K * 10 powi e * 2 powi scale :: rat)"
      "of_nat K * 10 powi e * 2 powi scale < (of_nat Q + 1 :: rat)"
    and exact: "zero \<longleftrightarrow> of_nat K * 10 powi e * 2 powi scale = (of_nat Q :: rat)"
    and x: "of_nat K * 10 powi e \<le> x" "x < (of_nat K + 1) * 10 powi e" "sticky \<longleftrightarrow> x \<noteq> of_nat K * 10 powi e"
      "sticky \<Longrightarrow> 10 ^ 799 \<le> K \<and> e \<le> 0"
  shows "is_nearest f x (rounded_pattern f scale Q (sticky \<or> \<not> zero))"
proof -
  define V where "V = of_nat K * (10 powi e :: rat)"
  define s where "s = quotient_shift f scale Q"
  define n where "n = nat (quotient_exponent f scale Q - min_exponent f)"
  define H where "H = Q div 2 ^ (s - 1)"
  define hu where "hu = unit_at f n / 2"
  define P :: rat where "P = 2 powi scale"
  have hu: "hu * P = 2 ^ (s - 1)" using half_unit[OF f(1) Q(1), of scale] by (simp add: hu_def P_def n_def s_def)
  have pos: "0 < P" "0 < hu" by (simp_all add: P_def hu_def)
  have Qr: "Q = H * 2 ^ (s - 1) + Q mod 2 ^ (s - 1)" by (simp only: H_def div_mult_mod_eq)
  have "Q mod 2 ^ (s - 1) < 2 ^ (s - 1)" by simp
  then have "Q + 1 \<le> H * 2 ^ (s - 1) + 2 ^ (s - 1)" "H * 2 ^ (s - 1) \<le> Q" using Qr by linarith+
  then have Hle: "H * 2 ^ (s - 1) \<le> Q" "Q + 1 \<le> (H + 1) * 2 ^ (s - 1)" by (simp_all only: add_mult_distrib mult_1)
  have "of_nat (H * 2 ^ (s - 1)) \<le> (of_nat Q :: rat)" "of_nat (Q + 1) \<le> (of_nat ((H + 1) * 2 ^ (s - 1)) :: rat)"
    using Hle by (simp_all only: of_nat_le_iff)
  then have H: "of_nat H * 2 ^ (s - 1) \<le> (of_nat Q :: rat)" "of_nat Q + 1 \<le> (of_nat H + 1) * (2 ^ (s - 1) :: rat)" by (simp_all add: algebra_simps)
  have lo: "of_nat H * hu \<le> V"
  proof -
    have "of_nat H * hu * P \<le> V * P" using H(1) Q(2) hu by (simp add: V_def P_def mult.assoc)
    then show ?thesis using pos by simp
  qed
  have hi: "V < (of_nat H + 1) * hu"
  proof -
    have "V * P < (of_nat H + 1) * hu * P" using H(2) Q(3) hu by (simp add: V_def P_def mult.assoc)
    then show ?thesis using pos by simp
  qed
  have eq: "V = of_nat H * hu \<longleftrightarrow> zero \<and> Q mod 2 ^ (s - 1) = 0"
  proof -
    have "V = of_nat H * hu \<longleftrightarrow> V * P = of_nat H * hu * P" using pos by simp
    also have "\<dots> \<longleftrightarrow> V * P = of_nat (H * 2 ^ (s - 1))" using hu by (simp add: mult.assoc)
    also have "\<dots> \<longleftrightarrow> V * P = of_nat Q \<and> H * 2 ^ (s - 1) = Q"
    proof
      assume a: "V * P = of_nat (H * 2 ^ (s - 1))"
      then have "(of_nat Q :: rat) \<le> of_nat (H * 2 ^ (s - 1))" using Q(2) by (simp only: V_def P_def)
      then have "Q \<le> H * 2 ^ (s - 1)" by (simp only: of_nat_le_iff)
      then have "H * 2 ^ (s - 1) = Q" using Hle(1) by (rule antisym[rotated])
      then show "V * P = of_nat Q \<and> H * 2 ^ (s - 1) = Q" using a by (simp only:)
    qed (simp only:)
    also have "\<dots> \<longleftrightarrow> zero \<and> Q mod 2 ^ (s - 1) = 0" using exact Qr by (auto simp: V_def P_def)
    finally show ?thesis .
  qed
  have up: "x < (of_nat H + 1) * hu"
  proof (cases sticky)
    case True
    have Hb: "H + 1 \<le> 2 ^ 55"
    proof -
      have "hidden f \<le> 2 ^ 52" unfolding hidden_def using f(1) by (intro power_increasing) (auto simp: format_ok_def)
      then show ?thesis using half_units_range(1)[OF f(1) Q(1), of scale] by (simp add: H_def s_def)
    qed
    define t where "t = min_exponent f - int (precision f) + int n"
    have t: "- 1075 \<le> t" using f(2) by (simp add: t_def)
    have "unit_at f n = 2 powi (t + 1)" by (simp add: unit_at_def t_def algebra_simps)
    then have hut: "hu = 2 powi t" by (simp add: hu_def power_int_add)
    have "of_nat K * 10 powi e < of_nat (H + 1) * (2 powi t :: rat)" using hi by (simp add: V_def hut add.commute)
    with x(4)[OF True, THEN conjunct1] x(4)[OF True, THEN conjunct2] Hb t
    have "(of_nat K + 1) * 10 powi e \<le> of_nat (H + 1) * (2 powi t :: rat)" by (rule no_midpoint)
    then show ?thesis using x(2) unfolding hut by (simp add: add.commute)
  qed (use x(3) hi V_def in simp)
  have ex: "Q mod 2 ^ (s - 1) = 0 \<and> \<not> (sticky \<or> \<not> zero) \<longleftrightarrow> x = of_nat H * hu"
  proof (cases sticky)
    case True
    then have "V < x" using x(1,3) by (simp add: V_def)
    then show ?thesis using True lo by simp
  next
    case False
    then have "x = V" using x(3) by (simp add: V_def)
    then show ?thesis using False eq by auto
  qed
  have "of_nat H * unit_at f n / 2 \<le> x" "x < (of_nat H + 1) * unit_at f n / 2"
    "Q mod 2 ^ (s - 1) = 0 \<and> \<not> (sticky \<or> \<not> zero) \<longleftrightarrow> x = of_nat H * unit_at f n / 2"
    using lo up ex x(1) by (simp_all add: V_def hu_def)
  then show ?thesis
    by (rule rounded_pattern_nearest[OF f(1) Q(1), of scale x, folded s_def n_def, folded H_def])
qed

lemma format_smallest: "format_of w = Some f \<Longrightarrow> - 1075 \<le> min_exponent f - int (precision f)"
  by (auto simp: format_of_def split: if_splits)

text \<open>The conversion of the digits kept, once the exponent is in range.\<close>

lemma digits_nearest:
  fixes x :: rat
  assumes f: "format_of w = Some f" and s: "scan_ok s number places count" "kept_digits s \<noteq> []"
    and x: "x = of_nat number * 10 powi (e - int places)"
    and fold: "fold_zeros (rev (kept_digits s)) (scan_exponent s + e) = (rds, e')"
    and range: "int (length rds) + e' \<le> 310" "- 400 \<le> int (length rds) + e'"
  obtains num0 num den scale quot r where "append_digits (rev rds) (big_set 0) = Some num0"
    "times_ten (nat e') num0 = Some num" "times_ten (nat (- e')) (big_set 1) = Some den"
    "scaled_quotient f num den = Some (scale, quot, r)"
    "is_nearest f x (unat (round_quotient f scale quot (scan_sticky s \<or> \<not> big_is_zero r)))"
proof -
  define kept where "kept = kept_digits s"
  have ok: "format_ok f" by (rule format_of_ok[OF f])
  have k: "decimal_digits kept" "hd kept \<noteq> CHR ''0''" "length kept \<le> 800" "length kept < 800 \<Longrightarrow> \<not> scan_sticky s"
    using s unfolding scan_ok_def kept_def k_digit_cap_def by auto
  define K where "K = decimal_number 0 kept"
  define E where "E = scan_exponent s + e"
  obtain z where z: "K = decimal_number 0 (rev rds) * 10 ^ z" "e' = E + int z" "length kept = length rds + z"
    "decimal_digits (rev rds)" "0 < decimal_number 0 (rev rds)" "rds \<noteq> []"
    using fold_kept[OF k(1) _ k(2) fold[folded kept_def E_def]] s(2) by (auto simp: kept_def K_def)
  have lens: "length (rev rds) \<le> 800" "int (length (rev rds)) + e' \<le> 310" "- 400 \<le> int (length (rev rds)) + e'"
    using k(3) z(3) range by simp_all
  obtain num0 num den where b: "append_digits (rev rds) (big_set 0) = Some num0" "times_ten (nat e') num0 = Some num"
    "times_ten (nat (- e')) (big_set 1) = Some den" "big_ok num" "big_ok den"
    "0 < big_val num" "big_val num < 2 ^ 4000" "0 < big_val den" "big_val den < 2 ^ 4000"
    "of_nat (big_val num) / of_nat (big_val den) = (of_nat (decimal_number 0 (rev rds)) * 10 powi e' :: rat)"
    by (rule ratio_built[OF z(4) lens(1) z(5) lens(2,3)])
  have V: "of_nat (big_val num) / of_nat (big_val den) = (of_nat K * 10 powi E :: rat)"
    unfolding b(10) z(1,2) by (simp add: power_int_add)
  obtain scale quot r where q: "scaled_quotient f num den = Some (scale, quot, r)"
    "precision f + 3 \<le> nbits (unat quot)"
    "of_nat (unat quot) \<le> (of_nat K * 10 powi E * 2 powi scale :: rat)"
    "(of_nat K * 10 powi E * 2 powi scale :: rat) < of_nat (unat quot) + 1"
    "big_is_zero r \<longleftrightarrow> of_nat K * 10 powi E * 2 powi scale = (of_nat (unat quot) :: rat)"
    by (rule scaled_quotient_val[OF ok b(4,6,7,5,8,9), unfolded V])
  note kb = kept_bounds[OF s x, folded kept_def, folded K_def E_def]
  have sticky: "10 ^ 799 \<le> K \<and> E \<le> 0" if "scan_sticky s"
  proof -
    have len: "length kept = 800" using k(3,4) that by (cases "length kept < 800") auto
    then have "length kept - 1 = 799" by simp
    moreover have "10 ^ (length kept - 1) \<le> K"
      unfolding K_def using s(2) by (intro decimal_number_ge k) (simp add: kept_def)
    ultimately have "10 ^ 799 \<le> K" by (simp only:)
    moreover have "E \<le> 0" using len z(2,3) range(1) by linarith
    ultimately show ?thesis by (rule conjI)
  qed
  have "is_nearest f x (rounded_pattern f scale (unat quot) (scan_sticky s \<or> \<not> big_is_zero r))"
    by (rule quotient_nearest[OF ok format_smallest[OF f] q(2-5) kb(1-3) sticky])
  then show thesis using that[OF b(1-3) q(1)] round_quotient_val[OF ok q(2)] by simp
qed

lemma fold_kept_length:
  "fold_zeros (rev ds) e = (rds, e') \<Longrightarrow> int (length rds) + e' = int (length ds) + e"
proof -
  assume "fold_zeros (rev ds) e = (rds, e')"
  then obtain z where z: "rev ds = replicate z (CHR ''0'') @ rds" "e' = e + int z" using fold_zeros_split by blast
  have "length (rev ds) = z + length rds" by (simp only: z(1) length_append length_replicate)
  then have "length ds = z + length rds" by (simp only: length_rev)
  then show ?thesis using z(2) by simp
qed



end
