(* ===== verification/FloatText.thy ===== *)
theory FloatText
  imports DecimalProof
begin

section \<open>Float literals and the text of floats\<close>

text \<open>
  \<open>parse_float_literal\<close> and \<open>float_literal_value\<close> of \<open>src/support/literal.cpp\<close>, and
  \<open>decimal_to_double\<close> of \<open>src/support/decimal.cpp\<close>, whose \<open>double\<close> is its bit pattern: the
  widening of a narrower pattern is exact. \<open>hex_float\<close> is read back to the value it was
  printed from.
\<close>

record parsed_float =
  float_ok :: bool
  float_value :: "64 word"
  float_body :: bytes
  float_suffix :: bytes

definition no_float :: parsed_float where
  "no_float = \<lparr>float_ok = False, float_value = 0, float_body = [], float_suffix = []\<rparr>"

text \<open>
  Conversions of the machine. \<open>exact_double m e\<close> is the double \<open>m * 2 ^ e\<close> where that is a
  normal one or zero; \<open>double_of_float\<close> is the widening of a \<open>float\<close>.
\<close>

definition exact_double :: "64 word \<Rightarrow> int \<Rightarrow> 64 word" where
  "exact_double m e =
     (if m = 0 then 0
      else let len = quotient_bits m in
        push_bit 52 (word_of_int (int len - 1 + e + 1023)) OR (push_bit (53 - len) m - push_bit 52 1))"

definition double_of_float :: "32 word \<Rightarrow> 64 word" where
  "double_of_float s =
     (let sign = push_bit 63 (ucast (drop_bit 31 s));
          exponent = ucast (drop_bit 23 s AND 0xFF) :: 64 word;
          fraction = ucast (s AND 0x7FFFFF) :: 64 word
      in sign OR
         (if exponent = 0xFF then push_bit 52 0x7FF OR push_bit 29 fraction
          else if exponent = 0 then exact_double fraction (- 149)
          else push_bit 52 (exponent - 127 + 1023) OR push_bit 29 fraction))"

definition double_of_half :: "64 word \<Rightarrow> 64 word" where
  "double_of_half bits =
     (let exponent = drop_bit 10 bits AND 0x1F; fraction = bits AND 0x3FF in
      if exponent = 0x1F then (if fraction = 0 then 0x7FF0000000000000 else 0x7FF8000000000000)
      else if exponent = 0 then exact_double fraction (- 24)
      else push_bit 52 (exponent - 15 + 1023) OR push_bit 42 fraction)"

definition decimal_to_double :: "bytes \<Rightarrow> int \<Rightarrow> 64 word" where
  "decimal_to_double text width =
     (case decimal_to_bits text width of
        None \<Rightarrow> 0
      | Some bits \<Rightarrow>
          if width = 64 then bits
          else if width = 32 then double_of_float (ucast bits)
          else double_of_half bits)"

text \<open>\<open>None\<close> is the return of the empty result; otherwise the text kept and the rest from the suffix on.\<close>

fun float_body_loop :: "bytes \<Rightarrow> bytes \<Rightarrow> (bytes \<times> bytes) option" where
  "float_body_loop [] buf = Some (buf, [])"
| "float_body_loop (c # cs) buf =
     (if c = CHR ''_'' then float_body_loop cs buf
      else if 48 \<le> byte_value c \<and> byte_value c \<le> 57 \<or> c = CHR ''.'' \<or> c = CHR ''e'' \<or> c = CHR ''E'' \<or> c = CHR ''+'' \<or> c = CHR ''-''
        then float_body_loop cs (buf @ [c])
      else if 97 \<le> byte_value c \<and> byte_value c \<le> 122 then Some (buf, c # cs)
      else None)"

definition parse_float_literal :: "bytes \<Rightarrow> parsed_float" where
  "parse_float_literal text =
     (if text = [] then no_float
      else (case float_body_loop text [] of
          None \<Rightarrow> no_float
        | Some (buf, rest) \<Rightarrow>
            if buf = [] then no_float
            else (case decimal_to_bits buf 64 of
                None \<Rightarrow> no_float
              | Some bits \<Rightarrow>
                  \<lparr>float_ok = True, float_value = decimal_to_double buf 64, float_body = buf, float_suffix = rest\<rparr>)))"

definition float_literal_value :: "parsed_float \<Rightarrow> int \<Rightarrow> 64 word" where
  "float_literal_value parsed width = (if \<not> float_ok parsed then 0 else decimal_to_double (float_body parsed) width)"

subsection \<open>Widening is exact\<close>

abbreviation double_format :: float_format where
  "double_format \<equiv> \<lparr>precision = 53, min_exponent = - 1022, max_exponent = 1023, exponent_bits = 11\<rparr>"

lemma double_pattern:
  assumes "1 \<le> e" "e < 2047" "2 ^ 52 \<le> k" "k < 2 * 2 ^ 52"
    "unat w = e" "unat v = k - 2 ^ 52"
  shows "bits_value double_format (unat (push_bit 52 w OR v :: 64 word)) = of_nat k * 2 powi (int e - 1075)"
proof -
  have "unat (push_bit 52 w OR v) = e * 2 ^ 52 + (k - 2 ^ 52)"
    using assms by (subst unat_fields) simp_all
  also have "\<dots> = (e - 1) * hidden double_format + k"
    using assms(1,3) by (cases e) (simp_all add: hidden_def)
  finally have "bits_value double_format (unat (push_bit 52 w OR v)) = of_nat k * unit_at double_format (e - 1)"
    using assms(3,4) bits_value_at[of "e - 1" double_format k] by (simp add: hidden_def)
  moreover have "- 1022 - 53 + 1 + int (e - 1) = int e - 1075" using assms(1) by simp
  ultimately show ?thesis by (simp add: unit_at_def)
qed

lemma exact_double_value:
  assumes "unat m < 2 ^ 53" "m \<noteq> 0" "- 1022 \<le> e" "e \<le> 900"
  shows "bits_value double_format (unat (exact_double m e)) = of_nat (unat m) * 2 powi e"
proof -
  define l where "l = nbits (unat m)"
  have m: "0 < unat m" using assms(2) by (simp add: unat_gt_0)
  have l: "1 \<le> l" "l \<le> 53" "2 ^ (l - 1) \<le> unat m" "unat m < 2 ^ l"
    using nbits_bounds[OF m] nbits_le[OF assms(1)] by (simp_all add: l_def)
  define k where "k = unat m * 2 ^ (53 - l)"
  have "(2::nat) ^ 52 = 2 ^ (l - 1) * 2 ^ (53 - l)" "(2::nat) ^ 53 = 2 ^ l * 2 ^ (53 - l)" using l(1,2) by (simp_all flip: power_add)
  moreover have "2 ^ (l - 1) * 2 ^ (53 - l) \<le> k" "k < 2 ^ l * 2 ^ (53 - l)"
    using l(3,4) unfolding k_def by (intro mult_le_mono1 mult_strict_right_mono; simp)+
  ultimately have k: "2 ^ 52 \<le> k" "k < 2 * 2 ^ 52" by simp_all
  define E where "E = nat (int l - 1 + e + 1023)"
  have E: "int l - 1 + e + 1023 = int E" "1 \<le> E" "E < 2047" using assms(3,4) l(1,2) by (simp_all add: E_def)
  have "unat (word_of_nat n :: 64 word) = n" if "n < 2047" for n using that by (simp add: unat_of_nat)
  then have w: "unat (word_of_int (int l - 1 + e + 1023) :: 64 word) = E" using E(3) unfolding E(1) by simp
  have shifted: "unat (push_bit (53 - l) m) = k" using k(2) unfolding k_def by (intro unat_push_bit) simp
  have one: "unat (push_bit 52 1 :: 64 word) = 2 ^ 52" by (rule unat_push_bit_1) simp
  have "push_bit 52 1 \<le> push_bit (53 - l) m" using k(1) by (simp only: word_le_nat_alt one shifted)
  then have v: "unat (push_bit (53 - l) m - push_bit 52 1) = k - 2 ^ 52" by (simp only: unat_sub one shifted)
  have "exact_double m e = push_bit 52 (word_of_int (int l - 1 + e + 1023)) OR (push_bit (53 - l) m - push_bit 52 1)"
    using assms(2) by (simp add: exact_double_def Let_def quotient_bits_nbits l_def)
  then have "bits_value double_format (unat (exact_double m e)) = of_nat k * 2 powi (int E - 1075)"
    using double_pattern[OF E(2,3) k w v] by (simp only:)
  also have "\<dots> = of_nat (unat m) * (2 ^ (53 - l) * 2 powi (int E - 1075))" by (simp add: k_def)
  also have "(2::rat) ^ (53 - l) * 2 powi (int E - 1075) = 2 powi (int (53 - l) + (int E - 1075))" by (simp add: power_int_add)
  also have "int (53 - l) + (int E - 1075) = e" using E(1) l(2) by simp
  finally show ?thesis .
qed

lemma low_bits:
  "unat (w AND 0x1F :: 64 word) = unat w mod 2 ^ 5" "unat (w AND 0x3FF :: 64 word) = unat w mod 2 ^ 10"
  using unat_and_mask[of 5 w] unat_and_mask[of 10 w] by simp_all

text \<open>A pattern of a narrower width, as a double: its mantissa moved up to 53 bits.\<close>

lemma widened_value:
  assumes "format_ok f" "precision f \<le> 24" "exponent_bits f \<le> 8" "bias = max_exponent f" "unat b < unat (infinity_bits f)"
    "unat w = unat b div hidden f + 1023 - nat bias" "unat v = (unat b mod hidden f) * 2 ^ (53 - precision f)"
    "1 \<le> unat b div hidden f"
  shows "bits_value double_format (unat (push_bit 52 w OR v :: 64 word)) = bits_value f (unat b)"
proof -
  define E where "E = unat b div hidden f"
  define F where "F = unat b mod hidden f"
  have ok: "2 \<le> precision f" "2 \<le> exponent_bits f" "max_exponent f = 2 ^ (exponent_bits f - 1) - 1" "min_exponent f = 1 - max_exponent f"
    using assms(1) by (simp_all add: format_ok_def)
  have h: "0 < hidden f" "hidden f * 2 ^ (53 - precision f) = 2 ^ 52"
    using ok(1) assms(2) by (simp_all add: hidden_def flip: power_add)
  have F: "F < hidden f" using h(1) by (simp add: F_def)
  have "2 ^ 1 \<le> (2::int) ^ (exponent_bits f - 1)" using ok(2) by (intro power_increasing) auto
  moreover have "(2::int) ^ (exponent_bits f - 1) \<le> 2 ^ 7" using assms(3) by (intro power_increasing) auto
  ultimately have bias: "1 \<le> bias" "bias \<le> 127" using assms(4) ok(3) by simp_all
  have "(2::nat) ^ exponent_bits f \<le> 2 ^ 8" using assms(3) by (intro power_increasing) auto
  moreover have "E < 2 ^ exponent_bits f - 1"
    using assms(5) h(1) infinity_bits_val(1)[OF assms(1)] by (simp add: E_def less_mult_imp_div_less)
  ultimately have E: "1 \<le> E" "E < 255" using assms(8) by (simp_all add: E_def)
  define k where "k = 2 ^ 52 + F * 2 ^ (53 - precision f)"
  have "F * 2 ^ (53 - precision f) < hidden f * 2 ^ (53 - precision f)" using F by (intro mult_strict_right_mono) simp_all
  then have k: "2 ^ 52 \<le> k" "k < 2 * 2 ^ 52" using h(2) by (simp_all add: k_def)
  define e where "e = E + 1023 - nat bias"
  have e: "1 \<le> e" "e < 2047" "int e = int E + 1023 - bias" using E bias by (simp_all add: e_def of_nat_diff)
  have "bits_value double_format (unat (push_bit 52 w OR v)) = of_nat k * 2 powi (int e - 1075)"
    using assms(6,7) by (intro double_pattern e(1,2) k) (simp_all add: e_def E_def F_def k_def)
  also have "k = (hidden f + F) * 2 ^ (53 - precision f)" using h(2) by (simp add: k_def add_mult_distrib)
  also have "of_nat ((hidden f + F) * 2 ^ (53 - precision f)) * 2 powi (int e - 1075)
      = of_nat (hidden f + F) * (2 powi (int (53 - precision f) + (int e - 1075)) :: rat)"
    by (simp add: power_int_add)
  also have "int (53 - precision f) + (int e - 1075) = min_exponent f + int E - int (precision f)"
    using e(3) ok(4) assms(2,4) by (simp add: of_nat_diff)
  finally show ?thesis using E(1) by (simp add: bits_value_def Let_def E_def F_def hidden_def)
qed

lemma half_value:
  assumes "format_of 16 = Some f" "unat b < unat (infinity_bits f)"
  shows "bits_value double_format (unat (double_of_half b)) = bits_value f (unat b)"
proof -
  have f: "f = \<lparr>precision = 11, min_exponent = - 14, max_exponent = 15, exponent_bits = 5\<rparr>" using assms(1) by (simp add: format_of_def)
  have ok: "format_ok f" by (rule format_of_ok[OF assms(1)])
  have h: "hidden f = 1024" by (simp add: f hidden_def)
  have "unat (infinity_bits f) = 31 * 1024" using infinity_bits_val(1)[OF ok] by (simp only: h) (simp add: f)
  then have "unat b div 1024 < 31" using assms(2) by (simp add: less_mult_imp_div_less)
  then have E: "unat (drop_bit 10 b AND 0x1F) = unat b div 1024" by (simp add: low_bits unat_drop_bit)
  have F: "unat (b AND 0x3FF) = unat b mod 1024" by (simp add: low_bits)
  have top: "drop_bit 10 b AND 0x1F \<noteq> 0x1F" 
  proof
    assume "drop_bit 10 b AND 0x1F = 0x1F"
    then have "unat b div 1024 = unat (0x1F :: 64 word)" using E by simp
    then show False using \<open>unat b div 1024 < 31\<close> by simp
  qed
  show ?thesis
  proof (cases "unat b div 1024 = 0")
    case True
    then have "drop_bit 10 b AND 0x1F = 0" using E by (metis unat_eq_0)
    then have eq: "double_of_half b = exact_double (b AND 0x3FF) (- 24)" using top by (simp add: double_of_half_def Let_def)
    have val: "bits_value f (unat b) = of_nat (unat b mod 1024) * 2 powi - 24"
      using True unfolding bits_value_def h Let_def by (simp add: f)
    show ?thesis
    proof (cases "b AND 0x3FF = 0")
      case True
      then show ?thesis using F by (simp add: eq val exact_double_def)
    next
      case False
      have "unat (b AND 0x3FF) < 1024" unfolding F by simp
      then have "unat (b AND 0x3FF) < 2 ^ 53" by simp
      then show ?thesis unfolding eq val using exact_double_value[OF _ False, of "- 24"] F by simp
    qed
  next
    case False
    have exp: "drop_bit 10 b AND 0x1F \<noteq> 0" using E False by (metis unat_0)
    define w where "w = (drop_bit 10 b AND 0x1F) - 15 + 1023"
    have "w = (drop_bit 10 b AND 0x1F) + 1008" by (simp add: w_def)
    then have w: "unat w = unat b div 1024 + 1008" using E \<open>unat b div 1024 < 31\<close> by (simp add: unat_word_ariths)
    have "unat b mod 1024 < 1024" by simp
    then have v: "unat (push_bit 42 (b AND 0x3FF)) = (unat b mod 1024) * 2 ^ 42" using F by (subst unat_push_bit) simp_all
    have eq: "double_of_half b = push_bit 52 w OR push_bit 42 (b AND 0x3FF)"
      using top exp by (simp add: double_of_half_def Let_def w_def)
    show ?thesis
      unfolding eq by (rule widened_value[OF ok _ _ refl assms(2), unfolded h]) (use w v False in \<open>simp_all add: f\<close>)
  qed
qed

lemma float_low_bits: "unat (w AND 0xFF :: 32 word) = unat w mod 2 ^ 8" "unat (w AND 0x7FFFFF :: 32 word) = unat w mod 2 ^ 23"
proof -
  have "unat (0xFF :: 32 word) = mask 8" "unat (0x7FFFFF :: 32 word) = mask 23" by (simp_all add: mask_eq_exp_minus_1)
  then show "unat (w AND 0xFF :: 32 word) = unat w mod 2 ^ 8" "unat (w AND 0x7FFFFF :: 32 word) = unat w mod 2 ^ 23"
    by (simp_all only: unsigned_and_eq take_bit_eq_mask[symmetric] take_bit_eq_mod)
qed

lemma single_value:
  fixes b :: "64 word"
  assumes "format_of 32 = Some f" "unat b < unat (infinity_bits f)"
  shows "bits_value double_format (unat (double_of_float (ucast b))) = bits_value f (unat b)"
proof -
  have f: "f = \<lparr>precision = 24, min_exponent = - 126, max_exponent = 127, exponent_bits = 8\<rparr>" using assms(1) by (simp add: format_of_def)
  have ok: "format_ok f" by (rule format_of_ok[OF assms(1)])
  define q :: nat where "q = 8388608"
  have h: "hidden f = q" by (simp add: f hidden_def q_def)
  have "unat (infinity_bits f) = 255 * q" using infinity_bits_val(1)[OF ok] by (simp only: h) (simp add: f)
  then have b: "unat b < 255 * q" "unat b div q < 255" using assms(2) by (simp_all add: less_mult_imp_div_less)
  define s :: "32 word" where "s = ucast b"
  have s: "unat s = unat b" unfolding s_def unat_ucast_low using b(1) by (simp add: q_def)
  have sign: "drop_bit 31 s = 0" using b(1) by (simp add: unat_eq_0[symmetric] unat_drop_bit s q_def del: unat_eq_0)
  define e :: "64 word" where "e = ucast (drop_bit 23 s AND 0xFF)"
  define m :: "64 word" where "m = ucast (s AND 0x7FFFFF)"
  have e: "unat e = unat b div q" using b(2) by (simp add: e_def unat_ucast_up float_low_bits unat_drop_bit s q_def)
  have m: "unat m = unat b mod q" by (simp add: m_def unat_ucast_up float_low_bits s q_def)
  have top: "e \<noteq> 0xFF"
  proof
    assume "e = 0xFF"
    then have "unat b div q = unat (0xFF :: 64 word)" using e by simp
    then show False using b(2) by simp
  qed
  have eq: "double_of_float s = (if e = 0 then exact_double m (- 149) else push_bit 52 (e - 127 + 1023) OR push_bit 29 m)"
    using top sign by (simp add: double_of_float_def Let_def flip: e_def m_def)
  have mq: "unat m < q" unfolding m by (simp add: q_def)
  show ?thesis
  proof (cases "unat b div q = 0")
    case True
    then have "e = 0" using e by (metis unat_eq_0)
    then have eq: "double_of_float s = exact_double m (- 149)" using eq by simp
    have val: "bits_value f (unat b) = of_nat (unat m) * 2 powi - 149"
      using True m unfolding bits_value_def h Let_def by (simp add: f)
    show ?thesis
    proof (cases "m = 0")
      case True
      then show ?thesis by (simp add: eq val exact_double_def flip: s_def)
    next
      case False
      have "unat m < 2 ^ 53" using mq by (simp add: q_def)
      then show ?thesis using exact_double_value[OF _ False, of "- 149"] by (simp add: eq val flip: s_def)
    qed
  next
    case False
    have exp: "e \<noteq> 0" using e False by (metis unat_0)
    define w where "w = e - 127 + 1023"
    have "w = e + 896" by (simp add: w_def)
    then have w: "unat w = unat b div q + 896" using e b(2) by (simp add: unat_word_ariths)
    have v: "unat (push_bit 29 m) = (unat b mod q) * 2 ^ 29" using m mq by (subst unat_push_bit) (simp_all add: q_def)
    have eq: "double_of_float s = push_bit 52 w OR push_bit 29 m" using eq exp by (simp add: w_def)
    show ?thesis
      unfolding s_def[symmetric] eq
      by (rule widened_value[OF ok _ _ refl assms(2), unfolded h]) (use w v False in \<open>simp_all add: f\<close>)
  qed
qed

text \<open>
  C20: the double a decimal literal is given is exactly the value its width rounds it to: the
  narrower pattern is widened without a second rounding.
\<close>

theorem decimal_to_double_exact:
  assumes "format_of width = Some f" "decimal_to_bits text width = Some b" "unat b < unat (infinity_bits f)"
  shows "bits_value double_format (unat (decimal_to_double text width)) = bits_value f (unat b)"
proof -
  consider "width = 64" | "width = 32" | "width = 16" using assms(1) by (auto simp: format_of_def split: if_splits)
  then show ?thesis
  proof cases
    case 1
    then show ?thesis using assms by (simp add: decimal_to_double_def format_of_def)
  next
    case 2
    then show ?thesis using assms single_value[of f b] by (simp add: decimal_to_double_def)
  next
    case 3
    then show ?thesis using assms half_value[of f b] by (simp add: decimal_to_double_def)
  qed
qed

theorem decimal_to_double_exact_witness: "bits_value double_format (unat (decimal_to_double ''1.5'' 16)) = 3 / 2"
proof -
  define f where "f = \<lparr>precision = 11, min_exponent = - 14, max_exponent = 15, exponent_bits = 5\<rparr>"
  have ok: "format_of 16 = Some f" by (simp add: f_def format_of_def)
  have run: "decimal_to_bits ''1.5'' 16 = Some 0x3E00" by code_simp
  have "unat (infinity_bits f) = 31744"
    using infinity_bits_val(1)[OF format_of_ok[OF ok]] by (simp add: f_def hidden_def)
  then have "unat (0x3E00 :: 64 word) < unat (infinity_bits f)" by simp
  from decimal_to_double_exact[OF ok run this] show ?thesis
    by (simp add: f_def bits_value_def hidden_def)
qed

subsection \<open>Spellings with separators and a suffix\<close>

definition float_char :: "char \<Rightarrow> bool" where
  "float_char c \<longleftrightarrow> c = CHR ''_'' \<or> 48 \<le> byte_value c \<and> byte_value c \<le> 57
     \<or> c \<in> {CHR ''.'', CHR ''e'', CHR ''E'', CHR ''+'', CHR ''-''}"

lemma float_body_text:
  "list_all float_char body \<Longrightarrow> sfx = [] \<or> hd sfx = CHR ''f''
    \<Longrightarrow> float_body_loop (body @ sfx) buf = Some (buf @ only_digits body, sfx)"
proof (induction body arbitrary: buf)
  case Nil
  then show ?case by (cases sfx) (auto simp: only_digits_def)
next
  case (Cons c cs)
  then show ?case by (cases "c = CHR ''_''") (auto simp: only_digits_def float_char_def)
qed

lemma digit_text_float: "digit_text ds \<Longrightarrow> list_all float_char ds"
  by (induction ds) (auto simp: digit_text_def float_char_def)

lemma digit_text_only: "digit_text ds \<Longrightarrow> digit_text (only_digits ds) \<and> only_digits (only_digits ds) = only_digits ds"
  by (induction ds) (auto simp: digit_text_def only_digits_def)

lemma only_digits_append: "only_digits (a @ b) = only_digits a @ only_digits b"
  by (simp add: only_digits_def)

lemma mantissa_text_only:
  assumes "mantissa_text text whole fraction"
  shows "mantissa_text (only_digits text) (only_digits whole) (only_digits fraction)" "list_all float_char text"
  using assms digit_text_only[of whole] digit_text_only[of fraction] digit_text_float[of whole] digit_text_float[of fraction]
  unfolding mantissa_text_def only_digits_append by (auto simp: only_digits_def float_char_def)

lemma exponent_text_only:
  assumes "exponent_text ex e"
  shows "exponent_text (only_digits ex) e" "list_all float_char ex"
proof -
  consider "ex = []" "e = 0" | mark sign ds where "ex = mark # sign @ ds" "mark \<in> {CHR ''e'', CHR ''E''}" "sign \<in> {[], ''+'', ''-''}"
    "only_digits ds \<noteq> []" "digit_text ds" "e = (if sign = ''-'' then - 1 else 1) * int (decimal_number 0 (only_digits ds))"
    using assms unfolding exponent_text_def by blast
  then have "exponent_text (only_digits ex) e \<and> list_all float_char ex"
  proof cases
    case 1
    then show ?thesis by (simp add: exponent_text_def only_digits_def)
  next
    case 2
    have "only_digits ex = mark # sign @ only_digits ds" using 2 by (auto simp: only_digits_def)
    moreover have "list_all float_char ex" using 2 digit_text_float[of ds] by (auto simp: float_char_def)
    ultimately show ?thesis using 2 digit_text_only[of ds] unfolding exponent_text_def by metis
  qed
  then show "exponent_text (only_digits ex) e" "list_all float_char ex" by simp_all
qed



lemma scan_ok_mantissa:
  "scan_mantissa spelling s = Some (s', rest) \<Longrightarrow> scan_ok s number places count
    \<Longrightarrow> \<exists>number places count. scan_ok s' number places count"
proof (induction spelling s arbitrary: number places count rule: scan_mantissa.induct)
  case (2 c cs s)
  consider (skip) "c = CHR ''_''" | (point) "c = CHR ''.''" "\<not> seen_point s" | (stop) "c = CHR ''e'' \<or> c = CHR ''E''"
    | (digit) "c \<noteq> CHR ''_''" "c \<noteq> CHR ''.''" "c \<noteq> CHR ''e''" "c \<noteq> CHR ''E''" "48 \<le> byte_value c" "byte_value c \<le> 57"
    using "2.prems"(1) by (auto split: if_splits)
  then show ?case
  proof cases
    case skip
    then show ?thesis using "2.IH"(1) "2.prems" by simp
  next
    case point
    then have "scan_ok (s\<lparr>seen_point := True\<rparr>) number places count" using "2.prems"(2) by (simp add: scan_ok_def)
    then show ?thesis using point "2.IH"(2) "2.prems"(1) by simp
  next
    case stop
    then have "s' = s" using "2.prems"(1) by auto
    then show ?thesis using "2.prems"(2) by blast
  next
    case digit
    have "\<not> (byte_value c < 48 \<or> 57 < byte_value c)" using digit by simp
    then show ?thesis
      using "2.IH"(3) digit "2.prems" scan_ok_digit[OF "2.prems"(2) digit(5,6)] by simp
  qed
qed auto

lemma decimal_to_bits_None:
  "decimal_to_bits spelling width = None \<longleftrightarrow> format_of width = None \<or> scan_mantissa spelling scan_start = None
    \<or> (\<exists>s rest. scan_mantissa spelling scan_start = Some (s, rest) \<and> (\<not> seen_digit s \<or> given_exponent rest = None))"
proof -
  have total: "decimal_to_bits spelling width \<noteq> None"
    if f: "format_of width = Some f" and s: "scan_mantissa spelling scan_start = Some (s, rest)" "seen_digit s" "given_exponent rest = Some g"
    for f s rest g
  proof -
    obtain rds e' where fold: "fold_zeros (rev (kept_digits s)) (scan_exponent s + g) = (rds, e')" by fastforce
    note run = decimal_to_bits_def[of spelling width, unfolded f s(1) option.case prod.case s(3) fold Let_def]
    obtain number places count where ok: "scan_ok s number places count"
      using scan_ok_mantissa[OF s(1) scan_ok_start] by blast
    show ?thesis
    proof (cases "kept_digits s = [] \<or> 310 < int (length rds) + e' \<or> int (length rds) + e' < - 400")
      case True
      then show ?thesis using s(2) unfolding run by auto
    next
      case False
      then have r: "kept_digits s \<noteq> []" "int (length rds) + e' \<le> 310" "- 400 \<le> int (length rds) + e'" by simp_all
      obtain num0 num den scale quot r where d: "append_digits (rev rds) (big_set 0) = Some num0"
        "times_ten (nat e') num0 = Some num" "times_ten (nat (- e')) (big_set 1) = Some den"
        "scaled_quotient f num den = Some (scale, quot, r)"
        by (rule digits_nearest[OF f ok r(1) refl fold r(2,3)])
      show ?thesis using s(2) r d unfolding run by simp
    qed
  qed
  show ?thesis
  proof (cases "format_of width = None \<or> scan_mantissa spelling scan_start = None")
    case True
    then show ?thesis by (auto simp: decimal_to_bits_def split: option.splits)
  next
    case False
    then obtain f s rest where fs: "format_of width = Some f" "scan_mantissa spelling scan_start = Some (s, rest)" by auto
    show ?thesis
    proof (cases "seen_digit s")
      case True
      then show ?thesis using fs total[OF fs True] by (cases "given_exponent rest") (auto simp: decimal_to_bits_def)
    qed (use fs in \<open>simp add: decimal_to_bits_def\<close>)
  qed
qed

text \<open>
  C22: the conversion gives bits exactly when the width is one of the three and the text is a
  mantissa with a digit and, after an \<open>e\<close>, an exponent: the capacity of the big integers, which
  the code checks at every step, is never exceeded.
\<close>

theorem decimal_to_bits_rejects:
  "decimal_to_bits spelling width \<noteq> None \<longleftrightarrow>
     (\<exists>f s rest g. format_of width = Some f \<and> scan_mantissa spelling scan_start = Some (s, rest)
        \<and> seen_digit s \<and> given_exponent rest = Some g)"
  unfolding decimal_to_bits_None by auto

subsection \<open>The hexadecimal spelling reads back\<close>

text \<open>The value of a hexadecimal floating constant of C, \<open>0xh.hhhp+d\<close> with any suffix.\<close>

definition read_hex_float :: "bytes \<Rightarrow> rat" where
  "read_hex_float t =
     (let nibbles = (if t ! 3 = CHR ''.'' then takeWhile (\<lambda>c. c \<noteq> CHR ''p'') (drop 4 t) else []);
          ex = drop 1 (dropWhile (\<lambda>c. c \<noteq> CHR ''p'') t);
          pw = int (decimal_number 0 (takeWhile (\<lambda>c. 48 \<le> byte_value c \<and> byte_value c \<le> 57) (drop 1 ex)))
      in (of_nat (digit_of (t ! 2)) + of_nat (digits_value 16 0 (map digit_of nibbles)) / 16 ^ length nibbles)
         * 2 powi (if hd ex = CHR ''-'' then - pw else pw))"

lemma dec_digits_read: "decimal_digits (dec_digits n) \<and> decimal_number 0 (dec_digits n) = n"
proof (induction n rule: dec_digits.induct)
  case (1 n)
  have d: "byte_value (char_of (48 + m)) = 48 + m" if "m < 10" for m :: nat using that by simp
  show ?case
  proof (cases "n < 10")
    case True
    then show ?thesis using d[OF True] by (simp add: dec_digits.simps[of n] decimal_digits_def)
  next
    case False
    then show ?thesis
      using 1[OF False] d[of "n mod 10"] by (simp add: dec_digits.simps[of n] decimal_digits_def)
  qed
qed

lemma signed_power_read:
  fixes pw :: int
  assumes "sfx = [] \<or> hd sfx = CHR ''f''"
  defines "ex \<equiv> (if 0 \<le> pw then ''+'' else []) @ to_string_int pw @ sfx"
  shows "(if hd ex = CHR ''-'' then - int (decimal_number 0 (takeWhile (\<lambda>c. 48 \<le> byte_value c \<and> byte_value c \<le> 57) (drop 1 ex)))
      else int (decimal_number 0 (takeWhile (\<lambda>c. 48 \<le> byte_value c \<and> byte_value c \<le> 57) (drop 1 ex)))) = pw"
proof -
  have "takeWhile (\<lambda>c. 48 \<le> byte_value c \<and> byte_value c \<le> 57) (ds @ sfx) = ds" if "decimal_digits ds" for ds
  proof -
    have "takeWhile (\<lambda>c. 48 \<le> byte_value c \<and> byte_value c \<le> 57) sfx = []" using assms(1) by (cases sfx) auto
    then show ?thesis using that by (simp add: decimal_digits_def list_all_iff takeWhile_append2)
  qed
  then have digits: "decimal_number 0 (takeWhile (\<lambda>c. 48 \<le> byte_value c \<and> byte_value c \<le> 57) (dec_digits n @ sfx)) = n" for n
    using dec_digits_read by simp
  show ?thesis
  proof (cases "0 \<le> pw")
    case True
    then have "ex = CHR ''+'' # dec_digits (nat pw) @ sfx" by (simp add: ex_def to_string_int_def)
    then show ?thesis using True by (simp add: digits)
  next
    case False
    then have "ex = CHR ''-'' # dec_digits (nat (- pw)) @ sfx" by (simp add: ex_def to_string_int_def)
    then show ?thesis using False by (simp add: digits)
  qed
qed

lemma hex_digit_reads: "n < 16 \<Longrightarrow> unat w = n \<Longrightarrow> digit_of (hex_digit_char w) = n \<and> hex_digit_char w \<noteq> CHR ''p''"
proof -
  assume a: "n < 16" "unat w = n"
  then consider "n < 10" | "10 \<le> n" by linarith
  then show ?thesis
  proof cases
    case 1
    then have "w < 10" using a by (simp add: word_less_nat_alt)
    then have "hex_digit_char w = char_of (48 + n)" using a 1 by (simp add: hex_digit_char_def unat_word_ariths)
    moreover have "byte_value (char_of (48 + n)) = 48 + n" using 1 by simp
    ultimately have v: "byte_value (hex_digit_char w) = 48 + n" by simp
    moreover have "hex_digit_char w \<noteq> CHR ''p''" using v 1 by (intro notI) simp
    ultimately show ?thesis using 1 by (simp add: digit_of_def literal_hex_value_def)
  next
    case 2
    then have "\<not> w < 10" using a by (simp add: word_less_nat_alt)
    moreover have "97 + w - 10 = w + 87" by simp
    ultimately have "hex_digit_char w = char_of (87 + n)" using a 2 by (simp add: hex_digit_char_def unat_word_ariths)
    moreover have "byte_value (char_of (87 + n)) = 87 + n" using a(1) by simp
    ultimately have v: "byte_value (hex_digit_char w) = 87 + n" by simp
    moreover have "hex_digit_char w \<noteq> CHR ''p''" using v a(1) by (intro notI) simp
    ultimately show ?thesis using a(1) 2 by (simp add: digit_of_def literal_hex_value_def)
  qed
qed

lemma hex_nibbles_read:
  "digits_value 16 v (map digit_of (hex_nibbles w n)) = v * 16 ^ n + unat w mod 16 ^ n
    \<and> list_all (\<lambda>c. c \<noteq> CHR ''p'') (hex_nibbles w n) \<and> length (hex_nibbles w n) = n"
proof (induction n arbitrary: v)
  case 0
  then show ?case by (simp add: digits_value_def)
next
  case (Suc n)
  have "unat (drop_bit (n * 4) w AND 15) = unat w div 16 ^ n mod 16"
  proof -
    have "unat (drop_bit (n * 4) w AND (push_bit 4 1 - 1)) = unat w div 2 ^ (n * 4) mod 2 ^ 4"
      by (subst unat_and_mask) (simp_all add: unat_drop_bit)
    moreover have "(2::nat) ^ (n * 4) = 16 ^ n" by (simp add: power_mult mult.commute[of n])
    ultimately show ?thesis by simp
  qed
  then have d: "digit_of (hex_digit_char (drop_bit (n * 4) w AND 15)) = unat w div 16 ^ n mod 16"
    "hex_digit_char (drop_bit (n * 4) w AND 15) \<noteq> CHR ''p''"
    using hex_digit_reads[of "unat w div 16 ^ n mod 16"] by simp_all
  have "unat w mod 16 ^ Suc n = 16 ^ n * (unat w div 16 ^ n mod 16) + unat w mod 16 ^ n"
    by (simp only: power_Suc2 mod_mult2_eq)
  then show ?case using Suc[of "v * 16 + unat w div 16 ^ n mod 16"] d
    by (simp add: digits_value_def algebra_simps)
qed

text \<open>The text of the printer, and what the reader finds in it.\<close>

lemma read_hex_text:
  assumes "lead \<noteq> CHR ''p''" "list_all (\<lambda>c. c \<noteq> CHR ''p'') nibbles" "sfx = [] \<or> hd sfx = CHR ''f''"
  shows "read_hex_float (''0x'' @ [lead] @ ''.'' @ nibbles @ ''p'' @ (if 0 \<le> pw then ''+'' else []) @ to_string_int pw @ sfx)
    = (of_nat (digit_of lead) + of_nat (digits_value 16 0 (map digit_of nibbles)) / 16 ^ length nibbles) * 2 powi pw"
proof -
  define ex where "ex = (if 0 \<le> pw then ''+'' else []) @ to_string_int pw @ sfx"
  define D where "D = decimal_number 0 (takeWhile (\<lambda>c. 48 \<le> byte_value c \<and> byte_value c \<le> 57) (drop 1 ex))"
  have pw: "pw = (if hd ex = CHR ''-'' then - int D else int D)"
    using signed_power_read[OF assms(3), of pw, folded ex_def, folded D_def] by (rule sym)
  have take: "takeWhile (\<lambda>c. c \<noteq> CHR ''p'') (nibbles @ CHR ''p'' # ex) = nibbles"
    "dropWhile (\<lambda>c. c \<noteq> CHR ''p'') (nibbles @ CHR ''p'' # ex) = CHR ''p'' # ex"
    using assms(2) by (induction nibbles) auto
  have "read_hex_float (''0x'' @ [lead] @ ''.'' @ nibbles @ ''p'' @ ex)
    = (of_nat (digit_of lead) + of_nat (digits_value 16 0 (map digit_of nibbles)) / 16 ^ length nibbles) * 2 powi pw"
    using assms(1) take by (simp add: read_hex_float_def Let_def pw D_def)
  then show ?thesis by (simp only: ex_def)
qed

lemma read_hex_zero: "sfx = [] \<or> hd sfx = CHR ''f'' \<Longrightarrow> read_hex_float (''0x0p+0'' @ sfx) = 0"
  by (simp add: read_hex_float_def Let_def digits_value_def digit_of_def literal_hex_value_def)

text \<open>
  C21: the hexadecimal constant written into the C code is read back as exactly the value of
  the bits it was printed from, at every width and for every finite pattern.
\<close>

theorem hex_float_reads_back:
  assumes "format_of width = Some f" "unat b < unat (infinity_bits f)"
  shows "read_hex_float (hex_float b width) = bits_value f (unat b)"
proof -
  have ok: "format_ok f" by (rule format_of_ok[OF assms(1)])
  define fb where "fb = precision f - 1"
  define n where "n = (fb + 3) div 4"
  define pad where "pad = n * 4 - fb"
  have w: "width = 64 \<and> fb = 52 \<and> exponent_bits f = 11 \<or> width = 32 \<and> fb = 23 \<and> exponent_bits f = 8 \<or> width = 16 \<and> fb = 10 \<and> exponent_bits f = 5"
    using assms(1) by (auto simp: format_of_def fb_def split: if_splits)
  have small: "fb < 64" "pad < 4" "fb + pad = n * 4" "exponent_bits f < 64" "fb + pad \<le> 52" using w by (auto simp: pad_def n_def)
  have h: "hidden f = 2 ^ fb" by (simp add: hidden_def fb_def)
  define E where "E = unat b div 2 ^ fb"
  define F where "F = unat b mod 2 ^ fb"
  have "unat b < (2 ^ exponent_bits f - 1) * 2 ^ fb" using assms(2) by (simp add: infinity_bits_val(1)[OF ok] h)
  then have "E < 2 ^ exponent_bits f - 1" unfolding E_def by (rule less_mult_imp_div_less)
  then have E: "E < 2 ^ exponent_bits f" by linarith
  have F: "F < 2 ^ fb" by (simp add: F_def)
  define ew where "ew = drop_bit fb b AND (push_bit (exponent_bits f) 1 - 1)"
  define fw where "fw = push_bit pad (b AND (push_bit fb 1 - 1))"
  have ew: "unat ew = E" using E by (simp only: ew_def unat_and_mask[OF small(4)] unat_drop_bit E_def[symmetric] mod_less)
  have "F * 2 ^ pad < 2 ^ fb * 2 ^ pad" using F by simp
  also have "\<dots> = 2 ^ (n * 4)" by (simp add: small(3) flip: power_add)
  finally have Fp: "F * 2 ^ pad < 16 ^ n" by (simp add: power_mult mult.commute[of n])
  have "(16::nat) ^ n \<le> 2 ^ 52"
  proof -
    have "(16::nat) ^ n = 2 ^ (n * 4)" by (simp add: power_mult mult.commute[of n])
    also have "\<dots> \<le> 2 ^ 52" using small(3,5) by (intro power_increasing) simp_all
    finally show ?thesis .
  qed
  then have fw: "unat fw = F * 2 ^ pad"
    using Fp unfolding fw_def by (subst unat_push_bit) (simp_all only: unat_and_mask[OF small(1)] F_def, simp)
  define sfx where "sfx = (if width = 32 then ''f'' else if width = 16 then ''f16'' else [])"
  have sfx: "sfx = [] \<or> hd sfx = CHR ''f''" by (simp add: sfx_def)
  define pw where "pw = (if ew = 0 then 1 - (2 ^ (exponent_bits f - 1) - 1) else uint ew - (2 ^ (exponent_bits f - 1) - 1))"
  have ex_bits: "(if width = 64 then 11 else if width = 32 then 8 else 5) = exponent_bits f"
    "(if width = 64 then 52 else if width = 32 then 23 else 10) = fb" using w by auto
  have run: "hex_float b width = (if ew = 0 \<and> fw = 0 then ''0x0p+0'' else
      (if ew = 0 then ''0x0.'' else ''0x1.'') @ hex_nibbles fw n @ ''p'' @ (if 0 \<le> pw then ''+'' else []) @ to_string_int pw) @ sfx"
    unfolding hex_float_def ex_bits Let_def n_def[symmetric] pad_def[symmetric] ew_def[symmetric] fw_def[symmetric]
      sfx_def[symmetric] pw_def[symmetric] by (rule refl)
  define frac_value :: rat where "frac_value = of_nat F / 2 ^ fb"
  have frac_eq: "of_nat (unat fw mod 16 ^ n) / 16 ^ n = frac_value"
  proof -
    have "(16::rat) ^ n = 2 ^ fb * 2 ^ pad" by (simp add: small(3) power_mult mult.commute[of n] flip: power_add)
    then show ?thesis using Fp by (simp add: fw frac_value_def)
  qed
  have emin: "min_exponent f = 1 - max_exponent f" "max_exponent f = 2 ^ (exponent_bits f - 1) - 1" "int (precision f) = int fb + 1"
    using ok by (simp_all add: format_ok_def fb_def)
  have read: "read_hex_float (hex_float b width) = (of_nat (digit_of lead) + frac_value) * 2 powi pw"
    if "hex_float b width = ''0x'' @ [lead] @ ''.'' @ hex_nibbles fw n @ ''p'' @ (if 0 \<le> pw then ''+'' else []) @ to_string_int pw @ sfx"
      "lead \<noteq> CHR ''p''" for lead
    using read_hex_text[OF that(2) _ sfx, of "hex_nibbles fw n" pw] hex_nibbles_read[of 0 fw n] frac_eq by (simp add: that(1))
  have val: "bits_value f (unat b) = (if E = 0 then frac_value * 2 powi (min_exponent f) else (1 + frac_value) * 2 powi (min_exponent f + int E - 1))"
  proof -
    define A :: rat where "A = 2 powi (min_exponent f)"
    define B :: rat where "B = 2 powi (min_exponent f + int E - 1)"
    have "min_exponent f - int (precision f) + 1 = min_exponent f - int fb"
      "min_exponent f + int E - int (precision f) = min_exponent f + int E - 1 - int fb" unfolding emin(3) by simp_all
    then have p: "2 powi (min_exponent f - int (precision f) + 1) = A / 2 ^ fb" "2 powi (min_exponent f + int E - int (precision f)) = B / 2 ^ fb"
      unfolding A_def B_def by (simp_all only:) (subst power_int_diff; simp)+
    show ?thesis
      unfolding bits_value_def Let_def h E_def[symmetric] F_def[symmetric] p A_def[symmetric] B_def[symmetric]
      by (simp add: frac_value_def field_simps)
  qed
  show ?thesis
  proof (cases "ew = 0")
    case True
    then have e0: "E = 0" using ew by simp
    show ?thesis
    proof (cases "fw = 0")
      case True
      then have "F = 0" using fw by simp
      then show ?thesis using \<open>ew = 0\<close> True e0 read_hex_zero[OF sfx] val by (simp add: run frac_value_def)
    next
      case False
      have "hex_float b width = ''0x'' @ [CHR ''0''] @ ''.'' @ hex_nibbles fw n @ ''p'' @ (if 0 \<le> pw then ''+'' else []) @ to_string_int pw @ sfx"
        using True False by (simp add: run)
      from read[OF this] show ?thesis
        using True val e0 emin by (simp add: pw_def digit_of_def literal_hex_value_def)
    qed
  next
    case False
    then have e1: "E \<noteq> 0" using ew by (metis unat_eq_0)
    have "hex_float b width = ''0x'' @ [CHR ''1''] @ ''.'' @ hex_nibbles fw n @ ''p'' @ (if 0 \<le> pw then ''+'' else []) @ to_string_int pw @ sfx"
      using False by (simp add: run)
    from read[OF this] have "read_hex_float (hex_float b width) = (1 + frac_value) * 2 powi pw"
      by (simp add: digit_of_def literal_hex_value_def)
    moreover have "uint ew = int E" using ew by (simp flip: ew)
    then have "pw = min_exponent f + int E - 1" using False emin by (simp add: pw_def)
    ultimately show ?thesis using val e1 by simp
  qed
qed

theorem hex_float_reads_back_witness: "read_hex_float (hex_float 0x3C01 16) = 1025 / 1024"
proof -
  define f where "f = \<lparr>precision = 11, min_exponent = - 14, max_exponent = 15, exponent_bits = 5\<rparr>"
  have ok: "format_of 16 = Some f" by (simp add: f_def format_of_def)
  have "unat (infinity_bits f) = 31744"
    using infinity_bits_val(1)[OF format_of_ok[OF ok]] by (simp add: f_def hidden_def)
  then have "unat (0x3C01 :: 64 word) < unat (infinity_bits f)" by simp
  then show ?thesis
    using hex_float_reads_back[OF ok, of "0x3C01"] by (simp add: f_def bits_value_def hidden_def)
qed

end
