(* ===== verification/Token.thy ===== *)
theory Token
  imports Diagnostics "HOL-Library.Char_ord" "HOL-Library.List_Lexorder"
begin

section \<open>Tokens\<close>

text \<open>
  \<open>src/lex/token.h\<close> and \<open>src/lex/token.cpp\<close>: the kinds of tokens in the order of the
  enumeration (their order is what \<open>is_keyword\<close> compares), the keyword table with its binary
  search, and the printable names. The theorems say that the binary search is the lookup in the
  table, that the names of the kinds are pairwise distinct, and that a word is a keyword exactly
  when the printed name of its kind is the word again.
\<close>

datatype (plugins only:) token_kind =
  EndOfFile | Newline | Indent | Dedent | RawLine | Name | IntLit | FloatLit | CharLit |
    StringLit | BytesLit | FormatStart | FormatText | FormatEnd | DocComment | Underscore |
    KwAnd | KwAs | KwAsm | KwBreak | KwCatch | KwConst | KwContinue | KwDefer | KwElif | KwElse |
    KwEnum | KwErrdefer | KwExtern | KwFalse | KwFor | KwFree | KwFrom | KwFunc | KwIf |
    KwImport | KwIn | KwInterface | KwLet | KwMatch | KwNew | KwNone | KwNot | KwOr | KwPub |
    KwRecover | KwReturn | KwSelf | KwStatic | KwStruct | KwTest | KwTrue | KwTry | KwType |
    KwUnion | KwVar | KwVolatile | KwWhile | KwWith | LParen | RParen | LBracket | RBracket |
    LBrace | RBrace | Comma | Colon | Dot | Question | Bang | At | Plus | Minus | Star | Slash |
    Percent | Amp | Pipe | Caret | Tilde | Lt | Gt | Eq | Arrow | FatArrow | EqEq | NotEq |
    LtEq | GtEq | SlashSlash | DotDot | DotDotLt | DotDotEq | LtLt | GtGt | PlusEq | MinusEq |
    StarEq | SlashEq | SlashSlashEq | PercentEq | AmpEq | PipeEq | CaretEq | LtLtEq | GtGtEq |
    PlusPercent | MinusPercent | StarPercent | PlusPipe | MinusPipe | StarPipe | PlusQuestion |
    MinusQuestion | StarQuestion | PlusPercentEq | MinusPercentEq | StarPercentEq | PlusPipeEq |
    MinusPipeEq | StarPipeEq | DashDashDash | DotDotDot

record token =
  tok_kind :: token_kind
  tok_span :: span
  tok_text :: bytes
  tok_suffix :: bytes

text \<open>The enumeration's underlying value, a \<open>uint16_t\<close> counted from zero.\<close>

primrec kind_code :: "token_kind \<Rightarrow> nat" where
  "kind_code EndOfFile = 0"
| "kind_code Newline = 1"
| "kind_code Indent = 2"
| "kind_code Dedent = 3"
| "kind_code RawLine = 4"
| "kind_code Name = 5"
| "kind_code IntLit = 6"
| "kind_code FloatLit = 7"
| "kind_code CharLit = 8"
| "kind_code StringLit = 9"
| "kind_code BytesLit = 10"
| "kind_code FormatStart = 11"
| "kind_code FormatText = 12"
| "kind_code FormatEnd = 13"
| "kind_code DocComment = 14"
| "kind_code Underscore = 15"
| "kind_code KwAnd = 16"
| "kind_code KwAs = 17"
| "kind_code KwAsm = 18"
| "kind_code KwBreak = 19"
| "kind_code KwCatch = 20"
| "kind_code KwConst = 21"
| "kind_code KwContinue = 22"
| "kind_code KwDefer = 23"
| "kind_code KwElif = 24"
| "kind_code KwElse = 25"
| "kind_code KwEnum = 26"
| "kind_code KwErrdefer = 27"
| "kind_code KwExtern = 28"
| "kind_code KwFalse = 29"
| "kind_code KwFor = 30"
| "kind_code KwFree = 31"
| "kind_code KwFrom = 32"
| "kind_code KwFunc = 33"
| "kind_code KwIf = 34"
| "kind_code KwImport = 35"
| "kind_code KwIn = 36"
| "kind_code KwInterface = 37"
| "kind_code KwLet = 38"
| "kind_code KwMatch = 39"
| "kind_code KwNew = 40"
| "kind_code KwNone = 41"
| "kind_code KwNot = 42"
| "kind_code KwOr = 43"
| "kind_code KwPub = 44"
| "kind_code KwRecover = 45"
| "kind_code KwReturn = 46"
| "kind_code KwSelf = 47"
| "kind_code KwStatic = 48"
| "kind_code KwStruct = 49"
| "kind_code KwTest = 50"
| "kind_code KwTrue = 51"
| "kind_code KwTry = 52"
| "kind_code KwType = 53"
| "kind_code KwUnion = 54"
| "kind_code KwVar = 55"
| "kind_code KwVolatile = 56"
| "kind_code KwWhile = 57"
| "kind_code KwWith = 58"
| "kind_code LParen = 59"
| "kind_code RParen = 60"
| "kind_code LBracket = 61"
| "kind_code RBracket = 62"
| "kind_code LBrace = 63"
| "kind_code RBrace = 64"
| "kind_code Comma = 65"
| "kind_code Colon = 66"
| "kind_code Dot = 67"
| "kind_code Question = 68"
| "kind_code Bang = 69"
| "kind_code At = 70"
| "kind_code Plus = 71"
| "kind_code Minus = 72"
| "kind_code Star = 73"
| "kind_code Slash = 74"
| "kind_code Percent = 75"
| "kind_code Amp = 76"
| "kind_code Pipe = 77"
| "kind_code Caret = 78"
| "kind_code Tilde = 79"
| "kind_code Lt = 80"
| "kind_code Gt = 81"
| "kind_code Eq = 82"
| "kind_code Arrow = 83"
| "kind_code FatArrow = 84"
| "kind_code EqEq = 85"
| "kind_code NotEq = 86"
| "kind_code LtEq = 87"
| "kind_code GtEq = 88"
| "kind_code SlashSlash = 89"
| "kind_code DotDot = 90"
| "kind_code DotDotLt = 91"
| "kind_code DotDotEq = 92"
| "kind_code LtLt = 93"
| "kind_code GtGt = 94"
| "kind_code PlusEq = 95"
| "kind_code MinusEq = 96"
| "kind_code StarEq = 97"
| "kind_code SlashEq = 98"
| "kind_code SlashSlashEq = 99"
| "kind_code PercentEq = 100"
| "kind_code AmpEq = 101"
| "kind_code PipeEq = 102"
| "kind_code CaretEq = 103"
| "kind_code LtLtEq = 104"
| "kind_code GtGtEq = 105"
| "kind_code PlusPercent = 106"
| "kind_code MinusPercent = 107"
| "kind_code StarPercent = 108"
| "kind_code PlusPipe = 109"
| "kind_code MinusPipe = 110"
| "kind_code StarPipe = 111"
| "kind_code PlusQuestion = 112"
| "kind_code MinusQuestion = 113"
| "kind_code StarQuestion = 114"
| "kind_code PlusPercentEq = 115"
| "kind_code MinusPercentEq = 116"
| "kind_code StarPercentEq = 117"
| "kind_code PlusPipeEq = 118"
| "kind_code MinusPipeEq = 119"
| "kind_code StarPipeEq = 120"
| "kind_code DashDashDash = 121"
| "kind_code DotDotDot = 122"

primrec token_kind_name :: "token_kind \<Rightarrow> string" where
  "token_kind_name EndOfFile = ''eof''"
| "token_kind_name Newline = ''newline''"
| "token_kind_name Indent = ''indent''"
| "token_kind_name Dedent = ''dedent''"
| "token_kind_name RawLine = ''raw''"
| "token_kind_name Name = ''name''"
| "token_kind_name IntLit = ''int''"
| "token_kind_name FloatLit = ''float''"
| "token_kind_name CharLit = ''char''"
| "token_kind_name StringLit = ''string''"
| "token_kind_name BytesLit = ''bytes''"
| "token_kind_name FormatStart = ''format_start''"
| "token_kind_name FormatText = ''format_text''"
| "token_kind_name FormatEnd = ''format_end''"
| "token_kind_name DocComment = ''doc''"
| "token_kind_name Underscore = ''_''"
| "token_kind_name KwAnd = ''and''"
| "token_kind_name KwAs = ''as''"
| "token_kind_name KwAsm = ''asm''"
| "token_kind_name KwBreak = ''break''"
| "token_kind_name KwCatch = ''catch''"
| "token_kind_name KwConst = ''const''"
| "token_kind_name KwContinue = ''continue''"
| "token_kind_name KwDefer = ''defer''"
| "token_kind_name KwElif = ''elif''"
| "token_kind_name KwElse = ''else''"
| "token_kind_name KwEnum = ''enum''"
| "token_kind_name KwErrdefer = ''errdefer''"
| "token_kind_name KwExtern = ''extern''"
| "token_kind_name KwFalse = ''false''"
| "token_kind_name KwFor = ''for''"
| "token_kind_name KwFree = ''free''"
| "token_kind_name KwFrom = ''from''"
| "token_kind_name KwFunc = ''func''"
| "token_kind_name KwIf = ''if''"
| "token_kind_name KwImport = ''import''"
| "token_kind_name KwIn = ''in''"
| "token_kind_name KwInterface = ''interface''"
| "token_kind_name KwLet = ''let''"
| "token_kind_name KwMatch = ''match''"
| "token_kind_name KwNew = ''new''"
| "token_kind_name KwNone = ''none''"
| "token_kind_name KwNot = ''not''"
| "token_kind_name KwOr = ''or''"
| "token_kind_name KwPub = ''pub''"
| "token_kind_name KwRecover = ''recover''"
| "token_kind_name KwReturn = ''return''"
| "token_kind_name KwSelf = ''self''"
| "token_kind_name KwStatic = ''static''"
| "token_kind_name KwStruct = ''struct''"
| "token_kind_name KwTest = ''test''"
| "token_kind_name KwTrue = ''true''"
| "token_kind_name KwTry = ''try''"
| "token_kind_name KwType = ''type''"
| "token_kind_name KwUnion = ''union''"
| "token_kind_name KwVar = ''var''"
| "token_kind_name KwVolatile = ''volatile''"
| "token_kind_name KwWhile = ''while''"
| "token_kind_name KwWith = ''with''"
| "token_kind_name LParen = ''(''"
| "token_kind_name RParen = '')''"
| "token_kind_name LBracket = ''[''"
| "token_kind_name RBracket = '']''"
| "token_kind_name LBrace = ''{''"
| "token_kind_name RBrace = ''}''"
| "token_kind_name Comma = '',''"
| "token_kind_name Colon = '':''"
| "token_kind_name Dot = ''.''"
| "token_kind_name Question = ''?''"
| "token_kind_name Bang = ''!''"
| "token_kind_name At = ''@''"
| "token_kind_name Plus = ''+''"
| "token_kind_name Minus = ''-''"
| "token_kind_name Star = ''*''"
| "token_kind_name Slash = ''/''"
| "token_kind_name Percent = ''%''"
| "token_kind_name Amp = ''&''"
| "token_kind_name Pipe = ''|''"
| "token_kind_name Caret = ''^''"
| "token_kind_name Tilde = ''~''"
| "token_kind_name Lt = ''<''"
| "token_kind_name Gt = ''>''"
| "token_kind_name Eq = ''=''"
| "token_kind_name Arrow = ''->''"
| "token_kind_name FatArrow = ''=>''"
| "token_kind_name EqEq = ''==''"
| "token_kind_name NotEq = ''!=''"
| "token_kind_name LtEq = ''<=''"
| "token_kind_name GtEq = ''>=''"
| "token_kind_name SlashSlash = ''//''"
| "token_kind_name DotDot = ''..''"
| "token_kind_name DotDotLt = ''..<''"
| "token_kind_name DotDotEq = ''..=''"
| "token_kind_name LtLt = ''<<''"
| "token_kind_name GtGt = ''>>''"
| "token_kind_name PlusEq = ''+=''"
| "token_kind_name MinusEq = ''-=''"
| "token_kind_name StarEq = ''*=''"
| "token_kind_name SlashEq = ''/=''"
| "token_kind_name SlashSlashEq = ''//=''"
| "token_kind_name PercentEq = ''%=''"
| "token_kind_name AmpEq = ''&=''"
| "token_kind_name PipeEq = ''|=''"
| "token_kind_name CaretEq = ''^=''"
| "token_kind_name LtLtEq = ''<<=''"
| "token_kind_name GtGtEq = ''>>=''"
| "token_kind_name PlusPercent = ''+%''"
| "token_kind_name MinusPercent = ''-%''"
| "token_kind_name StarPercent = ''*%''"
| "token_kind_name PlusPipe = ''+|''"
| "token_kind_name MinusPipe = ''-|''"
| "token_kind_name StarPipe = ''*|''"
| "token_kind_name PlusQuestion = ''+?''"
| "token_kind_name MinusQuestion = ''-?''"
| "token_kind_name StarQuestion = ''*?''"
| "token_kind_name PlusPercentEq = ''+%=''"
| "token_kind_name MinusPercentEq = ''-%=''"
| "token_kind_name StarPercentEq = ''*%=''"
| "token_kind_name PlusPipeEq = ''+|=''"
| "token_kind_name MinusPipeEq = ''-|=''"
| "token_kind_name StarPipeEq = ''*|=''"
| "token_kind_name DashDashDash = ''---''"
| "token_kind_name DotDotDot = ''...''"

definition k_keywords :: "(string \<times> token_kind) list" where
  "k_keywords = [
    (''and'', KwAnd), (''as'', KwAs), (''asm'', KwAsm), (''break'', KwBreak),
    (''catch'', KwCatch), (''const'', KwConst), (''continue'', KwContinue), (''defer'', KwDefer),
    (''elif'', KwElif), (''else'', KwElse), (''enum'', KwEnum), (''errdefer'', KwErrdefer),
    (''extern'', KwExtern), (''false'', KwFalse), (''for'', KwFor), (''free'', KwFree),
    (''from'', KwFrom), (''func'', KwFunc), (''if'', KwIf), (''import'', KwImport),
    (''in'', KwIn), (''interface'', KwInterface), (''let'', KwLet), (''match'', KwMatch),
    (''new'', KwNew), (''none'', KwNone), (''not'', KwNot), (''or'', KwOr), (''pub'', KwPub),
    (''recover'', KwRecover), (''return'', KwReturn), (''self'', KwSelf), (''static'', KwStatic),
    (''struct'', KwStruct), (''test'', KwTest), (''true'', KwTrue), (''try'', KwTry),
    (''type'', KwType), (''union'', KwUnion), (''var'', KwVar), (''volatile'', KwVolatile),
    (''while'', KwWhile), (''with'', KwWith)]"

definition all_kinds :: "token_kind list" where
  "all_kinds = [
    EndOfFile, Newline, Indent, Dedent, RawLine, Name, IntLit, FloatLit, CharLit, StringLit,
    BytesLit, FormatStart, FormatText, FormatEnd, DocComment, Underscore, KwAnd, KwAs, KwAsm,
    KwBreak, KwCatch, KwConst, KwContinue, KwDefer, KwElif, KwElse, KwEnum, KwErrdefer, KwExtern,
    KwFalse, KwFor, KwFree, KwFrom, KwFunc, KwIf, KwImport, KwIn, KwInterface, KwLet, KwMatch,
    KwNew, KwNone, KwNot, KwOr, KwPub, KwRecover, KwReturn, KwSelf, KwStatic, KwStruct, KwTest,
    KwTrue, KwTry, KwType, KwUnion, KwVar, KwVolatile, KwWhile, KwWith, LParen, RParen, LBracket,
    RBracket, LBrace, RBrace, Comma, Colon, Dot, Question, Bang, At, Plus, Minus, Star, Slash,
    Percent, Amp, Pipe, Caret, Tilde, Lt, Gt, Eq, Arrow, FatArrow, EqEq, NotEq, LtEq, GtEq,
    SlashSlash, DotDot, DotDotLt, DotDotEq, LtLt, GtGt, PlusEq, MinusEq, StarEq, SlashEq,
    SlashSlashEq, PercentEq, AmpEq, PipeEq, CaretEq, LtLtEq, GtGtEq, PlusPercent, MinusPercent,
    StarPercent, PlusPipe, MinusPipe, StarPipe, PlusQuestion, MinusQuestion, StarQuestion,
    PlusPercentEq, MinusPercentEq, StarPercentEq, PlusPipeEq, MinusPipeEq, StarPipeEq,
    DashDashDash, DotDotDot]"

lemma all_kinds_nth: "all_kinds ! kind_code k = k"
  by (cases k) (simp_all only: kind_code.simps all_kinds_def nth_Cons_numeral nth_Cons_0, simp_all)

lemma kind_code_inject [simp]: "kind_code k = kind_code k' \<longleftrightarrow> k = k'"
  using all_kinds_nth by metis

lemma kind_code_less: "kind_code k < length all_kinds"
  by (cases k) (simp_all add: all_kinds_def)

text \<open>The order of the enumeration, which the C++ comparison operators use.\<close>

instantiation token_kind :: linorder
begin

definition less_eq_token_kind :: "token_kind \<Rightarrow> token_kind \<Rightarrow> bool" where
  "less_eq_token_kind k k' \<longleftrightarrow> kind_code k \<le> kind_code k'"

definition less_token_kind :: "token_kind \<Rightarrow> token_kind \<Rightarrow> bool" where
  "less_token_kind k k' \<longleftrightarrow> kind_code k < kind_code k'"

instance
  by standard (auto simp: less_eq_token_kind_def less_token_kind_def)

end

definition is_keyword :: "token_kind \<Rightarrow> bool" where
  "is_keyword kind \<longleftrightarrow> KwAnd \<le> kind \<and> kind \<le> KwWith"

subsection \<open>The binary search\<close>

text \<open>\<open>std::string_view::compare\<close>: the bytes are compared as unsigned values.\<close>

fun str_compare :: "string \<Rightarrow> string \<Rightarrow> int" where
  "str_compare [] [] = 0"
| "str_compare [] (b # bs) = -1"
| "str_compare (a # as) [] = 1"
| "str_compare (a # as) (b # bs) =
     (if byte_value a < byte_value b then -1 else if byte_value b < byte_value a then 1 else str_compare as bs)"

function keyword_search :: "string \<Rightarrow> nat \<Rightarrow> nat \<Rightarrow> token_kind" where
  "keyword_search word lo hi =
     (if lo < hi then
        let mid = lo + (hi - lo) div 2;
            cmp = str_compare word (fst (k_keywords ! mid))
        in if cmp = 0 then snd (k_keywords ! mid)
           else if cmp < 0 then keyword_search word lo mid
           else keyword_search word (mid + 1) hi
      else Name)"
  by pat_completeness auto
termination
  by (relation "measure (\<lambda>(word, lo, hi). hi - lo)") auto

declare keyword_search.simps [simp del]

definition keyword_kind :: "string \<Rightarrow> token_kind" where
  "keyword_kind word = keyword_search word 0 (length k_keywords)"

lemma str_compare_order:
  "str_compare a b = (if a = b then 0 else if a < b then -1 else 1)"
  by (induction a b rule: str_compare.induct) (auto simp: less_char_def)

lemma k_keywords_sorted: "sorted_wrt (<) (map fst k_keywords)"
  unfolding k_keywords_def by (simp add: sorted_wrt2_simps less_char_def del: sorted_wrt.simps)

lemma k_keywords_distinct: "distinct (map fst k_keywords)"
  using k_keywords_sorted unfolding strict_sorted_iff by blast

lemma keyword_search_correct:
  assumes "hi \<le> length k_keywords"
    and "\<forall>i < lo. fst (k_keywords ! i) < word"
    and "\<forall>i. hi \<le> i \<and> i < length k_keywords \<longrightarrow> word < fst (k_keywords ! i)"
  shows "keyword_search word lo hi = (case map_of k_keywords word of Some k \<Rightarrow> k | None \<Rightarrow> Name)"
  using assms
proof (induction word lo hi rule: keyword_search.induct)
  case (1 word lo hi)
  have sorted: "fst (k_keywords ! i) < fst (k_keywords ! j)" if "i < j" "j < length k_keywords" for i j
    using sorted_wrt_nth_less[OF k_keywords_sorted, of i j] that by simp
  show ?case
  proof (cases "lo < hi")
    case False
    have "fst p \<noteq> word" if p: "p \<in> set k_keywords" for p
    proof -
      obtain i where "i < length k_keywords" "p = k_keywords ! i" using p by (metis in_set_conv_nth)
      moreover have "i < lo \<or> hi \<le> i" using False by linarith
      ultimately show ?thesis using 1(4,5) by (metis less_irrefl)
    qed
    then have "map_of k_keywords word = None" by (auto simp: map_of_eq_None_iff)
    with False show ?thesis by (simp add: keyword_search.simps)
  next
    case True
    define mid where "mid = lo + (hi - lo) div 2"
    have mid: "lo \<le> mid" "mid < hi" "mid < length k_keywords" using True 1(3) by (auto simp: mid_def)
    consider "word = fst (k_keywords ! mid)" | "word < fst (k_keywords ! mid)" | "fst (k_keywords ! mid) < word"
      by (rule linorder_cases)
    then show ?thesis
    proof cases
      case 1
      then have "(word, snd (k_keywords ! mid)) \<in> set k_keywords" using mid by simp
      then have "map_of k_keywords word = Some (snd (k_keywords ! mid))"
        by (rule map_of_is_SomeI[OF k_keywords_distinct])
      with 1 True show ?thesis
        by (subst keyword_search.simps) (simp add: str_compare_order Let_def flip: mid_def)
    next
      case 2
      have "keyword_search word lo mid = (case map_of k_keywords word of Some k \<Rightarrow> k | None \<Rightarrow> Name)"
      proof (rule 1(1)[OF True mid_def refl])
        show "str_compare word (fst (k_keywords ! mid)) \<noteq> 0" "str_compare word (fst (k_keywords ! mid)) < 0"
          using 2 by (auto simp: str_compare_order)
        show "\<forall>i. mid \<le> i \<and> i < length k_keywords \<longrightarrow> word < fst (k_keywords ! i)"
          using 2 sorted[of mid] by (metis le_neq_implies_less less_trans)
      qed (use 1(4) mid in auto)
      with 2 True show ?thesis
        by (subst keyword_search.simps) (auto simp: str_compare_order Let_def simp flip: mid_def)
    next
      case 3
      have "keyword_search word (mid + 1) hi = (case map_of k_keywords word of Some k \<Rightarrow> k | None \<Rightarrow> Name)"
      proof (rule 1(2)[OF True mid_def refl])
        show "str_compare word (fst (k_keywords ! mid)) \<noteq> 0" "\<not> str_compare word (fst (k_keywords ! mid)) < 0"
          using 3 by (auto simp: str_compare_order)
        show "\<forall>i < mid + 1. fst (k_keywords ! i) < word"
          using 3 sorted[of _ mid] mid(3) by (metis Suc_eq_plus1 less_SucE less_trans)
      qed (use 1(3,5) in auto)
      with 3 True show ?thesis
        by (subst keyword_search.simps) (auto simp: str_compare_order Let_def simp flip: mid_def)
    qed
  qed
qed

lemma keyword_kind_map_of:
  "keyword_kind word = (case map_of k_keywords word of Some k \<Rightarrow> k | None \<Rightarrow> Name)"
  unfolding keyword_kind_def by (rule keyword_search_correct) auto

lemma k_keywords_names: "(word, k) \<in> set k_keywords \<Longrightarrow> is_keyword k \<and> token_kind_name k = word"
proof -
  have "list_all (\<lambda>(w, k). is_keyword k \<and> token_kind_name k = w) k_keywords"
    by (simp add: k_keywords_def is_keyword_def less_eq_token_kind_def)
  then show "(word, k) \<in> set k_keywords \<Longrightarrow> is_keyword k \<and> token_kind_name k = word"
    by (auto simp: list_all_iff)
qed

lemma is_keyword_listed: "is_keyword k \<Longrightarrow> (token_kind_name k, k) \<in> set k_keywords"
  by (cases k) (simp_all add: k_keywords_def is_keyword_def less_eq_token_kind_def)

lemma token_kind_name_distinct: "distinct (map token_kind_name all_kinds)"
  by (simp add: all_kinds_def)

lemma token_kind_name_inject: "token_kind_name k = token_kind_name k' \<longleftrightarrow> k = k'"
proof
  assume "token_kind_name k = token_kind_name k'"
  then have "map token_kind_name all_kinds ! kind_code k = map token_kind_name all_kinds ! kind_code k'"
    by (simp add: kind_code_less all_kinds_nth)
  then have "kind_code k = kind_code k'"
    using token_kind_name_distinct kind_code_less nth_eq_iff_index_eq by (metis length_map)
  then show "k = k'" by simp
qed simp

subsection \<open>Properties\<close>

text \<open>
  C16: the binary search over the keyword table finds a keyword exactly for that keyword's printed
  name: every word is either classified as a name or as the one keyword it spells, and no keyword
  of the table is missed.
\<close>

theorem keyword_kind_spelling:
  "(is_keyword k \<and> keyword_kind word = k) = (is_keyword k \<and> word = token_kind_name k) \<and>
   (keyword_kind word = Name \<or> is_keyword (keyword_kind word))"
proof -
  have some: "is_keyword k \<and> token_kind_name k = word" if "map_of k_keywords word = Some k" for k
    using map_of_SomeD[OF that] by (rule k_keywords_names)
  have listed: "map_of k_keywords (token_kind_name k) = Some k" if "is_keyword k" for k
    using is_keyword_listed[OF that] by (rule map_of_is_SomeI[OF k_keywords_distinct])
  have name: "\<not> is_keyword Name" by (simp add: is_keyword_def less_eq_token_kind_def)
  show ?thesis
  proof (cases "map_of k_keywords word")
    case None
    then have "keyword_kind word = Name" by (simp add: keyword_kind_map_of)
    moreover have "word \<noteq> token_kind_name k" if "is_keyword k" using listed[OF that] None by auto
    ultimately show ?thesis using name by metis
  next
    case (Some k')
    then have "keyword_kind word = k'" by (simp add: keyword_kind_map_of)
    moreover have "is_keyword k \<Longrightarrow> word = token_kind_name k \<Longrightarrow> k = k'" using listed[of k] Some by simp
    ultimately show ?thesis using some[OF Some] by metis
  qed
qed

end
