(* ===== verification/LexState.thy ===== *)
theory LexState
  imports Source Token
begin

section \<open>The tokenizer's state and its cursor\<close>

text \<open>
  \<open>src/lex/lexer.cpp\<close>, the state of the class \<open>Tokenizer\<close> and the operations that only read
  bytes and move the cursor: character classes, comments, escapes, string bodies, digit
  sequences, suffixes. The stacks \<open>delimiters_\<close>, \<open>layout_regions_\<close> and \<open>formatted_\<close> are
  lists whose head is the vector's back; \<open>tokens_\<close> is in order. The locale \<open>cursor_op\<close> states
  what such an operation promises the rest of the tokenizer: it moves forward within the
  source, keeps every other field, and can only add errors.
\<close>

subsection \<open>Character classes\<close>

definition is_ascii_alpha :: "char \<Rightarrow> bool" where
  "is_ascii_alpha c \<longleftrightarrow>
     (97 \<le> byte_value c \<and> byte_value c \<le> 122) \<or> (65 \<le> byte_value c \<and> byte_value c \<le> 90)"

definition is_ascii_digit :: "char \<Rightarrow> bool" where
  "is_ascii_digit c \<longleftrightarrow> 48 \<le> byte_value c \<and> byte_value c \<le> 57"

definition is_ident_start :: "char \<Rightarrow> bool" where
  "is_ident_start c \<longleftrightarrow> is_ascii_alpha c \<or> c = CHR ''_''"

definition is_ident_continue :: "char \<Rightarrow> bool" where
  "is_ident_continue c \<longleftrightarrow> is_ident_start c \<or> is_ascii_digit c"

definition is_hex_digit :: "char \<Rightarrow> bool" where
  "is_hex_digit c \<longleftrightarrow> is_ascii_digit c \<or> (97 \<le> byte_value c \<and> byte_value c \<le> 102) \<or>
     (65 \<le> byte_value c \<and> byte_value c \<le> 70)"

definition lex_hex_value :: "char \<Rightarrow> nat" where
  "lex_hex_value c =
     (if byte_value c \<le> 57 then byte_value c - 48
      else if byte_value c \<le> 70 then byte_value c - 65 + 10
      else byte_value c - 97 + 10)"

definition is_digit_for_base :: "char \<Rightarrow> char \<Rightarrow> bool" where
  "is_digit_for_base c base =
     (if base = CHR ''b'' then c = CHR ''0'' \<or> c = CHR ''1''
      else if base = CHR ''o'' then 48 \<le> byte_value c \<and> byte_value c \<le> 55
      else if base = CHR ''x'' then is_hex_digit c
      else is_ascii_digit c)"

definition is_integer_suffix :: "bytes \<Rightarrow> bool" where
  "is_integer_suffix s \<longleftrightarrow>
     s \<in> {''u8'', ''u16'', ''u32'', ''u64'', ''usize'', ''i8'', ''i16'', ''i32'', ''i64'', ''isize''}"

definition is_float_suffix :: "bytes \<Rightarrow> bool" where
  "is_float_suffix s \<longleftrightarrow> s \<in> {''f16'', ''f32'', ''f64''}"

lemmas char_classes = is_ascii_alpha_def is_ascii_digit_def is_ident_start_def is_ident_continue_def
  is_hex_digit_def is_digit_for_base_def

lemma nul_classes [simp]:
  "\<not> is_ascii_alpha nul" "\<not> is_ascii_digit nul" "\<not> is_ident_start nul" "\<not> is_ident_continue nul"
  "\<not> is_hex_digit nul" "\<not> is_digit_for_base nul base"
  by (simp_all add: char_classes nul_def)

subsection \<open>State\<close>

datatype delim = Paren | Bracket | Brace | FormatField

definition closing_for :: "delim \<Rightarrow> char" where
  "closing_for d = (case d of Paren \<Rightarrow> CHR '')'' | Bracket \<Rightarrow> CHR '']'' | Brace \<Rightarrow> CHR ''}'' | FormatField \<Rightarrow> CHR ''}'')"

record layout_region =
  region_depth :: int
  region_base :: int

record formatted_mode =
  mode_triple :: bool
  mode_line :: nat
  mode_column :: nat

record tokenizer =
  lx_path :: string
  lx_bytes :: bytes
  lx_pos :: nat
  lx_line_start :: nat
  lx_line :: nat
  lx_indent :: int
  lx_pending :: bool
  lx_delims :: "delim list"
  lx_regions :: "layout_region list"
  lx_formatted :: "formatted_mode list"
  lx_tokens :: "token list"
  lx_close_line :: nat
  lx_close_column :: nat
  lx_saw_asm :: bool
  lx_raw_suite :: bool
  lx_raw_started :: bool
  lx_diags :: diagnostic_bag

definition new_tokenizer :: "source \<Rightarrow> diagnostic_bag \<Rightarrow> tokenizer" where
  "new_tokenizer src bag =
     \<lparr>lx_path = src_path src, lx_bytes = src_bytes src, lx_pos = scan_start src,
      lx_line_start = scan_start src, lx_line = 1, lx_indent = 0, lx_pending = True,
      lx_delims = [], lx_regions = [], lx_formatted = [], lx_tokens = [], lx_close_line = 0,
      lx_close_column = 0, lx_saw_asm = False, lx_raw_suite = False, lx_raw_started = False,
      lx_diags = bag\<rparr>"

definition at_end :: "tokenizer \<Rightarrow> bool" where
  "at_end t \<longleftrightarrow> length (lx_bytes t) \<le> lx_pos t"

definition peek_byte :: "tokenizer \<Rightarrow> nat \<Rightarrow> char" where
  "peek_byte t offset =
     (if length (lx_bytes t) \<le> lx_pos t + offset then nul else lx_bytes t ! (lx_pos t + offset))"

definition starts_with :: "tokenizer \<Rightarrow> bytes \<Rightarrow> bool" where
  "starts_with t s =
     (if length (lx_bytes t) < lx_pos t + length s then False
      else substr (lx_bytes t) (lx_pos t) (length s) = s)"

definition column :: "tokenizer \<Rightarrow> nat" where
  "column t = lx_pos t - lx_line_start t + 1"

definition slice :: "tokenizer \<Rightarrow> nat \<Rightarrow> nat \<Rightarrow> bytes" where
  "slice t start end =
     (if end < start \<or> length (lx_bytes t) < end then [] else substr (lx_bytes t) start (end - start))"

definition error_at :: "nat \<Rightarrow> nat \<Rightarrow> nat \<Rightarrow> string \<Rightarrow> string \<Rightarrow> tokenizer \<Rightarrow> tokenizer" where
  "error_at line col byte code message t =
     t\<lparr>lx_diags := add_diag code (lx_path t)
         \<lparr>span_start = byte, span_end = byte, span_line = line, span_column = col\<rparr> message (lx_diags t)\<rparr>"

definition lex_error :: "string \<Rightarrow> string \<Rightarrow> tokenizer \<Rightarrow> tokenizer" where
  "lex_error code message t = error_at (lx_line t) (column t) (lx_pos t) code message t"

definition emit_at :: "token_kind \<Rightarrow> nat \<Rightarrow> nat \<Rightarrow> nat \<Rightarrow> nat \<Rightarrow> bytes \<Rightarrow> tokenizer \<Rightarrow> tokenizer" where
  "emit_at kind start end line col sfx t =
     t\<lparr>lx_tokens := lx_tokens t @
        [\<lparr>tok_kind = kind,
          tok_span = \<lparr>span_start = start, span_end = end, span_line = line, span_column = col\<rparr>,
          tok_text = slice t start end, tok_suffix = sfx\<rparr>]\<rparr>"

definition column_of :: "tokenizer \<Rightarrow> nat \<Rightarrow> nat" where
  "column_of t byte = (if byte < lx_line_start t then 1 else byte - lx_line_start t + 1)"

definition emit :: "token_kind \<Rightarrow> nat \<Rightarrow> nat \<Rightarrow> tokenizer \<Rightarrow> tokenizer" where
  "emit kind start end t = emit_at kind start end (lx_line t) (column_of t start) [] t"

definition move :: "nat \<Rightarrow> tokenizer \<Rightarrow> tokenizer" where
  "move n t = t\<lparr>lx_pos := lx_pos t + n\<rparr>"

definition advance_line :: "tokenizer \<Rightarrow> tokenizer" where
  "advance_line t =
     (let t = move (if peek_byte t 0 = cr then 2 else 1) t
      in t\<lparr>lx_line := lx_line t + 1, lx_line_start := lx_pos t\<rparr>)"

definition layout_active :: "tokenizer \<Rightarrow> bool" where
  "layout_active t =
     (case lx_regions t of [] \<Rightarrow> lx_delims t = []
      | r # _ \<Rightarrow> int (length (lx_delims t)) = region_depth r)"

text \<open>\<open>while (P(peek_byte())) pos_ += 1\<close>, for a class \<open>P\<close> that NUL is not in.\<close>

definition run_length :: "(char \<Rightarrow> bool) \<Rightarrow> tokenizer \<Rightarrow> nat" where
  "run_length P t = length (takeWhile P (drop (lx_pos t) (lx_bytes t)))"

definition at_newline :: "tokenizer \<Rightarrow> bool" where
  "at_newline t \<longleftrightarrow> peek_byte t 0 = lf \<or> peek_byte t 0 = cr"

subsection \<open>The cursor contract\<close>

text \<open>
  \<open>t'\<close> is \<open>t\<close> after an operation that only moves the cursor: the position has not gone back or
  past the end, lines have not gone back, errors have only been added, nothing else differs.
\<close>

definition cursor_ok :: "tokenizer \<Rightarrow> bool" where
  "cursor_ok t \<longleftrightarrow> lx_pos t \<le> length (lx_bytes t) \<and> lx_line_start t \<le> lx_pos t \<and> 1 \<le> lx_line t \<and>
     (\<forall>i < length (lx_bytes t). lx_bytes t ! i = cr \<longrightarrow> i + 1 < length (lx_bytes t) \<and> lx_bytes t ! (i + 1) = lf)"

definition bag_extends :: "diagnostic_bag \<Rightarrow> diagnostic_bag \<Rightarrow> bool" where
  "bag_extends b b' \<longleftrightarrow>
     prefix (items b) (items b') \<and> warnings b' = warnings b \<and> modules b' = modules b"

definition cursor_to :: "tokenizer \<Rightarrow> tokenizer \<Rightarrow> bool" where
  "cursor_to t t' \<longleftrightarrow>
     lx_path t' = lx_path t \<and> lx_bytes t' = lx_bytes t \<and> lx_indent t' = lx_indent t \<and>
     lx_pending t' = lx_pending t \<and> lx_delims t' = lx_delims t \<and> lx_regions t' = lx_regions t \<and>
     lx_formatted t' = lx_formatted t \<and> lx_tokens t' = lx_tokens t \<and> lx_saw_asm t' = lx_saw_asm t \<and>
     lx_raw_suite t' = lx_raw_suite t \<and> lx_raw_started t' = lx_raw_started t \<and>
     lx_pos t \<le> lx_pos t' \<and> lx_line t \<le> lx_line t' \<and> bag_extends (lx_diags t) (lx_diags t') \<and> cursor_ok t'"

lemma bag_extends_refl [simp]: "bag_extends b b"
  by (simp add: bag_extends_def)

lemma bag_extends_trans: "bag_extends a b \<Longrightarrow> bag_extends b c \<Longrightarrow> bag_extends a c"
  by (auto simp: bag_extends_def intro: prefix_order.trans)

lemma bag_extends_add [simp]: "bag_extends b (add_diag code path sp message b)"
  by (simp add: bag_extends_def add_diag_def)

lemma bag_extends_count: "bag_extends a b \<Longrightarrow> bag_count a \<le> bag_count b"
  by (auto simp: bag_extends_def bag_count_def prefix_length_le)

lemma cursor_to_refl: "cursor_ok t \<Longrightarrow> cursor_to t t"
  by (simp add: cursor_to_def)

lemma cursor_to_trans [trans]: "cursor_to a b \<Longrightarrow> cursor_to b c \<Longrightarrow> cursor_to a c"
  using bag_extends_trans[of "lx_diags a" "lx_diags b" "lx_diags c"] by (simp add: cursor_to_def)

text \<open>What the rest of the tokenizer reads is as it was.\<close>

lemma cursor_to_frame:
  assumes "cursor_to t t'"
  shows "lx_path t' = lx_path t" "lx_bytes t' = lx_bytes t" "lx_indent t' = lx_indent t"
    "lx_pending t' = lx_pending t" "lx_delims t' = lx_delims t" "lx_regions t' = lx_regions t"
    "lx_formatted t' = lx_formatted t" "lx_tokens t' = lx_tokens t" "lx_saw_asm t' = lx_saw_asm t"
    "lx_raw_suite t' = lx_raw_suite t" "lx_raw_started t' = lx_raw_started t"
    "lx_pos t \<le> lx_pos t'" "lx_line t \<le> lx_line t'" "bag_extends (lx_diags t) (lx_diags t')" "cursor_ok t'"
  using assms by (auto simp: cursor_to_def)

text \<open>A step of the cursor: \<open>n\<close> bytes that are in the source, and an error.\<close>

lemma lx_move [simp]:
  "lx_pos (move n t) = lx_pos t + n" "lx_bytes (move n t) = lx_bytes t" "lx_line_start (move n t) = lx_line_start t"
  "lx_line (move n t) = lx_line t" "lx_tokens (move n t) = lx_tokens t" "lx_diags (move n t) = lx_diags t"
  "lx_path (move n t) = lx_path t" "lx_formatted (move n t) = lx_formatted t" "lx_delims (move n t) = lx_delims t"
  by (simp_all add: move_def)

lemma lx_error_at [simp]:
  "lx_pos (error_at l c b code m t) = lx_pos t" "lx_bytes (error_at l c b code m t) = lx_bytes t"
  "lx_line_start (error_at l c b code m t) = lx_line_start t" "lx_line (error_at l c b code m t) = lx_line t"
  "lx_tokens (error_at l c b code m t) = lx_tokens t"
  "lx_diags (error_at l c b code m t) =
    add_diag code (lx_path t) \<lparr>span_start = b, span_end = b, span_line = l, span_column = c\<rparr> m (lx_diags t)"
  by (simp_all add: error_at_def)

lemma cursor_to_move: "cursor_ok t \<Longrightarrow> lx_pos t + n \<le> length (lx_bytes t) \<Longrightarrow> cursor_to t (move n t)"
  by (simp add: cursor_to_def move_def cursor_ok_def)

lemma cursor_to_error_at: "cursor_ok t \<Longrightarrow> cursor_to t (error_at l c b code m t)"
  by (simp add: cursor_to_def error_at_def cursor_ok_def)

lemma cursor_to_error: "cursor_ok t \<Longrightarrow> cursor_to t (lex_error code m t)"
  unfolding lex_error_def by (rule cursor_to_error_at)

lemma cursor_to_advance_line:
  assumes "cursor_ok t" "at_newline t"
  shows "cursor_to t (advance_line t)" "lx_pos t < lx_pos (advance_line t)"
    "lx_line_start (advance_line t) = lx_pos (advance_line t)"
proof -
  show "lx_pos t < lx_pos (advance_line t)" "lx_line_start (advance_line t) = lx_pos (advance_line t)"
    by (simp_all add: advance_line_def Let_def)
  have "lx_pos t < length (lx_bytes t)"
    using assms(2) by (auto simp: at_newline_def peek_byte_def nul_def lf_def cr_def split: if_splits)
  moreover have "lx_pos t + 1 < length (lx_bytes t)" if "peek_byte t 0 = cr"
    using assms(1) calculation that by (simp add: cursor_ok_def peek_byte_def)
  ultimately show "cursor_to t (advance_line t)"
    using assms by (auto simp: cursor_to_def advance_line_def Let_def move_def cursor_ok_def)
qed

lemma peek_in_source: "peek_byte t n \<noteq> nul \<Longrightarrow> lx_pos t + n < length (lx_bytes t)"
  by (auto simp: peek_byte_def split: if_splits)

lemma peek_eq_in_source: "peek_byte t n = c \<Longrightarrow> c \<noteq> nul \<Longrightarrow> lx_pos t + n < length (lx_bytes t)"
  using peek_in_source by blast

lemma starts_with_in_source: "starts_with t s \<Longrightarrow> lx_pos t + length s \<le> length (lx_bytes t)"
  by (auto simp: starts_with_def split: if_splits)

lemma run_length_le: "lx_pos t \<le> length (lx_bytes t) \<Longrightarrow> lx_pos t + run_length P t \<le> length (lx_bytes t)"
  using length_takeWhile_le[of P "drop (lx_pos t) (lx_bytes t)"] by (simp add: run_length_def)

subsection \<open>Comments\<close>

text \<open>The first field close that a comment hides inside a formatted string is remembered.\<close>

definition note_commented_close :: "tokenizer \<Rightarrow> tokenizer" where
  "note_commented_close t =
     (if lx_formatted t \<noteq> [] \<and> lx_close_line t = 0 \<and> starts_with t [CHR ''}'', dquote, dquote, dquote]
      then t\<lparr>lx_close_line := lx_line t, lx_close_column := column t\<rparr> else t)"

function skip_comment :: "tokenizer \<Rightarrow> tokenizer" where
  "skip_comment t =
     (if \<not> at_end t \<and> \<not> at_newline t then skip_comment (move 1 (note_commented_close t)) else t)"
  by pat_completeness auto
termination
  by (relation "measure (\<lambda>t. length (lx_bytes t) - lx_pos t)") (auto simp: at_end_def note_commented_close_def)

declare skip_comment.simps [simp del]

subsection \<open>Escapes\<close>

text \<open>
  The digits of a \<open>\u{...}\<close> escape are summed in an \<open>int\<close> before their number is checked; the
  sum of more than seven is not used, so it is a \<open>nat\<close> here.
\<close>

definition scan_escape :: "bool \<Rightarrow> tokenizer \<Rightarrow> bool \<times> tokenizer" where
  "scan_escape byte_mode t =
     (let col = column t; byte = lx_pos t;
          fail = (\<lambda>message t. (False, error_at (lx_line t) col byte ''lucb.lex.escape'' message t));
          t = move 1 t
      in if at_end t \<or> at_newline t then fail ''unterminated literal escape'' t
         else let escaped = peek_byte t 0 in
           if escaped = backslash \<or> escaped = dquote \<or> escaped = squote \<or> escaped = CHR ''n'' \<or>
              escaped = CHR ''r'' \<or> escaped = CHR ''t'' \<or> escaped = CHR ''0''
           then (True, move 1 t)
           else if escaped = CHR ''u'' \<and> peek_byte t 1 = CHR ''{'' then
             (let t = move 2 t;
                  digits = run_length is_hex_digit t;
                  scalar = foldl (\<lambda>v c. v * 16 + lex_hex_value c) 0 (substr (lx_bytes t) (lx_pos t) digits);
                  t = move digits t
              in if digits = 0 \<or> 6 < digits \<or> peek_byte t 0 \<noteq> CHR ''}'' then
                   fail (''Unicode escape must be '' @ [backslash] @ ''u{HEX}'') t
                 else if 0x10FFFF < scalar \<or> (0xD800 \<le> scalar \<and> scalar \<le> 0xDFFF) then
                   fail ''Unicode escape is not a scalar value'' t
                 else (True, move 1 t))
           else if byte_mode \<and> escaped = CHR ''x'' then
             (let t = move 1 t
              in if \<not> is_hex_digit (peek_byte t 0) \<or> \<not> is_hex_digit (peek_byte t 1) then
                   fail ''byte escape must contain two hex digits'' t
                 else (True, move 2 t))
           else fail ''invalid literal escape'' t)"

lemma scan_escape_moves [simp]:
  "lx_bytes (snd (scan_escape b t)) = lx_bytes t" "lx_pos t < lx_pos (snd (scan_escape b t))"
  by (auto simp: scan_escape_def Let_def)

lemma scan_escape_later: "scan_escape b t = (r, t') \<Longrightarrow> lx_bytes t' = lx_bytes t \<and> lx_pos t < lx_pos t'"
  using scan_escape_moves[where b = b and t = t] by simp

subsection \<open>Strings\<close>

function scan_string_chars :: "bool \<Rightarrow> bool \<Rightarrow> bool \<Rightarrow> nat \<Rightarrow> nat \<Rightarrow> tokenizer \<Rightarrow> bool \<times> tokenizer" where
  "scan_string_chars is_raw byte_mode is_triple start_line start_column t =
     (if at_end t then
        (False, error_at start_line start_column (lx_pos t) ''lucb.lex.string'' ''unterminated string literal'' t)
      else if is_triple \<and> starts_with t [dquote, dquote, dquote] then (True, move 3 t)
      else let c = peek_byte t 0 in
        if \<not> is_triple \<and> c = dquote then (True, move 1 t)
        else if \<not> is_raw \<and> c = backslash then
          (case scan_escape byte_mode t of
             (False, t') \<Rightarrow> (False, t')
           | (True, t') \<Rightarrow> scan_string_chars is_raw byte_mode is_triple start_line start_column t')
        else if c = lf \<or> c = cr then
          (if \<not> is_triple then
             (False, error_at start_line start_column (lx_pos t) ''lucb.lex.string'' ''unterminated string literal'' t)
           else scan_string_chars is_raw byte_mode is_triple start_line start_column (advance_line t))
        else (case utf8_next (lx_bytes t) (lx_pos t) of
            None \<Rightarrow> (False, lex_error ''lucb.lex.string'' ''invalid UTF-8 in string'' t)
          | Some (width, cp) \<Rightarrow>
              if byte_mode \<and> 0x7F < cp then
                (False, move width (lex_error ''lucb.lex.string'' ''byte literals require ASCII source characters'' t))
              else scan_string_chars is_raw byte_mode is_triple start_line start_column (move width t)))"
  by pat_completeness auto
termination
  by (relation "measure (\<lambda>(_, _, _, _, _, t). length (lx_bytes t) - lx_pos t)")
    (auto simp: at_end_def advance_line_def Let_def dest!: utf8_next_width scan_escape_later[OF sym])

declare scan_string_chars.simps [simp del]

definition scan_string_body :: "char \<Rightarrow> nat \<Rightarrow> nat \<Rightarrow> tokenizer \<Rightarrow> bool \<times> tokenizer" where
  "scan_string_body pfx start_line start_column t =
     (let is_triple = starts_with t [dquote, dquote, dquote]
      in scan_string_chars (pfx = CHR ''r'') (pfx = CHR ''b'') is_triple start_line start_column
           (move (if is_triple then 3 else 1) t))"

subsection \<open>Numbers\<close>

text \<open>The loop of \<open>scan_digit_sequence\<close>: \<open>None\<close> where it returns with an error.\<close>

function scan_digits :: "char \<Rightarrow> bool \<Rightarrow> bool \<Rightarrow> tokenizer \<Rightarrow> (bool \<times> bool) option \<times> tokenizer" where
  "scan_digits base has_digit after_separator t =
     (if is_digit_for_base (peek_byte t 0) base \<or> peek_byte t 0 = CHR ''_'' then
        (if peek_byte t 0 = CHR ''_'' then
           (if \<not> has_digit \<or> after_separator then
              (None, lex_error ''lucb.lex.number'' ''underscores must separate numeric digits'' t)
            else scan_digits base has_digit True (move 1 t))
         else scan_digits base True False (move 1 t))
      else (Some (has_digit, after_separator), t))"
  by pat_completeness auto
termination
  by (relation "measure (\<lambda>(_, _, _, t). length (lx_bytes t) - lx_pos t)")
    (auto simp: peek_byte_def nul_def char_classes split: if_splits)

declare scan_digits.simps [simp del]

definition scan_digit_sequence :: "char \<Rightarrow> tokenizer \<Rightarrow> bool \<times> tokenizer" where
  "scan_digit_sequence base t =
     (let start_column = column t; start_pos = lx_pos t
      in case scan_digits base False False t of
           (None, t) \<Rightarrow> (False, t)
         | (Some (has_digit, after_separator), t) \<Rightarrow>
             if \<not> has_digit then
               (False, error_at (lx_line t) start_column start_pos ''lucb.lex.number'' ''numeric literal requires a digit'' t)
             else if after_separator then
               (False, lex_error ''lucb.lex.number'' ''numeric literal cannot end with underscore'' t)
             else (True, t))"

definition scan_numeric_suffix :: "tokenizer \<Rightarrow> bytes \<times> tokenizer" where
  "scan_numeric_suffix t =
     (if \<not> is_ascii_alpha (peek_byte t 0) then ([], t)
      else let n = run_length is_ident_continue t
           in (slice t (lx_pos t) (lx_pos t + n), move n t))"

subsection \<open>Every cursor operation keeps the contract\<close>

lemma cursor_to_step: "cursor_to t t' \<Longrightarrow> (cursor_ok t' \<Longrightarrow> cursor_to t' t'') \<Longrightarrow> cursor_to t t''"
  using cursor_to_trans cursor_to_frame(15) by blast

lemma not_at_end: "cursor_ok t \<Longrightarrow> \<not> at_end t \<Longrightarrow> lx_pos t + 1 \<le> length (lx_bytes t)"
  by (simp add: at_end_def)

lemma comment_step:
  assumes "cursor_ok t" "\<not> at_end t"
  shows "cursor_to t (move 1 (note_commented_close t))"
  using not_at_end[OF assms] assms(1)
  by (simp add: note_commented_close_def cursor_to_def cursor_ok_def move_def)

lemma skip_comment_cursor: "cursor_ok t \<Longrightarrow> cursor_to t (skip_comment t)"
proof (induction t rule: skip_comment.induct)
  case (1 t)
  show ?case
  proof (cases "\<not> at_end t \<and> \<not> at_newline t")
    case True
    have "cursor_to t (skip_comment (move 1 (note_commented_close t)))"
      by (rule cursor_to_step[OF comment_step 1(1)]) (use 1(2) True in auto)
    then show ?thesis using True by (subst skip_comment.simps) simp
  next
    case False
    then have "skip_comment t = t" by (subst skip_comment.simps) auto
    with 1(2) show ?thesis by (simp add: cursor_to_refl)
  qed
qed

lemma skip_comment_stops: "at_end (skip_comment t) \<or> at_newline (skip_comment t)"
  by (induction t rule: skip_comment.induct) (subst (1 2) skip_comment.simps, simp)

lemma skip_comment_advances:
  assumes "\<not> at_end t" "\<not> at_newline t" "cursor_ok t"
  shows "lx_pos t < lx_pos (skip_comment t)"
proof -
  have "cursor_ok (move 1 (note_commented_close t))"
    using comment_step[OF assms(3,1)] by (rule cursor_to_frame)
  then have "lx_pos (move 1 (note_commented_close t)) \<le> lx_pos (skip_comment (move 1 (note_commented_close t)))"
    using skip_comment_cursor cursor_to_frame(12) by blast
  moreover have "skip_comment t = skip_comment (move 1 (note_commented_close t))"
    using assms by (subst skip_comment.simps) simp
  moreover have "lx_pos (note_commented_close t) = lx_pos t" by (simp add: note_commented_close_def)
  ultimately show ?thesis by simp
qed

lemma cursor_snd_if:
  "(c \<Longrightarrow> cursor_to t (snd x)) \<Longrightarrow> (\<not> c \<Longrightarrow> cursor_to t (snd y)) \<Longrightarrow> cursor_to t (snd (if c then x else y))"
  by simp

lemma escape_error_cursor: "cursor_to t t' \<Longrightarrow> cursor_to t (error_at l c b code m t')"
  using cursor_to_step cursor_to_error_at by blast

lemma scan_escape_cursor:
  assumes "cursor_ok t" "\<not> at_end t"
  shows "cursor_to t (snd (scan_escape b t))"
proof -
  define u where "u = move 1 t"
  have u: "cursor_to t u" using cursor_to_move[OF assms(1), of 1] not_at_end[OF assms] by (simp add: u_def)
  have ok: "cursor_ok u" using u by (rule cursor_to_frame)
  have one: "cursor_to t (move 1 u)" if "\<not> at_end u"
    using cursor_to_step[OF u cursor_to_move] not_at_end[OF ok that] by blast
  have bs: "lx_bytes u = lx_bytes t" by (simp add: u_def)
  define v where "v = move 2 u"
  define w where "w = move (run_length is_hex_digit v) v"
  have v: "cursor_to t v" if "peek_byte u 1 = CHR ''{''"
  proof -
    have "lx_pos u + 2 \<le> length (lx_bytes u)" using peek_eq_in_source[OF that] by (simp add: nul_def)
    then show ?thesis unfolding v_def using cursor_to_step[OF u cursor_to_move] by blast
  qed
  have w: "cursor_to t w" if "peek_byte u 1 = CHR ''{''"
  proof -
    have "cursor_ok v" using v[OF that] by (rule cursor_to_frame)
    then have "lx_pos v + run_length is_hex_digit v \<le> length (lx_bytes v)"
      by (simp add: run_length_le cursor_ok_def)
    then show ?thesis unfolding w_def using cursor_to_step[OF v[OF that] cursor_to_move] by blast
  qed
  have w1: "cursor_to t (move 1 w)" if "peek_byte u 1 = CHR ''{''" "peek_byte w 0 = CHR ''}''"
  proof -
    have "lx_pos w + 1 \<le> length (lx_bytes w)" using peek_eq_in_source[OF that(2)] by (simp add: nul_def)
    then show ?thesis using cursor_to_step[OF w[OF that(1)] cursor_to_move] by blast
  qed
  have x: "cursor_to t (move 2 (move 1 u))" if "\<not> at_end u" "is_hex_digit (peek_byte (move 1 u) 1)"
  proof -
    have "peek_byte (move 1 u) 1 \<noteq> nul" using that(2) nul_classes(5) by metis
    then have "lx_pos (move 1 u) + 2 \<le> length (lx_bytes (move 1 u))" using peek_in_source by fastforce
    then show ?thesis using cursor_to_step[OF one[OF that(1)] cursor_to_move] by blast
  qed
  show ?thesis
    unfolding scan_escape_def Let_def u_def[symmetric] v_def[symmetric] w_def[symmetric]
    by (intro cursor_snd_if; simp only: snd_conv; blast intro: escape_error_cursor u one w w1 x)
qed

lemma dquote_not_nul: "dquote \<noteq> nul" "backslash \<noteq> nul" "squote \<noteq> nul" "lf \<noteq> nul" "cr \<noteq> nul"
  by (simp_all add: control_chars)

lemma cursor_to_width:
  assumes "cursor_ok t" "utf8_next (lx_bytes t) (lx_pos t) = Some (w, cp)"
  shows "cursor_to t (move w t)"
  using utf8_next_width[OF assms(2)] by (auto intro!: cursor_to_move assms(1))

lemma scan_string_chars_cursor:
  "cursor_ok t \<Longrightarrow> cursor_to t (snd (scan_string_chars is_raw byte_mode is_triple l c t))"
proof (induction is_raw byte_mode is_triple l c t rule: scan_string_chars.induct)
  case (1 is_raw byte_mode is_triple l k t)
  note ok = 1(4)
  let ?rec = "\<lambda>t. scan_string_chars is_raw byte_mode is_triple l k t"
  have recur: "cursor_to t (snd (?rec t'))" if "cursor_to t t'" "cursor_ok t' \<Longrightarrow> cursor_to t' (snd (?rec t'))" for t'
    using cursor_to_step[OF that] .
  show ?case
  proof (cases "at_end t \<or> is_triple \<and> starts_with t [dquote, dquote, dquote] \<or> \<not> is_triple \<and> peek_byte t 0 = dquote")
    case True
    have "cursor_to t (move 3 t)" if "starts_with t [dquote, dquote, dquote]"
      using cursor_to_move[OF ok, of 3] starts_with_in_source[OF that] by simp
    moreover have "cursor_to t (move 1 t)" if "peek_byte t 0 = dquote"
      using cursor_to_move[OF ok, of 1] peek_eq_in_source[OF that dquote_not_nul(1)] by simp
    ultimately show ?thesis using True ok
      by (subst scan_string_chars.simps) (auto simp: Let_def cursor_to_error_at)
  next
    case False
    then have f: "\<not> at_end t" "\<not> (is_triple \<and> starts_with t [dquote, dquote, dquote])"
      "\<not> (\<not> is_triple \<and> peek_byte t 0 = dquote)" by auto
    show ?thesis
    proof (cases "\<not> is_raw \<and> peek_byte t 0 = backslash")
      case True
      obtain r t' where esc: "scan_escape byte_mode t = (r, t')" by fastforce
      have "cursor_to t t'" using scan_escape_cursor[OF ok f(1), of byte_mode] esc by simp
      then show ?thesis
        using recur[of t'] 1(1)[OF f(1,2) refl f(3) True] esc f True
        by (subst scan_string_chars.simps) (cases r; auto simp: Let_def)
    next
      case esc: False
      show ?thesis
      proof (cases "peek_byte t 0 = lf \<or> peek_byte t 0 = cr")
        case True
        then have nl: "at_newline t" by (simp add: at_newline_def)
        show ?thesis
          using recur[OF cursor_to_advance_line(1)[OF ok nl]] 1(2)[OF f(1,2) refl f(3) esc True] f esc True ok
          by (subst scan_string_chars.simps) (auto simp: Let_def cursor_to_error_at)
      next
        case nl: False
        have body: "?rec t = (case utf8_next (lx_bytes t) (lx_pos t) of
            None \<Rightarrow> (False, lex_error ''lucb.lex.string'' ''invalid UTF-8 in string'' t)
          | Some (width, cp) \<Rightarrow>
              if byte_mode \<and> 0x7F < cp then
                (False, move width (lex_error ''lucb.lex.string'' ''byte literals require ASCII source characters'' t))
              else ?rec (move width t))"
          by (subst scan_string_chars.simps) (simp only: f esc nl Let_def if_False not_False_eq_True)
        show ?thesis
        proof (cases "utf8_next (lx_bytes t) (lx_pos t)")
          case None
          then show ?thesis using ok by (simp add: body cursor_to_error)
        next
          case (Some p)
          obtain w cp where p: "p = (w, cp)" by fastforce
          have "cursor_to t (move w (lex_error c m t))" for c m
            by (rule cursor_to_step[OF cursor_to_error[OF ok] cursor_to_width])
              (use Some p in \<open>simp_all add: lex_error_def\<close>)
          moreover have "cursor_to t (snd (?rec (move w t)))" if "\<not> (byte_mode \<and> 0x7F < cp)"
            by (rule recur[OF cursor_to_width[OF ok]])
              (use Some p that 1(3)[OF f(1,2) refl f(3) esc nl _ refl] in simp_all)
          ultimately show ?thesis by (simp add: body Some p)
        qed
      qed
    qed
  qed
qed

lemma scan_string_body_cursor:
  assumes "cursor_ok t" "peek_byte t 0 = dquote"
  shows "cursor_to t (snd (scan_string_body p l c t))"
proof -
  have "lx_pos t + (if starts_with t [dquote, dquote, dquote] then 3 else 1) \<le> length (lx_bytes t)"
    using starts_with_in_source[of t "[dquote, dquote, dquote]"] peek_eq_in_source[OF assms(2) dquote_not_nul(1)]
    by auto
  then show ?thesis
    unfolding scan_string_body_def Let_def
    using cursor_to_step[OF cursor_to_move[OF assms(1)] scan_string_chars_cursor] by blast
qed

lemma scan_digits_cursor: "cursor_ok t \<Longrightarrow> cursor_to t (snd (scan_digits base h a t))"
proof (induction base h a t rule: scan_digits.induct)
  case (1 base h a t)
  show ?case
  proof (cases "is_digit_for_base (peek_byte t 0) base \<or> peek_byte t 0 = CHR ''_''")
    case True
    then have "peek_byte t 0 \<noteq> nul" using nul_classes(6) by (auto simp: nul_def)
    then have m: "cursor_to t (move 1 t)" using cursor_to_move[OF 1(3), of 1] peek_in_source[of t 0] by simp
    show ?thesis
    proof (cases "peek_byte t 0 = CHR ''_''")
      case us: True
      show ?thesis
        using cursor_to_step[OF m 1(1)[OF True us]] cursor_to_error[OF 1(3)] us
        by (subst scan_digits.simps) auto
    next
      case us: False
      show ?thesis using cursor_to_step[OF m 1(2)[OF True us]] us True by (subst scan_digits.simps) simp
    qed
  qed (subst scan_digits.simps, simp add: cursor_to_refl 1(3))
qed

lemma scan_digit_sequence_cursor: "cursor_ok t \<Longrightarrow> cursor_to t (snd (scan_digit_sequence base t))"
  using scan_digits_cursor[of t base False False]
  by (auto simp: scan_digit_sequence_def Let_def lex_error_def escape_error_cursor split: prod.splits option.splits)

lemma scan_digits_from_digit:
  assumes "cursor_ok t" "is_digit_for_base (peek_byte t 0) base"
  shows "lx_pos t < lx_pos (snd (scan_digit_sequence base t))"
proof -
  have us: "peek_byte t 0 \<noteq> CHR ''_''" using assms(2) by (auto simp: char_classes split: if_splits)
  have "peek_byte t 0 \<noteq> nul" using assms(2) nul_classes(6) by metis
  then have m: "cursor_ok (move 1 t)"
    using cursor_to_frame(15)[OF cursor_to_move[OF assms(1), of 1]] peek_in_source[of t 0] by simp
  have "scan_digits base False False t = scan_digits base True False (move 1 t)"
    using assms(2) us by (subst scan_digits.simps) simp
  moreover have "lx_pos (move 1 t) \<le> lx_pos (snd (scan_digits base True False (move 1 t)))"
    using scan_digits_cursor[OF m] by (rule cursor_to_frame)
  ultimately have "lx_pos t < lx_pos (snd (scan_digits base False False t))" by simp
  then show ?thesis
    by (auto simp: scan_digit_sequence_def Let_def lex_error_def split: prod.splits option.splits)
qed

lemma scan_numeric_suffix_cursor: "cursor_ok t \<Longrightarrow> cursor_to t (snd (scan_numeric_suffix t))"
  by (auto simp: scan_numeric_suffix_def Let_def cursor_to_refl cursor_ok_def intro!: cursor_to_move run_length_le)

subsection \<open>The contract as an interface\<close>

locale cursor_op =
  fixes pre :: "tokenizer \<Rightarrow> bool" and act :: "tokenizer \<Rightarrow> tokenizer"
  assumes act_cursor: "cursor_ok t \<Longrightarrow> pre t \<Longrightarrow> cursor_to t (act t)"
begin

lemma keeps_cursor_ok: "cursor_ok t \<Longrightarrow> pre t \<Longrightarrow> cursor_ok (act t)"
  using act_cursor by (blast intro: cursor_to_frame)

lemma keeps_frame:
  assumes "cursor_ok t" "pre t"
  shows "lx_tokens (act t) = lx_tokens t" "lx_bytes (act t) = lx_bytes t" "lx_delims (act t) = lx_delims t"
    "lx_regions (act t) = lx_regions t" "lx_formatted (act t) = lx_formatted t" "lx_indent (act t) = lx_indent t"
    "lx_pending (act t) = lx_pending t" "lx_raw_suite (act t) = lx_raw_suite t"
  using cursor_to_frame[OF act_cursor[OF assms]] by simp_all

lemma only_forward: "cursor_ok t \<Longrightarrow> pre t \<Longrightarrow> lx_pos t \<le> lx_pos (act t)"
  using act_cursor by (blast intro: cursor_to_frame)

lemma only_adds_errors: "cursor_ok t \<Longrightarrow> pre t \<Longrightarrow> bag_extends (lx_diags t) (lx_diags (act t))"
  using act_cursor by (blast intro: cursor_to_frame)

end

interpretation comment: cursor_op "\<lambda>t. True" skip_comment
  by unfold_locales (rule skip_comment_cursor)

interpretation newline: cursor_op at_newline advance_line
  by unfold_locales (rule cursor_to_advance_line)

interpretation escape: cursor_op "\<lambda>t. \<not> at_end t" "\<lambda>t. snd (scan_escape b t)" for b
  by unfold_locales (rule scan_escape_cursor)

interpretation string_body: cursor_op "\<lambda>t. peek_byte t 0 = dquote" "\<lambda>t. snd (scan_string_body p l c t)" for p l c
  by unfold_locales (rule scan_string_body_cursor)

interpretation digit_sequence: cursor_op "\<lambda>t. True" "\<lambda>t. snd (scan_digit_sequence base t)" for base
  by unfold_locales (rule scan_digit_sequence_cursor)

interpretation numeric_suffix: cursor_op "\<lambda>t. True" "\<lambda>t. snd (scan_numeric_suffix t)"
  by unfold_locales (rule scan_numeric_suffix_cursor)

end
