(* ===== verification/Symbols.thy ===== *)
theory Symbols
  imports LexState
begin

section \<open>Operators and punctuation\<close>

text \<open>
  \<open>match_symbol\<close> of \<open>src/lex/lexer.cpp\<close>: the spellings it tries in its order, and the final
  switch on one byte. The theorem is maximal munch: what it returns is the longest spelling of a
  symbol kind that the source has at the cursor, and it returns nothing only when there is none.
\<close>

definition long_symbols :: "(string \<times> token_kind) list" where
  "long_symbols = [
     (''+%='', PlusPercentEq), (''-%='', MinusPercentEq), (''*%='', StarPercentEq),
     (''+|='', PlusPipeEq), (''-|='', MinusPipeEq), (''*|='', StarPipeEq),
     (''//='', SlashSlashEq), (''<<='', LtLtEq), (''>>='', GtGtEq), (''---'', DashDashDash),
     (''...'', DotDotDot), (''..<'', DotDotLt), (''..='', DotDotEq), (''+%'', PlusPercent),
     (''-%'', MinusPercent), (''*%'', StarPercent), (''+|'', PlusPipe), (''-|'', MinusPipe),
     (''*|'', StarPipe), (''+?'', PlusQuestion), (''-?'', MinusQuestion), (''*?'', StarQuestion),
     (''->'', Arrow), (''=>'', FatArrow), (''=='', EqEq), (''!='', NotEq), (''<='', LtEq),
     (''>='', GtEq), (''//'', SlashSlash), (''<<'', LtLt), (''>>'', GtGt), (''+='', PlusEq),
     (''-='', MinusEq), (''*='', StarEq), (''/='', SlashEq), (''%='', PercentEq),
     (''&='', AmpEq), (''|='', PipeEq), (''^='', CaretEq), (''..'', DotDot)]"

definition single_symbols :: "(char \<times> token_kind) list" where
  "single_symbols = [
     (CHR ''('', LParen), (CHR '')'', RParen), (CHR ''['', LBracket), (CHR '']'', RBracket),
     (CHR ''{'', LBrace), (CHR ''}'', RBrace), (CHR '','', Comma), (CHR '':'', Colon),
     (CHR ''.'', Dot), (CHR ''?'', Question), (CHR ''!'', Bang), (CHR ''@'', At),
     (CHR ''+'', Plus), (CHR ''-'', Minus), (CHR ''*'', Star), (CHR ''/'', Slash),
     (CHR ''%'', Percent), (CHR ''&'', Amp), (CHR ''|'', Pipe), (CHR ''^'', Caret),
     (CHR ''~'', Tilde), (CHR ''<'', Lt), (CHR ''>'', Gt), (CHR ''='', Eq)]"

text \<open>The kind and the width; a width of zero is the empty \<open>SymbolMatch\<close>.\<close>

definition match_symbol :: "tokenizer \<Rightarrow> token_kind \<times> nat" where
  "match_symbol t =
     (case List.find (\<lambda>(s, k). starts_with t s) long_symbols of
        Some (s, k) \<Rightarrow> (k, length s)
      | None \<Rightarrow>
          (case map_of single_symbols (peek_byte t 0) of
             Some k \<Rightarrow> (k, 1)
           | None \<Rightarrow> (EndOfFile, 0)))"

text \<open>The kinds from \<open>LParen\<close> on are the symbols.\<close>

definition is_symbol :: "token_kind \<Rightarrow> bool" where
  "is_symbol k \<longleftrightarrow> LParen \<le> k"

subsection \<open>The tables cover the symbols\<close>

definition all_symbols :: "(string \<times> token_kind) list" where
  "all_symbols = long_symbols @ map (\<lambda>(c, k). ([c], k)) single_symbols"

lemma long_symbols_width: "(s, k) \<in> set long_symbols \<Longrightarrow> 2 \<le> length s"
proof -
  have "list_all (\<lambda>(s, k). 2 \<le> length s) long_symbols" by (simp add: long_symbols_def)
  then show "(s, k) \<in> set long_symbols \<Longrightarrow> 2 \<le> length s" by (auto simp: list_all_iff)
qed

lemma long_symbols_longest_first: "sorted_wrt (\<lambda>p q. length (fst q) \<le> length (fst p)) long_symbols"
proof -
  have "sorted (rev (map (length \<circ> fst) long_symbols))" by (simp add: long_symbols_def sorted2_simps)
  then show ?thesis by (simp add: sorted_wrt_map sorted_wrt_rev)
qed

lemma symbols_named: "(s, k) \<in> set all_symbols \<Longrightarrow> is_symbol k \<and> token_kind_name k = s"
proof -
  have "list_all (\<lambda>(s, k). is_symbol k \<and> token_kind_name k = s) all_symbols"
    by (simp add: all_symbols_def long_symbols_def single_symbols_def is_symbol_def less_eq_token_kind_def)
  then show "(s, k) \<in> set all_symbols \<Longrightarrow> is_symbol k \<and> token_kind_name k = s"
    by (auto simp: list_all_iff)
qed

lemma symbols_listed: "is_symbol k \<Longrightarrow> (token_kind_name k, k) \<in> set all_symbols"
  by (cases k) (simp_all add: all_symbols_def long_symbols_def single_symbols_def is_symbol_def less_eq_token_kind_def)

lemma single_symbols_distinct: "distinct (map fst single_symbols)"
  by (simp add: single_symbols_def)

lemma single_symbols_not_nul: "map_of single_symbols nul = None"
  by (simp add: single_symbols_def nul_def)

lemma starts_with_single: "c \<noteq> nul \<Longrightarrow> starts_with t [c] \<longleftrightarrow> peek_byte t 0 = c"
  by (auto simp: starts_with_def peek_byte_def substr_def take_Suc_conv_app_nth drop_eq_Cons)

lemma find_SomeD: "List.find P xs = Some x \<Longrightarrow> x \<in> set xs \<and> P x"
  by (induction xs) (auto split: if_splits)

lemma find_longest:
  assumes "List.find P xs = Some x" "sorted_wrt (\<lambda>p q. f q \<le> f p) xs" "y \<in> set xs" "P y"
  shows "f y \<le> (f x :: nat)"
  using assms by (induction xs) (auto split: if_splits)

subsection \<open>Maximal munch\<close>

lemma match_symbol_Some:
  assumes "match_symbol t = (k, w)" "0 < w"
  shows "is_symbol k \<and> starts_with t (token_kind_name k) \<and> w = length (token_kind_name k)"
proof (cases "List.find (\<lambda>(s, k). starts_with t s) long_symbols")
  case (Some p)
  obtain s k' where p: "p = (s, k')" by fastforce
  have "(s, k') \<in> set all_symbols" "starts_with t s"
    using find_SomeD[OF Some] p by (auto simp: all_symbols_def)
  with symbols_named[of s k'] assms Some p show ?thesis by (simp add: match_symbol_def)
next
  case None
  then obtain k' where k: "map_of single_symbols (peek_byte t 0) = Some k'" "k' = k" "w = 1"
    using assms by (auto simp: match_symbol_def split: option.splits)
  have "([peek_byte t 0], k') \<in> set all_symbols"
    using map_of_SomeD[OF k(1)] by (force simp: all_symbols_def)
  moreover have "peek_byte t 0 \<noteq> nul" using k(1) single_symbols_not_nul by auto
  then have "starts_with t [peek_byte t 0]" using starts_with_single by blast
  ultimately show ?thesis using symbols_named k(2,3) by fastforce
qed

lemma match_symbol_longest:
  assumes "is_symbol k'" "starts_with t (token_kind_name k')"
  shows "length (token_kind_name k') \<le> snd (match_symbol t)"
proof -
  have listed: "(token_kind_name k', k') \<in> set all_symbols" using assms(1) by (rule symbols_listed)
  show ?thesis
  proof (cases "List.find (\<lambda>(s, k). starts_with t s) long_symbols")
    case (Some p)
    obtain s k where p: "p = (s, k)" by fastforce
    have long: "2 \<le> length s" using find_SomeD[OF Some] p long_symbols_width by auto
    have "length (token_kind_name k') \<le> length s"
    proof (cases "(token_kind_name k', k') \<in> set long_symbols")
      case True
      then show ?thesis
        using find_longest[where f = "length \<circ> fst", OF Some _ True] long_symbols_longest_first assms(2) p by simp
    next
      case False
      then have "length (token_kind_name k') = 1" using listed by (auto simp: all_symbols_def)
      with long show ?thesis by simp
    qed
    then show ?thesis using Some p by (simp add: match_symbol_def)
  next
    case None
    then have "(token_kind_name k', k') \<notin> set long_symbols" using assms(2) by (auto simp: find_None_iff)
    then obtain c where c: "token_kind_name k' = [c]" "(c, k') \<in> set single_symbols"
      using listed by (auto simp: all_symbols_def)
    have some: "map_of single_symbols c = Some k'"
      using c(2) by (rule map_of_is_SomeI[OF single_symbols_distinct])
    then have "c \<noteq> nul" using single_symbols_not_nul by auto
    then have "peek_byte t 0 = c" using assms(2) c(1) starts_with_single by simp
    with some None c(1) show ?thesis by (simp add: match_symbol_def)
  qed
qed

lemma match_symbol_kind: "is_symbol k \<Longrightarrow> token_kind_name k \<noteq> []"
  using symbols_listed long_symbols_width by (fastforce simp: all_symbols_def)

lemma match_symbol_in_source:
  "lx_pos t + snd (match_symbol t) \<le> length (lx_bytes t) \<or> snd (match_symbol t) = 0"
  using match_symbol_Some[of t "fst (match_symbol t)" "snd (match_symbol t)"] starts_with_in_source by auto

subsection \<open>Properties\<close>

text \<open>
  C15: the operator scanner is maximal munch over all symbol kinds: when it matches, the source has
  the printed name of the matched kind at the cursor, the width is that name's length and no symbol
  with a longer name stands there; when it matches nothing, no symbol stands there.
\<close>

theorem match_symbol_maximal_munch:
  "(if snd (match_symbol t) = 0 then \<forall>k. \<not> (is_symbol k \<and> starts_with t (token_kind_name k))
    else is_symbol (fst (match_symbol t)) \<and> starts_with t (token_kind_name (fst (match_symbol t))) \<and>
      snd (match_symbol t) = Max {length (token_kind_name k) | k. is_symbol k \<and> starts_with t (token_kind_name k)})"
proof (cases "snd (match_symbol t) = 0")
  case True
  then show ?thesis using match_symbol_longest match_symbol_kind by fastforce
next
  case False
  let ?S = "{length (token_kind_name k) | k. is_symbol k \<and> starts_with t (token_kind_name k)}"
  note found = match_symbol_Some[of t "fst (match_symbol t)" "snd (match_symbol t)"]
  have "?S \<subseteq> {..snd (match_symbol t)}" using match_symbol_longest by auto
  then have "Max ?S = snd (match_symbol t)"
    using found False match_symbol_longest by (intro Max_eqI) (auto intro: finite_subset)
  then show ?thesis using found False by simp
qed

end
