(* ===== verification/LexOps.thy ===== *)
theory LexOps
  imports Symbols
begin

section \<open>The tokenizer\<close>

text \<open>
  \<open>src/lex/lexer.cpp\<close>, the operations that emit tokens, keep the delimiter, layout and
  formatted-string stacks, and the loop of \<open>run\<close>. A loop whose end the code does not make
  obvious (\<open>scan_raw_line_start\<close>, \<open>run\<close>) is a partial function into \<open>option\<close>; that it
  returns is proved in theory \<open>LexRun\<close>.
\<close>

subsection \<open>Layout\<close>

text \<open>\<open>while (width < indent_width_)\<close> and \<open>while (indent_width_ > base)\<close>: close suites of four.\<close>

function dedent_to :: "int \<Rightarrow> tokenizer \<Rightarrow> tokenizer" where
  "dedent_to width t =
     (if width < lx_indent t then
        dedent_to width (emit Dedent (lx_pos t) (lx_pos t) (t\<lparr>lx_indent := lx_indent t - 4\<rparr>))
      else t)"
  by pat_completeness auto
termination
  by (relation "measure (\<lambda>(width, t). nat (lx_indent t - width))") (auto simp: emit_def emit_at_def)

declare dedent_to.simps [simp del]

definition update_indentation :: "int \<Rightarrow> tokenizer \<Rightarrow> tokenizer" where
  "update_indentation width t =
     (if lx_regions t \<noteq> [] \<and> width < region_base (hd (lx_regions t)) then
        lex_error ''lucb.lex.indent'' ''a suite inside delimiters cannot dedent past the line that opened it'' t
      else if lx_indent t < width then
        (if width \<noteq> lx_indent t + 4 then
           lex_error ''lucb.lex.indent'' ''indentation must increase by four spaces'' t
         else emit Indent (lx_pos t) (lx_pos t) (t\<lparr>lx_indent := width\<rparr>))
      else
        let t = dedent_to width t
        in if width \<noteq> lx_indent t then
             lex_error ''lucb.lex.indent'' ''dedent does not match any outer indentation'' t
           else if lx_regions t \<noteq> [] \<and> width = region_base (hd (lx_regions t)) then
             t\<lparr>lx_regions := tl (lx_regions t)\<rparr>
           else t)"

definition scan_documentation :: "tokenizer \<Rightarrow> tokenizer" where
  "scan_documentation t =
     (let start = lx_pos t; col = column t; t = skip_comment t
      in emit_at DocComment start (lx_pos t) (lx_line t) col [] t)"

definition end_raw_suite :: "tokenizer \<Rightarrow> tokenizer" where
  "end_raw_suite t =
     (if \<not> lx_raw_suite t then t else t\<lparr>lx_raw_suite := False, lx_raw_started := False\<rparr>)"

definition spaces :: "tokenizer \<Rightarrow> nat" where
  "spaces t = run_length (\<lambda>c. c = CHR '' '') t"

definition line_break :: "char \<Rightarrow> bool" where
  "line_break c \<longleftrightarrow> c = lf \<or> c = cr"

text \<open>
  The part of \<open>scan_raw_line_start\<close> that opens the suite on its first line: \<open>None\<close> is its early
  return on a wrong indentation, at the state it returns with.
\<close>

definition open_raw_suite :: "nat \<Rightarrow> nat \<Rightarrow> tokenizer \<Rightarrow> bool \<times> tokenizer" where
  "open_raw_suite width content t =
     (if lx_raw_started t then (True, t)
      else if int width \<noteq> lx_indent t + 4 then
        (False, (lex_error ''lucb.lex.indent'' ''indentation must increase by four spaces'' t)\<lparr>lx_raw_suite := False\<rparr>)
      else (True, (emit Indent content content (t\<lparr>lx_indent := lx_indent t + 4\<rparr>))\<lparr>lx_raw_started := True\<rparr>))"

text \<open>One physical line of the suite, its baseline indentation removed.\<close>

definition raw_line :: "tokenizer \<Rightarrow> tokenizer" where
  "raw_line t =
     (let start = lx_line_start t + nat (lx_indent t);
          t = t\<lparr>lx_pos := start\<rparr>;
          t = move (run_length (\<lambda>c. \<not> line_break c) t) t;
          t = emit RawLine start (lx_pos t) t
      in if \<not> at_end t \<and> at_newline t then advance_line t else t)"

text \<open>A blank line of the suite.\<close>

definition raw_blank_line :: "nat \<Rightarrow> tokenizer \<Rightarrow> tokenizer" where
  "raw_blank_line content t =
     (let t = (if lx_raw_started t then emit RawLine content content t else t)
      in advance_line (t\<lparr>lx_pos := content\<rparr>))"

partial_function (option) scan_raw_line_start :: "tokenizer \<Rightarrow> tokenizer option" where
  "scan_raw_line_start t =
     (if at_end t then Some (end_raw_suite t)
      else let width = spaces t; content = lx_pos t + width in
        if length (lx_bytes t) \<le> content then Some (end_raw_suite (t\<lparr>lx_pos := content\<rparr>))
        else if line_break (lx_bytes t ! content) then scan_raw_line_start (raw_blank_line content t)
        else if int width < (if lx_raw_started t then lx_indent t else lx_indent t + 4) then
          Some ((update_indentation (int width) ((end_raw_suite t)\<lparr>lx_pos := content\<rparr>))\<lparr>lx_pending := False\<rparr>)
        else let (opened, t) = open_raw_suite width content t
             in if opened then scan_raw_line_start (raw_line t) else Some t)"

lemma lx_emit [simp]:
  "lx_pos (emit k s e t) = lx_pos t" "lx_bytes (emit k s e t) = lx_bytes t" "lx_line_start (emit k s e t) = lx_line_start t"
  "lx_pos (emit_at k s e l c x t) = lx_pos t" "lx_bytes (emit_at k s e l c x t) = lx_bytes t"
  "lx_line_start (emit_at k s e l c x t) = lx_line_start t"
  by (simp_all add: emit_def emit_at_def)

lemma dedent_to_cursor [simp]:
  "lx_pos (dedent_to w t) = lx_pos t" "lx_bytes (dedent_to w t) = lx_bytes t"
  by (induction w t rule: dedent_to.induct; subst dedent_to.simps; simp)+

lemma update_indentation_cursor [simp]:
  "lx_pos (update_indentation w t) = lx_pos t" "lx_bytes (update_indentation w t) = lx_bytes t"
  by (simp_all add: update_indentation_def lex_error_def Let_def)

lemma skip_comment_bytes [simp]: "lx_bytes (skip_comment t) = lx_bytes t"
  by (induction t rule: skip_comment.induct)
    (subst skip_comment.simps, simp add: note_commented_close_def)

lemma skip_comment_pos: "lx_pos t \<le> lx_pos (skip_comment t)"
proof (induction t rule: skip_comment.induct)
  case (1 t)
  have "lx_pos (note_commented_close t) = lx_pos t" by (simp add: note_commented_close_def)
  with 1 show ?case by (subst skip_comment.simps) (auto dest: Suc_leD)
qed

lemma skip_comment_progress:
  assumes "\<not> at_end t" "\<not> at_newline t"
  shows "lx_pos t < lx_pos (skip_comment t)"
proof -
  have "lx_pos (note_commented_close t) = lx_pos t" by (simp add: note_commented_close_def)
  then show ?thesis
    using assms skip_comment_pos[of "move 1 (note_commented_close t)"]
    by (subst skip_comment.simps) simp
qed

lemma scan_documentation_cursor [simp]:
  "lx_pos (scan_documentation t) = lx_pos (skip_comment t)" "lx_bytes (scan_documentation t) = lx_bytes t"
  by (simp_all add: scan_documentation_def Let_def)

text \<open>The loop of \<open>scan_line_start\<close> outside a raw suite.\<close>

function scan_layout_lines :: "tokenizer \<Rightarrow> tokenizer" where
  "scan_layout_lines t =
     (if at_end t then t
      else let width = spaces t; t1 = t\<lparr>lx_pos := lx_pos t + width\<rparr> in
        if length (lx_bytes t) \<le> lx_pos t1 then t1
        else if line_break (peek_byte t1 0) then scan_layout_lines (advance_line t1)
        else if peek_byte t1 0 = CHR ''#'' then
          (if starts_with t1 ''##'' then scan_layout_lines (scan_documentation (update_indentation (int width) t1))
           else scan_layout_lines (skip_comment t1))
        else (update_indentation (int width) t1)\<lparr>lx_pending := False\<rparr>)"
  by pat_completeness auto
termination
proof (relation "measure (\<lambda>t. length (lx_bytes t) - lx_pos t)", goal_cases)
  case (2 t width t1)
  then show ?case by (auto simp: at_end_def advance_line_def Let_def)
next
  case (3 t width t1)
  let ?u = "update_indentation (int width) t1"
  have "peek_byte ?u 0 = CHR ''#''" "\<not> at_end ?u" using 3 by (simp_all add: peek_byte_def at_end_def)
  then have "lx_pos ?u < lx_pos (skip_comment ?u)"
    by (intro skip_comment_progress) (simp_all add: at_newline_def lf_def cr_def)
  with 3 show ?case by (simp add: at_end_def)
next
  case (4 t width t1)
  have "lx_pos t1 < lx_pos (skip_comment t1)"
    by (rule skip_comment_progress) (use 4 in \<open>simp_all add: at_newline_def at_end_def lf_def cr_def\<close>)
  with 4 show ?case by (simp add: at_end_def)
qed auto

declare scan_layout_lines.simps [simp del]

definition scan_line_start :: "tokenizer \<Rightarrow> tokenizer option" where
  "scan_line_start t = (if lx_raw_suite t then scan_raw_line_start t else Some (scan_layout_lines t))"

subsection \<open>Formatted strings\<close>

definition require_multiline_field :: "tokenizer \<Rightarrow> tokenizer" where
  "require_multiline_field t =
     (case lx_formatted t of [] \<Rightarrow> t
      | mode # _ \<Rightarrow>
          if \<not> mode_triple mode then
            error_at (mode_line mode) (mode_column mode) (lx_pos t) ''lucb.lex.string''
              ''formatted string interpolation cannot cross a line'' t
          else t)"

definition emit_format_text :: "nat \<Rightarrow> nat \<Rightarrow> nat \<Rightarrow> tokenizer \<Rightarrow> tokenizer" where
  "emit_format_text start start_line start_column t =
     (if start < lx_pos t then emit_at FormatText start (lx_pos t) start_line start_column [] t else t)"

definition emit_format_end :: "nat \<Rightarrow> tokenizer \<Rightarrow> tokenizer" where
  "emit_format_end width t =
     (let close_column = column t; close_start = lx_pos t; t = move width t;
          t = emit_at FormatEnd close_start (lx_pos t) (lx_line t) close_column [] t
      in t\<lparr>lx_formatted := tl (lx_formatted t)\<rparr>)"

definition open_format_field :: "tokenizer \<Rightarrow> tokenizer" where
  "open_format_field t =
     (let brace_column = column t; brace_start = lx_pos t; t = move 1 t;
          t = t\<lparr>lx_delims := FormatField # lx_delims t\<rparr>
      in emit_at LBrace brace_start (lx_pos t) (lx_line t) brace_column [] t)"

function scan_format_chars :: "formatted_mode \<Rightarrow> nat \<Rightarrow> nat \<Rightarrow> nat \<Rightarrow> tokenizer \<Rightarrow> tokenizer" where
  "scan_format_chars mode start start_line start_column t =
     (if at_end t then
        error_at (mode_line mode) (mode_column mode) (lx_pos t) ''lucb.lex.string'' ''unterminated string literal'' t
      else if mode_triple mode \<and> starts_with t [dquote, dquote, dquote] then
        emit_format_end 3 (emit_format_text start start_line start_column t)
      else let c = peek_byte t 0 in
        if \<not> mode_triple mode \<and> c = dquote then
          emit_format_end 1 (emit_format_text start start_line start_column t)
        else if c = backslash then
          (case scan_escape False t of
             (False, t') \<Rightarrow> t'
           | (True, t') \<Rightarrow> scan_format_chars mode start start_line start_column t')
        else if c = CHR ''{'' then
          (if starts_with t ''{{'' then scan_format_chars mode start start_line start_column (move 2 t)
           else open_format_field (emit_format_text start start_line start_column t))
        else if c = CHR ''}'' then
          (if starts_with t ''}}'' then scan_format_chars mode start start_line start_column (move 2 t)
           else move 1 (error_at (mode_line mode) (mode_column mode) (lx_pos t) ''lucb.lex.string''
             (''unescaped '' @ [squote] @ ''}'' @ [squote] @ '' in formatted string'') t))
        else if c = lf \<or> c = cr then
          (if \<not> mode_triple mode then
             error_at (mode_line mode) (mode_column mode) (lx_pos t) ''lucb.lex.string'' ''unterminated string literal'' t
           else scan_format_chars mode start start_line start_column (advance_line t))
        else scan_format_chars mode start start_line start_column
               (move (case utf8_next (lx_bytes t) (lx_pos t) of None \<Rightarrow> 1 | Some (width, _) \<Rightarrow> width) t))"
  by pat_completeness auto
termination
  by (relation "measure (\<lambda>(_, _, _, _, t). length (lx_bytes t) - lx_pos t)")
    (auto simp: at_end_def advance_line_def Let_def dest!: utf8_next_width scan_escape_later[OF sym]
      split: option.splits)

declare scan_format_chars.simps [simp del]

text \<open>\<open>formatted_.back()\<close>: theory \<open>LexInv\<close> shows that the stack is never empty here.\<close>

definition scan_formatted_text :: "tokenizer \<Rightarrow> tokenizer" where
  "scan_formatted_text t = scan_format_chars (hd (lx_formatted t)) (lx_pos t) (lx_line t) (column t) t"

subsection \<open>Tokens\<close>

definition scan_word :: "nat \<Rightarrow> nat \<Rightarrow> nat \<Rightarrow> tokenizer \<Rightarrow> tokenizer" where
  "scan_word start start_line start_column t =
     (let t = move 1 t;
          t = move (run_length is_ident_continue t) t;
          t = (if 128 < lx_pos t - start then
                 lex_error ''lucb.lex.identifier'' ''an identifier is at most 128 bytes'' t else t);
          kind = keyword_kind (slice t start (lx_pos t));
          t = (if kind = KwAsm then t\<lparr>lx_saw_asm := True\<rparr> else t)
      in emit_at kind start (lx_pos t) start_line start_column [] t)"

definition scan_string_literal :: "nat \<Rightarrow> nat \<Rightarrow> nat \<Rightarrow> char \<Rightarrow> tokenizer \<Rightarrow> tokenizer" where
  "scan_string_literal start start_line start_column pfx t =
     (let t = (if pfx \<noteq> nul then move 1 t else t)
      in if pfx = CHR ''f'' then
           let is_triple = starts_with t [dquote, dquote, dquote];
               t = move (if is_triple then 3 else 1) t;
               t = emit_at FormatStart start (lx_pos t) start_line start_column [] t;
               t = t\<lparr>lx_formatted :=
                 \<lparr>mode_triple = is_triple, mode_line = start_line, mode_column = start_column\<rparr> # lx_formatted t\<rparr>
           in scan_formatted_text t
         else (case scan_string_body pfx start_line start_column t of
             (False, t) \<Rightarrow> t
           | (True, t) \<Rightarrow>
               emit_at (if pfx = CHR ''b'' then BytesLit else StringLit) start (lx_pos t) start_line start_column [] t))"

function scan_character_scalars :: "nat \<Rightarrow> nat \<Rightarrow> nat \<Rightarrow> int \<Rightarrow> tokenizer \<Rightarrow> tokenizer" where
  "scan_character_scalars start start_line start_column scalars t =
     (if at_end t then
        error_at start_line start_column start ''lucb.lex.char'' ''unterminated character literal'' t
      else let c = peek_byte t 0 in
        if c = backslash then
          (case scan_escape False t of
             (False, t') \<Rightarrow> t'
           | (True, t') \<Rightarrow> scan_character_scalars start start_line start_column (scalars + 1) t')
        else if c = squote then
          let t = move 1 t
          in if scalars \<noteq> 1 then
               error_at start_line start_column start ''lucb.lex.char''
                 ''character literal must contain one Unicode scalar'' t
             else emit_at CharLit start (lx_pos t) start_line start_column [] t
        else if c = lf \<or> c = cr then
          error_at start_line start_column start ''lucb.lex.char'' ''unterminated character literal'' t
        else (case utf8_next (lx_bytes t) (lx_pos t) of
            None \<Rightarrow> lex_error ''lucb.lex.char'' ''invalid UTF-8 in character literal'' t
          | Some (width, cp) \<Rightarrow>
              scan_character_scalars start start_line start_column (scalars + 1) (move width t)))"
  by pat_completeness auto
termination
  by (relation "measure (\<lambda>(_, _, _, _, t). length (lx_bytes t) - lx_pos t)")
    (auto simp: at_end_def dest!: utf8_next_width scan_escape_later[OF sym])

declare scan_character_scalars.simps [simp del]

definition scan_character :: "nat \<Rightarrow> nat \<Rightarrow> nat \<Rightarrow> tokenizer \<Rightarrow> tokenizer" where
  "scan_character start start_line start_column t =
     scan_character_scalars start start_line start_column 0 (move 1 t)"

text \<open>The three ways \<open>scan_number\<close> begins: an uppercase prefix, a based integer, a decimal.\<close>

definition scan_based_number :: "nat \<Rightarrow> nat \<Rightarrow> nat \<Rightarrow> tokenizer \<Rightarrow> tokenizer" where
  "scan_based_number start start_line start_column t =
     (let base = peek_byte t 1
      in case scan_digit_sequence base (move 2 t) of
           (False, t) \<Rightarrow> t
         | (True, t) \<Rightarrow>
             if is_ascii_digit (peek_byte t 0) then
               lex_error ''lucb.lex.number'' ''digit is not valid for this numeric base'' t
             else let (sfx, t) = scan_numeric_suffix t
               in if sfx \<noteq> [] \<and> \<not> is_integer_suffix sfx then
                    error_at start_line start_column start ''lucb.lex.number'' ''invalid integer literal suffix'' t
                  else emit_at IntLit start (lx_pos t) start_line start_column sfx t)"

definition scan_fraction :: "tokenizer \<Rightarrow> bool \<times> token_kind \<times> tokenizer" where
  "scan_fraction t =
     (if peek_byte t 0 = CHR ''.'' \<and> is_ascii_digit (peek_byte t 1) then
        let (ok, t) = scan_digit_sequence (CHR ''d'') (move 1 t) in (ok, FloatLit, t)
      else (True, IntLit, t))"

definition scan_exponent :: "token_kind \<Rightarrow> tokenizer \<Rightarrow> bool \<times> token_kind \<times> tokenizer" where
  "scan_exponent kind t =
     (if peek_byte t 0 = CHR ''e'' \<or> peek_byte t 0 = CHR ''E'' then
        let t = move 1 t;
            t = (if peek_byte t 0 = CHR ''+'' \<or> peek_byte t 0 = CHR ''-'' then move 1 t else t);
            (ok, t) = scan_digit_sequence (CHR ''d'') t
        in (ok, FloatLit, t)
      else (True, kind, t))"

definition finish_decimal :: "nat \<Rightarrow> nat \<Rightarrow> nat \<Rightarrow> token_kind \<Rightarrow> tokenizer \<Rightarrow> tokenizer" where
  "finish_decimal start start_line start_column kind t =
     (let (sfx, t) = scan_numeric_suffix t
      in if is_float_suffix sfx then emit_at FloatLit start (lx_pos t) start_line start_column sfx t
         else if sfx \<noteq> [] \<and> (kind = FloatLit \<or> \<not> is_integer_suffix sfx) then
           error_at start_line start_column start ''lucb.lex.number'' ''invalid numeric literal suffix'' t
         else emit_at kind start (lx_pos t) start_line start_column sfx t)"

definition scan_decimal_number :: "nat \<Rightarrow> nat \<Rightarrow> nat \<Rightarrow> tokenizer \<Rightarrow> tokenizer" where
  "scan_decimal_number start start_line start_column t =
     (case scan_digit_sequence (CHR ''d'') t of
        (False, t) \<Rightarrow> t
      | (True, t) \<Rightarrow>
          (case scan_fraction t of
             (False, _, t) \<Rightarrow> t
           | (True, kind, t) \<Rightarrow>
               (case scan_exponent kind t of
                  (False, _, t) \<Rightarrow> t
                | (True, kind, t) \<Rightarrow> finish_decimal start start_line start_column kind t)))"

definition scan_number :: "nat \<Rightarrow> nat \<Rightarrow> nat \<Rightarrow> tokenizer \<Rightarrow> tokenizer" where
  "scan_number start start_line start_column t =
     (if peek_byte t 0 = CHR ''0'' \<and> peek_byte t 1 \<in> {CHR ''X'', CHR ''O'', CHR ''B''} then
        move 2 (error_at start_line start_column start ''lucb.lex.number''
          ''based integer prefixes must use lowercase `0x`, `0o`, or `0b`'' t)
      else if peek_byte t 0 = CHR ''0'' \<and> peek_byte t 1 \<in> {CHR ''x'', CHR ''o'', CHR ''b''} then
        scan_based_number start start_line start_column t
      else scan_decimal_number start start_line start_column t)"

subsection \<open>Symbols and delimiters\<close>

definition colon_ends_line :: "tokenizer \<Rightarrow> bool" where
  "colon_ends_line t =
     (let offset = spaces t; next = peek_byte t offset
      in next = CHR ''#'' \<or> next = lf \<or> next = cr \<or> next = nul)"

definition finish_layout_region :: "tokenizer \<Rightarrow> tokenizer" where
  "finish_layout_region t =
     (case lx_regions t of
        [] \<Rightarrow> t
      | region # rest \<Rightarrow>
          if region_depth region \<noteq> int (length (lx_delims t)) then t
          else
            let t = (if lx_tokens t \<noteq> [] \<and> tok_kind (last (lx_tokens t)) \<noteq> Newline
                     then emit Newline (lx_pos t) (lx_pos t) t else t);
                t = dedent_to (region_base region) t
            in t\<lparr>lx_regions := tl (lx_regions t)\<rparr>)"

definition close_delimiter :: "char \<Rightarrow> nat \<Rightarrow> nat \<Rightarrow> tokenizer \<Rightarrow> bool \<times> tokenizer" where
  "close_delimiter closing col at t =
     (case lx_delims t of
        [] \<Rightarrow> (False, error_at (lx_line t) col at ''lucb.lex.delimiter'' ''closing delimiter has no matching opener'' t)
      | opening # rest \<Rightarrow>
          if closing \<noteq> closing_for opening then
            (False, error_at (lx_line t) col at ''lucb.lex.delimiter'' ''closing delimiter does not match its opener'' t)
          else (opening = FormatField, t\<lparr>lx_delims := rest\<rparr>))"

text \<open>A colon that ends its line may open a raw suite, and inside delimiters opens a layout region.\<close>

definition open_suite :: "tokenizer \<Rightarrow> tokenizer" where
  "open_suite t =
     (let t = (if lx_saw_asm t then t\<lparr>lx_raw_suite := True\<rparr> else t)
      in if lx_delims t \<noteq> [] then
           t\<lparr>lx_regions := \<lparr>region_depth = int (length (lx_delims t)), region_base = lx_indent t\<rparr> # lx_regions t\<rparr>
         else t)"

definition scan_symbol :: "nat \<Rightarrow> nat \<Rightarrow> nat \<Rightarrow> token_kind \<times> nat \<Rightarrow> tokenizer \<Rightarrow> tokenizer" where
  "scan_symbol start start_line start_column symbol t =
     (let t = t\<lparr>lx_pos := start + snd symbol\<rparr>;
          ch = lx_bytes t ! start;
          (closes_field, t) =
            (if snd symbol \<noteq> 1 then (False, t)
             else if ch = CHR ''('' then (False, t\<lparr>lx_delims := Paren # lx_delims t\<rparr>)
             else if ch = CHR ''['' then (False, t\<lparr>lx_delims := Bracket # lx_delims t\<rparr>)
             else if ch = CHR ''{'' then (False, t\<lparr>lx_delims := Brace # lx_delims t\<rparr>)
             else if ch = CHR '')'' \<or> ch = CHR '']'' \<or> ch = CHR ''}'' then
               close_delimiter ch start_column start (finish_layout_region t)
             else if ch = CHR '':'' \<and> colon_ends_line t then (False, open_suite t)
             else (False, t));
          t = emit_at (fst symbol) start (lx_pos t) start_line start_column [] t
      in if closes_field then scan_formatted_text t else t)"

subsection \<open>One token, and the whole source\<close>

definition scan_line_break :: "tokenizer \<Rightarrow> tokenizer" where
  "scan_line_break t =
     (let t = require_multiline_field t;
          t = (if layout_active t
               then (emit Newline (lx_pos t) (lx_pos t) t)\<lparr>lx_pending := True, lx_saw_asm := False\<rparr> else t)
      in advance_line t)"

definition scan_unexpected :: "tokenizer \<Rightarrow> tokenizer" where
  "scan_unexpected t =
     (case utf8_next (lx_bytes t) (lx_pos t) of
        None \<Rightarrow> move 1 (lex_error ''lucb.lex.character'' ''unexpected character'' t)
      | Some (width, cp) \<Rightarrow>
          move width
            (case confusable_hint cp of
               Some hint \<Rightarrow> lex_error ''lucb.lex.character'' hint t
             | None \<Rightarrow> lex_error ''lucb.lex.character'' ''unexpected character'' t))"

definition scan_token :: "tokenizer \<Rightarrow> tokenizer" where
  "scan_token t =
     (let c = peek_byte t 0 in
      if c = CHR '' '' then move 1 t
      else if c = CHR ''#'' then skip_comment (require_multiline_field t)
      else if c = lf \<or> c = cr then scan_line_break t
      else
        let start = lx_pos t; start_line = lx_line t; start_column = column t in
        if (c = CHR ''f'' \<or> c = CHR ''r'' \<or> c = CHR ''b'') \<and> peek_byte t 1 = dquote then
          scan_string_literal start start_line start_column c t
        else if c = dquote then scan_string_literal start start_line start_column nul t
        else if c = squote then scan_character start start_line start_column t
        else if c = CHR ''_'' \<and> \<not> is_ident_continue (peek_byte t 1) then
          let t = move 1 t in emit_at Underscore start (lx_pos t) start_line start_column [] t
        else if is_ident_start c then scan_word start start_line start_column t
        else if is_ascii_digit c then scan_number start start_line start_column t
        else
          let symbol = match_symbol t in
          if 0 < snd symbol then scan_symbol start start_line start_column symbol t
          else scan_unexpected t)"

definition finish :: "tokenizer \<Rightarrow> tokenizer" where
  "finish t =
     (let t = (case lx_formatted t of
                 [] \<Rightarrow> t
               | mode # _ \<Rightarrow>
                   if 0 < lx_close_line t then
                     error_at (lx_close_line t) (lx_close_column t) (lx_pos t) ''lucb.lex.string''
                       ''formatted string interpolation cannot close inside a comment'' t
                   else error_at (mode_line mode) (mode_column mode) (lx_pos t) ''lucb.lex.string''
                       ''unterminated formatted string interpolation'' t);
          t = (if lx_delims t \<noteq> [] \<and> lx_formatted t = [] then
                 lex_error ''lucb.lex.delimiter'' ''unclosed delimiter'' t else t);
          t = (if lx_tokens t \<noteq> [] \<and> tok_kind (last (lx_tokens t)) \<notin> {Newline, Indent, Dedent, DocComment, RawLine}
               then emit Newline (lx_pos t) (lx_pos t) t else t);
          t = dedent_to 0 t
      in emit EndOfFile (lx_pos t) (lx_pos t) t)"

text \<open>One pass of the loop of \<open>run\<close>.\<close>

definition lex_step :: "tokenizer \<Rightarrow> tokenizer option" where
  "lex_step t = (if lx_pending t \<and> layout_active t then scan_line_start t else Some (scan_token t))"

partial_function (option) run_loop :: "tokenizer \<Rightarrow> tokenizer option" where
  "run_loop t =
     (if at_end t then Some t
      else Option.bind (lex_step t) (\<lambda>t.
        if 1000000 < length (lx_tokens t) then Some (lex_error ''lucb.lex.limit'' ''too many tokens'' t)
        else run_loop t))"

definition tokenize :: "source \<Rightarrow> diagnostic_bag \<Rightarrow> (token list \<times> diagnostic_bag) option" where
  "tokenize src bag =
     (let t = new_tokenizer src bag in
      if \<not> src_ok src then
        let t = emit EndOfFile (lx_pos t) (lx_pos t) t in Some (lx_tokens t, lx_diags t)
      else map_option (\<lambda>t. let t = finish t in (lx_tokens t, lx_diags t)) (run_loop t))"

end
