(* ===== verification/LexInv.thy ===== *)
theory LexInv
  imports LexOps
begin

section \<open>The invariant of the tokenizer\<close>

text \<open>
  What every operation of \<open>src/lex/lexer.cpp\<close> keeps: the cursor is within the source; the
  suites open in the token stream are exactly those of the current indentation; every token lies
  in the source and is spelled as its kind says; as long as no error was reported the open
  brackets of the token stream are exactly the stack of delimiters; and a formatted string is
  open for every field of it that is open, so its mode can be read.
\<close>

subsection \<open>What a token stream means\<close>

definition depth_step :: "nat option \<Rightarrow> token \<Rightarrow> nat option" where
  "depth_step d tok =
     (case d of None \<Rightarrow> None
      | Some n \<Rightarrow>
          if tok_kind tok = Indent then Some (Suc n)
          else if tok_kind tok = Dedent then (if n = 0 then None else Some (n - 1))
          else Some n)"

text \<open>The open suites after a stream, \<open>None\<close> when a dedent has no indent before it.\<close>

definition layout_depth :: "token list \<Rightarrow> nat option" where
  "layout_depth toks = foldl depth_step (Some 0) toks"

definition bracket_step :: "char list option \<Rightarrow> token \<Rightarrow> char list option" where
  "bracket_step s tok =
     (case s of None \<Rightarrow> None
      | Some st \<Rightarrow>
          if tok_kind tok = LParen then Some (CHR '')'' # st)
          else if tok_kind tok = LBracket then Some (CHR '']'' # st)
          else if tok_kind tok = LBrace then Some (CHR ''}'' # st)
          else if tok_kind tok = RParen \<or> tok_kind tok = RBracket \<or> tok_kind tok = RBrace then
            (if st \<noteq> [] \<and> [hd st] = token_kind_name (tok_kind tok) then Some (tl st) else None)
          else Some st)"

text \<open>The closers a stream still owes, innermost first, \<open>None\<close> when a closer does not match.\<close>

definition bracket_stack :: "token list \<Rightarrow> char list option" where
  "bracket_stack toks = foldl bracket_step (Some []) toks"

definition token_fits :: "bytes \<Rightarrow> token \<Rightarrow> bool" where
  "token_fits bs tok \<longleftrightarrow>
     span_start (tok_span tok) \<le> span_end (tok_span tok) \<and> span_end (tok_span tok) \<le> length bs \<and>
     tok_text tok = substr bs (span_start (tok_span tok)) (span_end (tok_span tok) - span_start (tok_span tok)) \<and>
     (is_keyword (tok_kind tok) \<or> is_symbol (tok_kind tok) \<longrightarrow> tok_text tok = token_kind_name (tok_kind tok)) \<and>
     (tok_kind tok \<in> {Newline, Indent, Dedent, EndOfFile} \<longrightarrow> tok_text tok = [])"

subsection \<open>The invariant\<close>

definition layout_ok :: "tokenizer \<Rightarrow> bool" where
  "layout_ok t \<longleftrightarrow>
     0 \<le> lx_indent t \<and> 4 dvd lx_indent t \<and> (\<forall>r \<in> set (lx_regions t). 0 \<le> region_base r \<and> 4 dvd region_base r) \<and>
     layout_depth (lx_tokens t) = Some (nat (lx_indent t div 4))"

definition tokens_ok :: "tokenizer \<Rightarrow> bool" where
  "tokens_ok t \<longleftrightarrow> (\<forall>tok \<in> set (lx_tokens t). token_fits (lx_bytes t) tok \<and> tok_kind tok \<noteq> EndOfFile)"

definition brackets_ok :: "nat \<Rightarrow> tokenizer \<Rightarrow> bool" where
  "brackets_ok base t \<longleftrightarrow>
     base \<le> bag_count (lx_diags t) \<and>
     (bag_count (lx_diags t) = base \<longrightarrow> bracket_stack (lx_tokens t) = Some (map closing_for (lx_delims t)))"

definition fields_ok :: "tokenizer \<Rightarrow> bool" where
  "fields_ok t \<longleftrightarrow> count_list (lx_delims t) FormatField \<le> length (lx_formatted t)"

definition lex_inv :: "nat \<Rightarrow> tokenizer \<Rightarrow> bool" where
  "lex_inv base t \<longleftrightarrow> cursor_ok t \<and> layout_ok t \<and> tokens_ok t \<and> brackets_ok base t \<and> fields_ok t"

lemma lex_invD:
  "lex_inv base t \<Longrightarrow> cursor_ok t" "lex_inv base t \<Longrightarrow> layout_ok t" "lex_inv base t \<Longrightarrow> tokens_ok t"
  "lex_inv base t \<Longrightarrow> brackets_ok base t" "lex_inv base t \<Longrightarrow> fields_ok t"
  by (simp_all add: lex_inv_def)

lemma cursor_to_inv:
  assumes "cursor_to t t'" "lex_inv base t"
  shows "lex_inv base t'"
proof -
  note frame = cursor_to_frame[OF assms(1)]
  have "bag_count (lx_diags t) \<le> bag_count (lx_diags t')" using bag_extends_count frame by blast
  with assms(2) frame show ?thesis
    by (auto simp: lex_inv_def layout_ok_def tokens_ok_def brackets_ok_def fields_ok_def)
qed

context cursor_op
begin

lemma keeps_lex_inv: "lex_inv base t \<Longrightarrow> pre t \<Longrightarrow> lex_inv base (act t)"
  using cursor_to_inv[OF act_cursor] lex_invD(1) by blast

end

text \<open>Where a step has come to: the invariant holds, in the same source, further on or at the same place.\<close>

definition lex_to :: "nat \<Rightarrow> tokenizer \<Rightarrow> tokenizer \<Rightarrow> bool" where
  "lex_to base t t' \<longleftrightarrow> lex_inv base t' \<and> lx_bytes t' = lx_bytes t \<and> lx_pos t \<le> lx_pos t' \<and>
     lx_pending t' = lx_pending t \<and> lx_raw_started t' = lx_raw_started t"

lemma lex_to_refl: "lex_inv base t \<Longrightarrow> lex_to base t t"
  by (simp add: lex_to_def)

lemma lex_to_trans [trans]: "lex_to base a b \<Longrightarrow> lex_to base b c \<Longrightarrow> lex_to base a c"
  by (simp add: lex_to_def)

lemma lex_to_inv: "lex_to base a b \<Longrightarrow> lex_inv base b"
  by (simp add: lex_to_def)

lemma lex_to_cursor: "lex_inv base t \<Longrightarrow> cursor_to t t' \<Longrightarrow> lex_to base t t'"
  using cursor_to_inv[of t t' base] by (simp add: lex_to_def cursor_to_frame)

lemma lex_to_step: "lex_to base a b \<Longrightarrow> (lex_inv base b \<Longrightarrow> lex_to base b c) \<Longrightarrow> lex_to base a c"
  using lex_to_trans lex_to_inv by blast

subsection \<open>Emitting\<close>

text \<open>The kinds that neither layout nor brackets look at.\<close>

definition plain_kind :: "token_kind \<Rightarrow> bool" where
  "plain_kind k \<longleftrightarrow> k \<notin> {Indent, Dedent, EndOfFile, LParen, LBracket, LBrace, RParen, RBracket, RBrace}"

lemma slice_eq: "s \<le> e \<Longrightarrow> e \<le> length (lx_bytes t) \<Longrightarrow> slice t s e = substr (lx_bytes t) s (e - s)"
  by (simp add: slice_def)

lemma slice_empty [simp]: "slice t s s = []"
  by (simp add: slice_def substr_def)

lemma layout_depth_snoc: "layout_depth (toks @ [tok]) = depth_step (layout_depth toks) tok"
  by (simp add: layout_depth_def)

lemma bracket_stack_snoc: "bracket_stack (toks @ [tok]) = bracket_step (bracket_stack toks) tok"
  by (simp add: bracket_stack_def)

lemma emit_at_inv:
  assumes "lex_inv base t" "plain_kind k" "s \<le> e" "e \<le> length (lx_bytes t)"
    and "is_keyword k \<or> is_symbol k \<Longrightarrow> slice t s e = token_kind_name k"
    and "k = Newline \<Longrightarrow> s = e"
  shows "lex_to base t (emit_at k s e l c x t)"
proof -
  have "depth_step d tok = d" "bracket_step b tok = b" if "tok_kind tok = k" for d b tok
    using assms(2) that by (auto simp: depth_step_def bracket_step_def plain_kind_def split: option.splits)
  moreover have "token_fits (lx_bytes t) \<lparr>tok_kind = k, tok_span = \<lparr>span_start = s, span_end = e,
      span_line = l, span_column = c\<rparr>, tok_text = slice t s e, tok_suffix = x\<rparr>"
    using assms(2-6) by (auto simp: token_fits_def slice_eq plain_kind_def substr_def)
  ultimately show ?thesis
    using assms(1,2)
    by (auto simp: lex_to_def lex_inv_def emit_at_def cursor_ok_def layout_ok_def tokens_ok_def brackets_ok_def
        fields_ok_def layout_depth_snoc bracket_stack_snoc plain_kind_def)
qed

lemma plain_kinds:
  "plain_kind Name" "plain_kind IntLit" "plain_kind FloatLit" "plain_kind CharLit" "plain_kind StringLit"
  "plain_kind BytesLit" "plain_kind FormatStart" "plain_kind FormatText" "plain_kind FormatEnd"
  "plain_kind DocComment" "plain_kind Underscore" "plain_kind Newline" "plain_kind RawLine"
  by (simp_all add: plain_kind_def)

lemma other_kinds:
  "\<not> is_keyword Name \<and> \<not> is_symbol Name" "\<not> is_keyword IntLit \<and> \<not> is_symbol IntLit"
  "\<not> is_keyword FloatLit \<and> \<not> is_symbol FloatLit" "\<not> is_keyword CharLit \<and> \<not> is_symbol CharLit"
  "\<not> is_keyword StringLit \<and> \<not> is_symbol StringLit" "\<not> is_keyword BytesLit \<and> \<not> is_symbol BytesLit"
  "\<not> is_keyword FormatStart \<and> \<not> is_symbol FormatStart" "\<not> is_keyword FormatText \<and> \<not> is_symbol FormatText"
  "\<not> is_keyword FormatEnd \<and> \<not> is_symbol FormatEnd" "\<not> is_keyword DocComment \<and> \<not> is_symbol DocComment"
  "\<not> is_keyword Underscore \<and> \<not> is_symbol Underscore" "\<not> is_keyword Newline \<and> \<not> is_symbol Newline"
  "\<not> is_keyword RawLine \<and> \<not> is_symbol RawLine" "\<not> is_keyword Indent \<and> \<not> is_symbol Indent"
  "\<not> is_keyword Dedent \<and> \<not> is_symbol Dedent" "\<not> is_keyword EndOfFile \<and> \<not> is_symbol EndOfFile"
  by (simp_all add: is_keyword_def is_symbol_def less_eq_token_kind_def)

text \<open>A literal, text or comment token over bytes of the source.\<close>

lemma emit_span_inv:
  assumes "lex_inv base t" "s \<le> e" "e \<le> length (lx_bytes t)"
    and "k \<in> {Name, IntLit, FloatLit, CharLit, StringLit, BytesLit, FormatStart, FormatText, FormatEnd,
      DocComment, Underscore, RawLine}"
  shows "lex_to base t (emit_at k s e l c x t)"
  by (rule emit_at_inv[OF assms(1) _ assms(2,3)]) (use assms(4) plain_kinds other_kinds in auto)

lemma emit_newline_inv: "lex_inv base t \<Longrightarrow> lex_to base t (emit Newline (lx_pos t) (lx_pos t) t)"
  unfolding emit_def
  by (rule emit_at_inv) (auto simp: plain_kinds other_kinds lex_inv_def cursor_ok_def)

lemma error_inv: "lex_inv base t \<Longrightarrow> lex_to base t (error_at l c b code m t)"
  using lex_to_cursor cursor_to_error_at lex_invD(1) by blast

lemma lex_error_inv: "lex_inv base t \<Longrightarrow> lex_to base t (lex_error code m t)"
  unfolding lex_error_def by (rule error_inv)

lemma move_inv: "lex_inv base t \<Longrightarrow> lx_pos t + n \<le> length (lx_bytes t) \<Longrightarrow> lex_to base t (move n t)"
  using lex_to_cursor cursor_to_move lex_invD(1) by blast

subsection \<open>Layout operations\<close>

lemma emit_indent_inv:
  assumes "lex_inv base t" "s \<le> length (lx_bytes t)"
  shows "lex_to base t (emit Indent s s (t\<lparr>lx_indent := lx_indent t + 4\<rparr>))"
proof -
  have "token_fits (lx_bytes t) \<lparr>tok_kind = Indent, tok_span = \<lparr>span_start = s, span_end = s,
      span_line = l, span_column = c\<rparr>, tok_text = [], tok_suffix = []\<rparr>" for l c
    using assms other_kinds by (auto simp: token_fits_def substr_def)
  moreover have "nat ((lx_indent t + 4) div 4) = Suc (nat (lx_indent t div 4))"
    using assms(1) by (auto simp: lex_inv_def layout_ok_def)
  ultimately show ?thesis
    using assms(1)
    by (auto simp: lex_to_def lex_inv_def emit_def emit_at_def cursor_ok_def layout_ok_def tokens_ok_def brackets_ok_def
        fields_ok_def layout_depth_snoc bracket_stack_snoc depth_step_def bracket_step_def split: option.splits)
qed

lemma emit_dedent_inv:
  assumes "lex_inv base t" "0 < lx_indent t"
  shows "lex_to base t (emit Dedent (lx_pos t) (lx_pos t) (t\<lparr>lx_indent := lx_indent t - 4\<rparr>))"
proof -
  have "lx_pos t \<le> length (lx_bytes t)" using assms(1) by (simp add: lex_inv_def cursor_ok_def)
  then have "token_fits (lx_bytes t) \<lparr>tok_kind = Dedent, tok_span = \<lparr>span_start = lx_pos t, span_end = lx_pos t,
      span_line = l, span_column = c\<rparr>, tok_text = [], tok_suffix = []\<rparr>" for l c
    using other_kinds by (auto simp: token_fits_def substr_def)
  moreover obtain n where n: "lx_indent t = 4 * n" "0 < n"
    using assms by (auto simp: lex_inv_def layout_ok_def elim!: dvdE)
  then have "nat ((lx_indent t - 4) div 4) = nat n - 1" "0 \<le> lx_indent t - 4" "4 dvd lx_indent t - 4"
    "nat (lx_indent t div 4) = nat n" "nat n \<noteq> 0"
    by (auto simp: nat_diff_distrib')
  ultimately show ?thesis
    using assms(1)
    by (auto simp: lex_to_def lex_inv_def emit_def emit_at_def cursor_ok_def layout_ok_def tokens_ok_def brackets_ok_def
        fields_ok_def layout_depth_snoc bracket_stack_snoc depth_step_def bracket_step_def split: option.splits)
qed

lemma dedent_to_inv:
  "lex_inv base t \<Longrightarrow> 0 \<le> width \<Longrightarrow> lex_to base t (dedent_to width t)"
proof (induction width t rule: dedent_to.induct)
  case (1 width t)
  show ?case
  proof (cases "width < lx_indent t")
    case True
    then have step: "lex_to base t (emit Dedent (lx_pos t) (lx_pos t) (t\<lparr>lx_indent := lx_indent t - 4\<rparr>))"
      using 1(2,3) by (intro emit_dedent_inv) auto
    show ?thesis
      using lex_to_step[OF step 1(1)[OF True _ 1(3)]] True by (subst dedent_to.simps) simp
  next
    case False
    then show ?thesis by (subst dedent_to.simps) (simp add: lex_to_refl 1(2))
  qed
qed

lemma dedent_to_frame [simp]:
  "lx_regions (dedent_to w t) = lx_regions t" "lx_delims (dedent_to w t) = lx_delims t"
  "lx_formatted (dedent_to w t) = lx_formatted t" "lx_line_start (dedent_to w t) = lx_line_start t"
  "lx_raw_suite (dedent_to w t) = lx_raw_suite t" "lx_diags (dedent_to w t) = lx_diags t"
  "lx_path (dedent_to w t) = lx_path t"
  by (induction w t rule: dedent_to.induct; subst dedent_to.simps; simp add: emit_def emit_at_def)+

text \<open>Closing suites down to an outer indentation ends exactly there.\<close>

lemma dedent_to_indent:
  "4 dvd width \<Longrightarrow> 4 dvd lx_indent t \<Longrightarrow> width \<le> lx_indent t \<Longrightarrow> lx_indent (dedent_to width t) = width"
proof (induction width t rule: dedent_to.induct)
  case (1 width t)
  show ?case
  proof (cases "width < lx_indent t")
    case True
    then have "width \<le> lx_indent t - 4" using 1(2,3) by (auto elim!: dvdE)
    then show ?thesis
      using 1(1)[OF True 1(2)] 1(3) True by (subst dedent_to.simps) (simp add: emit_def emit_at_def)
  next
    case False
    then show ?thesis using 1(4) by (subst dedent_to.simps) simp
  qed
qed

lemma pop_region_inv: "lex_inv base t \<Longrightarrow> lex_to base t (t\<lparr>lx_regions := tl (lx_regions t)\<rparr>)"
  by (cases "lx_regions t")
    (auto simp: lex_to_def lex_inv_def cursor_ok_def layout_ok_def tokens_ok_def brackets_ok_def fields_ok_def)

lemma update_indentation_inv:
  assumes "lex_inv base t" "0 \<le> width"
  shows "lex_to base t (update_indentation width t)"
proof -
  have "lex_to base t (emit Indent (lx_pos t) (lx_pos t) (t\<lparr>lx_indent := lx_indent t + 4\<rparr>))"
    using assms(1) by (intro emit_indent_inv) (auto simp: lex_inv_def cursor_ok_def)
  moreover have "lex_to base t (lex_error c m (dedent_to width t))" for c m
    using lex_to_step[OF dedent_to_inv[OF assms] lex_error_inv] .
  moreover have "lex_to base t ((dedent_to width t)\<lparr>lx_regions := tl (lx_regions t)\<rparr>)"
    using lex_to_step[OF dedent_to_inv[OF assms] pop_region_inv] by simp
  ultimately show ?thesis
    using assms by (auto simp: update_indentation_def Let_def lex_error_inv dedent_to_inv)
qed

lemma update_indentation_frame [simp]:
  "lx_delims (update_indentation w t) = lx_delims t" "lx_line_start (update_indentation w t) = lx_line_start t"
  "lx_raw_suite (update_indentation w t) = lx_raw_suite t"
  by (simp_all add: update_indentation_def Let_def lex_error_def emit_def emit_at_def error_at_def)

lemma scan_documentation_inv: "lex_inv base t \<Longrightarrow> lex_to base t (scan_documentation t)"
  unfolding scan_documentation_def Let_def
  by (rule lex_to_step[OF lex_to_cursor[OF _ skip_comment_cursor]])
    (auto simp: lex_inv_def cursor_ok_def skip_comment_pos intro!: emit_span_inv)

lemma spaces_in_source: "lex_inv base t \<Longrightarrow> lx_pos t + spaces t \<le> length (lx_bytes t)"
  unfolding spaces_def using run_length_le by (auto simp: lex_inv_def cursor_ok_def)

lemma skip_spaces: "t\<lparr>lx_pos := lx_pos t + n\<rparr> = move n t"
  by (simp add: move_def)

lemma advance_line_inv: "lex_inv base t \<Longrightarrow> at_newline t \<Longrightarrow> lex_to base t (advance_line t)"
  using lex_to_cursor cursor_to_advance_line(1) lex_invD(1) by blast

lemma skip_comment_inv: "lex_inv base t \<Longrightarrow> lex_to base t (skip_comment t)"
  using lex_to_cursor skip_comment_cursor lex_invD(1) by blast

lemma line_break_at_newline [simp]: "line_break (peek_byte t 0) = at_newline t"
  by (simp add: line_break_def at_newline_def)

lemma lex_inv_flags [simp]:
  "lex_inv base (t\<lparr>lx_raw_suite := a\<rparr>) = lex_inv base t"
  "lex_inv base (t\<lparr>lx_raw_started := a\<rparr>) = lex_inv base t"
  "lex_inv base (t\<lparr>lx_pending := a\<rparr>) = lex_inv base t"
  "lex_inv base (t\<lparr>lx_saw_asm := a\<rparr>) = lex_inv base t"
  by (simp_all add: lex_inv_def cursor_ok_def layout_ok_def tokens_ok_def brackets_ok_def fields_ok_def)

lemma line_break_hash [simp]: "\<not> line_break (CHR ''#'')"
  by (simp add: line_break_def lf_def cr_def)

text \<open>The line scanner outside a raw suite ends at a first token with its layout settled, or at the end.\<close>

lemma scan_layout_lines_inv:
  "lex_inv base t \<Longrightarrow>
    lex_inv base (scan_layout_lines t) \<and> lx_bytes (scan_layout_lines t) = lx_bytes t \<and>
    lx_pos t \<le> lx_pos (scan_layout_lines t) \<and> lx_raw_suite (scan_layout_lines t) = lx_raw_suite t \<and>
    (lx_pending (scan_layout_lines t) \<longrightarrow> at_end (scan_layout_lines t))"
proof (induction t rule: scan_layout_lines.induct)
  case (1 t)
  define t1 where "t1 = t\<lparr>lx_pos := lx_pos t + spaces t\<rparr>"
  have t1: "lex_to base t t1"
    unfolding t1_def skip_spaces by (rule move_inv[OF 1(4) spaces_in_source[OF 1(4)]])
  have raw: "lx_raw_suite t1 = lx_raw_suite t" by (simp add: t1_def)
  have goal: ?case if "scan_layout_lines t = scan_layout_lines u" "lex_to base t u" "lx_raw_suite u = lx_raw_suite t"
    "lex_inv base u \<Longrightarrow> lex_inv base (scan_layout_lines u) \<and> lx_bytes (scan_layout_lines u) = lx_bytes u \<and>
      lx_pos u \<le> lx_pos (scan_layout_lines u) \<and> lx_raw_suite (scan_layout_lines u) = lx_raw_suite u \<and>
      (lx_pending (scan_layout_lines u) \<longrightarrow> at_end (scan_layout_lines u))" for u
    using that by (auto simp: lex_to_def)
  consider "at_end t" | "\<not> at_end t" "length (lx_bytes t) \<le> lx_pos t1"
    | "\<not> at_end t" "\<not> length (lx_bytes t) \<le> lx_pos t1" "line_break (peek_byte t1 0)"
    | "\<not> at_end t" "\<not> length (lx_bytes t) \<le> lx_pos t1" "\<not> line_break (peek_byte t1 0)" "peek_byte t1 0 = CHR ''#''"
    | "\<not> at_end t" "\<not> length (lx_bytes t) \<le> lx_pos t1" "\<not> line_break (peek_byte t1 0)" "peek_byte t1 0 \<noteq> CHR ''#''"
    by blast
  then show ?case
  proof cases
    case 1
    then show ?thesis using \<open>lex_inv base t\<close> by (subst (1 2 3 4 5 6) scan_layout_lines.simps) simp
  next
    case 2
    then have "scan_layout_lines t = t1" by (subst scan_layout_lines.simps) (simp add: t1_def Let_def)
    with 2 t1 raw show ?thesis by (simp add: lex_to_def at_end_def)
  next
    case 3
    show ?thesis
    proof (rule goal)
      show "scan_layout_lines t = scan_layout_lines (advance_line t1)"
        using 3 by (subst scan_layout_lines.simps) (simp add: t1_def Let_def)
      show "lex_to base t (advance_line t1)"
        using lex_to_step[OF t1 advance_line_inv] 3 by simp
    qed (use 1(1)[OF 3(1) refl t1_def 3(2,3)] raw in \<open>auto simp: advance_line_def Let_def move_def\<close>)
  next
    case 4
    show ?thesis
    proof (cases "starts_with t1 ''##''")
      case True
      have doc: "lx_raw_suite (scan_documentation u) = lx_raw_suite u" if "lex_inv base u" for u
        using cursor_to_frame(10)[OF skip_comment_cursor[OF lex_invD(1)[OF that]]]
        by (simp add: scan_documentation_def Let_def emit_at_def)
      let ?u = "update_indentation (int (spaces t)) t1"
      have u: "lex_to base t ?u" by (rule lex_to_step[OF t1 update_indentation_inv]) simp_all
      show ?thesis
      proof (rule goal)
        show "scan_layout_lines t = scan_layout_lines (scan_documentation ?u)"
          using 4 True by (subst scan_layout_lines.simps) (simp add: t1_def Let_def)
        show "lex_to base t (scan_documentation ?u)"
          by (rule lex_to_step[OF u scan_documentation_inv])
      qed (use 1(2)[OF 4(1) refl t1_def 4(2,3,4) True] doc[OF lex_to_inv[OF u]] raw in auto)
    next
      case False
      show ?thesis
      proof (rule goal)
        show "scan_layout_lines t = scan_layout_lines (skip_comment t1)"
          using 4 False by (subst scan_layout_lines.simps) (simp add: t1_def Let_def)
        show "lex_to base t (skip_comment t1)" by (rule lex_to_step[OF t1 skip_comment_inv])
        show "lx_raw_suite (skip_comment t1) = lx_raw_suite t"
          using cursor_to_frame(10)[OF skip_comment_cursor[OF lex_invD(1)[OF lex_to_inv[OF t1]]]] raw by simp
      qed (use 1(3)[OF 4(1) refl t1_def 4(2,3,4) False] in auto)
    qed
  next
    case 5
    then have eq: "scan_layout_lines t = (update_indentation (int (spaces t)) t1)\<lparr>lx_pending := False\<rparr>"
      by (subst scan_layout_lines.simps) (simp add: t1_def Let_def)
    have "lex_to base t (update_indentation (int (spaces t)) t1)"
      by (rule lex_to_step[OF t1 update_indentation_inv]) simp_all
    then show ?thesis
      using raw unfolding eq by (simp add: lex_to_def)
  qed
qed

subsection \<open>Raw suites\<close>

text \<open>A line of a raw suite begins at the line start, with the layout of the suite's header.\<close>

definition raw_head :: "tokenizer \<Rightarrow> bool" where
  "raw_head t \<longleftrightarrow> at_end t \<or> lx_pos t = lx_line_start t"

definition raw_result :: "nat \<Rightarrow> tokenizer \<Rightarrow> tokenizer \<Rightarrow> bool" where
  "raw_result base t t' \<longleftrightarrow>
     lex_inv base t' \<and> lx_bytes t' = lx_bytes t \<and> lx_pos t \<le> lx_pos t' \<and> \<not> lx_raw_suite t' \<and>
     (lx_pending t' \<longrightarrow> at_end t' \<or>
       (lx_pos t' = lx_line_start t' \<and> lx_delims t' = lx_delims t \<and> lx_regions t' = lx_regions t))"

lemma end_raw_suite_inv [simp]:
  "lex_inv base (end_raw_suite t) = lex_inv base t" "lx_bytes (end_raw_suite t) = lx_bytes t"
  "lx_pos (end_raw_suite t) = lx_pos t" "\<not> lx_raw_suite (end_raw_suite t)"
  by (auto simp: end_raw_suite_def)

lemma spaces_run: "i < spaces t \<Longrightarrow> lx_pos t + i < length (lx_bytes t) \<and> lx_bytes t ! (lx_pos t + i) = CHR '' ''"
proof -
  let ?xs = "drop (lx_pos t) (lx_bytes t)" and ?P = "\<lambda>c. c = CHR '' ''"
  assume "i < spaces t"
  then have i: "i < length (takeWhile ?P ?xs)" by (simp add: spaces_def run_length_def)
  then have "i < length ?xs" using length_takeWhile_le[of ?P ?xs] by linarith
  moreover have "?P (takeWhile ?P ?xs ! i)" using set_takeWhileD[of _ ?P ?xs] nth_mem[OF i] by blast
  ultimately show ?thesis using i by (simp add: takeWhile_nth)
qed

lemma run_length_pos: "lx_pos t + k < length (lx_bytes t) \<Longrightarrow> (\<forall>i \<le> k. P (lx_bytes t ! (lx_pos t + i))) \<Longrightarrow> k < run_length P t"
proof -
  assume a: "lx_pos t + k < length (lx_bytes t)" "\<forall>i \<le> k. P (lx_bytes t ! (lx_pos t + i))"
  show "k < run_length P t"
  proof (rule ccontr)
    assume "\<not> k < run_length P t"
    then have le: "run_length P t \<le> k" by simp
    then have "run_length P t < length (drop (lx_pos t) (lx_bytes t))" using a(1) by simp
    then have "\<not> P (drop (lx_pos t) (lx_bytes t) ! run_length P t)"
      unfolding run_length_def by (rule nth_length_takeWhile)
    with a le show False by simp
  qed
qed

text \<open>Every pass over a line of a raw suite moves past it.\<close>

lemma raw_line_inv:
  assumes "lex_inv base t" "lx_pos t = lx_line_start t" "nat (lx_indent t) \<le> spaces t"
    and "lx_pos t + spaces t < length (lx_bytes t)" "\<not> line_break (lx_bytes t ! (lx_pos t + spaces t))"
  shows "lex_to base t (raw_line t) \<and> lx_pos t < lx_pos (raw_line t) \<and> raw_head (raw_line t) \<and>
    lx_raw_suite (raw_line t) = lx_raw_suite t \<and> lx_delims (raw_line t) = lx_delims t \<and> lx_regions (raw_line t) = lx_regions t"
proof -
  define start where "start = lx_pos t + nat (lx_indent t)"
  define t1 where "t1 = move (nat (lx_indent t)) t"
  define n where "n = run_length (\<lambda>c. \<not> line_break c) t1"
  define t2 where "t2 = emit RawLine start (lx_pos (move n t1)) (move n t1)"
  have t1: "lex_to base t t1"
    unfolding t1_def by (rule move_inv[OF assms(1)]) (use assms(3,4) in simp)
  have pos1: "lx_pos t1 = start" "lx_bytes t1 = lx_bytes t" by (simp_all add: t1_def start_def)
  have len1: "start \<le> length (lx_bytes t)" using assms(3,4) by (simp add: start_def)
  then have len: "start + n \<le> length (lx_bytes t)" using run_length_le[of t1] pos1 by (simp add: n_def)
  have "spaces t - nat (lx_indent t) < n"
    unfolding n_def
  proof (rule run_length_pos)
    show "lx_pos t1 + (spaces t - nat (lx_indent t)) < length (lx_bytes t1)"
      using assms(3,4) by (simp add: t1_def)
    show "\<forall>i \<le> spaces t - nat (lx_indent t). \<not> line_break (lx_bytes t1 ! (lx_pos t1 + i))"
    proof (intro allI impI)
      fix i assume i: "i \<le> spaces t - nat (lx_indent t)"
      show "\<not> line_break (lx_bytes t1 ! (lx_pos t1 + i))"
      proof (cases "i = spaces t - nat (lx_indent t)")
        case True
        then show ?thesis using assms(3,5) by (simp add: t1_def)
      next
        case False
        then show ?thesis
          using spaces_run[of "nat (lx_indent t) + i" t] i
          by (simp add: t1_def add.assoc line_break_def lf_def cr_def)
      qed
    qed
  qed
  then have n: "0 < n" by simp
  have m: "lex_to base t (move n t1)"
    using len pos1 by (intro lex_to_step[OF t1 move_inv]) simp_all
  have t2: "lex_to base t t2"
    unfolding t2_def emit_def
    by (rule lex_to_step[OF m emit_span_inv]) (use len pos1 in auto)
  have stop: "at_newline t2" if "\<not> at_end t2"
  proof -
    have "n < length (drop start (lx_bytes t))"
      using that pos1 by (simp add: at_end_def t2_def)
    then have "line_break (drop start (lx_bytes t) ! n)"
      using nth_length_takeWhile[of "\<lambda>c. \<not> line_break c" "drop start (lx_bytes t)"] pos1
      by (simp add: n_def run_length_def)
    moreover have "peek_byte t2 0 = drop start (lx_bytes t) ! n"
      using that pos1 len1 by (simp add: peek_byte_def t2_def at_end_def)
    ultimately show ?thesis by (simp flip: line_break_at_newline)
  qed
  have eq: "raw_line t = (if \<not> at_end t2 \<and> at_newline t2 then advance_line t2 else t2)"
    using assms(2) by (simp add: raw_line_def t2_def n_def t1_def move_def start_def Let_def)
  have keep: "lx_raw_suite t2 = lx_raw_suite t" "lx_delims t2 = lx_delims t" "lx_regions t2 = lx_regions t"
    "lx_pos t < lx_pos t2"
    using n pos1 by (simp_all add: t2_def t1_def emit_def emit_at_def move_def start_def)
  show ?thesis
  proof (cases "at_end t2")
    case True
    then show ?thesis using t2 keep eq by (simp add: raw_head_def)
  next
    case False
    have ok: "cursor_ok t2" using t2 by (simp add: lex_to_def lex_inv_def)
    show ?thesis
      using lex_to_step[OF t2 advance_line_inv] cursor_to_frame[OF cursor_to_advance_line(1)[OF ok stop[OF False]]]
        cursor_to_advance_line(2,3)[OF ok stop[OF False]] keep eq False stop
      by (simp add: raw_head_def)
  qed
qed

lemma raw_blank_line_inv:
  assumes "lex_inv base t" "lx_pos t + spaces t < length (lx_bytes t)" "line_break (lx_bytes t ! (lx_pos t + spaces t))"
  shows "let t' = raw_blank_line (lx_pos t + spaces t) t
    in lex_to base t t' \<and> lx_pos t < lx_pos t' \<and> lx_pos t' = lx_line_start t' \<and>
      lx_raw_suite t' = lx_raw_suite t \<and> lx_delims t' = lx_delims t \<and> lx_regions t' = lx_regions t"
proof -
  let ?c = "lx_pos t + spaces t"
  define u where "u = (if lx_raw_started t then emit RawLine ?c ?c t else t)"
  define v where "v = move (spaces t) u"
  have u: "lex_to base t u"
    using emit_span_inv[OF assms(1), of ?c ?c RawLine] assms(2)
    by (simp add: u_def emit_def lex_to_refl assms(1))
  have frame: "lx_pos u = lx_pos t" "lx_bytes u = lx_bytes t" "lx_raw_suite u = lx_raw_suite t"
    "lx_delims u = lx_delims t" "lx_regions u = lx_regions t"
    by (simp_all add: u_def emit_def emit_at_def)
  have v: "lex_to base t v"
    unfolding v_def using assms(2) frame by (intro lex_to_step[OF u move_inv]) simp_all
  have nl: "at_newline v"
    using assms(2,3) frame by (simp add: v_def peek_byte_def flip: line_break_at_newline)
  have ok: "cursor_ok v" using v by (simp add: lex_to_def lex_inv_def)
  have eq: "raw_blank_line ?c t = advance_line v"
    by (simp add: raw_blank_line_def Let_def u_def[symmetric] v_def move_def frame)
  have "lx_raw_suite v = lx_raw_suite t" "lx_delims v = lx_delims t" "lx_regions v = lx_regions t" "lx_pos t \<le> lx_pos v"
    by (simp_all add: v_def move_def frame)
  then show ?thesis
    using lex_to_step[OF v advance_line_inv] cursor_to_advance_line[OF ok nl] nl
      cursor_to_frame[OF cursor_to_advance_line(1)[OF ok nl]]
    by (simp add: eq)
qed

lemma open_raw_suite_inv:
  assumes "lex_inv base t" "lx_pos t + spaces t \<le> length (lx_bytes t)"
    and "\<not> int (spaces t) < (if lx_raw_started t then lx_indent t else lx_indent t + 4)"
  shows "let (opened, t') = open_raw_suite (spaces t) (lx_pos t + spaces t) t
    in lex_inv base t' \<and> lx_bytes t' = lx_bytes t \<and> lx_pos t' = lx_pos t \<and> lx_line_start t' = lx_line_start t \<and>
      lx_delims t' = lx_delims t \<and> lx_regions t' = lx_regions t \<and>
      (if opened then lx_raw_suite t' = lx_raw_suite t \<and> nat (lx_indent t') \<le> spaces t else \<not> lx_raw_suite t')"
proof -
  have "lex_inv base (emit Indent (lx_pos t + spaces t) (lx_pos t + spaces t) (t\<lparr>lx_indent := lx_indent t + 4\<rparr>))"
    using lex_to_inv[OF emit_indent_inv[OF assms(1,2)]] .
  moreover have "lex_inv base (lex_error c m t)" for c m using lex_to_inv[OF lex_error_inv[OF assms(1)]] .
  ultimately show ?thesis
    using assms by (auto simp: open_raw_suite_def lex_error_def error_at_def emit_def emit_at_def)
qed

lemma raw_result_via:
  assumes "lex_inv base u \<and> lx_bytes u = lx_bytes t \<and> lx_pos t \<le> lx_pos u \<and> lx_delims u = lx_delims t \<and> lx_regions u = lx_regions t"
    and "raw_result base u t'"
  shows "raw_result base t t'"
  using assms by (auto simp: raw_result_def)

text \<open>The loop over a raw suite returns.\<close>

lemma scan_raw_line_start_inv:
  "lex_inv base t \<Longrightarrow> raw_head t \<Longrightarrow> \<exists>t'. scan_raw_line_start t = Some t' \<and> raw_result base t t'"
proof (induction "length (lx_bytes t) - lx_pos t" arbitrary: t rule: less_induct)
  case less
  note inv = less.prems(1)
  let ?c = "lx_pos t + spaces t"
  have c: "?c \<le> length (lx_bytes t)" using spaces_in_source[OF inv] .
  have m: "lex_inv base (t\<lparr>lx_pos := ?c\<rparr>)"
    unfolding skip_spaces using lex_to_inv[OF move_inv[OF inv c]] .
  show ?case
  proof (cases "at_end t")
    case True
    then show ?thesis
      using inv by (subst scan_raw_line_start.simps) (simp add: raw_result_def at_end_def)
  next
    case here: False
    then have head: "lx_pos t = lx_line_start t" using less.prems(2) by (simp add: raw_head_def)
    show ?thesis
    proof (cases "length (lx_bytes t) \<le> ?c")
      case True
      then show ?thesis
        using m here by (subst scan_raw_line_start.simps) (simp add: raw_result_def at_end_def Let_def)
    next
      case inside: False
      show ?thesis
      proof (cases "line_break (lx_bytes t ! ?c)")
        case True
        define u where "u = raw_blank_line ?c t"
        have u: "lex_to base t u" "lx_pos t < lx_pos u" "lx_pos u = lx_line_start u" "lx_delims u = lx_delims t" "lx_regions u = lx_regions t"
          using raw_blank_line_inv[OF inv _ True] inside by (simp_all add: u_def Let_def)
        then have "\<exists>t'. scan_raw_line_start u = Some t' \<and> raw_result base u t'"
          using here by (intro less.hyps) (auto simp: lex_to_def raw_head_def at_end_def)
        moreover have "scan_raw_line_start t = scan_raw_line_start u"
          using here inside True by (subst scan_raw_line_start.simps) (simp add: Let_def u_def)
        ultimately show ?thesis using u raw_result_via[of base u t] by (auto simp: lex_to_def)
      next
        case content: False
        show ?thesis
        proof (cases "int (spaces t) < (if lx_raw_started t then lx_indent t else lx_indent t + 4)")
          case True
          let ?u = "update_indentation (int (spaces t)) ((end_raw_suite t)\<lparr>lx_pos := ?c\<rparr>)"
          have "lex_inv base ((end_raw_suite t)\<lparr>lx_pos := ?c\<rparr>)"
            using lex_to_inv[OF move_inv[of base "end_raw_suite t" "spaces t"]] inv c by (simp add: move_def)
          then have "lex_inv base ?u" using lex_to_inv[OF update_indentation_inv] by simp
          moreover have "scan_raw_line_start t = Some (?u\<lparr>lx_pending := False\<rparr>)"
            using here inside content True by (subst scan_raw_line_start.simps) (simp add: Let_def)
          ultimately show ?thesis by (simp add: raw_result_def)
        next
          case deep: False
          obtain opened u where u: "open_raw_suite (spaces t) ?c t = (opened, u)" by fastforce
          note u_inv = open_raw_suite_inv[OF inv c deep, unfolded u Let_def prod.case]
          have eq: "scan_raw_line_start t = (if opened then scan_raw_line_start (raw_line u) else Some u)"
            using here inside content deep u by (subst scan_raw_line_start.simps) (simp add: Let_def)
          show ?thesis
          proof (cases opened)
            case True
            have sp: "spaces u = spaces t" using u_inv by (simp add: spaces_def run_length_def)
            have step: "lex_to base u (raw_line u) \<and> lx_pos u < lx_pos (raw_line u) \<and> raw_head (raw_line u) \<and>
              lx_raw_suite (raw_line u) = lx_raw_suite u \<and> lx_delims (raw_line u) = lx_delims u \<and> lx_regions (raw_line u) = lx_regions u"
              by (rule raw_line_inv) (use u_inv True sp head inside content in auto)
            then have "\<exists>t'. scan_raw_line_start (raw_line u) = Some t' \<and> raw_result base (raw_line u) t'"
              using here u_inv by (intro less.hyps) (auto simp: lex_to_def at_end_def)
            then show ?thesis
              using eq True step u_inv raw_result_via[of base "raw_line u" t] by (auto simp: lex_to_def)
          next
            case False
            then show ?thesis using eq u_inv head by (auto simp: raw_result_def)
          qed
        qed
      qed
    qed
  qed
qed

end
