(* ===== verification/LexRun.thy ===== *)
theory LexRun
  imports LexInv
begin

section \<open>The tokenizer returns a well-formed stream\<close>

text \<open>
  The token-level operations of \<open>src/lex/lexer.cpp\<close> keep the invariant and move forward, so
  \<open>run\<close> returns for every accepted source; the properties of the stream follow from the
  invariant at the end.
\<close>

subsection \<open>Brackets\<close>

definition opener_kind :: "delim \<Rightarrow> token_kind" where
  "opener_kind d = (case d of Paren \<Rightarrow> LParen | Bracket \<Rightarrow> LBracket | Brace \<Rightarrow> LBrace | FormatField \<Rightarrow> LBrace)"

lemma substr_zero [simp]: "substr s i 0 = []"
  by (simp add: substr_def)

lemma peek_move [simp]: "peek_byte (move n t) k = peek_byte t (n + k)"
  by (simp add: peek_byte_def add.assoc)

lemma slice_move [simp]: "slice (move n t) s e = slice t s e"
  by (simp add: slice_def)

lemma lex_to_len: "lex_to base a b \<Longrightarrow> lx_pos b \<le> length (lx_bytes b)"
  unfolding lex_to_def lex_inv_def cursor_ok_def by blast

lemma slice_fits:
  "s \<le> e \<Longrightarrow> e \<le> length (lx_bytes t) \<Longrightarrow> (is_keyword k \<or> is_symbol k \<Longrightarrow> slice t s e = token_kind_name k) \<Longrightarrow>
    (k \<in> {Newline, Indent, Dedent, EndOfFile} \<Longrightarrow> s = e) \<Longrightarrow>
    token_fits (lx_bytes t) \<lparr>tok_kind = k, tok_span = \<lparr>span_start = s, span_end = e, span_line = l, span_column = c\<rparr>,
      tok_text = slice t s e, tok_suffix = x\<rparr>"
  by (auto simp: token_fits_def slice_eq)

lemma bracket_kinds:
  "is_symbol LParen" "is_symbol LBracket" "is_symbol LBrace" "is_symbol RParen" "is_symbol RBracket" "is_symbol RBrace"
  by (simp_all add: is_symbol_def less_eq_token_kind_def)

lemma slice_delims [simp]: "slice (t\<lparr>lx_delims := ds\<rparr>) s e = slice t s e"
  by (simp add: slice_def)

lemma emit_open_inv:
  assumes "lex_inv base t" "s \<le> e" "e \<le> length (lx_bytes t)" "slice t s e = token_kind_name (opener_kind d)"
    and "d = FormatField \<Longrightarrow> count_list (lx_delims t) FormatField < length (lx_formatted t)"
  shows "lex_to base t (emit_at (opener_kind d) s e l c x (t\<lparr>lx_delims := d # lx_delims t\<rparr>))"
proof -
  have "token_fits (lx_bytes t) \<lparr>tok_kind = opener_kind d, tok_span = \<lparr>span_start = s, span_end = e,
      span_line = l, span_column = c\<rparr>, tok_text = slice t s e, tok_suffix = x\<rparr>"
    using assms(2-4) by (intro slice_fits) (auto simp: opener_kind_def split: delim.splits)
  moreover have "depth_step n tok = n" if "tok_kind tok = opener_kind d" for n tok
    using that by (cases d) (auto simp: depth_step_def opener_kind_def split: option.splits)
  moreover have "bracket_step (Some st) tok = Some (closing_for d # st)" if "tok_kind tok = opener_kind d" for st tok
    using that by (cases d) (auto simp: bracket_step_def opener_kind_def closing_for_def)
  moreover have "opener_kind d \<noteq> EndOfFile" by (cases d) (simp_all add: opener_kind_def)
  ultimately show ?thesis
    using assms(1,5)
    by (cases "d = FormatField")
      (auto simp: lex_to_def lex_inv_def emit_at_def cursor_ok_def layout_ok_def tokens_ok_def brackets_ok_def
        fields_ok_def layout_depth_snoc bracket_stack_snoc)
qed

definition closer_kinds :: "token_kind set" where
  "closer_kinds = {RParen, RBracket, RBrace}"

lemma closer_step: "k \<in> closer_kinds \<Longrightarrow> tok_kind tok = k \<Longrightarrow> depth_step n tok = n"
  "k \<in> closer_kinds \<Longrightarrow> tok_kind tok = k \<Longrightarrow> token_kind_name k = [c] \<Longrightarrow> bracket_step (Some (c # st)) tok = Some st"
  by (auto simp: closer_kinds_def depth_step_def bracket_step_def split: option.splits)

lemma emit_close_inv:
  assumes "lex_inv base t" "s \<le> e" "e \<le> length (lx_bytes t)" "slice t s e = token_kind_name k" "k \<in> closer_kinds"
    and "lx_delims t = d # rest" "token_kind_name k = [closing_for d]"
  shows "lex_to base t (emit_at k s e l c x (t\<lparr>lx_delims := rest\<rparr>))"
proof -
  have "token_fits (lx_bytes t) \<lparr>tok_kind = k, tok_span = \<lparr>span_start = s, span_end = e,
      span_line = l, span_column = c\<rparr>, tok_text = slice t s e, tok_suffix = x\<rparr>"
    using assms(2-5) by (intro slice_fits) (auto simp: closer_kinds_def)
  moreover have "k \<noteq> EndOfFile" using assms(5) by (auto simp: closer_kinds_def)
  ultimately show ?thesis
    using assms(1,6) closer_step(1)[OF assms(5)] closer_step(2)[OF assms(5) _ assms(7)]
    by (auto simp: lex_to_def lex_inv_def emit_at_def cursor_ok_def layout_ok_def tokens_ok_def brackets_ok_def
        fields_ok_def layout_depth_snoc bracket_stack_snoc split: if_splits)
qed

text \<open>Once an error is reported, the brackets are no longer constrained.\<close>

lemma emit_after_error_inv:
  assumes "lex_inv base t" "s \<le> e" "e \<le> length (lx_bytes t)" "slice t s e = token_kind_name k" "k \<in> closer_kinds"
    and "base < bag_count (lx_diags t)"
  shows "lex_to base t (emit_at k s e l c x t)"
proof -
  have "token_fits (lx_bytes t) \<lparr>tok_kind = k, tok_span = \<lparr>span_start = s, span_end = e,
      span_line = l, span_column = c\<rparr>, tok_text = slice t s e, tok_suffix = x\<rparr>"
    using assms(2-5) by (intro slice_fits) (auto simp: closer_kinds_def)
  moreover have "k \<noteq> EndOfFile" using assms(5) by (auto simp: closer_kinds_def)
  ultimately show ?thesis
    using assms(1,6) closer_step(1)[OF assms(5)]
    by (auto simp: lex_to_def lex_inv_def emit_at_def cursor_ok_def layout_ok_def tokens_ok_def brackets_ok_def
        fields_ok_def layout_depth_snoc)
qed

subsection \<open>Formatted strings\<close>

definition in_format :: "tokenizer \<Rightarrow> bool" where
  "in_format t \<longleftrightarrow> count_list (lx_delims t) FormatField < length (lx_formatted t)"

lemma emit_format_text_inv:
  "lex_inv base t \<Longrightarrow> lex_to base t (emit_format_text start l c t)"
  using emit_span_inv[of base t start "lx_pos t" FormatText l c "[]"]
  by (auto simp: emit_format_text_def lex_to_refl lex_inv_def cursor_ok_def)

lemma emit_format_text_frame [simp]:
  "lx_delims (emit_format_text start l c t) = lx_delims t" "lx_formatted (emit_format_text start l c t) = lx_formatted t"
  "lx_pos (emit_format_text start l c t) = lx_pos t" "lx_bytes (emit_format_text start l c t) = lx_bytes t"
  "lx_line_start (emit_format_text start l c t) = lx_line_start t"
  "peek_byte (emit_format_text start l c t) n = peek_byte t n"
  by (simp_all add: emit_format_text_def emit_at_def peek_byte_def)

lemma emit_format_end_inv:
  assumes "lex_inv base t" "lx_pos t + w \<le> length (lx_bytes t)" "in_format t"
  shows "lex_to base t (emit_format_end w t)"
proof -
  have "lex_to base t (emit_at FormatEnd (lx_pos t) (lx_pos t + w) l c [] (move w t))" for l c
    by (rule lex_to_step[OF move_inv[OF assms(1,2)] emit_span_inv]) (use assms(2) in simp_all)
  then show ?thesis
    using assms(3)
    by (simp add: emit_format_end_def Let_def)
      (auto simp: in_format_def lex_to_def lex_inv_def cursor_ok_def layout_ok_def tokens_ok_def brackets_ok_def
        fields_ok_def emit_at_def move_def)
qed

lemma slice_one: "peek_byte t 0 = ch \<Longrightarrow> ch \<noteq> nul \<Longrightarrow> slice t (lx_pos t) (lx_pos t + 1) = [ch]"
  by (auto simp: slice_def peek_byte_def substr_def drop_eq_Cons split: if_splits)

lemma open_format_field_inv:
  assumes "lex_inv base t" "peek_byte t 0 = CHR ''{''" "in_format t"
  shows "lex_to base t (open_format_field t)"
proof -
  have len: "lx_pos t + 1 \<le> length (lx_bytes t)" using peek_eq_in_source[OF assms(2)] by (simp add: nul_def)
  have m: "lex_to base t (move 1 t)" using move_inv[OF assms(1) len] .
  have "lex_to base (move 1 t) (emit_at (opener_kind FormatField) (lx_pos t) (lx_pos t + 1) l c []
      ((move 1 t)\<lparr>lx_delims := FormatField # lx_delims (move 1 t)\<rparr>))" for l c
  proof (rule emit_open_inv[OF lex_to_inv[OF m]])
    show "slice (move 1 t) (lx_pos t) (lx_pos t + 1) = token_kind_name (opener_kind FormatField)"
      using slice_one[OF assms(2)] by (simp add: opener_kind_def nul_def)
  qed (use len assms(3) in \<open>simp_all add: in_format_def\<close>)
  with m show ?thesis
    by (simp add: open_format_field_def Let_def opener_kind_def move_def) (metis lex_to_trans)
qed

lemma in_format_frame:
  "lx_delims t' = lx_delims t \<Longrightarrow> lx_formatted t' = lx_formatted t \<Longrightarrow> in_format t' = in_format t"
  by (simp add: in_format_def)

lemma scan_format_chars_inv:
  "lex_inv base t \<Longrightarrow> in_format t \<Longrightarrow> lex_to base t (scan_format_chars mode start l c t)"
proof (induction mode start l c t rule: scan_format_chars.induct)
  case (1 mode start l c t)
  note inv = 1(6) and fmt = 1(7)
  let ?rec = "scan_format_chars mode start l c"
  have ok: "cursor_ok t" using inv by (rule lex_invD)
  have recur: "lex_to base t (?rec u)" if "cursor_to t u" "lex_inv base u \<Longrightarrow> in_format u \<Longrightarrow> lex_to base u (?rec u)" for u
    using lex_to_step[OF lex_to_cursor[OF inv that(1)]] that(2) fmt cursor_to_frame(5,7)[OF that(1)] in_format_frame by blast
  have close: "lex_to base t (emit_format_end w (emit_format_text start l c t))"
    if "lx_pos t + w \<le> length (lx_bytes t)" for w
    by (rule lex_to_step[OF emit_format_text_inv[OF inv] emit_format_end_inv]) (use that fmt in \<open>simp_all add: in_format_def\<close>)
  have step: "lex_to base t (move n t)" if "lx_pos t + n \<le> length (lx_bytes t)" for n
    using move_inv[OF inv that] .
  have three: "lx_pos t + 3 \<le> length (lx_bytes t)" if "starts_with t [dquote, dquote, dquote]"
    using starts_with_in_source[OF that] by simp
  show ?case
  proof (cases "at_end t")
    case True
    then show ?thesis by (subst scan_format_chars.simps) (simp add: error_inv inv)
  next
    case here: False
    then have one: "lx_pos t + 1 \<le> length (lx_bytes t)" by (simp add: at_end_def)
    show ?thesis
    proof (cases "mode_triple mode \<and> starts_with t [dquote, dquote, dquote]")
      case True
      then show ?thesis using here close[of 3] three by (subst scan_format_chars.simps) simp
    next
      case no_end: False
      consider "\<not> mode_triple mode \<and> peek_byte t 0 = dquote"
        | "\<not> (\<not> mode_triple mode \<and> peek_byte t 0 = dquote)" "peek_byte t 0 = backslash"
        | "\<not> (\<not> mode_triple mode \<and> peek_byte t 0 = dquote)" "peek_byte t 0 \<noteq> backslash" "peek_byte t 0 = CHR ''{''"
        | "\<not> (\<not> mode_triple mode \<and> peek_byte t 0 = dquote)" "peek_byte t 0 \<noteq> backslash" "peek_byte t 0 \<noteq> CHR ''{''"
          "peek_byte t 0 = CHR ''}''"
        | "\<not> (\<not> mode_triple mode \<and> peek_byte t 0 = dquote)" "peek_byte t 0 \<noteq> backslash" "peek_byte t 0 \<noteq> CHR ''{''"
          "peek_byte t 0 \<noteq> CHR ''}''" "peek_byte t 0 = lf \<or> peek_byte t 0 = cr"
        | "\<not> (\<not> mode_triple mode \<and> peek_byte t 0 = dquote)" "peek_byte t 0 \<noteq> backslash" "peek_byte t 0 \<noteq> CHR ''{''"
          "peek_byte t 0 \<noteq> CHR ''}''" "\<not> (peek_byte t 0 = lf \<or> peek_byte t 0 = cr)"
        by blast
      then show ?thesis
      proof cases
        case 1
        then show ?thesis
          using close[OF one] by (subst scan_format_chars.simps) (simp only: here no_end 1 Let_def if_True if_False simp_thms)
      next
        case 2
        obtain r u where esc: "scan_escape False t = (r, u)" by fastforce
        have u: "cursor_to t u" using scan_escape_cursor[OF ok here, of False] esc by simp
        have "lex_to base t (?rec u)" if r
          by (rule recur[OF u]) (use 1(1)[OF here no_end refl 2] esc that in simp)
        moreover have "lex_to base t u" by (rule lex_to_cursor[OF inv u])
        ultimately show ?thesis
          by (subst scan_format_chars.simps) (cases r; simp only: here no_end 2(1) 2(2)[THEN eqTrueI] Let_def if_False if_True esc prod.case bool.case)
      next
        case 3
        show ?thesis
        proof (cases "starts_with t ''{{''")
          case True
          then have "cursor_to t (move 2 t)" using starts_with_in_source[OF True] by (intro cursor_to_move[OF ok]) simp
          from recur[OF this 1(2)[OF here no_end refl 3 True]] show ?thesis
            by (subst scan_format_chars.simps) (simp only: here no_end 3(1) 3(2) 3(3)[THEN eqTrueI] True Let_def if_False if_True)
        next
          case False
          have "lex_to base t (open_format_field (emit_format_text start l c t))"
            by (rule lex_to_step[OF emit_format_text_inv[OF inv] open_format_field_inv])
              (use 3 fmt in \<open>simp_all add: in_format_def\<close>)
          then show ?thesis
            by (subst scan_format_chars.simps) (simp only: here no_end 3(1) 3(2) 3(3)[THEN eqTrueI] False Let_def if_False if_True)
        qed
      next
        case 4
        show ?thesis
        proof (cases "starts_with t ''}}''")
          case True
          then have "cursor_to t (move 2 t)" using starts_with_in_source[OF True] by (intro cursor_to_move[OF ok]) simp
          from recur[OF this 1(3)[OF here no_end refl 4 True]] show ?thesis
            by (subst scan_format_chars.simps) (simp only: here no_end 4(1) 4(2) 4(3) 4(4)[THEN eqTrueI] True Let_def if_False if_True)
        next
          case False
          have "lex_to base t (move 1 (error_at a b d k m t))" for a b d k m
            by (rule lex_to_step[OF error_inv[OF inv] move_inv]) (use one in simp_all)
          then show ?thesis
            by (subst scan_format_chars.simps) (simp only: here no_end 4(1) 4(2) 4(3) 4(4)[THEN eqTrueI] False Let_def if_False if_True)
        qed
      next
        case 5
        then have nl: "at_newline t" by (simp add: at_newline_def)
        show ?thesis
        proof (cases "mode_triple mode")
          case True
          then have nt: "(\<not> mode_triple mode) = False" by simp
          then have "\<not> \<not> mode_triple mode" by simp
          from recur[OF cursor_to_advance_line(1)[OF ok nl] 1(4)[OF here no_end refl 5 this]] show ?thesis
            by (subst scan_format_chars.simps)
              (simp only: here no_end 5(1-4) 5(5)[THEN eqTrueI] nt Let_def if_False if_True simp_thms)
        next
          case False
          then have nt: "(\<not> mode_triple mode) = True" and nd: "(peek_byte t 0 = dquote) = False" using 5(1) by simp_all
          show ?thesis
            by (subst scan_format_chars.simps)
              (simp only: here no_end 5(1-4) 5(5)[THEN eqTrueI] nt nd Let_def if_False if_True simp_thms error_inv[OF inv])
        qed
      next
        case 6
        let ?w = "case utf8_next (lx_bytes t) (lx_pos t) of None \<Rightarrow> 1 | Some (width, _) \<Rightarrow> width"
        have "lx_pos t + ?w \<le> length (lx_bytes t)"
          using one by (auto dest: utf8_next_width split: option.splits)
        from recur[OF cursor_to_move[OF ok this] 1(5)[OF here no_end refl 6]] show ?thesis
          by (subst scan_format_chars.simps) (simp only: here no_end 6 Let_def if_False if_True)
      qed
    qed
  qed
qed

lemma scan_formatted_text_inv: "lex_inv base t \<Longrightarrow> in_format t \<Longrightarrow> lex_to base t (scan_formatted_text t)"
  unfolding scan_formatted_text_def by (rule scan_format_chars_inv)

subsection \<open>Words, strings and characters\<close>

text \<open>A token has been read: the invariant holds and the cursor is past its first byte.\<close>

definition tok_to :: "nat \<Rightarrow> tokenizer \<Rightarrow> tokenizer \<Rightarrow> bool" where
  "tok_to base t t' \<longleftrightarrow> lex_to base t t' \<and> lx_pos t < lx_pos t'"

lemma tok_to_after: "lex_to base t u \<Longrightarrow> lx_pos t < lx_pos u \<Longrightarrow> (lex_inv base u \<Longrightarrow> lex_to base u v) \<Longrightarrow> tok_to base t v"
  using lex_to_step[of base t u v] by (auto simp: tok_to_def lex_to_def)

lemma tok_to_from: "lex_to base t u \<Longrightarrow> (lex_inv base u \<Longrightarrow> tok_to base u v) \<Longrightarrow> tok_to base t v"
  by (auto simp: tok_to_def lex_to_def)

lemma keyword_kind_cases:
  "keyword_kind w = Name \<or> (is_keyword (keyword_kind w) \<and> token_kind_name (keyword_kind w) = w)"
  using k_keywords_names[OF map_of_SomeD] by (auto simp: keyword_kind_map_of split: option.splits)

lemma keyword_plain: "is_keyword k \<Longrightarrow> plain_kind k \<and> \<not> is_symbol k \<and> k \<noteq> Newline"
  by (auto simp: is_keyword_def plain_kind_def is_symbol_def less_eq_token_kind_def)

lemma scan_word_inv:
  assumes "lex_inv base t" "\<not> at_end t"
  shows "tok_to base t (scan_word (lx_pos t) l c t)"
proof -
  define u where "u = move 1 t"
  define v where "v = move (run_length is_ident_continue u) u"
  have u: "lex_to base t u" unfolding u_def using assms by (intro move_inv) (simp_all add: at_end_def)
  then have "lx_pos u + run_length is_ident_continue u \<le> length (lx_bytes u)"
    by (intro run_length_le lex_to_len)
  then have v: "lex_to base t v" unfolding v_def by (intro lex_to_step[OF u move_inv])
  define w where "w = (if 128 < lx_pos v - lx_pos t then
    lex_error ''lucb.lex.identifier'' ''an identifier is at most 128 bytes'' v else v)"
  have w: "lex_to base t w" unfolding w_def using v lex_to_step[OF v lex_error_inv] by simp
  have pos: "lx_pos w = lx_pos v" "lx_bytes w = lx_bytes t" "lx_pos t < lx_pos v"
    by (simp_all add: w_def lex_error_def v_def u_def)
  define kind where "kind = keyword_kind (slice w (lx_pos t) (lx_pos w))"
  define x where "x = (if kind = KwAsm then w\<lparr>lx_saw_asm := True\<rparr> else w)"
  have x: "lex_to base t x" unfolding x_def using w by (simp add: lex_to_def)
  have sl: "slice x s e = slice w s e" "lx_pos x = lx_pos w" "lx_bytes x = lx_bytes w" for s e
    by (simp_all add: x_def slice_def)
  have fin: "lx_pos w \<le> length (lx_bytes w)" using w by (rule lex_to_len)
  have "lex_to base t (emit_at kind (lx_pos t) (lx_pos x) l c [] x)"
  proof (rule lex_to_step[OF x emit_at_inv])
    show "plain_kind kind" "kind = Newline \<Longrightarrow> lx_pos t = lx_pos x"
      "is_keyword kind \<or> is_symbol kind \<Longrightarrow> slice x (lx_pos t) (lx_pos x) = token_kind_name kind"
      using keyword_kind_cases[of "slice w (lx_pos t) (lx_pos w)", folded kind_def] keyword_plain[of kind]
        other_kinds plain_kinds sl by auto
  qed (use pos sl fin in auto)
  moreover have "scan_word (lx_pos t) l c t = emit_at kind (lx_pos t) (lx_pos x) l c [] x"
    by (simp only: scan_word_def Let_def x_def kind_def w_def v_def u_def)
  ultimately show ?thesis using pos sl by (simp add: tok_to_def)
qed

lemma push_formatted_inv:
  assumes "lex_inv base t"
  shows "lex_to base t (t\<lparr>lx_formatted := mode # lx_formatted t\<rparr>)" "in_format (t\<lparr>lx_formatted := mode # lx_formatted t\<rparr>)"
  using assms
  by (auto simp: lex_to_def lex_inv_def cursor_ok_def layout_ok_def tokens_ok_def brackets_ok_def fields_ok_def in_format_def)

lemma quote_width: "peek_byte t 0 = dquote \<Longrightarrow>
    lx_pos t + (if starts_with t [dquote, dquote, dquote] then 3 else 1) \<le> length (lx_bytes t)"
  using starts_with_in_source[of t "[dquote, dquote, dquote]"] peek_eq_in_source[of t 0 dquote] dquote_not_nul by auto

lemma scan_string_literal_inv:
  assumes "lex_inv base t" "pfx \<noteq> nul \<Longrightarrow> peek_byte t 1 = dquote" "pfx = nul \<Longrightarrow> peek_byte t 0 = dquote"
  shows "tok_to base t (scan_string_literal (lx_pos t) l c pfx t)"
proof -
  define u where "u = (if pfx \<noteq> nul then move 1 t else t)"
  have pk: "peek_byte u 0 = dquote" using assms(2,3) by (auto simp: u_def)
  have "lx_pos t + 1 \<le> length (lx_bytes t)" if "pfx \<noteq> nul"
    using peek_eq_in_source[OF assms(2)[OF that] dquote_not_nul(1)] by simp
  then have u: "lex_to base t u" unfolding u_def using move_inv[OF assms(1)] lex_to_refl[OF assms(1)] by simp
  have ok: "cursor_ok u" "lex_inv base u" using u by (simp_all add: lex_to_def lex_inv_def)
  show ?thesis
  proof (cases "pfx = CHR ''f''")
    case True
    define q :: nat where "q = (if starts_with u [dquote, dquote, dquote] then 3 else 1)"
    define v where "v = move q u"
    have v: "lex_to base t v" unfolding v_def q_def by (rule lex_to_step[OF u move_inv[OF _ quote_width[OF pk]]])
    define w where "w = emit_at FormatStart (lx_pos t) (lx_pos v) l c [] v"
    have fin: "lx_pos v \<le> length (lx_bytes v)" using v by (rule lex_to_len)
    have less: "lx_pos t < lx_pos v" by (simp add: v_def q_def u_def)
    have w: "lex_to base t w"
      unfolding w_def by (rule lex_to_step[OF v emit_span_inv]) (use fin less in auto)
    let ?mode = "\<lparr>mode_triple = starts_with u [dquote, dquote, dquote], mode_line = l, mode_column = c\<rparr>"
    define x where "x = w\<lparr>lx_formatted := ?mode # lx_formatted w\<rparr>"
    have x: "lex_to base t x" "in_format x"
      using lex_to_step[OF w push_formatted_inv(1)] push_formatted_inv(2)[OF lex_to_inv[OF w]] by (simp_all add: x_def)
    have "scan_string_literal (lx_pos t) l c pfx t = scan_formatted_text x"
      unfolding scan_string_literal_def Let_def u_def[symmetric] using True
      by (simp add: x_def w_def v_def q_def)
    moreover have "tok_to base t (scan_formatted_text x)"
      by (rule tok_to_after[OF x(1) _ scan_formatted_text_inv]) (use less x(2) in \<open>simp_all add: x_def w_def\<close>)
    ultimately show ?thesis by simp
  next
    case False
    obtain r v where body: "scan_string_body pfx l c u = (r, v)" by fastforce
    have cv: "cursor_to u v" using scan_string_body_cursor[OF ok(1) pk, of pfx l c] body by simp
    have v: "lex_to base t v" by (rule lex_to_step[OF u lex_to_cursor[OF _ cv]])
    have fin: "lx_pos v \<le> length (lx_bytes v)" using v by (rule lex_to_len)
    have less: "lx_pos t < lx_pos v"
    proof -
      let ?q = "move (if starts_with u [dquote, dquote, dquote] then 3 else 1) u"
      have "cursor_ok ?q" using cursor_to_frame(15)[OF cursor_to_move[OF ok(1) quote_width[OF pk]]] .
      then have "lx_pos ?q \<le> lx_pos v"
        using cursor_to_frame(12)[OF scan_string_chars_cursor[of ?q "pfx = CHR ''r''" "pfx = CHR ''b''"
              "starts_with u [dquote, dquote, dquote]" l c]] body
        by (simp add: scan_string_body_def Let_def)
      then show ?thesis by (simp add: u_def split: if_splits)
    qed
    have "lex_to base t (emit_at (if pfx = CHR ''b'' then BytesLit else StringLit) (lx_pos t) (lx_pos v) l c [] v)"
      by (rule lex_to_step[OF v emit_span_inv]) (use fin less in auto)
    with v less body False show ?thesis
      unfolding scan_string_literal_def Let_def u_def[symmetric] by (cases r) (simp_all add: tok_to_def)
  qed
qed

lemma scan_character_scalars_inv:
  "lex_inv base t \<Longrightarrow> start \<le> lx_pos t \<Longrightarrow> lex_to base t (scan_character_scalars start l c n t)"
proof (induction start l c n t rule: scan_character_scalars.induct)
  case (1 start l c n t)
  note inv = 1(3) and start = 1(4) and IH = 1(1,2)
  let ?rec = "scan_character_scalars start l c"
  have ok: "cursor_ok t" using inv by (rule lex_invD)
  have recur: "lex_to base t (?rec m u)" if "cursor_to t u"
    "lex_inv base u \<Longrightarrow> start \<le> lx_pos u \<Longrightarrow> lex_to base u (?rec m u)" for m u
    using lex_to_step[OF lex_to_cursor[OF inv that(1)]] that(2) cursor_to_frame(12)[OF that(1)] start by simp
  show ?case
  proof (cases "at_end t")
    case True
    then show ?thesis by (subst scan_character_scalars.simps) (simp add: error_inv inv)
  next
    case here: False
    then have one: "lx_pos t + 1 \<le> length (lx_bytes t)" by (simp add: at_end_def)
    have chars: "squote \<noteq> backslash" "lf \<noteq> backslash" "cr \<noteq> backslash" "lf \<noteq> squote" "cr \<noteq> squote"
      by (simp_all add: control_chars)
    consider "peek_byte t 0 = backslash" | "peek_byte t 0 = squote" | "peek_byte t 0 = lf \<or> peek_byte t 0 = cr"
      | "peek_byte t 0 \<noteq> backslash" "peek_byte t 0 \<noteq> squote" "\<not> (peek_byte t 0 = lf \<or> peek_byte t 0 = cr)" by blast
    then show ?thesis
    proof cases
      case 1
      obtain r u where esc: "scan_escape False t = (r, u)" by fastforce
      have u: "cursor_to t u" using scan_escape_cursor[OF ok here, of False] esc by simp
      have "lex_to base t (?rec (n + 1) u)" if r
        by (rule recur[OF u]) (use IH(1)[OF here refl 1] esc that in simp)
      moreover have "lex_to base t u" by (rule lex_to_cursor[OF inv u])
      ultimately show ?thesis
        using here 1 esc by (subst scan_character_scalars.simps) (cases r; simp add: Let_def)
    next
      case 2
      have m: "lex_to base t (move 1 t)" by (rule move_inv[OF inv one])
      have "lex_to base t (emit_at CharLit start (lx_pos t + 1) l c [] (move 1 t))"
        by (rule lex_to_step[OF m emit_span_inv]) (use one start in auto)
      moreover have "lex_to base t (error_at a b d k e (move 1 t))" for a b d k e
        by (rule lex_to_step[OF m error_inv])
      ultimately show ?thesis
        using here 2 chars by (subst scan_character_scalars.simps) (simp add: Let_def)
    next
      case 3
      then have "peek_byte t 0 \<noteq> backslash" "peek_byte t 0 \<noteq> squote" using chars by auto
      then show ?thesis
        using here 3 error_inv[OF inv] by (subst scan_character_scalars.simps) (simp add: Let_def)
    next
      case 4
      have "lex_to base t (?rec (n + 1) (move w t))" if "utf8_next (lx_bytes t) (lx_pos t) = Some (w, cp)" for w cp
        by (rule recur[OF cursor_to_width[OF ok that] IH(2)[OF here refl 4 that refl]])
      then show ?thesis
        using here 4 lex_error_inv[OF inv]
        by (subst scan_character_scalars.simps) (simp add: Let_def split: option.splits)
    qed
  qed
qed

lemma scan_character_inv:
  assumes "lex_inv base t" "\<not> at_end t"
  shows "tok_to base t (scan_character (lx_pos t) l c t)"
  unfolding scan_character_def
  by (rule tok_to_after[OF move_inv[OF assms(1)] _ scan_character_scalars_inv]) (use assms(2) in \<open>simp_all add: at_end_def\<close>)

subsection \<open>Numbers\<close>

lemma scan_digit_sequence_inv:
  assumes "lex_inv base t" "scan_digit_sequence b t = (r, u)"
  shows "lex_to base t u"
  using lex_to_cursor[OF assms(1) scan_digit_sequence_cursor[OF lex_invD(1)[OF assms(1)], of b]] assms(2) by simp

lemma scan_numeric_suffix_inv:
  assumes "lex_inv base t" "scan_numeric_suffix t = (sfx, u)"
  shows "lex_to base t u"
  using lex_to_cursor[OF assms(1) scan_numeric_suffix_cursor[OF lex_invD(1)[OF assms(1)]]] assms(2) by simp

lemma emit_literal_inv:
  assumes "lex_to base a t" "start \<le> lx_pos t"
    and "k \<in> {Name, IntLit, FloatLit, CharLit, StringLit, BytesLit, FormatStart, FormatText, FormatEnd, DocComment, Underscore, RawLine}"
  shows "lex_to base a (emit_at k start (lx_pos t) l c x t)"
  by (rule lex_to_step[OF assms(1) emit_span_inv]) (use lex_to_len[OF assms(1)] assms(2,3) in auto)

lemma scan_based_number_inv:
  assumes "lex_inv base t" "peek_byte t 1 \<noteq> nul"
  shows "tok_to base t (scan_based_number (lx_pos t) l c t)"
proof -
  have m: "lex_to base t (move 2 t)"
    by (rule move_inv[OF assms(1)]) (use peek_in_source[OF assms(2)] in simp)
  obtain r u where u: "scan_digit_sequence (peek_byte t 1) (move 2 t) = (r, u)" by fastforce
  obtain sfx v where v: "scan_numeric_suffix u = (sfx, v)" by fastforce
  have tu: "lex_to base t u" by (rule lex_to_step[OF m scan_digit_sequence_inv[OF _ u]])
  have tv: "lex_to base t v" by (rule lex_to_step[OF tu scan_numeric_suffix_inv[OF _ v]])
  have "lx_pos t < lx_pos u"
    using scan_digit_sequence_inv[OF lex_to_inv[OF m] u] by (simp add: lex_to_def)
  moreover have "lx_pos u \<le> lx_pos v"
    using scan_numeric_suffix_inv[OF lex_to_inv[OF tu] v] by (simp add: lex_to_def)
  moreover have "lex_to base t (emit_at IntLit (lx_pos t) (lx_pos v) l c sfx v)"
    by (rule emit_literal_inv[OF tv]) (use calculation in simp_all)
  ultimately show ?thesis
    using tu lex_to_step[OF tu lex_error_inv] lex_to_step[OF tv error_inv] u v
    by (cases r) (simp_all add: scan_based_number_def Let_def tok_to_def lex_error_def)
qed

text \<open>The stages after the first digits stay on the same token.\<close>

lemma scan_fraction_inv:
  assumes "lex_inv base t" "scan_fraction t = (r, k, u)"
  shows "lex_to base t u \<and> k \<in> {IntLit, FloatLit}"
proof (cases "peek_byte t 0 = CHR ''.'' \<and> is_ascii_digit (peek_byte t 1)")
  case True
  then have "lx_pos t + 1 \<le> length (lx_bytes t)" using peek_eq_in_source[of t 0 "CHR ''.''"] by (simp add: nul_def)
  then have m: "lex_to base t (move 1 t)" by (rule move_inv[OF assms(1)])
  obtain r' u' where s: "scan_digit_sequence (CHR ''d'') (move 1 t) = (r', u')" by fastforce
  with True assms(2) show ?thesis
    using lex_to_step[OF m scan_digit_sequence_inv[OF _ s]] by (simp add: scan_fraction_def)
next
  case False
  with assms show ?thesis by (auto simp: scan_fraction_def lex_to_refl)
qed

lemma scan_exponent_inv:
  assumes "lex_inv base t" "scan_exponent k t = (r, k', u)" "k \<in> {IntLit, FloatLit}"
  shows "lex_to base t u \<and> k' \<in> {IntLit, FloatLit}"
proof (cases "peek_byte t 0 = CHR ''e'' \<or> peek_byte t 0 = CHR ''E''")
  case True
  then have "lx_pos t + 1 \<le> length (lx_bytes t)" using peek_in_source[of t 0] by (auto simp: nul_def)
  then have m: "lex_to base t (move 1 t)" by (rule move_inv[OF assms(1)])
  define v where "v = (if peek_byte (move 1 t) 0 = CHR ''+'' \<or> peek_byte (move 1 t) 0 = CHR ''-'' then move 1 (move 1 t) else move 1 t)"
  have "lex_to base t (move 1 (move 1 t))" if "peek_byte (move 1 t) 0 = CHR ''+'' \<or> peek_byte (move 1 t) 0 = CHR ''-''"
    by (rule lex_to_step[OF m move_inv]) (use that peek_in_source[of "move 1 t" 0] in \<open>auto simp: nul_def\<close>)
  then have v: "lex_to base t v" using m by (simp add: v_def)
  obtain r' u' where s: "scan_digit_sequence (CHR ''d'') v = (r', u')" by fastforce
  have "scan_exponent k t = (r', FloatLit, u')"
    using s by (simp only: scan_exponent_def Let_def True[THEN eqTrueI] if_True v_def prod.case)
  with assms(2) show ?thesis
    using lex_to_step[OF v scan_digit_sequence_inv[OF _ s]] by simp
next
  case False
  with assms show ?thesis by (auto simp: scan_exponent_def lex_to_refl)
qed

lemma finish_decimal_inv:
  assumes "lex_to base a t" "start \<le> lx_pos t" "k \<in> {IntLit, FloatLit}"
  shows "lex_to base a (finish_decimal start l c k t) \<and> lx_pos t \<le> lx_pos (finish_decimal start l c k t)"
proof -
  obtain sfx v where v: "scan_numeric_suffix t = (sfx, v)" by fastforce
  have tv: "lex_to base t v" by (rule scan_numeric_suffix_inv[OF lex_to_inv[OF assms(1)] v])
  then have av: "lex_to base a v" using lex_to_trans[OF assms(1)] by blast
  have le: "lx_pos t \<le> lx_pos v" using tv by (simp add: lex_to_def)
  have "lex_to base a (emit_at k' start (lx_pos v) l c sfx v)" if "k' \<in> {IntLit, FloatLit}" for k'
    by (rule emit_literal_inv[OF av]) (use that le assms(2) in auto)
  with av lex_to_step[OF av error_inv] assms(3) le show ?thesis
    by (auto simp: finish_decimal_def v)
qed

lemma scan_decimal_number_inv:
  assumes "lex_inv base t" "is_ascii_digit (peek_byte t 0)"
  shows "tok_to base t (scan_decimal_number (lx_pos t) l c t)"
proof -
  obtain r1 u1 where s1: "scan_digit_sequence (CHR ''d'') t = (r1, u1)" by fastforce
  obtain r2 k2 u2 where s2: "scan_fraction u1 = (r2, k2, u2)" by (metis prod_cases3)
  obtain r3 k3 u3 where s3: "scan_exponent k2 u2 = (r3, k3, u3)" by (metis prod_cases3)
  have "is_digit_for_base (peek_byte t 0) (CHR ''d'')" using assms(2) by (simp add: is_digit_for_base_def)
  then have lt: "lx_pos t < lx_pos u1" using scan_digits_from_digit[OF lex_invD(1)[OF assms(1)]] s1 by fastforce
  have 1: "lex_to base t u1" by (rule scan_digit_sequence_inv[OF assms(1) s1])
  have f2: "lex_to base u1 u2 \<and> k2 \<in> {IntLit, FloatLit}" by (rule scan_fraction_inv[OF lex_to_inv[OF 1] s2])
  then have 2: "lex_to base t u2" using lex_to_trans[OF 1] by blast
  have f3: "lex_to base u2 u3 \<and> k3 \<in> {IntLit, FloatLit}" using scan_exponent_inv[OF lex_to_inv[OF 2] s3] f2 by blast
  then have 3: "lex_to base t u3" using lex_to_trans[OF 2] by blast
  have le: "lx_pos u1 \<le> lx_pos u2" "lx_pos u2 \<le> lx_pos u3" using f2 f3 by (simp_all add: lex_to_def)
  have fin: "lex_to base t (finish_decimal (lx_pos t) l c k3 u3) \<and> lx_pos u3 \<le> lx_pos (finish_decimal (lx_pos t) l c k3 u3)"
    by (rule finish_decimal_inv[OF 3]) (use lt le f3 in auto)
  show ?thesis
    using 1 2 3 fin lt le
    by (cases r1; cases r2; cases r3) (simp_all add: scan_decimal_number_def s1 s2 s3 tok_to_def)
qed

lemma scan_number_inv:
  assumes "lex_inv base t" "is_ascii_digit (peek_byte t 0)"
  shows "tok_to base t (scan_number (lx_pos t) l c t)"
proof -
  have two: "tok_to base t (move 2 (error_at a b d k m t))" if "peek_byte t 1 \<noteq> nul" for a b d k m
    unfolding tok_to_def
    by (rule conjI, rule lex_to_step[OF error_inv[OF assms(1)] move_inv]) (use peek_in_source[OF that] in simp_all)
  have "peek_byte t 1 \<noteq> nul" if "peek_byte t 1 \<in> {CHR ''X'', CHR ''O'', CHR ''B''} \<or> peek_byte t 1 \<in> {CHR ''x'', CHR ''o'', CHR ''b''}"
    using that by (auto simp: nul_def)
  then show ?thesis
    unfolding scan_number_def
    using two scan_based_number_inv[OF assms(1)] scan_decimal_number_inv[OF assms] by presburger
qed

subsection \<open>Symbols\<close>

lemma finish_layout_region_inv: "lex_inv base t \<Longrightarrow> lex_to base t (finish_layout_region t)"
proof (cases "lx_regions t")
  case Nil
  then show "lex_inv base t \<Longrightarrow> ?thesis" by (simp add: finish_layout_region_def lex_to_refl)
next
  case (Cons r rest)
  assume inv: "lex_inv base t"
  define u where "u = (if lx_tokens t \<noteq> [] \<and> tok_kind (last (lx_tokens t)) \<noteq> Newline
     then emit Newline (lx_pos t) (lx_pos t) t else t)"
  have u: "lex_to base t u" using emit_newline_inv[OF inv] lex_to_refl[OF inv] by (simp add: u_def)
  have "0 \<le> region_base r" using inv Cons by (simp add: lex_inv_def layout_ok_def)
  then have v: "lex_to base t (dedent_to (region_base r) u)" by (intro lex_to_step[OF u dedent_to_inv])
  have "lex_to base t ((dedent_to (region_base r) u)\<lparr>lx_regions := tl (lx_regions (dedent_to (region_base r) u))\<rparr>)"
    by (rule lex_to_step[OF v pop_region_inv])
  then show ?thesis
    unfolding finish_layout_region_def Let_def Cons list.case u_def[symmetric] using lex_to_refl[OF inv]
    by (simp only: split: if_split) blast
qed

lemma finish_layout_region_frame [simp]:
  "lx_delims (finish_layout_region t) = lx_delims t" "lx_formatted (finish_layout_region t) = lx_formatted t"
  "lx_pos (finish_layout_region t) = lx_pos t" "lx_bytes (finish_layout_region t) = lx_bytes t"
  "slice (finish_layout_region t) s e = slice t s e"
  by (simp_all add: finish_layout_region_def Let_def emit_def emit_at_def slice_def split: list.split)

lemma open_suite_inv: "lex_inv base t \<Longrightarrow> lex_to base t (open_suite t)"
  by (auto simp: open_suite_def Let_def lex_to_def lex_inv_def cursor_ok_def layout_ok_def tokens_ok_def brackets_ok_def
      fields_ok_def)

lemma open_suite_frame [simp]: "slice (open_suite t) s e = slice t s e" "lx_bytes (open_suite t) = lx_bytes t"
  "lx_pos (open_suite t) = lx_pos t"
  by (simp_all add: open_suite_def Let_def slice_def)

definition bracket_kind :: "token_kind \<Rightarrow> bool" where
  "bracket_kind k \<longleftrightarrow> k \<in> {LParen, LBracket, LBrace, RParen, RBracket, RBrace}"

lemma symbol_plain: "is_symbol k \<Longrightarrow> \<not> bracket_kind k \<Longrightarrow> plain_kind k \<and> k \<noteq> Newline"
  by (auto simp: is_symbol_def plain_kind_def bracket_kind_def less_eq_token_kind_def)

lemma emit_plain_symbol_inv:
  assumes "lex_inv base t" "is_symbol k" "\<not> bracket_kind k" "s \<le> e" "e \<le> length (lx_bytes t)" "slice t s e = token_kind_name k"
  shows "lex_to base t (emit_at k s e l c x t)"
  by (rule emit_at_inv[OF assms(1)]) (use symbol_plain[OF assms(2,3)] assms(4-6) in auto)

lemma one_char_kind:
  "token_kind_name k = [CHR ''('']  \<Longrightarrow> k = LParen" "token_kind_name k = [CHR '')'']  \<Longrightarrow> k = RParen"
  "token_kind_name k = [CHR ''['']  \<Longrightarrow> k = LBracket" "token_kind_name k = [CHR '']'']  \<Longrightarrow> k = RBracket"
  "token_kind_name k = [CHR ''{'']  \<Longrightarrow> k = LBrace" "token_kind_name k = [CHR ''}'']  \<Longrightarrow> k = RBrace"
  using token_kind_name_inject[of k] by (metis token_kind_name.simps)+

lemma bracket_name: "bracket_kind k \<Longrightarrow> \<exists>ch. token_kind_name k = [ch] \<and> ch \<in> {CHR ''('', CHR ''['', CHR ''{'', CHR '')'', CHR '']'', CHR ''}''}"
  by (auto simp: bracket_kind_def)

lemma close_symbol_inv:
  assumes "lex_inv base t" "k \<in> closer_kinds" "token_kind_name k = [ch]" "s \<le> e" "e \<le> length (lx_bytes t)" "slice t s e = [ch]"
    and "close_delimiter ch col at t = (field, u)"
  shows "lex_to base t (emit_at k s e l c x u)" "field \<Longrightarrow> in_format (emit_at k s e l c x u)"
proof -
  have err: "lex_to base t (emit_at k s e l c x (error_at a b d code m t))" for a b d code m
  proof (rule lex_to_step[OF error_inv[OF assms(1)] emit_after_error_inv])
    show "base < bag_count (lx_diags (error_at a b d code m t))"
      using assms(1) by (simp add: lex_inv_def brackets_ok_def)
  qed (use assms(2-6) in \<open>simp_all add: slice_def\<close>)
  show "lex_to base t (emit_at k s e l c x u)"
  proof (cases "lx_delims t = [] \<or> ch \<noteq> closing_for (hd (lx_delims t))")
    case True
    then show ?thesis using assms(7) err by (auto simp: close_delimiter_def split: list.splits if_splits)
  next
    case False
    then obtain d rest where d: "lx_delims t = d # rest" "ch = closing_for d" by (cases "lx_delims t") auto
    then have "u = t\<lparr>lx_delims := rest\<rparr>" using assms(7) by (auto simp: close_delimiter_def)
    moreover have "slice t s e = token_kind_name k" "token_kind_name k = [closing_for d]" using assms(3,6) d by simp_all
    ultimately show ?thesis using emit_close_inv[OF assms(1,4,5) _ assms(2) d(1)] by simp
  qed
  show "in_format (emit_at k s e l c x u)" if field
    using that assms(1,7)
    by (auto simp: close_delimiter_def in_format_def emit_at_def lex_inv_def fields_ok_def split: list.splits if_splits)
qed

lemma scan_symbol_inv:
  assumes inv: "lex_inv base t" and sym: "match_symbol t = (k, w)" "0 < w"
  shows "tok_to base t (scan_symbol (lx_pos t) l c (k, w) t)"
proof -
  let ?s = "lx_pos t" and ?e = "lx_pos t + w"
  have k: "is_symbol k" "starts_with t (token_kind_name k)" "w = length (token_kind_name k)"
    using match_symbol_Some[OF sym] by simp_all
  have len: "?e \<le> length (lx_bytes t)" using starts_with_in_source[OF k(2)] k(3) by simp
  have sl: "slice t ?s ?e = token_kind_name k"
    using k(2,3) len by (simp add: slice_def starts_with_def split: if_splits)
  have u: "lex_to base t (t\<lparr>lx_pos := ?e\<rparr>)" unfolding skip_spaces by (rule move_inv[OF inv len])
  let ?u = "t\<lparr>lx_pos := ?e\<rparr>"
  note uinv = lex_to_inv[OF u]
  have slu: "slice ?u ?s ?e = token_kind_name k" using sl unfolding skip_spaces by (simp only: slice_move)
  have lift: "tok_to base t v" if "lex_to base ?u v" for v
    using lex_to_trans[OF u that] that sym(2) by (simp add: tok_to_def lex_to_def)
  let ?ch = "lx_bytes t ! ?s"
  show ?thesis
  proof (cases "w = 1")
    case False
    then have "\<not> bracket_kind k" using bracket_name[of k] k(3) by auto
    then have "lex_to base ?u (emit_at k ?s ?e l c [] ?u)"
      using emit_plain_symbol_inv[OF uinv k(1)] len slu by simp
    from lift[OF this] show ?thesis using False by (simp add: scan_symbol_def Let_def)
  next
    case True
    have "?s < length (lx_bytes t)" using len True by simp
    then have name: "token_kind_name k = [?ch]"
      using sl True by (simp add: slice_def substr_def drop_eq_Cons)
    have opens: "lex_to base ?u (emit_at k ?s ?e l c [] (?u\<lparr>lx_delims := d # lx_delims ?u\<rparr>))"
      if "k = opener_kind d" "d \<noteq> FormatField" for d
      using emit_open_inv[OF uinv, of ?s ?e d] that len slu by simp
    consider "?ch = CHR ''(''" | "?ch = CHR ''[''" | "?ch = CHR ''{''"
      | "?ch = CHR '')'' \<or> ?ch = CHR '']'' \<or> ?ch = CHR ''}''"
      | "?ch \<notin> {CHR ''('', CHR ''['', CHR ''{'', CHR '')'', CHR '']'', CHR ''}''}" by auto
    then show ?thesis
    proof cases
      case 1
      then have "k = opener_kind Paren" using name one_char_kind by (simp add: opener_kind_def)
      from lift[OF opens[OF this]] show ?thesis using 1 True by (simp add: scan_symbol_def Let_def)
    next
      case 2
      then have "k = opener_kind Bracket" using name one_char_kind by (simp add: opener_kind_def)
      from lift[OF opens[OF this]] show ?thesis using 2 True by (simp add: scan_symbol_def Let_def)
    next
      case 3
      then have "k = opener_kind Brace" using name one_char_kind by (simp add: opener_kind_def)
      from lift[OF opens[OF this]] show ?thesis using 3 True by (simp add: scan_symbol_def Let_def)
    next
      case 4
      then have closer: "k \<in> closer_kinds" using name one_char_kind by (auto simp: closer_kinds_def)
      let ?f = "finish_layout_region ?u"
      obtain field v where v: "close_delimiter ?ch c ?s ?f = (field, v)" by fastforce
      have f: "lex_to base ?u ?f" by (rule finish_layout_region_inv[OF uinv])
      have pos: "lx_pos v = ?e" using v by (auto simp: close_delimiter_def split: list.splits if_splits)
      have emitted: "lex_to base ?u (emit_at k ?s ?e l c [] v)"
        "field \<Longrightarrow> in_format (emit_at k ?s ?e l c [] v)"
        using close_symbol_inv[OF lex_to_inv[OF f] closer name _ _ _ v, of ?s ?e l c "[]"] lex_to_trans[OF f] len slu name
        by simp_all
      have "scan_symbol ?s l c (k, w) t = (if field then scan_formatted_text (emit_at k ?s ?e l c [] v) else emit_at k ?s ?e l c [] v)"
        using True 4 v pos by (auto simp: scan_symbol_def Let_def)
      moreover have "lex_to base ?u (scan_formatted_text (emit_at k ?s ?e l c [] v))" if field
        by (rule lex_to_step[OF emitted(1) scan_formatted_text_inv]) (assumption, rule emitted(2)[OF that])
      ultimately show ?thesis using lift emitted(1) by simp
    next
      case 5
      then have plain: "\<not> bracket_kind k" using bracket_name[of k] name by auto
      have o: "lex_to base ?u (open_suite ?u)" by (rule open_suite_inv[OF uinv])
      have "lex_to base ?u (emit_at k ?s ?e l c [] (open_suite ?u))"
        by (rule lex_to_step[OF o emit_plain_symbol_inv[OF _ k(1) plain]]) (use len slu in simp_all)
      moreover have "lex_to base ?u (emit_at k ?s ?e l c [] ?u)"
        using emit_plain_symbol_inv[OF uinv k(1) plain] len slu by simp
      ultimately show ?thesis using lift True 5 by (simp add: scan_symbol_def Let_def)
    qed
  qed
qed

subsection \<open>One token\<close>

lemma scan_unexpected_inv:
  assumes "lex_inv base t" "\<not> at_end t"
  shows "tok_to base t (scan_unexpected t)"
proof -
  have go: "tok_to base t (move n (lex_error code m t))" if "0 < n" "lx_pos t + n \<le> length (lx_bytes t)" for n code m
    unfolding tok_to_def
    by (rule conjI, rule lex_to_step[OF lex_error_inv[OF assms(1)] move_inv]) (use that in \<open>simp_all add: lex_error_def\<close>)
  have "0 < w \<and> lx_pos t + w \<le> length (lx_bytes t)" if "utf8_next (lx_bytes t) (lx_pos t) = Some (w, cp)" for w cp
    using utf8_next_width[OF that] by auto
  then show ?thesis
    using go assms(2) by (auto simp: scan_unexpected_def at_end_def split: option.split)
qed

lemma require_multiline_field_inv: "lex_inv base t \<Longrightarrow> lex_to base t (require_multiline_field t)"
  using error_inv lex_to_refl by (auto simp: require_multiline_field_def split: list.split)

lemma require_multiline_field_frame [simp]:
  "lx_pos (require_multiline_field t) = lx_pos t" "lx_bytes (require_multiline_field t) = lx_bytes t"
  "lx_delims (require_multiline_field t) = lx_delims t" "lx_regions (require_multiline_field t) = lx_regions t"
  "lx_pending (require_multiline_field t) = lx_pending t" "lx_raw_suite (require_multiline_field t) = lx_raw_suite t"
  "at_newline (require_multiline_field t) = at_newline t" "peek_byte (require_multiline_field t) n = peek_byte t n"
  by (simp_all add: require_multiline_field_def error_at_def at_newline_def peek_byte_def split: list.split)

lemma layout_active_frame:
  "lx_delims t' = lx_delims t \<Longrightarrow> lx_regions t' = lx_regions t \<Longrightarrow> layout_active t' = layout_active t"
  by (simp add: layout_active_def split: list.split)

lemma require_multiline_field_active [simp]: "layout_active (require_multiline_field t) = layout_active t"
  by (simp add: layout_active_def split: list.split)

text \<open>
  Between two passes of \<open>run\<close>: a pending layout pass stands at a line start, or at the end of
  the source, where the layout is active.
\<close>

definition head_ok :: "tokenizer \<Rightarrow> bool" where
  "head_ok t \<longleftrightarrow> (lx_pending t \<longrightarrow> at_end t \<or> (lx_pos t = lx_line_start t \<and> layout_active t))"

definition progress :: "tokenizer \<Rightarrow> nat" where
  "progress t = 4 * (length (lx_bytes t) - lx_pos t) + (if lx_raw_suite t then 2 else 0) + (if lx_pending t then 1 else 0)"

definition step_to :: "nat \<Rightarrow> tokenizer \<Rightarrow> tokenizer \<Rightarrow> bool" where
  "step_to base t t' \<longleftrightarrow> lex_inv base t' \<and> lx_bytes t' = lx_bytes t \<and> head_ok t' \<and> progress t' < progress t"

lemma scan_line_break_inv:
  assumes "lex_inv base t" "at_newline t" "\<not> lx_pending t"
  shows "step_to base t (scan_line_break t)"
proof -
  let ?r = "require_multiline_field t"
  define u where "u = (if layout_active ?r
    then (emit Newline (lx_pos ?r) (lx_pos ?r) ?r)\<lparr>lx_pending := True, lx_saw_asm := False\<rparr> else ?r)"
  have r: "lex_inv base ?r" using lex_to_inv[OF require_multiline_field_inv[OF assms(1)]] .
  then have u: "lex_inv base u" using lex_to_inv[OF emit_newline_inv[OF r]] by (simp add: u_def)
  have frame: "lx_pos u = lx_pos t" "lx_bytes u = lx_bytes t" "lx_delims u = lx_delims t" "lx_regions u = lx_regions t"
    "lx_raw_suite u = lx_raw_suite t" "lx_pending u \<Longrightarrow> layout_active t"
    using assms(3) by (simp_all add: u_def emit_def emit_at_def split: if_splits)
  have "peek_byte u 0 = peek_byte t 0" by (simp add: peek_byte_def frame)
  then have nl: "at_newline u" using assms(2) by (simp add: at_newline_def)
  have ok: "cursor_ok u" using u by (rule lex_invD)
  note adv = cursor_to_frame[OF cursor_to_advance_line(1)[OF ok nl]] cursor_to_advance_line(2,3)[OF ok nl]
  have "scan_line_break t = advance_line u" by (simp only: scan_line_break_def Let_def u_def)
  moreover have "lex_inv base (advance_line u)" using lex_to_inv[OF advance_line_inv[OF u nl]] .
  moreover have "head_ok (advance_line u)"
    using adv frame layout_active_frame[of "advance_line u" t] by (simp add: head_ok_def)
  moreover have "progress (advance_line u) < progress t"
  proof -
    have "lx_pos (advance_line u) \<le> length (lx_bytes t)" using adv frame by (simp add: cursor_ok_def)
    then show ?thesis using adv frame by (auto simp: progress_def)
  qed
  ultimately show ?thesis using adv frame by (simp add: step_to_def)
qed

lemma tok_to_step:
  assumes "tok_to base t t'" "\<not> lx_pending t"
  shows "step_to base t t'"
proof -
  have to: "lex_to base t t'" "lx_pos t < lx_pos t'" using assms(1) by (simp_all add: tok_to_def)
  have "lx_pos t' \<le> length (lx_bytes t)" using lex_to_len[OF to(1)] to(1) by (simp add: lex_to_def)
  with to show ?thesis using assms(2) by (auto simp: step_to_def head_ok_def progress_def lex_to_def)
qed

lemma scan_token_inv:
  assumes "lex_inv base t" "\<not> at_end t" "\<not> lx_pending t"
  shows "step_to base t (scan_token t)"
proof -
  note tok = tok_to_step[OF _ assms(3)]
  have one: "lx_pos t + 1 \<le> length (lx_bytes t)" using assms(2) by (simp add: at_end_def)
  have space: "tok_to base t (move 1 t)" using move_inv[OF assms(1) one] by (simp add: tok_to_def)
  have comment: "tok_to base t (skip_comment (require_multiline_field t))" if "peek_byte t 0 = CHR ''#''"
  proof -
    have "lx_pos (require_multiline_field t) < lx_pos (skip_comment (require_multiline_field t))"
      using assms(2) that by (intro skip_comment_progress) (simp_all add: at_end_def at_newline_def lf_def cr_def)
    then show ?thesis
      using lex_to_step[OF require_multiline_field_inv[OF assms(1)] skip_comment_inv] by (simp add: tok_to_def)
  qed
  have line: "step_to base t (scan_line_break t)" if "peek_byte t 0 = lf \<or> peek_byte t 0 = cr"
    using scan_line_break_inv[OF assms(1) _ assms(3)] that by (simp add: at_newline_def)
  have prefixed: "tok_to base t (scan_string_literal (lx_pos t) (lx_line t) (column t) (peek_byte t 0) t)"
    if "peek_byte t 0 = CHR ''f'' \<or> peek_byte t 0 = CHR ''r'' \<or> peek_byte t 0 = CHR ''b''" "peek_byte t 1 = dquote"
    by (rule scan_string_literal_inv[OF assms(1)]) (use that in \<open>auto simp: nul_def\<close>)
  have plain: "tok_to base t (scan_string_literal (lx_pos t) (lx_line t) (column t) nul t)" if "peek_byte t 0 = dquote"
    by (rule scan_string_literal_inv[OF assms(1)]) (use that in auto)
  have under: "tok_to base t (emit_at Underscore (lx_pos t) (lx_pos t + 1) l c [] (move 1 t))" for l c
    by (rule tok_to_after[OF move_inv[OF assms(1) one] _ emit_span_inv]) (use one in auto)
  have symbol: "tok_to base t (scan_symbol (lx_pos t) (lx_line t) (column t) (match_symbol t) t)" if "0 < snd (match_symbol t)"
    using scan_symbol_inv[OF assms(1), of "fst (match_symbol t)" "snd (match_symbol t)"] that by simp
  show ?thesis
    unfolding scan_token_def Let_def
    using tok[OF space] tok[OF comment] line tok[OF prefixed] tok[OF plain] tok[OF under, of "lx_line t" "column t"]
      tok[OF symbol] tok[OF scan_word_inv[OF assms(1,2)]] tok[OF scan_character_inv[OF assms(1,2)]]
      tok[OF scan_number_inv[OF assms(1)]] tok[OF scan_unexpected_inv[OF assms(1,2)]]
    by (simp only: split: if_split) (simp only: lx_move; blast)
qed

subsection \<open>The loop of \<open>run\<close>\<close>

lemma scan_line_start_inv:
  assumes "lex_inv base t" "head_ok t" "\<not> at_end t" "lx_pending t" "layout_active t"
  shows "\<exists>t'. scan_line_start t = Some t' \<and> step_to base t t'"
proof (cases "lx_raw_suite t")
  case True
  have "raw_head t" using assms(2-4) by (simp add: head_ok_def raw_head_def)
  then obtain t' where t': "scan_raw_line_start t = Some t'" "raw_result base t t'"
    using scan_raw_line_start_inv[OF assms(1)] by blast
  then have "step_to base t t'"
    using True assms(4,5) layout_active_frame[of t' t] by (auto simp: step_to_def raw_result_def head_ok_def progress_def)
  with t'(1) True show ?thesis by (simp add: scan_line_start_def)
next
  case False
  have "step_to base t (scan_layout_lines t)"
    using scan_layout_lines_inv[OF assms(1)] assms(3,4) False
    by (auto simp: step_to_def head_ok_def progress_def at_end_def)
  with False show ?thesis by (simp add: scan_line_start_def)
qed

lemma lex_step_inv:
  assumes "lex_inv base t" "head_ok t" "\<not> at_end t"
  shows "\<exists>t'. lex_step t = Some t' \<and> step_to base t t'"
proof (cases "lx_pending t \<and> layout_active t")
  case True
  then show ?thesis using scan_line_start_inv[OF assms] by (simp add: lex_step_def)
next
  case False
  then have "\<not> lx_pending t" using assms(2,3) by (auto simp: head_ok_def)
  then show ?thesis using scan_token_inv[OF assms(1,3)] False by (simp add: lex_step_def)
qed

lemma run_loop_inv:
  "lex_inv base t \<Longrightarrow> head_ok t \<Longrightarrow> \<exists>t'. run_loop t = Some t' \<and> lex_inv base t' \<and> lx_bytes t' = lx_bytes t"
proof (induction "progress t" arbitrary: t rule: less_induct)
  case less
  show ?case
  proof (cases "at_end t")
    case True
    then show ?thesis using less.prems by (subst run_loop.simps) simp
  next
    case False
    obtain u where u: "lex_step t = Some u" "step_to base t u"
      using lex_step_inv[OF less.prems False] by blast
    then have inv: "lex_inv base u" "head_ok u" "lx_bytes u = lx_bytes t" "progress u < progress t"
      by (simp_all add: step_to_def)
    show ?thesis
    proof (cases "1000000 < length (lx_tokens u)")
      case True
      then have "run_loop t = Some (lex_error ''lucb.lex.limit'' ''too many tokens'' u)"
        using False u(1) by (subst run_loop.simps) simp
      with lex_error_inv[OF inv(1)] inv(3) show ?thesis by (simp add: lex_to_def)
    next
      case small: False
      then have "run_loop t = run_loop u" using False u(1) by (subst run_loop.simps) simp
      with less.hyps[OF inv(4,1,2)] inv(3) show ?thesis by simp
    qed
  qed
qed

text \<open>What \<open>finish\<close> leaves: a stream whose suites are closed, then the end of file.\<close>

definition stream_ok :: "nat \<Rightarrow> bytes \<Rightarrow> token list \<Rightarrow> diagnostic_bag \<Rightarrow> bool" where
  "stream_ok base bs toks bag \<longleftrightarrow>
     layout_depth toks = Some 0 \<and> (\<forall>tok \<in> set toks. token_fits bs tok) \<and>
     base \<le> bag_count bag \<and> (bag_count bag = base \<longrightarrow> bracket_stack toks = Some []) \<and>
     toks \<noteq> [] \<and> tok_kind (last toks) = EndOfFile \<and> (\<forall>tok \<in> set (butlast toks). tok_kind tok \<noteq> EndOfFile)"

lemma finish_inv:
  assumes "lex_inv base t"
  shows "stream_ok base (lx_bytes t) (lx_tokens (finish t)) (lx_diags (finish t))"
proof -
  define u where "u = (case lx_formatted t of
         [] \<Rightarrow> t
       | mode # _ \<Rightarrow>
           if 0 < lx_close_line t then
             error_at (lx_close_line t) (lx_close_column t) (lx_pos t) ''lucb.lex.string''
               ''formatted string interpolation cannot close inside a comment'' t
           else error_at (mode_line mode) (mode_column mode) (lx_pos t) ''lucb.lex.string''
               ''unterminated formatted string interpolation'' t)"
  define v where "v = (if lx_delims u \<noteq> [] \<and> lx_formatted u = [] then
         lex_error ''lucb.lex.delimiter'' ''unclosed delimiter'' u else u)"
  define w where "w = (if lx_tokens v \<noteq> [] \<and> tok_kind (last (lx_tokens v)) \<notin> {Newline, Indent, Dedent, DocComment, RawLine}
       then emit Newline (lx_pos v) (lx_pos v) v else v)"
  define x where "x = dedent_to 0 w"
  have u: "lex_to base t u"
    unfolding u_def using error_inv[OF assms] lex_to_refl[OF assms] by (simp split: list.split)
  have v: "lex_to base t v" unfolding v_def using u lex_to_step[OF u lex_error_inv] by simp
  have w: "lex_to base t w" unfolding w_def using v lex_to_step[OF v emit_newline_inv] by simp
  have x: "lex_to base t x" unfolding x_def by (rule lex_to_step[OF w dedent_to_inv]) simp_all
  have base: "base \<le> bag_count (lx_diags u)" "base \<le> bag_count (lx_diags t)"
    using u assms by (simp_all add: lex_to_def lex_inv_def brackets_ok_def)
  have err: "base < bag_count (lx_diags u)" if "lx_formatted t \<noteq> []"
    using that base(2) by (cases "lx_formatted t") (auto simp: u_def)
  have same: "lx_formatted u = lx_formatted t" "lx_delims u = lx_delims t"
    by (simp_all add: u_def error_at_def split: list.split)
  have clean: "lx_delims x = []" if "bag_count (lx_diags x) = base"
  proof -
    have "bag_count (lx_diags v) = base" "lx_delims x = lx_delims v"
      using that by (simp_all add: x_def w_def emit_def emit_at_def split: if_splits)
    then show ?thesis using err base same
      by (cases "lx_delims t = []"; cases "lx_formatted t = []") (auto simp: v_def lex_error_def error_at_def split: if_splits)
  qed
  have "lx_indent x = 0"
    unfolding x_def using lex_to_inv[OF w] by (intro dedent_to_indent) (simp_all add: lex_inv_def layout_ok_def)
  then have depth: "layout_depth (lx_tokens x) = Some 0"
    using lex_to_inv[OF x] by (simp add: lex_inv_def layout_ok_def)
  have eq: "finish t = emit EndOfFile (lx_pos x) (lx_pos x) x"
    by (simp only: finish_def Let_def u_def v_def w_def x_def)
  have bs: "lx_bytes x = lx_bytes t" using x by (simp add: lex_to_def)
  have fits: "token_fits (lx_bytes t) \<lparr>tok_kind = EndOfFile, tok_span = \<lparr>span_start = lx_pos x, span_end = lx_pos x,
      span_line = l, span_column = c\<rparr>, tok_text = [], tok_suffix = []\<rparr>" for l c
    using lex_to_len[OF x] bs other_kinds by (auto simp: token_fits_def)
  have brackets: "brackets_ok base x" and toks: "tokens_ok x"
    using lex_to_inv[OF x] by (simp_all add: lex_inv_def)
  show ?thesis
    using depth fits brackets clean toks bs
    by (auto simp: eq stream_ok_def emit_def emit_at_def layout_depth_snoc bracket_stack_snoc depth_step_def
        bracket_step_def brackets_ok_def tokens_ok_def)
qed

subsection \<open>Starting from a loaded source\<close>

definition cr_followed :: "bytes \<Rightarrow> bool" where
  "cr_followed bs \<longleftrightarrow> (\<forall>i < length bs. bs ! i = cr \<longrightarrow> i + 1 < length bs \<and> bs ! (i + 1) = lf)"

lemma cr_followed_append: "cr \<notin> set xs \<Longrightarrow> cr_followed ys \<Longrightarrow> cr_followed (xs @ ys)"
  by (auto simp: cr_followed_def nth_append in_set_conv_nth)
    (metis Suc_diff_le Suc_lessD add_diff_inverse_nat leI less_diff_conv2 nat_add_left_cancel_less add_Suc_right)+

lemma cr_followed_crlf: "cr_followed ys \<Longrightarrow> cr_followed (cr # lf # ys)"
proof -
  assume ys: "cr_followed ys"
  have "cr_followed (lf # ys)" using cr_followed_append[of "[lf]" ys] ys by (simp add: lf_def cr_def)
  then show ?thesis by (auto simp: cr_followed_def nth_Cons split: nat.splits)
qed

lemma utf8_encode_no_cr: "scalar_value c \<Longrightarrow> c \<noteq> 13 \<Longrightarrow> cr \<notin> set (utf8_encode c)"
  using utf8_encode_bytes[of c cr] by (auto simp: cr_def split: if_splits)

lemma crs_paired_bytes:
  "list_all scalar_value cps \<Longrightarrow> crs_paired cps \<Longrightarrow> cr_followed (concat (map utf8_encode cps))"
proof (induction cps rule: length_induct)
  case (1 cps)
  show ?case
  proof (cases cps)
    case Nil
    then show ?thesis by (simp add: cr_followed_def)
  next
    case (Cons c cs)
    show ?thesis
    proof (cases "c = 13")
      case True
      then obtain cs' where "cs = 10 # cs'" using 1 Cons by (cases cs) auto
      with True Cons 1 show ?thesis by (simp add: cr_followed_crlf)
    next
      case False
      then have "cr \<notin> set (utf8_encode c)" using 1 Cons by (simp add: utf8_encode_no_cr)
      with 1 Cons show ?thesis by (simp add: cr_followed_append)
    qed
  qed
qed

lemma has_utf8_bom_no_cr:
  assumes "has_utf8_bom s"
  shows "cr \<notin> set (take 3 s)"
proof
  assume "cr \<in> set (take 3 s)"
  then have "byte_value cr \<in> set (map byte_value (take 3 s))" by simp
  with assms show False by (simp add: has_utf8_bom_def cr_def)
qed

lemma loaded_cr_followed:
  assumes "src_ok (fst (from_bytes path s bag))"
  shows "cr_followed s"
proof -
  let ?n = "if has_utf8_bom s then 3 else 0 :: nat"
  obtain cps where c: "list_all admissible cps" "crs_paired cps" "drop ?n s = concat (map utf8_encode cps)"
    using assms from_bytes_ok_iff[of path s bag] by (auto simp: admitted_text_def)
  then have "cr_followed (drop ?n s)"
    using crs_paired_bytes admissible_scalar by (metis (no_types, lifting) list_all_iff)
  moreover have "cr \<notin> set (take ?n s)" using has_utf8_bom_no_cr by simp
  ultimately show ?thesis using cr_followed_append[of "take ?n s" "drop ?n s"] by simp
qed

lemma scan_start_le: "scan_start (fst (from_bytes path s bag)) \<le> length s"
  by (auto simp: from_bytes_def Let_def has_utf8_bom_def split: option.splits prod.splits)

lemma new_tokenizer_inv:
  assumes "src_ok (fst (from_bytes path s bag0))"
  shows "lex_inv (bag_count bag) (new_tokenizer (fst (from_bytes path s bag0)) bag)"
    and "head_ok (new_tokenizer (fst (from_bytes path s bag0)) bag)"
  using loaded_cr_followed[OF assms] scan_start_le[of path s bag0]
  by (auto simp: lex_inv_def cursor_ok_def layout_ok_def tokens_ok_def brackets_ok_def fields_ok_def new_tokenizer_def
      layout_depth_def bracket_stack_def from_bytes_fields cr_followed_def head_ok_def layout_active_def)

text \<open>Every loaded source, accepted or refused, is tokenized into a well-formed stream.\<close>

lemma tokenize_stream:
  "\<exists>toks bag'. tokenize (fst (from_bytes path s bag0)) bag = Some (toks, bag') \<and> stream_ok (bag_count bag) s toks bag'"
proof (cases "src_ok (fst (from_bytes path s bag0))")
  case True
  define t where "t = new_tokenizer (fst (from_bytes path s bag0)) bag"
  note start = new_tokenizer_inv[OF True, of bag, folded t_def]
  obtain t' where t': "run_loop t = Some t'" "lex_inv (bag_count bag) t'" "lx_bytes t' = lx_bytes t"
    using run_loop_inv[OF start] by blast
  have "lx_bytes t = s" by (simp add: t_def new_tokenizer_def from_bytes_fields)
  then have "stream_ok (bag_count bag) s (lx_tokens (finish t')) (lx_diags (finish t'))"
    using finish_inv[OF t'(2)] t'(3) by simp
  then show ?thesis using True t'(1) by (simp add: tokenize_def Let_def t_def)
next
  case False
  then show ?thesis
    using scan_start_le[of path s bag0] other_kinds
    by (auto simp: tokenize_def Let_def emit_def emit_at_def stream_ok_def new_tokenizer_def layout_depth_def
        bracket_stack_def depth_step_def bracket_step_def token_fits_def from_bytes_fields)
qed

lemma tokenize_cases:
  obtains toks bag' where "tokenize (fst (from_bytes path s bag0)) bag = Some (toks, bag')"
    "stream_ok (bag_count bag) s toks bag'"
  using tokenize_stream by blast

subsection \<open>Properties\<close>

text \<open>
  C1: the tokenizer returns on every loaded source, whatever its bytes: its loops over raw suites,
  lines and tokens always end, and the stream it returns ends in exactly one end-of-file token.
\<close>

theorem tokenize_returns:
  "\<exists>toks eof bag'. tokenize (fst (from_bytes path s bag0)) bag = Some (toks @ [eof], bag') \<and>
     tok_kind eof = EndOfFile \<and> EndOfFile \<notin> tok_kind ` set toks"
proof -
  obtain toks bag' where t: "tokenize (fst (from_bytes path s bag0)) bag = Some (toks, bag')" "stream_ok (bag_count bag) s toks bag'"
    by (rule tokenize_cases)
  then have "toks = butlast toks @ [last toks]" "tok_kind (last toks) = EndOfFile" "EndOfFile \<notin> tok_kind ` set (butlast toks)"
    by (auto simp: stream_ok_def)
  with t(1) show ?thesis by metis
qed

text \<open>
  C12: layout is balanced in every stream: no dedent comes before its indent, and every suite that is
  opened is closed before the end of file, for every loaded source, erroneous ones included.
\<close>

theorem tokenize_layout_balanced:
  "case tokenize (fst (from_bytes path s bag0)) bag of None \<Rightarrow> False | Some (toks, bag') \<Rightarrow> layout_depth toks = Some 0"
  by (rule tokenize_cases[of path s bag0 bag]) (simp add: stream_ok_def)

text \<open>
  C13: every token lies within the source, its text is the bytes of its span, keywords and symbols
  are spelled as their kind is printed, and layout tokens are empty.
\<close>

theorem tokenize_spans:
  "case tokenize (fst (from_bytes path s bag0)) bag of None \<Rightarrow> False | Some (toks, bag') \<Rightarrow> list_all (token_fits s) toks"
  by (rule tokenize_cases[of path s bag0 bag]) (simp add: stream_ok_def list_all_iff)

text \<open>
  C3: a stream tokenized without an error has its parentheses, brackets and braces properly
  nested and all closed, those of the fields of formatted strings included.
\<close>

theorem tokenize_brackets_nested:
  "case tokenize (fst (from_bytes path s bag0)) bag of None \<Rightarrow> False
   | Some (toks, bag') \<Rightarrow>
       bag_count bag < bag_count bag' \<or> (bag_count bag' = bag_count bag \<and> bracket_stack toks = Some [])"
  by (rule tokenize_cases[of path s bag0 bag]) (auto simp: stream_ok_def)

end
