(* ===== verification/Ast.thy ===== *)
theory Ast
  imports Source Token
begin

section \<open>The syntax tree\<close>

text \<open>
  \<open>src/parse/ast.h\<close> and \<open>src/parse/ast.cpp\<close>: the kinds and flags of nodes, the node itself,
  source positions as the runtime reports them, and the s-expression behind \<open>lucb dump\<close>.
  A child pointer of a node is the list of the siblings it heads, \<open>[]\<close> for \<open>nullptr\<close>: a field
  that holds one node is a list of at most one. What the parser assigns through a pointer it has
  just made is an update of the value; the fields the checker and the interpreter fill in
  (\<open>ty\<close>, \<open>resolved\<close>, \<open>module\<close>, \<open>cached\<close>, \<open>evaluation_order\<close>) belong to those passes.
\<close>

datatype (plugins only: code size) node_kind =
  NModule | NImport | NFromImport | NFunc | NStruct | NEnum | NUnion | NInterface |
  NTypeAlias | NConst | NGlobal | NTest | NExternFunc | NExternType | NExternVar |
  NExternStruct | NExternUnion | NExtend | NAssert | NAsm | NField | NEnumCase | NParam |
  NGenericParam | NAttr | NBlock | NLet | NVar | NAssign | NIf | NWhile | NFor | NMatch |
  NMatchArm | NReturn | NBreak | NContinue | NDefer | NErrdefer | NRecover | NFree | NWith |
  NExprStmt | NName | NSelf | NLiteral | NUnary | NPropagate | NBinary | NCall | NMember |
  NIndex | NSlice | NTuple | NArrayLit | NGroup | NLambda | NConditional | NElse | NCatch |
  NCast | NCaseValue | NFormatted | NFormatText | NFormatField | NNew | NAlloc | NSpanMake |
  NMatchExpr | NUnit | NType | NPattern

primrec node_kind_name :: "node_kind \<Rightarrow> string" where
  "node_kind_name NModule = ''module''"
| "node_kind_name NImport = ''import''"
| "node_kind_name NFromImport = ''from''"
| "node_kind_name NFunc = ''func''"
| "node_kind_name NStruct = ''struct''"
| "node_kind_name NEnum = ''enum''"
| "node_kind_name NUnion = ''union''"
| "node_kind_name NInterface = ''interface''"
| "node_kind_name NTypeAlias = ''alias''"
| "node_kind_name NConst = ''const''"
| "node_kind_name NGlobal = ''global''"
| "node_kind_name NTest = ''test''"
| "node_kind_name NExternFunc = ''extern_func''"
| "node_kind_name NExternType = ''extern_type''"
| "node_kind_name NExternVar = ''extern_var''"
| "node_kind_name NExternStruct = ''extern_struct''"
| "node_kind_name NExternUnion = ''extern_union''"
| "node_kind_name NExtend = ''extend''"
| "node_kind_name NAssert = ''assert''"
| "node_kind_name NAsm = ''asm''"
| "node_kind_name NField = ''field''"
| "node_kind_name NEnumCase = ''case''"
| "node_kind_name NParam = ''param''"
| "node_kind_name NGenericParam = ''generic''"
| "node_kind_name NAttr = ''attr''"
| "node_kind_name NBlock = ''block''"
| "node_kind_name NLet = ''let''"
| "node_kind_name NVar = ''var''"
| "node_kind_name NAssign = ''assign''"
| "node_kind_name NIf = ''if''"
| "node_kind_name NWhile = ''while''"
| "node_kind_name NFor = ''for''"
| "node_kind_name NMatch = ''match''"
| "node_kind_name NMatchArm = ''arm''"
| "node_kind_name NReturn = ''return''"
| "node_kind_name NBreak = ''break''"
| "node_kind_name NContinue = ''continue''"
| "node_kind_name NDefer = ''defer''"
| "node_kind_name NErrdefer = ''errdefer''"
| "node_kind_name NRecover = ''recover''"
| "node_kind_name NFree = ''free''"
| "node_kind_name NWith = ''with''"
| "node_kind_name NExprStmt = ''expr''"
| "node_kind_name NName = ''name''"
| "node_kind_name NSelf = ''self''"
| "node_kind_name NLiteral = ''lit''"
| "node_kind_name NUnary = ''unary''"
| "node_kind_name NPropagate = ''unary''"
| "node_kind_name NBinary = ''binary''"
| "node_kind_name NCall = ''call''"
| "node_kind_name NMember = ''member''"
| "node_kind_name NIndex = ''index''"
| "node_kind_name NSlice = ''slice''"
| "node_kind_name NTuple = ''tuple''"
| "node_kind_name NArrayLit = ''array''"
| "node_kind_name NGroup = ''group''"
| "node_kind_name NLambda = ''lambda''"
| "node_kind_name NConditional = ''cond''"
| "node_kind_name NElse = ''else''"
| "node_kind_name NCatch = ''catch''"
| "node_kind_name NCast = ''cast''"
| "node_kind_name NCaseValue = ''caseval''"
| "node_kind_name NFormatted = ''fmt''"
| "node_kind_name NFormatText = ''fmt_text''"
| "node_kind_name NFormatField = ''fmt_field''"
| "node_kind_name NNew = ''new''"
| "node_kind_name NAlloc = ''alloc''"
| "node_kind_name NSpanMake = ''span''"
| "node_kind_name NMatchExpr = ''match_expr''"
| "node_kind_name NUnit = ''unit''"
| "node_kind_name NType = ''type''"
| "node_kind_name NPattern = ''pat''"

definition FlagPub :: "64 word" where "FlagPub = push_bit 0 1"
definition FlagMutating :: "64 word" where "FlagMutating = push_bit 1 1"
definition FlagStatic :: "64 word" where "FlagStatic = push_bit 2 1"
definition FlagExport :: "64 word" where "FlagExport = push_bit 3 1"
definition FlagPacked :: "64 word" where "FlagPacked = push_bit 4 1"
definition FlagThreadLocal :: "64 word" where "FlagThreadLocal = push_bit 5 1"
definition FlagUninit :: "64 word" where "FlagUninit = push_bit 6 1"
definition FlagConst :: "64 word" where "FlagConst = push_bit 7 1"
definition FlagVolatile :: "64 word" where "FlagVolatile = push_bit 8 1"
definition FlagAtomic :: "64 word" where "FlagAtomic = push_bit 9 1"
definition FlagOptional :: "64 word" where "FlagOptional = push_bit 10 1"
definition FlagFallible :: "64 word" where "FlagFallible = push_bit 11 1"
definition FlagByPtr :: "64 word" where "FlagByPtr = push_bit 12 1"
definition FlagNoalias :: "64 word" where "FlagNoalias = push_bit 13 1"
definition FlagOut :: "64 word" where "FlagOut = push_bit 14 1"
definition FlagBlocking :: "64 word" where "FlagBlocking = push_bit 15 1"
definition FlagVariadic :: "64 word" where "FlagVariadic = push_bit 16 1"
definition FlagStar :: "64 word" where "FlagStar = push_bit 17 1"
definition FlagSpan :: "64 word" where "FlagSpan = push_bit 18 1"
definition FlagArray :: "64 word" where "FlagArray = push_bit 19 1"
definition FlagFuncType :: "64 word" where "FlagFuncType = push_bit 20 1"
definition FlagVoid :: "64 word" where "FlagVoid = push_bit 21 1"
definition FlagTupleType :: "64 word" where "FlagTupleType = push_bit 22 1"
definition FlagIfLet :: "64 word" where "FlagIfLet = push_bit 23 1"
definition FlagInline :: "64 word" where "FlagInline = push_bit 24 1"
definition FlagNoinline :: "64 word" where "FlagNoinline = push_bit 25 1"
definition FlagCold :: "64 word" where "FlagCold = push_bit 26 1"
definition FlagNaked :: "64 word" where "FlagNaked = push_bit 27 1"
definition FlagUsed :: "64 word" where "FlagUsed = push_bit 28 1"
definition FlagWeakAttr :: "64 word" where "FlagWeakAttr = push_bit 29 1"
definition FlagBuiltin :: "64 word" where "FlagBuiltin = push_bit 30 1"
definition FlagLiteralCached :: "64 word" where "FlagLiteralCached = push_bit 31 1"
definition FlagLocal :: "64 word" where "FlagLocal = push_bit 30 1"
definition FlagImportUsed :: "64 word" where "FlagImportUsed = push_bit 31 1"
definition FlagUnused :: "64 word" where "FlagUnused = push_bit 32 1"
definition FlagReferenced :: "64 word" where "FlagReferenced = push_bit 33 1"
definition FlagFormatSink :: "64 word" where "FlagFormatSink = push_bit 34 1"
definition FlagIndexed :: "64 word" where "FlagIndexed = push_bit 36 1"
definition FlagPackageCode :: "64 word" where "FlagPackageCode = push_bit 35 1"
definition FlagVectorSplat :: "64 word" where "FlagVectorSplat = push_bit 37 1"
definition FlagIntrinsic :: "64 word" where "FlagIntrinsic = push_bit 38 1"
definition FlagDropped :: "64 word" where "FlagDropped = push_bit 39 1"

datatype (plugins only: code size) node =
  Node (n_kind: node_kind) (n_span: span) (n_text: bytes) (n_op: token_kind) (n_flags: "64 word")
    (n_left: "node list") (n_right: "node list") (n_body: "node list") (n_type: "node list")
    (n_label: bytes) (n_attrs: "node list") (n_directives: "directive list")

text \<open>\<open>Parser::make\<close>: a fresh node of a kind at a span, every other field as declared.\<close>

definition mk :: "node_kind \<Rightarrow> span \<Rightarrow> node" where
  "mk kind sp = Node kind sp [] EndOfFile 0 [] [] [] [] [] [] []"

text \<open>The assignments \<open>n->field = value\<close>.\<close>

primrec set_kind :: "node_kind \<Rightarrow> node \<Rightarrow> node" where
  "set_kind v (Node k sp tx op fl l r b ty lb at ds) = Node v sp tx op fl l r b ty lb at ds"
primrec set_span :: "span \<Rightarrow> node \<Rightarrow> node" where
  "set_span v (Node k sp tx op fl l r b ty lb at ds) = Node k v tx op fl l r b ty lb at ds"
primrec set_text :: "bytes \<Rightarrow> node \<Rightarrow> node" where
  "set_text v (Node k sp tx op fl l r b ty lb at ds) = Node k sp v op fl l r b ty lb at ds"
primrec set_op :: "token_kind \<Rightarrow> node \<Rightarrow> node" where
  "set_op v (Node k sp tx op fl l r b ty lb at ds) = Node k sp tx v fl l r b ty lb at ds"
primrec set_flags :: "64 word \<Rightarrow> node \<Rightarrow> node" where
  "set_flags v (Node k sp tx op fl l r b ty lb at ds) = Node k sp tx op v l r b ty lb at ds"
primrec set_left :: "node list \<Rightarrow> node \<Rightarrow> node" where
  "set_left v (Node k sp tx op fl l r b ty lb at ds) = Node k sp tx op fl v r b ty lb at ds"
primrec set_right :: "node list \<Rightarrow> node \<Rightarrow> node" where
  "set_right v (Node k sp tx op fl l r b ty lb at ds) = Node k sp tx op fl l v b ty lb at ds"
primrec set_body :: "node list \<Rightarrow> node \<Rightarrow> node" where
  "set_body v (Node k sp tx op fl l r b ty lb at ds) = Node k sp tx op fl l r v ty lb at ds"
primrec set_type :: "node list \<Rightarrow> node \<Rightarrow> node" where
  "set_type v (Node k sp tx op fl l r b ty lb at ds) = Node k sp tx op fl l r b v lb at ds"
primrec set_label :: "bytes \<Rightarrow> node \<Rightarrow> node" where
  "set_label v (Node k sp tx op fl l r b ty lb at ds) = Node k sp tx op fl l r b ty v at ds"
primrec set_attrs :: "node list \<Rightarrow> node \<Rightarrow> node" where
  "set_attrs v (Node k sp tx op fl l r b ty lb at ds) = Node k sp tx op fl l r b ty lb v ds"
primrec set_directives :: "directive list \<Rightarrow> node \<Rightarrow> node" where
  "set_directives v (Node k sp tx op fl l r b ty lb at ds) = Node k sp tx op fl l r b ty lb at v"

text \<open>\<open>n->flags |= f\<close>.\<close>

definition add_flags :: "64 word \<Rightarrow> node \<Rightarrow> node" where
  "add_flags f n = set_flags (n_flags n OR f) n"

definition has_flag :: "64 word \<Rightarrow> 64 word \<Rightarrow> bool" where
  "has_flag flags f \<longleftrightarrow> flags AND f \<noteq> 0"

text \<open>
  A single node as a pointer, and \<open>append_node\<close>: \<open>nullptr\<close> appends nothing. \<open>ListTails\<close>, the
  builder's shortcut to the last sibling, is the theory of that name.
\<close>

definition opt_node :: "node option \<Rightarrow> node list" where
  "opt_node x = (case x of None \<Rightarrow> [] | Some n \<Rightarrow> [n])"

definition append_node :: "node list \<Rightarrow> node option \<Rightarrow> node list" where
  "append_node xs item = xs @ opt_node item"

definition node_list_count :: "node list \<Rightarrow> nat" where
  "node_list_count xs = length xs"

definition is_intrinsic :: "node list \<Rightarrow> bytes \<Rightarrow> bool" where
  "is_intrinsic callee name =
     (case callee of [] \<Rightarrow> False
      | n # _ \<Rightarrow> n_kind n = NName \<and> has_flag (n_flags n) FlagIntrinsic \<and> n_text n = name)"

subsection \<open>Positions\<close>

record source_place =
  place_file :: string
  place_line :: nat

fun last_fragment :: "directive list \<Rightarrow> nat \<Rightarrow> directive option \<Rightarrow> directive option" where
  "last_fragment [] line found = found"
| "last_fragment (d # ds) line found =
     last_fragment ds line (if dir_fragment d \<and> dir_base_line d \<le> line then Some d else found)"

definition fragment_place :: "node option \<Rightarrow> nat \<Rightarrow> source_place" where
  "fragment_place m line =
     (case m of
        None \<Rightarrow> \<lparr>place_file = ''t.lucb'', place_line = line\<rparr>
      | Some n \<Rightarrow>
          let file = (if n_left n \<noteq> [] \<and> n_text (hd (n_left n)) \<noteq> [] then n_text (hd (n_left n))
                      else if n_text n \<noteq> [] then n_text n else ''t.lucb'')
          in (case last_fragment (n_directives n) line None of
                None \<Rightarrow> \<lparr>place_file = file, place_line = line\<rparr>
              | Some d \<Rightarrow> \<lparr>place_file = dir_file d, place_line = relative_line line (dir_base_line d)\<rparr>))"

fun reaching_directive :: "directive list \<Rightarrow> nat \<Rightarrow> directive option \<Rightarrow> directive option" where
  "reaching_directive [] line found = found"
| "reaching_directive (d # ds) line found =
     reaching_directive ds line
       (if dir_base_line d \<le> line then if dir_fragment d then None else Some d else found)"

definition position_text :: "node option \<Rightarrow> nat \<Rightarrow> nat \<Rightarrow> string" where
  "position_text m line col =
     (let place = fragment_place m line;
          own = place_file place @ '':'' @ to_string_nat (place_line place) @ '':'' @ to_string_nat col
      in case m of None \<Rightarrow> own
         | Some n \<Rightarrow>
             (case reaching_directive (n_directives n) line None of None \<Rightarrow> own
              | Some d \<Rightarrow>
                  if dir_file d \<noteq> []
                  then dir_file d @ '':'' @ to_string_nat (dir_line d) @ '':'' @ to_string_nat (dir_column d)
                  else own))"

subsection \<open>The s-expression\<close>

definition dump_flags :: "64 word \<Rightarrow> string" where
  "dump_flags f =
     (if has_flag f FlagPub then '' pub'' else []) @
     (if has_flag f FlagExport then '' export'' else []) @
     (if has_flag f FlagStatic then '' static'' else []) @
     (if has_flag f FlagMutating then '' mutating'' else []) @
     (if has_flag f FlagThreadLocal then '' local'' else []) @
     (if has_flag f FlagPacked then '' packed'' else []) @
     (if has_flag f FlagUninit then '' uninit'' else []) @
     (if has_flag f FlagByPtr then '' byptr'' else []) @
     (if has_flag f FlagIfLet then '' iflet'' else []) @
     (if has_flag f FlagVariadic then '' variadic'' else []) @
     (if has_flag f FlagBlocking then '' blocking'' else [])"

definition quote :: "bytes \<Rightarrow> string" where
  "quote t = [dquote] @ t @ [dquote]"

definition dump_head :: "node \<Rightarrow> string" where
  "dump_head n =
     ''('' @ node_kind_name (n_kind n) @ dump_flags (n_flags n) @
     (if n_text n \<noteq> [] then '' '' @ quote (n_text n) else []) @
     (if n_label n \<noteq> [] then '' label='' @ quote (n_label n) else []) @
     (if n_op n \<noteq> EndOfFile \<and> n_kind n \<noteq> NLiteral then '' '' @ token_kind_name (n_op n) else []) @
     (if n_kind n = NLiteral then '' '' @ token_kind_name (n_op n) else [])"

definition listed_kinds :: "node_kind list" where
  "listed_kinds = [NModule, NBlock, NTuple, NArrayLit, NFormatted]"

text \<open>
  What stands between the head and the closing parenthesis, from the dumps of the children:
  \<open>dump(n->left)\<close> prints the first sibling only, \<open>dump_list\<close> all of them.
\<close>

definition dump_list :: "string list \<Rightarrow> string" where
  "dump_list ds = concat (map (\<lambda>d. '' '' @ d) ds)"

definition dump_children ::
  "node_kind \<Rightarrow> string list \<Rightarrow> string list \<Rightarrow> string list \<Rightarrow> string list \<Rightarrow> string" where
  "dump_children k l r b ty =
     (if k \<in> set listed_kinds then dump_list b
      else if k = NFunc \<or> k = NExternFunc then
        (if l \<noteq> [] then '' (generics'' @ dump_list l @ '')'' else []) @
        '' (params'' @ dump_list r @ '')'' @
        (if ty \<noteq> [] then '' (result '' @ hd ty @ '')'' else []) @
        (if b \<noteq> [] then '' '' @ hd b else [])
      else if k = NLambda then
        '' (params'' @ dump_list r @ '')'' @ (if b \<noteq> [] then '' '' @ hd b else [])
      else if k = NStruct \<or> k = NEnum \<or> k = NUnion \<or> k = NInterface then
        (if l \<noteq> [] then '' (generics'' @ dump_list l @ '')'' else []) @
        (if r \<noteq> [] then '' (extra '' @ hd r @ '')'' else []) @ dump_list b
      else
        (if ty \<noteq> [] then '' (type '' @ hd ty @ '')'' else []) @
        (if l \<noteq> [] then '' '' @ hd l else []) @
        (if r \<noteq> [] then '' '' @ hd r else []) @
        (if b \<noteq> [] then
           (if tl b \<noteq> [] \<or> k = NCall \<or> k = NFromImport \<or> k = NMatch
            then '' (list'' @ dump_list b @ '')'' else '' '' @ hd b)
         else []))"

fun dump_tree :: "node \<Rightarrow> string" where
  "dump_tree (Node k sp tx op fl l r b ty lb at ds) =
     dump_head (Node k sp tx op fl l r b ty lb at ds) @
     dump_children k (map dump_tree l) (map dump_tree r) (map dump_tree b) (map dump_tree ty) @ '')''"

subsection \<open>Fields after an assignment\<close>

lemma mk_fields [simp]:
  "n_kind (mk k sp) = k" "n_span (mk k sp) = sp" "n_text (mk k sp) = []"
  "n_op (mk k sp) = EndOfFile" "n_flags (mk k sp) = 0" "n_left (mk k sp) = []"
  "n_right (mk k sp) = []" "n_body (mk k sp) = []" "n_type (mk k sp) = []"
  "n_label (mk k sp) = []" "n_attrs (mk k sp) = []" "n_directives (mk k sp) = []"
  by (simp_all add: mk_def)

lemma set_kind_fields [simp]:
  "n_kind (set_kind v n) = v" "n_span (set_kind v n) = n_span n"
  "n_text (set_kind v n) = n_text n" "n_op (set_kind v n) = n_op n"
  "n_flags (set_kind v n) = n_flags n" "n_left (set_kind v n) = n_left n"
  "n_right (set_kind v n) = n_right n" "n_body (set_kind v n) = n_body n"
  "n_type (set_kind v n) = n_type n" "n_label (set_kind v n) = n_label n"
  "n_attrs (set_kind v n) = n_attrs n" "n_directives (set_kind v n) = n_directives n"
  by (cases n; simp)+

lemma set_span_fields [simp]:
  "n_kind (set_span v n) = n_kind n" "n_span (set_span v n) = v"
  "n_text (set_span v n) = n_text n" "n_op (set_span v n) = n_op n"
  "n_flags (set_span v n) = n_flags n" "n_left (set_span v n) = n_left n"
  "n_right (set_span v n) = n_right n" "n_body (set_span v n) = n_body n"
  "n_type (set_span v n) = n_type n" "n_label (set_span v n) = n_label n"
  "n_attrs (set_span v n) = n_attrs n" "n_directives (set_span v n) = n_directives n"
  by (cases n; simp)+

lemma set_text_fields [simp]:
  "n_kind (set_text v n) = n_kind n" "n_span (set_text v n) = n_span n"
  "n_text (set_text v n) = v" "n_op (set_text v n) = n_op n"
  "n_flags (set_text v n) = n_flags n" "n_left (set_text v n) = n_left n"
  "n_right (set_text v n) = n_right n" "n_body (set_text v n) = n_body n"
  "n_type (set_text v n) = n_type n" "n_label (set_text v n) = n_label n"
  "n_attrs (set_text v n) = n_attrs n" "n_directives (set_text v n) = n_directives n"
  by (cases n; simp)+

lemma set_op_fields [simp]:
  "n_kind (set_op v n) = n_kind n" "n_span (set_op v n) = n_span n"
  "n_text (set_op v n) = n_text n" "n_op (set_op v n) = v"
  "n_flags (set_op v n) = n_flags n" "n_left (set_op v n) = n_left n"
  "n_right (set_op v n) = n_right n" "n_body (set_op v n) = n_body n"
  "n_type (set_op v n) = n_type n" "n_label (set_op v n) = n_label n"
  "n_attrs (set_op v n) = n_attrs n" "n_directives (set_op v n) = n_directives n"
  by (cases n; simp)+

lemma set_flags_fields [simp]:
  "n_kind (set_flags v n) = n_kind n" "n_span (set_flags v n) = n_span n"
  "n_text (set_flags v n) = n_text n" "n_op (set_flags v n) = n_op n"
  "n_flags (set_flags v n) = v" "n_left (set_flags v n) = n_left n"
  "n_right (set_flags v n) = n_right n" "n_body (set_flags v n) = n_body n"
  "n_type (set_flags v n) = n_type n" "n_label (set_flags v n) = n_label n"
  "n_attrs (set_flags v n) = n_attrs n" "n_directives (set_flags v n) = n_directives n"
  by (cases n; simp)+

lemma set_left_fields [simp]:
  "n_kind (set_left v n) = n_kind n" "n_span (set_left v n) = n_span n"
  "n_text (set_left v n) = n_text n" "n_op (set_left v n) = n_op n"
  "n_flags (set_left v n) = n_flags n" "n_left (set_left v n) = v"
  "n_right (set_left v n) = n_right n" "n_body (set_left v n) = n_body n"
  "n_type (set_left v n) = n_type n" "n_label (set_left v n) = n_label n"
  "n_attrs (set_left v n) = n_attrs n" "n_directives (set_left v n) = n_directives n"
  by (cases n; simp)+

lemma set_right_fields [simp]:
  "n_kind (set_right v n) = n_kind n" "n_span (set_right v n) = n_span n"
  "n_text (set_right v n) = n_text n" "n_op (set_right v n) = n_op n"
  "n_flags (set_right v n) = n_flags n" "n_left (set_right v n) = n_left n"
  "n_right (set_right v n) = v" "n_body (set_right v n) = n_body n"
  "n_type (set_right v n) = n_type n" "n_label (set_right v n) = n_label n"
  "n_attrs (set_right v n) = n_attrs n" "n_directives (set_right v n) = n_directives n"
  by (cases n; simp)+

lemma set_body_fields [simp]:
  "n_kind (set_body v n) = n_kind n" "n_span (set_body v n) = n_span n"
  "n_text (set_body v n) = n_text n" "n_op (set_body v n) = n_op n"
  "n_flags (set_body v n) = n_flags n" "n_left (set_body v n) = n_left n"
  "n_right (set_body v n) = n_right n" "n_body (set_body v n) = v"
  "n_type (set_body v n) = n_type n" "n_label (set_body v n) = n_label n"
  "n_attrs (set_body v n) = n_attrs n" "n_directives (set_body v n) = n_directives n"
  by (cases n; simp)+

lemma set_type_fields [simp]:
  "n_kind (set_type v n) = n_kind n" "n_span (set_type v n) = n_span n"
  "n_text (set_type v n) = n_text n" "n_op (set_type v n) = n_op n"
  "n_flags (set_type v n) = n_flags n" "n_left (set_type v n) = n_left n"
  "n_right (set_type v n) = n_right n" "n_body (set_type v n) = n_body n"
  "n_type (set_type v n) = v" "n_label (set_type v n) = n_label n"
  "n_attrs (set_type v n) = n_attrs n" "n_directives (set_type v n) = n_directives n"
  by (cases n; simp)+

lemma set_label_fields [simp]:
  "n_kind (set_label v n) = n_kind n" "n_span (set_label v n) = n_span n"
  "n_text (set_label v n) = n_text n" "n_op (set_label v n) = n_op n"
  "n_flags (set_label v n) = n_flags n" "n_left (set_label v n) = n_left n"
  "n_right (set_label v n) = n_right n" "n_body (set_label v n) = n_body n"
  "n_type (set_label v n) = n_type n" "n_label (set_label v n) = v"
  "n_attrs (set_label v n) = n_attrs n" "n_directives (set_label v n) = n_directives n"
  by (cases n; simp)+

lemma set_attrs_fields [simp]:
  "n_kind (set_attrs v n) = n_kind n" "n_span (set_attrs v n) = n_span n"
  "n_text (set_attrs v n) = n_text n" "n_op (set_attrs v n) = n_op n"
  "n_flags (set_attrs v n) = n_flags n" "n_left (set_attrs v n) = n_left n"
  "n_right (set_attrs v n) = n_right n" "n_body (set_attrs v n) = n_body n"
  "n_type (set_attrs v n) = n_type n" "n_label (set_attrs v n) = n_label n"
  "n_attrs (set_attrs v n) = v" "n_directives (set_attrs v n) = n_directives n"
  by (cases n; simp)+

lemma set_directives_fields [simp]:
  "n_kind (set_directives v n) = n_kind n" "n_span (set_directives v n) = n_span n"
  "n_text (set_directives v n) = n_text n" "n_op (set_directives v n) = n_op n"
  "n_flags (set_directives v n) = n_flags n" "n_left (set_directives v n) = n_left n"
  "n_right (set_directives v n) = n_right n" "n_body (set_directives v n) = n_body n"
  "n_type (set_directives v n) = n_type n" "n_label (set_directives v n) = n_label n"
  "n_attrs (set_directives v n) = n_attrs n" "n_directives (set_directives v n) = v"
  by (cases n; simp)+

lemma add_flags_fields [simp]:
  "n_kind (add_flags f n) = n_kind n" "n_span (add_flags f n) = n_span n" "n_text (add_flags f n) = n_text n"
  "n_op (add_flags f n) = n_op n" "n_left (add_flags f n) = n_left n" "n_right (add_flags f n) = n_right n"
  "n_body (add_flags f n) = n_body n" "n_type (add_flags f n) = n_type n"
  by (simp_all add: add_flags_def)

end
