(* ===== verification/ParseState.thy ===== *)
theory ParseState
  imports Ast LexState "HOL-Library.State_Monad"
begin

section \<open>The parser's state, its cursor and its lookahead\<close>

text \<open>
  \<open>src/parse/parser_impl.h\<close> and the lookahead of \<open>src/parse/parser.cpp\<close>. The fields of \<open>Parser\<close>
  that change are one record, threaded through the state monad; what only reads it is a function
  of the record. The arena has no counterpart (nodes are values). \<open>ps_stuck\<close> is the model's own:
  it is raised where a recursion or a loop has used up its fuel, and nothing lowers it, so a run
  that ends with it false is a run of the code.
\<close>

subsection \<open>Kinds of tokens and names\<close>

definition k_max_nest :: nat where "k_max_nest = 100"
definition k_max_chain :: nat where "k_max_chain = 300"
definition k_max_type_parens :: nat where "k_max_type_parens = 8"

definition prec_of :: "token_kind \<Rightarrow> nat" where
  "prec_of k =
     (if k = KwOr then 1
      else if k = KwAnd then 2
      else if k \<in> set [EqEq, NotEq, Lt, LtEq, Gt, GtEq] then 3
      else if k \<in> set [DotDotLt, DotDotEq] then 4
      else if k = Pipe then 5
      else if k = Caret then 6
      else if k = Amp then 7
      else if k \<in> set [LtLt, GtGt] then 8
      else if k \<in> set [Plus, Minus, PlusPercent, MinusPercent, PlusPipe, MinusPipe, PlusQuestion,
                       MinusQuestion] then 9
      else if k \<in> set [Star, Slash, SlashSlash, Percent, StarPercent, StarPipe, StarQuestion] then 10
      else 0)"

definition is_compare :: "token_kind \<Rightarrow> bool" where
  "is_compare k \<longleftrightarrow> k = EqEq \<or> k = NotEq \<or> k = Lt \<or> k = LtEq \<or> k = Gt \<or> k = GtEq"

definition is_range_op :: "token_kind \<Rightarrow> bool" where
  "is_range_op k \<longleftrightarrow> k = DotDotLt \<or> k = DotDotEq"

definition is_assign_op :: "token_kind \<Rightarrow> bool" where
  "is_assign_op k \<longleftrightarrow>
     k \<in> set [Eq, PlusEq, MinusEq, StarEq, SlashEq, SlashSlashEq, PercentEq, PlusPercentEq,
             MinusPercentEq, StarPercentEq, PlusPipeEq, MinusPipeEq, StarPipeEq, AmpEq, PipeEq,
             CaretEq, LtLtEq, GtGtEq]"

definition is_core_type :: "bytes \<Rightarrow> bool" where
  "is_core_type name \<longleftrightarrow>
     name \<in> set [''bool'', ''u8'', ''u16'', ''u32'', ''u64'', ''i8'', ''i16'', ''i32'', ''i64'', ''usize'',
                ''isize'', ''f16'', ''f32'', ''f64'', ''char'', ''str'', ''fmt'', ''unit'', ''never'']"

definition is_scalar_type :: "bytes \<Rightarrow> bool" where
  "is_scalar_type name \<longleftrightarrow>
     name \<in> set [''bool'', ''u8'', ''u16'', ''u32'', ''u64'', ''i8'', ''i16'', ''i32'', ''i64'', ''usize'',
                ''isize'', ''f16'', ''f32'', ''f64'', ''char'', ''str'']"

definition capital :: "char \<Rightarrow> bool" where
  "capital c \<longleftrightarrow> 65 \<le> byte_value c \<and> byte_value c \<le> 90"

definition type_word :: "bytes \<Rightarrow> bool" where
  "type_word name \<longleftrightarrow> name \<noteq> [] \<and> capital (hd name)"

definition is_type_path_ident :: "bytes \<Rightarrow> bool" where
  "is_type_path_ident name =
     (if name = [] then False
      else if capital (hd name) then True
      else is_core_type name \<or> name = ''void'' \<or> name = ''c'')"

definition is_literal_kind :: "token_kind \<Rightarrow> bool" where
  "is_literal_kind k \<longleftrightarrow> k = IntLit \<or> k = FloatLit \<or> k = CharLit \<or> k = StringLit \<or> k = BytesLit \<or>
     k = KwTrue \<or> k = KwFalse \<or> k = KwNone"

subsection \<open>State and monad\<close>

record parser =
  ps_source :: source
  ps_tokens :: "token list"
  ps_pos :: nat
  ps_nest :: nat
  ps_layout :: "32 word"
  ps_diags :: diagnostic_bag
  ps_stuck :: bool

type_synonym 'a pm = "(parser, 'a) state"

abbreviation give :: "'a \<Rightarrow> 'a pm" where
  "give x \<equiv> State_Monad.return x"

definition reads :: "(parser \<Rightarrow> 'a) \<Rightarrow> 'a pm" where
  "reads f = State (\<lambda>p. (f p, p))"

definition modify :: "(parser \<Rightarrow> parser) \<Rightarrow> unit pm" where
  "modify f = State (\<lambda>p. ((), f p))"

text \<open>\<open>if (c) A else B\<close> on a condition that reads the state.\<close>

definition branch :: "(parser \<Rightarrow> bool) \<Rightarrow> 'a pm \<Rightarrow> 'a pm \<Rightarrow> 'a pm" where
  "branch c A B = do { b \<leftarrow> reads c; if b then A else B }"

definition give_up :: "unit pm" where
  "give_up = modify (\<lambda>p. p\<lparr>ps_stuck := True\<rparr>)"

text \<open>
  A loop of the code: the body returns the loop's variables and whether it goes round again. Every
  round but the last takes a token, so the number of tokens bounds the rounds.
\<close>

primrec loop :: "nat \<Rightarrow> ('a \<Rightarrow> ('a \<times> bool) pm) \<Rightarrow> 'a \<Rightarrow> 'a pm" where
  "loop 0 body a = do { give_up; give a }"
| "loop (Suc fuel) body a = do { r \<leftarrow> body a; if snd r then loop fuel body (fst r) else give (fst r) }"

definition repeat :: "('a \<Rightarrow> ('a \<times> bool) pm) \<Rightarrow> 'a \<Rightarrow> 'a pm" where
  "repeat body a = do { fuel \<leftarrow> reads (\<lambda>p. length (ps_tokens p) + 1); loop fuel body a }"

subsection \<open>The cursor\<close>

definition tok_count :: "parser \<Rightarrow> nat" where
  "tok_count p = length (ps_tokens p)"

definition cur :: "parser \<Rightarrow> token" where
  "cur p = (if tok_count p \<le> ps_pos p then ps_tokens p ! (tok_count p - 1) else ps_tokens p ! ps_pos p)"

definition peek :: "parser \<Rightarrow> int \<Rightarrow> token" where
  "peek p off =
     (let i = int (ps_pos p) + off; i = (if i < 0 then 0 else i)
      in if int (tok_count p) \<le> i then ps_tokens p ! (tok_count p - 1) else ps_tokens p ! nat i)"

definition peek_kind :: "token list \<Rightarrow> nat \<Rightarrow> token_kind" where
  "peek_kind toks i = (if length toks \<le> i then EndOfFile else tok_kind (toks ! i))"

definition ended_suite :: "parser \<Rightarrow> bool" where
  "ended_suite p \<longleftrightarrow> 0 < ps_pos p \<and> tok_kind (ps_tokens p ! (ps_pos p - 1)) = Dedent"

definition at_tok :: "parser \<Rightarrow> token_kind \<Rightarrow> bool" where
  "at_tok p k \<longleftrightarrow> tok_kind (cur p) = k"

text \<open>\<open>at(a) || at(b) || \<dots>\<close>.\<close>

definition at_any :: "parser \<Rightarrow> token_kind list \<Rightarrow> bool" where
  "at_any p ks \<longleftrightarrow> tok_kind (cur p) \<in> set ks"

definition at_name :: "parser \<Rightarrow> bytes \<Rightarrow> bool" where
  "at_name p s \<longleftrightarrow> tok_kind (cur p) = Name \<and> tok_text (cur p) = s"

definition layout_bit :: "bytes \<Rightarrow> 32 word" where
  "layout_bit name =
     (if name = ''size_of'' then 1 else if name = ''align_of'' then 2
      else if name = ''offset_of'' then 4 else 0)"

definition at_type_builtin :: "parser \<Rightarrow> int \<Rightarrow> bool \<Rightarrow> bool" where
  "at_type_builtin p ahead qualified =
     (let t = peek p ahead; bit = (if tok_kind t = Name then layout_bit (tok_text t) else 0)
      in bit \<noteq> 0 \<and> (qualified \<or> ps_layout p AND bit \<noteq> 0) \<and> tok_kind (peek p (ahead + 1)) = LParen)"

definition at_local :: "parser \<Rightarrow> bool" where
  "at_local p \<longleftrightarrow> at_name p ''local'' \<and> (tok_kind (peek p 1) = KwVar \<or> tok_kind (peek p 1) = Name)"

definition at_ident :: "parser \<Rightarrow> bool" where
  "at_ident p \<longleftrightarrow> at_tok p Name \<or> is_keyword (tok_kind (cur p))"

definition take_tok :: "token pm" where
  "take_tok = State (\<lambda>p. (cur p, if ps_pos p < tok_count p - 1 then p\<lparr>ps_pos := ps_pos p + 1\<rparr> else p))"

definition eat :: "token_kind \<Rightarrow> bool pm" where
  "eat k = branch (\<lambda>p. at_tok p k) (do { take_tok; give True }) (give False)"

text \<open>\<open>if (eat(k)) A else B\<close>.\<close>

definition on_eat :: "token_kind \<Rightarrow> 'a pm \<Rightarrow> 'a pm \<Rightarrow> 'a pm" where
  "on_eat k A B = do { b \<leftarrow> eat k; if b then A else B }"

abbreviation expect_code :: string where
  "expect_code \<equiv> ''lucb.parse.expect''"

definition report :: "string \<Rightarrow> span \<Rightarrow> string \<Rightarrow> unit pm" where
  "report code sp message =
     modify (\<lambda>p. p\<lparr>ps_diags := add_diag code (src_path (ps_source p)) sp message (ps_diags p)\<rparr>)"

definition fail :: "string \<Rightarrow> string \<Rightarrow> unit pm" where
  "fail code message = do { t \<leftarrow> reads cur; report code (tok_span t) message }"

definition fail_at :: "node \<Rightarrow> string \<Rightarrow> string \<Rightarrow> unit pm" where
  "fail_at n code message = report code (n_span n) message"

definition expect :: "token_kind \<Rightarrow> string \<Rightarrow> string \<Rightarrow> bool pm" where
  "expect k code message = on_eat k (give True) (do { fail code message; give False })"

definition ends_with_suite :: "node list \<Rightarrow> bool" where
  "ends_with_suite xs =
     (case xs of [] \<Rightarrow> False
      | n # _ \<Rightarrow> n_kind n = NCatch \<or> n_kind n = NMatch \<or> n_kind n = NMatchExpr)"

definition expect_stmt_newline :: "node list \<Rightarrow> unit pm" where
  "expect_stmt_newline expr =
     (if ends_with_suite expr then give ()
      else branch (\<lambda>p. at_any p [RParen, Comma, RBracket]) (give ())
             (do { expect Newline expect_code ''expected newline''; give () }))"

definition span_from :: "token \<Rightarrow> parser \<Rightarrow> span" where
  "span_from start p =
     (if 0 < ps_pos p then (tok_span start)\<lparr>span_end := span_end (tok_span (peek p (-1)))\<rparr>
      else tok_span start)"

definition make_tok :: "node_kind \<Rightarrow> token \<Rightarrow> node" where
  "make_tok kind t = set_text (tok_text t) (mk kind (tok_span t))"

text \<open>\<open>n->span = span_from(start); return n\<close>.\<close>

definition spanned :: "token \<Rightarrow> node \<Rightarrow> node pm" where
  "spanned start n = do { sp \<leftarrow> reads (span_from start); give (set_span sp n) }"

text \<open>\<open>nest++ \<dots> nest--\<close> around a body that leaves it on every path.\<close>

definition nested :: "'a pm \<Rightarrow> 'a pm" where
  "nested m = do {
     modify (\<lambda>p. p\<lparr>ps_nest := ps_nest p + 1\<rparr>);
     x \<leftarrow> m;
     modify (\<lambda>p. p\<lparr>ps_nest := ps_nest p - 1\<rparr>);
     give x }"

text \<open>\<open>int here = pos; \<dots> if (pos == here) take()\<close>: a round of a loop that forces progress.\<close>

definition forced :: "'a pm \<Rightarrow> 'a pm" where
  "forced m = do {
     here \<leftarrow> reads ps_pos;
     x \<leftarrow> m;
     branch (\<lambda>p. ps_pos p = here) (do { take_tok; give x }) (give x) }"

definition skip_docs :: "unit pm" where
  "skip_docs = repeat (\<lambda>_. branch (\<lambda>p. at_any p [DocComment, Newline])
     (do { take_tok; give ((), True) }) (give ((), False))) ()"

definition sync_line :: "unit pm" where
  "sync_line = do {
     repeat (\<lambda>_. branch (\<lambda>p. at_any p [EndOfFile, Newline, Dedent])
       (give ((), False)) (do { take_tok; give ((), True) })) ();
     eat Newline;
     give () }"

text \<open>
  The comma-separated loops of the productions: \<open>while (true) { append(item); if (!eat(Comma)) break;
  if (at(close)) break; }\<close>.
\<close>

definition comma_list :: "node pm \<Rightarrow> token_kind \<Rightarrow> node list \<Rightarrow> node list pm" where
  "comma_list item close = repeat (\<lambda>xs. do {
     x \<leftarrow> item;
     on_eat Comma (branch (\<lambda>p. at_tok p close) (give (xs @ [x], False)) (give (xs @ [x], True)))
       (give (xs @ [x], False)) })"

text \<open>
  The same where an item may fail and leave the loop: \<open>None\<close> is the \<open>break\<close>. \<open>close\<close> is \<open>None\<close> in the
  loops that do not look for their closer after a comma.
\<close>

definition comma_list_opt :: "node option pm \<Rightarrow> token_kind option \<Rightarrow> node list \<Rightarrow> node list pm" where
  "comma_list_opt item close = repeat (\<lambda>xs. do {
     x \<leftarrow> item;
     (case x of
        None \<Rightarrow> give (xs, False)
      | Some n \<Rightarrow>
          on_eat Comma
            (branch (\<lambda>p. case close of None \<Rightarrow> False | Some k \<Rightarrow> at_tok p k) (give (xs @ [n], False)) (give (xs @ [n], True)))
            (give (xs @ [n], False))) })"

end
