(* ===== verification/ParseAhead.thy ===== *)
theory ParseAhead
  imports ParseState
begin

section \<open>Lookahead\<close>

text \<open>
  The functions of \<open>src/parse/parser.cpp\<close> that decide what a bracket or a parenthesis opens
  without taking a token: \<open>find_match\<close> and the tests built on it. They read the tokens and the
  position only. \<open>find_match\<close> answers the position of the bracket that closes the one at its
  start: the theorem says it is the first at which the openings and closings balance.
\<close>

subsection \<open>Matching brackets\<close>

function find_match_from :: "token list \<Rightarrow> token_kind \<Rightarrow> token_kind \<Rightarrow> nat \<Rightarrow> int \<Rightarrow> nat option" where
  "find_match_from toks open close i depth =
     (if i < length toks then
        if tok_kind (toks ! i) = open then find_match_from toks open close (i + 1) (depth + 1)
        else if tok_kind (toks ! i) = close then
          (if depth - 1 = 0 then Some i else find_match_from toks open close (i + 1) (depth - 1))
        else find_match_from toks open close (i + 1) depth
      else None)"
  by pat_completeness auto
termination by (relation "measure (\<lambda>(toks, open, close, i, depth). length toks - i)") auto

declare find_match_from.simps [simp del]

definition find_match :: "token list \<Rightarrow> nat \<Rightarrow> token_kind \<Rightarrow> token_kind \<Rightarrow> nat option" where
  "find_match toks start open close = find_match_from toks open close start 0"

text \<open>Openings less closings among the tokens from \<open>i\<close> up to and with \<open>j\<close>.\<close>

definition balance :: "token list \<Rightarrow> token_kind \<Rightarrow> token_kind \<Rightarrow> nat \<Rightarrow> nat \<Rightarrow> int" where
  "balance toks open close i j =
     (let ks = map tok_kind (drop i (take (Suc j) toks))
      in int (count_list ks open) - int (count_list ks close))"

lemma balance_step:
  assumes "i < length toks" "i \<le> j" "op \<noteq> cl"
  shows "balance toks op cl i j =
     (if tok_kind (toks ! i) = op then 1 else if tok_kind (toks ! i) = cl then -1 else 0) +
     (if i = j then 0 else balance toks op cl (Suc i) j)"
proof -
  have "drop i (take (Suc j) toks) = toks ! i # drop (Suc i) (take (Suc j) toks)"
    using assms by (subst drop_eq_Cons) auto
  then show ?thesis using assms(3) by (auto simp: balance_def Let_def)
qed

lemma find_match_from_iff:
  assumes "op \<noteq> cl"
  shows "find_match_from toks op cl i depth = Some c \<longleftrightarrow>
     i \<le> c \<and> c < length toks \<and> tok_kind (toks ! c) = cl \<and> depth + balance toks op cl i c = 0 \<and>
     (\<forall>j. i \<le> j \<and> j < c \<longrightarrow> \<not> (tok_kind (toks ! j) = cl \<and> depth + balance toks op cl i j = 0))"
  using assms
proof (induction toks op cl i depth rule: find_match_from.induct)
  case (1 toks op cl i depth)
  show ?case
  proof (cases "i < length toks")
    case False
    then show ?thesis by (subst find_match_from.simps) auto
  next
    case True
    define d where "d = depth + (if tok_kind (toks ! i) = op then 1 else if tok_kind (toks ! i) = cl then -1 else 0)"
    have bal: "depth + balance toks op cl i j = d + (if i = j then 0 else balance toks op cl (Suc i) j)" if "i \<le> j" for j
      using balance_step[OF True that \<open>op \<noteq> cl\<close>] by (simp add: d_def)
    show ?thesis
    proof (cases "tok_kind (toks ! i) = cl \<and> d = 0")
      case here: True
      then have "find_match_from toks op cl i depth = Some i"
        using True \<open>op \<noteq> cl\<close> by (subst find_match_from.simps) (auto simp: d_def)
      moreover have "depth + balance toks op cl i i = 0" using bal[of i] here by simp
      ultimately show ?thesis using True here
        by (cases "i = c") (auto dest!: spec[of _ i])
    next
      case no: False
      have step: "find_match_from toks op cl i depth = find_match_from toks op cl (i + 1) d"
        using True no \<open>op \<noteq> cl\<close> by (subst find_match_from.simps) (auto simp: d_def)
      have IH: "find_match_from toks op cl (i + 1) d = Some c \<longleftrightarrow>
         i + 1 \<le> c \<and> c < length toks \<and> tok_kind (toks ! c) = cl \<and> d + balance toks op cl (i + 1) c = 0 \<and>
         (\<forall>j. i + 1 \<le> j \<and> j < c \<longrightarrow> \<not> (tok_kind (toks ! j) = cl \<and> d + balance toks op cl (i + 1) j = 0))"
      proof (cases "tok_kind (toks ! i) = op")
        case o: True
        show ?thesis using "1.IH"(1)[OF True o] \<open>op \<noteq> cl\<close> o by (simp add: d_def)
      next
        case o: False
        show ?thesis
        proof (cases "tok_kind (toks ! i) = cl")
          case c: True
          then have "depth - 1 \<noteq> 0" using no o by (simp add: d_def)
          from "1.IH"(2)[OF True o c this] show ?thesis using \<open>op \<noteq> cl\<close> o c by (simp add: d_def)
        next
          case c: False
          from "1.IH"(3)[OF True o c] show ?thesis using \<open>op \<noteq> cl\<close> o c by (simp add: d_def)
        qed
      qed
      have here: "\<not> (tok_kind (toks ! i) = cl \<and> depth + balance toks op cl i i = 0)" using bal[of i] no by auto
      have later: "depth + balance toks op cl i j = d + balance toks op cl (i + 1) j" if "i + 1 \<le> j" for j
        using bal[of j] that by simp
      show ?thesis
      proof (cases "i + 1 \<le> c")
        case True
        have "(\<forall>j. i \<le> j \<and> j < c \<longrightarrow> \<not> (tok_kind (toks ! j) = cl \<and> depth + balance toks op cl i j = 0)) \<longleftrightarrow>
            (\<forall>j. i + 1 \<le> j \<and> j < c \<longrightarrow> \<not> (tok_kind (toks ! j) = cl \<and> d + balance toks op cl (i + 1) j = 0))"
          (is "?L = ?R")
        proof
          assume L: ?L
          show ?R
          proof (intro allI impI)
            fix j assume j: "i + 1 \<le> j \<and> j < c"
            then show "\<not> (tok_kind (toks ! j) = cl \<and> d + balance toks op cl (i + 1) j = 0)"
              using spec[OF L, of j] later[of j] by auto
          qed
        next
          assume R: ?R
          show ?L
          proof (intro allI impI)
            fix j assume j: "i \<le> j \<and> j < c"
            show "\<not> (tok_kind (toks ! j) = cl \<and> depth + balance toks op cl i j = 0)"
            proof (cases "j = i")
              case True
              then show ?thesis using here by simp
            next
              case False
              then have "i + 1 \<le> j" using j by simp
              then show ?thesis using R j later[of j] by simp
            qed
          qed
        qed
        then show ?thesis unfolding step IH using True later[of c] by simp
      next
        case False
        then show ?thesis unfolding step IH using here by (cases "i = c") auto
      qed
    qed
  qed
qed

lemma find_match_from_bounds:
  "find_match_from toks op cl i depth = Some c \<Longrightarrow> i \<le> c \<and> c < length toks"
  by (induction toks op cl i depth rule: find_match_from.induct)
    (subst (asm) (4) find_match_from.simps, auto split: if_splits)

lemma find_match_bounds: "find_match toks i op cl = Some c \<Longrightarrow> i \<le> c \<and> c < length toks"
  unfolding find_match_def by (rule find_match_from_bounds)

subsection \<open>Lambdas\<close>

text \<open>The tokens between a lambda's parentheses: names, each with an optional type.\<close>

fun lambda_params :: "token_kind list \<Rightarrow> int \<Rightarrow> bool \<Rightarrow> bool" where
  "lambda_params [] depth after_colon = True"
| "lambda_params (k # ks) depth after_colon =
     (if k = LParen \<or> k = LBracket then
        (if k = LParen \<and> depth = 0 \<and> \<not> after_colon then False else lambda_params ks (depth + 1) after_colon)
      else if k = RParen \<or> k = RBracket then lambda_params ks (depth - 1) after_colon
      else if 0 < depth then lambda_params ks depth after_colon
      else if k \<in> set [Name, Comma, Colon, Star, StarQuestion, Question, Bang, Arrow, Dot, KwFunc, KwConst]
        then lambda_params ks depth (k = Colon)
      else False)"

definition is_lambda_ahead :: "parser \<Rightarrow> bool" where
  "is_lambda_ahead p =
     (if \<not> at_tok p LParen then False
      else (case find_match (ps_tokens p) (ps_pos p) LParen RParen of
              None \<Rightarrow> False
            | Some close \<Rightarrow>
                if tok_count p \<le> close + 1 \<or> tok_kind (ps_tokens p ! (close + 1)) \<noteq> FatArrow then False
                else lambda_params
                       (map tok_kind (drop (ps_pos p + 1) (take close (ps_tokens p)))) 0 False))"

subsection \<open>Brackets that hold an expression\<close>

definition lower :: "char \<Rightarrow> bool" where
  "lower c \<longleftrightarrow> 97 \<le> byte_value c \<and> byte_value c \<le> 122"

function bracket_scan :: "token list \<Rightarrow> nat \<Rightarrow> nat \<Rightarrow> nat \<Rightarrow> int \<Rightarrow> bool" where
  "bracket_scan toks open close i depth =
     (if i < close then
        let k = tok_kind (toks ! i); next = toks ! (i + 1)
        in if k = LParen \<or> k = LBracket then bracket_scan toks open close (i + 1) (depth + 1)
           else if k = RParen \<or> k = RBracket then bracket_scan toks open close (i + 1) (depth - 1)
           else if 0 < depth then bracket_scan toks open close (i + 1) depth
           else if k \<in> set [Plus, Minus, Slash, Percent, Lt, Gt, LtEq, GtEq, EqEq, NotEq, SlashSlash, Pipe,
                           Caret, KwAnd, KwOr, KwNot, FloatLit, CharLit, StringLit, DotDot, DotDotLt]
             then True
           else if k = IntLit \<and> open + 1 < i then True
           else if k = Star \<and> (tok_kind next = Name \<or> tok_kind next = IntLit \<or> tok_kind next = LParen) then True
           else if k = Dot \<and> tok_kind next = Name \<and> tok_text next \<noteq> [] \<and> lower (hd (tok_text next)) \<and>
                   open + 1 < i \<and> tok_text (toks ! (i - 1)) \<noteq> ''c'' then True
           else bracket_scan toks open close (i + 1) depth
      else False)"
  by pat_completeness auto
termination by (relation "measure (\<lambda>(toks, open, close, i, depth). close - i)") auto

declare bracket_scan.simps [simp del]

definition bracket_holds_expression :: "token list \<Rightarrow> nat \<Rightarrow> bool" where
  "bracket_holds_expression toks open =
     (case find_match toks open LBracket RBracket of
        None \<Rightarrow> False
      | Some close \<Rightarrow> bracket_scan toks open close (open + 1) 0)"

subsection \<open>Tuple types, array suffixes, generic calls\<close>

function comma_ahead :: "token list \<Rightarrow> nat \<Rightarrow> nat \<Rightarrow> nat \<Rightarrow> bool" where
  "comma_ahead toks limit j depth =
     (if j < length toks \<and> j < limit then
        let k = tok_kind (toks ! j)
        in if k = Newline \<or> k = EndOfFile then False
           else if k = LParen \<or> k = LBracket then comma_ahead toks limit (j + 1) (depth + 1)
           else if k = RParen \<or> k = RBracket then
             (if depth = 0 then False else comma_ahead toks limit (j + 1) (depth - 1))
           else if k = Comma \<and> depth = 0 then True
           else comma_ahead toks limit (j + 1) depth
      else False)"
  by pat_completeness auto
termination by (relation "measure (\<lambda>(toks, limit, j, depth). length toks - j)") auto

function tuple_type_at :: "token list \<Rightarrow> nat \<Rightarrow> bool" where
  "tuple_type_at toks at =
     (if length toks \<le> at then False
      else if tok_kind (toks ! at) = LParen then tuple_type_at toks (at + 1)
      else if tok_kind (toks ! at) \<noteq> Name \<or> \<not> is_type_path_ident (tok_text (toks ! at)) then False
      else comma_ahead toks (at + 64) (at + 1) 0)"
  by pat_completeness auto
termination by (relation "measure (\<lambda>(toks, at). length toks - at)") auto

declare comma_ahead.simps [simp del] tuple_type_at.simps [simp del]

definition is_array_suffix_ahead :: "parser \<Rightarrow> bool" where
  "is_array_suffix_ahead p =
     (let toks = ps_tokens p; pos = ps_pos p; k = tok_kind (peek p 1)
      in if \<not> at_tok p LBracket then False
         else if k = RBracket then True
         else if bracket_holds_expression toks pos then True
         else if k = LParen then \<not> tuple_type_at toks (pos + 2)
         else if k = IntLit \<or> k = KwSelf then True
         else if k = Name then
           (let t = tok_text (peek p 1)
            in if at_type_builtin p 1 False \<or>
                  (t = ''memory'' \<and> tok_kind (peek p 2) = Dot \<and> at_type_builtin p 3 True) then True
               else if is_type_path_ident t then False
               else if peek_kind toks (pos + 2) = Dot \<and> peek_kind toks (pos + 3) = Name \<and>
                       type_word (tok_text (toks ! (pos + 3))) then False
               else True)
         else False)"

definition is_generic_call_ahead :: "parser \<Rightarrow> bool" where
  "is_generic_call_ahead p =
     (let toks = ps_tokens p; pos = ps_pos p
      in if \<not> at_tok p LBracket then False
         else (case find_match toks pos LBracket RBracket of
                 None \<Rightarrow> False
               | Some close \<Rightarrow>
                   if tok_count p \<le> close + 1 then False
                   else if tok_kind (toks ! (close + 1)) \<noteq> LParen \<and> tok_kind (toks ! (close + 1)) \<noteq> Dot then False
                   else if bracket_holds_expression toks pos then False
                   else let first = peek p 1
                     in if tok_kind first = KwFunc then True
                        else if tok_kind first = LParen then
                          (if peek_kind toks (pos + 2) = KwFunc then True else tuple_type_at toks (pos + 2))
                        else if tok_kind first \<noteq> Name then False
                        else if is_core_type (tok_text first) then True
                        else if type_word (tok_text first) then True
                        else if peek_kind toks (pos + 2) = Dot \<and> peek_kind toks (pos + 3) = Name then
                          (if type_word (tok_text (toks ! (pos + 3))) then True else tok_text first = ''c'')
                        else False))"

subsection \<open>Casts\<close>

definition default_token :: token where
  "default_token = \<lparr>tok_kind = EndOfFile, tok_span = default_span, tok_text = [], tok_suffix = []\<rparr>"

definition surely_type :: "token \<Rightarrow> bool" where
  "surely_type name \<longleftrightarrow>
     tok_text name = [] \<or> is_scalar_type (tok_text name) \<or> tok_text name = ''c'' \<or> type_word (tok_text name)"

function skip_qualifiers :: "token list \<Rightarrow> nat \<Rightarrow> nat" where
  "skip_qualifiers toks i =
     (if peek_kind toks i = KwConst \<or> peek_kind toks i = KwVolatile then skip_qualifiers toks (i + 1) else i)"
  by pat_completeness auto
termination
  by (relation "measure (\<lambda>(toks, i). length toks - i)") (auto simp: peek_kind_def split: if_splits)

text \<open>The pointer, optional, fallible and array suffixes of a cast's type, with the count of stars.\<close>

function cast_suffixes :: "token list \<Rightarrow> nat \<Rightarrow> nat \<Rightarrow> (nat \<times> nat) option" where
  "cast_suffixes toks i stars =
     (let k = peek_kind toks i
      in if k = Star \<or> k = StarQuestion then cast_suffixes toks (i + 1) (stars + 1)
         else if k = Question \<or> k = Bang then cast_suffixes toks (i + 1) stars
         else if k = LBracket then
           (case find_match toks i LBracket RBracket of
              None \<Rightarrow> None
            | Some close \<Rightarrow> cast_suffixes toks (close + 1) stars)
         else Some (i, stars))"
  by pat_completeness auto
termination
  by (relation "measure (\<lambda>(toks, i, stars). length toks - i)")
    (auto simp: peek_kind_def split: if_splits dest!: find_match_bounds)

declare skip_qualifiers.simps [simp del] cast_suffixes.simps [simp del]

text \<open>
  \<open>cast_shape\<close>: the token just past the type, its head and its count of stars, \<open>None\<close> for \<open>-1\<close>.
\<close>

function cast_shape :: "token list \<Rightarrow> nat \<Rightarrow> nat \<Rightarrow> (nat \<times> token \<times> nat) option" where
  "cast_shape toks depth i =
     (let i = (if peek_kind toks i = At then i + 1 else i);
          i = skip_qualifiers toks i;
          head =
            (if peek_kind toks i = LParen then
               (case (if depth < k_max_type_parens then cast_shape toks (depth + 1) (i + 1) else None) of
                  None \<Rightarrow> None
                | Some (end, inner, inner_stars) \<Rightarrow>
                    if peek_kind toks end \<noteq> RParen \<or> (inner_stars = 0 \<and> \<not> surely_type inner) then None
                    else Some (end + 1, default_token))
             else if peek_kind toks i \<noteq> Name then None
             else Some (if peek_kind toks (i + 1) = Dot \<and> peek_kind toks (i + 2) = Name then i + 3 else i + 1,
                        toks ! i))
      in case head of
           None \<Rightarrow> None
         | Some (j, name) \<Rightarrow>
             (case cast_suffixes toks j 0 of
                None \<Rightarrow> None
              | Some (end, stars) \<Rightarrow> Some (end, name, stars)))"
  by pat_completeness auto
termination by (relation "measure (\<lambda>(toks, depth, i). k_max_type_parens - depth)") auto

declare cast_shape.simps [simp del]

definition is_scalar_cast_ahead :: "parser \<Rightarrow> bool" where
  "is_scalar_cast_ahead p =
     (let toks = ps_tokens p; pos = ps_pos p
      in if \<not> at_tok p LParen then False
         else if peek_kind toks (pos + 1) = KwFunc then
           (let operand = (case find_match toks pos LParen RParen of
                             None \<Rightarrow> EndOfFile
                           | Some close \<Rightarrow> if 0 < close then peek_kind toks (close + 1) else EndOfFile)
            in operand \<in> set [Name, LParen, Amp, Star, KwSelf, KwTry])
         else (case cast_shape toks 0 (pos + 1) of
                 None \<Rightarrow> False
               | Some (i, name, stars) \<Rightarrow>
                   if peek_kind toks i \<noteq> RParen then False
                   else let operand = peek_kind toks (i + 1)
                     in if operand \<in> set [Name, IntLit, FloatLit, CharLit, StringLit, BytesLit, KwSelf, KwTrue,
                                         KwFalse, KwTry] then True
                        else if stars = 0 \<and> \<not> surely_type name then False
                        else operand \<in> set [LParen, Minus, MinusPercent, Tilde, Star, Amp]))"

subsection \<open>Attribute words and the imports of the layout intrinsics\<close>

text \<open>
  \<open>weak_is_attribute\<close> looks past attribute words with no bound: the fuel is the number of tokens,
  which is enough on a stream whose last token is no attribute word.
\<close>

fun weak_ahead :: "nat \<Rightarrow> parser \<Rightarrow> nat \<Rightarrow> bool option" where
  "weak_ahead 0 p i = None"
| "weak_ahead (Suc fuel) p i =
     (let t = peek p (int i)
      in if tok_kind t = Name \<and> tok_text t = ''weak'' then weak_ahead fuel p (i + 1)
         else if tok_kind t = Name \<and> tok_text t = ''section'' then weak_ahead fuel p (i + 4)
         else if tok_kind t = Name \<and> tok_text t \<in> set [''inline'', ''noinline'', ''cold'', ''naked'', ''used'']
           then weak_ahead fuel p (i + 1)
         else Some (tok_kind t = KwFunc \<or> tok_kind t = KwStatic \<or> tok_kind t = KwVar \<or>
                    (tok_kind t = Name \<and> tok_text t = ''local'')))"

definition weak_is_attribute :: "parser \<Rightarrow> bool option" where
  "weak_is_attribute p = weak_ahead (tok_count p + 1) p 1"

fun layout_names :: "token list \<Rightarrow> 32 word \<Rightarrow> 32 word" where
  "layout_names [] bits = bits"
| "layout_names [t] bits = (if tok_kind t = Name then bits OR layout_bit (tok_text t) else bits)"
| "layout_names (t # c # ts) bits =
     (if tok_kind t = Name then
        (let bits = bits OR layout_bit (tok_text t)
         in if tok_kind c \<noteq> Comma then bits else layout_names ts bits)
      else bits)"

fun layout_scan :: "token list \<Rightarrow> 32 word \<Rightarrow> 32 word" where
  "layout_scan (a # b # c # ts) bits =
     (if tok_kind a \<noteq> KwFrom \<or> tok_kind b \<noteq> Name \<or> tok_text b \<noteq> ''memory'' \<or> tok_kind c \<noteq> KwImport
      then layout_scan (b # c # ts) bits
      else layout_scan (b # c # ts) (layout_names ts bits))"
| "layout_scan _ bits = bits"

definition scan_layout_imports :: "unit pm" where
  "scan_layout_imports = modify (\<lambda>p. p\<lparr>ps_layout := layout_scan (ps_tokens p) (ps_layout p)\<rparr>)"

end
