(* ===== verification/ParseExpr.thy ===== *)
theory ParseExpr
  imports ParseAhead
begin

section \<open>Types and expressions\<close>

text \<open>
  The productions of \<open>src/parse/expr.cpp\<close> but \<open>match\<close>, which is a statement too. A production
  takes the record of the productions that recur through it, so that none is recursive by itself;
  \<open>ParseModule\<close> ties the knot, one level of the record per level of the code's recursion.
\<close>

record parsers =
  p_type :: "node pm"
  p_unary :: "node pm"
  p_binary :: "nat \<Rightarrow> node pm"
  p_conditional :: "node pm"
  p_else_expr :: "node pm"
  p_expression :: "node pm"
  p_statement :: "node option pm"
  p_suite :: "node pm"

subsection \<open>Argument lists\<close>

definition parse_arg :: "parsers \<Rightarrow> node pm" where
  "parse_arg R = do {
     sp \<leftarrow> reads (\<lambda>p. tok_span (cur p));
     name \<leftarrow> branch (\<lambda>p. at_tok p Name \<and> tok_kind (peek p 1) = Eq)
       (do { t \<leftarrow> take_tok; take_tok; give (tok_text t) }) (give []);
     e \<leftarrow> p_expression R;
     give (set_left [e] (set_text name (mk NParam sp))) }"

definition parse_arg_list :: "parsers \<Rightarrow> node list pm" where
  "parse_arg_list R = do {
     expect LParen expect_code ''expected `(`'';
     list \<leftarrow> branch (\<lambda>p. at_tok p RParen) (give []) (comma_list (parse_arg R) RParen []);
     expect RParen expect_code ''expected `)`'';
     give list }"

definition parse_type_args :: "parsers \<Rightarrow> node list pm" where
  "parse_type_args R = do {
     expect LBracket expect_code ''expected `[`'';
     list \<leftarrow> branch (\<lambda>p. at_tok p RBracket) (give []) (comma_list (p_type R) RBracket []);
     expect RBracket expect_code ''expected `]`'';
     give list }"

subsection \<open>Types\<close>

definition type_qualifiers :: "64 word \<Rightarrow> 64 word pm" where
  "type_qualifiers = repeat (\<lambda>flags. branch (\<lambda>p. at_any p [KwConst, KwVolatile])
     (on_eat KwConst (give (flags OR FlagConst, True))
       (do { eat KwVolatile; give (flags OR FlagVolatile, True) }))
     (give (flags, False)))"

definition const_volatile :: "64 word" where
  "const_volatile = FlagConst OR FlagVolatile"

text \<open>A run of brackets reads inside-out: the last suffix wraps the value first.\<close>

fun wrap_suffixes :: "node list \<Rightarrow> node \<Rightarrow> 64 word \<Rightarrow> node \<times> 64 word" where
  "wrap_suffixes [] value flags = (value, flags)"
| "wrap_suffixes (s # innermost_first) value flags =
     (let value = set_left [value] s
      in if has_flag (n_flags value) FlagSpan \<and> has_flag flags FlagConst
         then wrap_suffixes innermost_first (add_flags FlagConst value) (flags AND NOT const_volatile)
         else wrap_suffixes innermost_first value flags)"

definition bracket_suffixes :: "parsers \<Rightarrow> token \<Rightarrow> node list pm" where
  "bracket_suffixes R start = repeat (\<lambda>suffixes. branch (\<lambda>p. at_tok p LBracket)
     (do {
        take_tok;
        t \<leftarrow> on_eat RBracket (give (set_flags FlagSpan (mk NType (tok_span start))))
          (do {
             e \<leftarrow> p_expression R;
             expect RBracket expect_code ''expected `]`'';
             give (set_right [e] (set_flags FlagArray (mk NType (tok_span start)))) });
        give (suffixes @ [t], True) })
     (give (suffixes, False))) []"

definition pointer_suffix :: "token \<Rightarrow> node \<Rightarrow> 64 word \<Rightarrow> node pm" where
  "pointer_suffix start value flags = do {
     nullable \<leftarrow> reads (\<lambda>p. at_tok p StarQuestion);
     take_tok;
     let t = set_left [value] (set_flags (FlagStar OR (flags AND const_volatile)) (mk NType (tok_span start)));
     give (if nullable then set_left [t] (set_flags FlagOptional (mk NType (tok_span start))) else t) }"

definition type_suffixes :: "parsers \<Rightarrow> token \<Rightarrow> node \<times> 64 word \<times> bool \<Rightarrow> (node \<times> 64 word \<times> bool) pm" where
  "type_suffixes R start = repeat (\<lambda>(value, flags, suffixed).
     branch (\<lambda>p. at_any p [Star, StarQuestion] \<or> is_array_suffix_ahead p \<or> (suffixed \<and> at_tok p LBracket))
       (branch (\<lambda>p. at_tok p LBracket)
         (do {
            suffixes \<leftarrow> bracket_suffixes R start;
            let (value, flags) = wrap_suffixes (rev suffixes) value flags;
            give ((value, flags, True), True) })
         (do {
            value \<leftarrow> pointer_suffix start value flags;
            give ((value, flags AND NOT const_volatile, True), True) }))
       (give ((value, flags, suffixed), False)))"

text \<open>\<open>?\<close> and \<open>!\<close> after a type.\<close>

definition wrap_eaten :: "token_kind \<Rightarrow> 64 word \<Rightarrow> token \<Rightarrow> node \<Rightarrow> node pm" where
  "wrap_eaten k flag start value =
     on_eat k (give (set_left [value] (set_flags flag (mk NType (tok_span start))))) (give value)"

definition function_type :: "parsers \<Rightarrow> token \<Rightarrow> node pm" where
  "function_type R start = do {
     expect LParen expect_code ''expected `(`'';
     params \<leftarrow> branch (\<lambda>p. at_tok p RParen) (give []) (comma_list (p_type R) RParen []);
     expect RParen expect_code ''expected `)`'';
     expect Arrow expect_code ''expected `->`'';
     result \<leftarrow> p_type R;
     spanned start
       (set_left [result] (set_body params (set_flags FlagFuncType (mk NType (tok_span start))))) }"

definition paren_type :: "parsers \<Rightarrow> token \<Rightarrow> node pm" where
  "paren_type R start = do {
     first \<leftarrow> p_type R;
     on_eat Comma
       (do {
          items \<leftarrow> comma_list (p_type R) RParen [first];
          expect RParen expect_code ''expected `)`'';
          spanned start (set_body items (set_flags FlagTupleType (mk NType (tok_span start)))) })
       (do {
          expect RParen expect_code ''expected `)`'';
          spanned start (set_left [first] (mk NType (tok_span start))) }) }"

definition path_continues :: "token \<Rightarrow> nat \<Rightarrow> parser \<Rightarrow> bool" where
  "path_continues name segments p \<longleftrightarrow>
     at_tok p Dot \<and> tok_kind (peek p 1) = Name \<and>
     (is_type_path_ident (tok_text (peek p 1)) \<or> tok_text name = ''c'' \<or>
      (segments = 1 \<and> \<not> is_type_path_ident (tok_text name) \<and> tok_kind (peek p 2) \<noteq> LParen))"

definition type_path :: "token \<Rightarrow> nat pm" where
  "type_path name = do {
     r \<leftarrow> repeat (\<lambda>(path_end, segments). branch (path_continues name segments)
       (do { take_tok; t \<leftarrow> take_tok; give ((span_end (tok_span t), segments + 1), True) })
       (give ((path_end, segments), False))) (span_end (tok_span name), 1);
     give (fst r) }"

text \<open>\<open>source->bytes().substr(start, end - start)\<close>.\<close>

definition source_text :: "parser \<Rightarrow> nat \<Rightarrow> nat \<Rightarrow> bytes" where
  "source_text p start end = substr (src_bytes (ps_source p)) start (end - start)"

definition named_type :: "parsers \<Rightarrow> token \<Rightarrow> node pm" where
  "named_type R start = do {
     name \<leftarrow> take_tok;
     path_end \<leftarrow> type_path name;
     tx \<leftarrow> reads (\<lambda>p. source_text p (span_start (tok_span name)) path_end);
     args \<leftarrow> branch (\<lambda>p. at_tok p LBracket \<and> \<not> is_array_suffix_ahead p) (parse_type_args R) (give []);
     spanned start (set_body args (set_text tx (mk NType (tok_span start)))) }"

definition parse_primary_type :: "parsers \<Rightarrow> node pm" where
  "parse_primary_type R = do {
     start \<leftarrow> reads cur;
     on_eat KwFunc (function_type R start)
       (branch (\<lambda>p. at_name p ''void'')
         (do { t \<leftarrow> take_tok; give (set_text ''void'' (set_flags FlagVoid (mk NType (tok_span t)))) })
         (on_eat LParen (paren_type R start)
           (branch (\<lambda>p. at_tok p Name) (named_type R start)
             (do { fail expect_code ''expected a type''; give (mk NType (tok_span start)) })))) }"

definition parse_type :: "parsers \<Rightarrow> node pm" where
  "parse_type R = do {
     start \<leftarrow> reads cur;
     atomic \<leftarrow> eat At;
     flags \<leftarrow> type_qualifiers (if atomic then FlagAtomic else 0);
     value \<leftarrow> parse_primary_type R;
     r \<leftarrow> type_suffixes R start (value, flags, False);
     (case r of (value, flags, suffixed) \<Rightarrow> do {
        (if has_flag flags const_volatile \<and> \<not> suffixed
         then fail ''lucb.parse.type'' ''`const` and `volatile` qualify a pointee: write `const T*`''
         else give ());
        value \<leftarrow> wrap_eaten Question FlagOptional start value;
        value \<leftarrow> wrap_eaten Bang FlagFallible start value;
        spanned start
          (if has_flag flags FlagAtomic
           then set_left [value] (set_flags FlagAtomic (mk NType (tok_span start))) else value) }) }"

subsection \<open>Primary expressions\<close>

definition parse_literal :: "node pm" where
  "parse_literal = do {
     t \<leftarrow> take_tok;
     give (set_op (tok_kind t) (set_text (tok_text t) (mk NLiteral (tok_span t)))) }"

definition intrinsic_name :: "token \<Rightarrow> node" where
  "intrinsic_name word = add_flags FlagIntrinsic (make_tok NName word)"

definition builtin_type_ahead :: "parser \<Rightarrow> bool" where
  "builtin_type_ahead p =
     (if at_any p [KwConst, KwFunc, KwVolatile, At, LParen] then True
      else if at_tok p Name then
        (let nxt = tok_kind (peek p 1); nxt = (if nxt = Dot then tok_kind (peek p 3) else nxt)
         in nxt \<in> set [Star, StarQuestion, LBracket, Question, Bang])
      else False)"

definition builtin_arguments :: "parsers \<Rightarrow> node list pm" where
  "builtin_arguments R = do {
     sp \<leftarrow> reads (\<lambda>p. tok_span (cur p));
     e \<leftarrow> branch builtin_type_ahead (p_type R) (p_expression R);
     on_eat Comma
       (do {
          sp2 \<leftarrow> reads (\<lambda>p. tok_span (cur p));
          field \<leftarrow> branch at_ident
            (do { t \<leftarrow> take_tok; give [make_tok NName t] })
            (do { fail expect_code ''expected a field name''; give [] });
          give [set_left [e] (mk NParam sp), set_left field (mk NParam sp2)] })
       (give [set_left [e] (mk NParam sp)]) }"

definition parse_type_builtin :: "parsers \<Rightarrow> node pm" where
  "parse_type_builtin R = do {
     start \<leftarrow> reads cur;
     branch (\<lambda>p. at_name p ''memory'') (do { take_tok; take_tok; give () }) (give ());
     word \<leftarrow> take_tok;
     let name = (if tok_text word = ''size_of'' then ''sizeof''
                 else if tok_text word = ''align_of'' then ''alignof'' else ''offsetof'');
     let callee = set_text name (intrinsic_name word);
     expect LParen expect_code ''expected `(`'';
     list \<leftarrow> branch (\<lambda>p. at_tok p RParen) (give []) (builtin_arguments R);
     expect RParen expect_code ''expected `)`'';
     spanned start (set_body list (set_left [callee] (mk NCall (tok_span start)))) }"

definition format_part :: "parsers \<Rightarrow> node list \<Rightarrow> (node list \<times> bool) pm" where
  "format_part R parts = branch (\<lambda>p. at_tok p FormatText)
     (do { t \<leftarrow> take_tok; give (parts @ [make_tok NFormatText t], True) })
     (on_eat LBrace
       (do {
          sp \<leftarrow> reads (\<lambda>p. tok_span (peek p (-1)));
          e \<leftarrow> p_expression R;
          expect RBrace expect_code ''expected `}`'';
          give (parts @ [set_left [e] (mk NFormatField sp)], True) })
       (do {
          fail expect_code ''expected formatted string text or a field'';
          give (parts, False) }))"

definition parse_formatted :: "parsers \<Rightarrow> node pm" where
  "parse_formatted R = do {
     start \<leftarrow> take_tok;
     parts \<leftarrow> repeat (\<lambda>parts. branch (\<lambda>p. at_any p [FormatEnd, EndOfFile]) (give (parts, False))
       (format_part R parts)) [];
     expect FormatEnd expect_code ''expected the end of a formatted string'';
     spanned start (set_body parts (mk NFormatted (tok_span start))) }"

definition lambda_param :: "parsers \<Rightarrow> node option pm" where
  "lambda_param R = do {
     sp \<leftarrow> reads (\<lambda>p. tok_span (cur p));
     branch (\<lambda>p. at_tok p Name)
       (do {
          t \<leftarrow> take_tok;
          ty \<leftarrow> on_eat Colon (do { ty \<leftarrow> p_type R; give [ty] }) (give []);
          give (Some (set_type ty (set_text (tok_text t) (mk NParam sp)))) })
       (do { fail expect_code ''expected a parameter name''; give None }) }"

definition parse_lambda :: "parsers \<Rightarrow> node pm" where
  "parse_lambda R = do {
     start \<leftarrow> reads cur;
     expect LParen expect_code ''expected `(`'';
     list \<leftarrow> branch (\<lambda>p. at_tok p RParen) (give []) (comma_list_opt (lambda_param R) (Some RParen) []);
     expect RParen expect_code ''expected `)`'';
     expect FatArrow expect_code ''expected `=>`'';
     body \<leftarrow> p_expression R;
     spanned start (set_body [body] (set_right list (mk NLambda (tok_span start)))) }"

definition parse_group_or_tuple :: "parsers \<Rightarrow> node pm" where
  "parse_group_or_tuple R = do {
     start \<leftarrow> take_tok;
     on_eat RParen (do { sp \<leftarrow> reads (span_from start); give (mk NUnit sp) })
       (do {
          first \<leftarrow> p_expression R;
          on_eat Comma
            (do {
               branch (\<lambda>p. at_tok p RParen)
                 (fail expect_code ''a tuple requires at least two elements'') (give ());
               items \<leftarrow> comma_list (p_expression R) RParen [first];
               expect RParen expect_code ''expected `)`'';
               spanned start (set_body items (mk NTuple (tok_span start))) })
            (do {
               expect RParen expect_code ''expected `)`'';
               sp \<leftarrow> reads (span_from start);
               give (set_left [first] (mk NGroup sp)) }) }) }"

definition parse_array_lit :: "parsers \<Rightarrow> node pm" where
  "parse_array_lit R = do {
     start \<leftarrow> take_tok;
     items \<leftarrow> branch (\<lambda>p. at_tok p RBracket) (give []) (comma_list (p_expression R) RBracket []);
     expect RBracket expect_code ''expected `]`'';
     spanned start (set_body items (mk NArrayLit (tok_span start))) }"

text \<open>The part of \<open>new T\<close> after its type: the node's kind and its body.\<close>

definition new_body :: "parsers \<Rightarrow> (node_kind \<times> node list) pm" where
  "new_body R = branch (\<lambda>p. at_tok p LParen)
     (do { args \<leftarrow> parse_arg_list R; give (NNew, args) })
     (on_eat Dot
       (do {
          sp \<leftarrow> reads (\<lambda>p. tok_span (cur p));
          name \<leftarrow> branch (\<lambda>p. at_tok p Name) (do { t \<leftarrow> take_tok; give (tok_text t) }) (give []);
          args \<leftarrow> branch (\<lambda>p. at_tok p LParen) (parse_arg_list R) (give []);
          give (NNew, [set_body args (set_text name (mk NCaseValue sp))]) })
       (on_eat DashDashDash (give (NAlloc, [])) (give (NNew, []))))"

definition parse_new :: "parsers \<Rightarrow> node pm" where
  "parse_new R = do {
     start \<leftarrow> take_tok;
     ty \<leftarrow> p_type R;
     r \<leftarrow> new_body R;
     allocator \<leftarrow> on_eat KwIn (do { e \<leftarrow> p_else_expr R; give [e] }) (give []);
     spanned start
       (set_right allocator (set_body (snd r) (set_type [ty] (mk (fst r) (tok_span start))))) }"

subsection \<open>\<open>match\<close>\<close>

definition payload_name :: "node option pm" where
  "payload_name = do {
     sp \<leftarrow> reads (\<lambda>p. tok_span (cur p));
     on_eat Underscore (give (Some (set_text ''_'' (mk NName sp))))
       (branch (\<lambda>p. at_tok p Name)
         (do { t \<leftarrow> take_tok; give (Some (set_text (tok_text t) (mk NName sp))) })
         (do { fail expect_code ''expected a payload name''; give None })) }"

definition case_pattern :: "token \<Rightarrow> node pm" where
  "case_pattern start = do {
     name \<leftarrow> branch (\<lambda>p. at_ident p \<or> at_name p ''some'')
       (do { t \<leftarrow> take_tok; give (tok_text t) })
       (do { fail expect_code ''expected a case name''; give [] });
     binds \<leftarrow> on_eat LParen
       (do {
          binds \<leftarrow> branch (\<lambda>p. at_tok p RParen) (give []) (comma_list_opt payload_name None []);
          expect RParen expect_code ''expected `)`'';
          give binds })
       (give []);
     spanned start (set_body binds (set_text name (mk NPattern (tok_span start)))) }"

definition literal_pattern :: "token \<Rightarrow> bool \<Rightarrow> node pm" where
  "literal_pattern start neg = do {
     lit \<leftarrow> parse_literal;
     let left = (if neg then set_left [lit] (set_op Minus (mk NUnary (tok_span start))) else lit);
     n \<leftarrow> branch (\<lambda>p. at_any p [DotDotLt, DotDotEq])
       (do {
          op \<leftarrow> take_tok;
          upper \<leftarrow> parse_literal;
          give (set_right [upper] (set_op (tok_kind op) (set_left [left] (mk NPattern (tok_span start))))) })
       (give (set_left [left] (mk NPattern (tok_span start))));
     spanned start n }"

definition parse_pattern :: "node pm" where
  "parse_pattern = do {
     start \<leftarrow> reads cur;
     on_eat Underscore (give (set_text ''_'' (mk NPattern (tok_span start))))
       (on_eat Dot (case_pattern start)
         (do {
            neg \<leftarrow> eat Minus;
            branch (\<lambda>p. is_literal_kind (tok_kind (cur p)) \<or> at_any p [IntLit, FloatLit, CharLit, StringLit])
              (literal_pattern start neg)
              (branch (\<lambda>p. at_tok p Name)
                (do { t \<leftarrow> take_tok; spanned start (set_text (tok_text t) (mk NPattern (tok_span start))) })
                (do { fail expect_code ''expected a pattern''; give (mk NPattern (tok_span start)) })) })) }"

definition arm_patterns :: "node list pm" where
  "arm_patterns = do {
     first \<leftarrow> parse_pattern;
     repeat (\<lambda>pats. on_eat Comma (do { q \<leftarrow> parse_pattern; give (pats @ [q], True) }) (give (pats, False)))
       [first] }"

definition match_arm :: "parsers \<Rightarrow> bool \<Rightarrow> node pm" where
  "match_arm R as_expr = do {
     sp \<leftarrow> reads (\<lambda>p. tok_span (cur p));
     pats \<leftarrow> arm_patterns;
     guard \<leftarrow> on_eat KwIf (do { e \<leftarrow> p_expression R; give [e] }) (give []);
     body \<leftarrow> (if as_expr then do {
         expect FatArrow expect_code ''expected `=>`'';
         e \<leftarrow> p_expression R;
         expect Newline expect_code ''expected newline'';
         give e }
       else do {
         expect Colon expect_code ''expected `:`'';
         p_suite R });
     give (set_body [body] (set_type guard (set_left pats (mk NMatchArm sp)))) }"

text \<open>
  The bodies of \<open>match\<close>, \<open>struct\<close> and their like: items until the dedent, the documentation between
  them skipped, a token taken where an item took none.
\<close>

definition indented_items :: "'a pm \<Rightarrow> ('b \<Rightarrow> 'a \<Rightarrow> 'b) \<Rightarrow> 'b \<Rightarrow> 'b pm" where
  "indented_items item add = repeat (\<lambda>acc. branch (\<lambda>p. at_any p [Dedent, EndOfFile]) (give (acc, False))
     (do {
        skip_docs;
        branch (\<lambda>p. at_tok p Dedent) (give (acc, False))
          (do { x \<leftarrow> forced item; give (add acc x, True) }) }))"

definition parse_match :: "parsers \<Rightarrow> bool \<Rightarrow> node pm" where
  "parse_match R as_expr = do {
     start \<leftarrow> take_tok;
     e \<leftarrow> p_expression R;
     expect Colon expect_code ''expected `:`'';
     expect Newline expect_code ''expected newline'';
     expect Indent expect_code ''expected an indented body'';
     arms \<leftarrow> indented_items (match_arm R as_expr) (\<lambda>arms arm. arms @ [arm]) [];
     expect Dedent expect_code ''expected a dedent'';
     spanned start
       (set_body arms (set_left [e] (mk (if as_expr then NMatchExpr else NMatch) (tok_span start)))) }"

definition parse_primary :: "parsers \<Rightarrow> node pm" where
  "parse_primary R = do {
     start \<leftarrow> reads cur;
     branch (\<lambda>p. at_type_builtin p 0 False \<or>
                 (at_name p ''memory'' \<and> tok_kind (peek p 1) = Dot \<and> at_type_builtin p 2 True))
       (parse_type_builtin R)
       (branch (\<lambda>p. at_tok p FormatStart) (parse_formatted R)
       (branch (\<lambda>p. is_literal_kind (tok_kind (cur p))) parse_literal
       (branch (\<lambda>p. at_any p [Name, Underscore]) (do { t \<leftarrow> take_tok; give (make_tok NName t) })
       (on_eat KwSelf (give (set_text ''self'' (mk NSelf (tok_span start))))
       (on_eat Dot
         (do {
            name \<leftarrow> branch at_ident (do { t \<leftarrow> take_tok; give (tok_text t) })
              (do { fail expect_code ''expected a case name''; give [] });
            args \<leftarrow> branch (\<lambda>p. at_tok p LParen) (parse_arg_list R) (give []);
            spanned start (set_body args (set_text name (mk NCaseValue (tok_span start)))) })
       (branch (\<lambda>p. at_tok p LParen)
         (branch is_lambda_ahead (parse_lambda R) (parse_group_or_tuple R))
       (branch (\<lambda>p. at_tok p LBracket) (parse_array_lit R)
       (branch (\<lambda>p. at_tok p KwMatch) (parse_match R True)
       (branch (\<lambda>p. at_tok p KwNew) (parse_new R)
         (do {
            fail expect_code ''expected an expression'';
            give (mk NName (tok_span start)) })))))))))) }"

subsection \<open>Postfix expressions\<close>

text \<open>
  Where a subtree's text ends: the furthest end among the node, its first left, right and type
  child, and all of its body. An unsigned difference is taken modulo \<open>2^32\<close>.
\<close>

lemma size_in_list: "x \<in> set xs \<Longrightarrow> size x \<le> size_list size xs"
  by (rule size_list_estimation'[OF _ order_refl])

lemma size_in_take: "x \<in> set (take n xs) \<Longrightarrow> size x \<le> size_list size xs"
  by (rule size_in_list[OF in_set_takeD])

function subtree_end :: "node \<Rightarrow> nat" where
  "subtree_end (Node k sp tx op fl l r b ty lb at ds) =
     foldr max (map subtree_end (take 1 l @ take 1 r @ take 1 ty @ b)) (span_end sp)"
  by pat_completeness auto
termination
  by (relation "measure size")
    (auto dest!: size_in_take dest: size_in_list)

definition assert_text :: "parser \<Rightarrow> node \<Rightarrow> bytes" where
  "assert_text p e =
     substr (src_bytes (ps_source p)) (span_start (n_span e))
       (nat ((int (subtree_end e) - int (span_start (n_span e))) mod 2 ^ 32))"

definition parse_standard_call :: "parsers \<Rightarrow> node \<Rightarrow> token \<Rightarrow> node option pm" where
  "parse_standard_call R value start = do {
     name \<leftarrow> reads (\<lambda>p. tok_text (peek p 1));
     if n_kind value = NName \<and> n_text value = ''strings'' \<and> name = ''format'' then do {
       take_tok;
       word \<leftarrow> take_tok;
       args \<leftarrow> parse_arg_list R;
       n \<leftarrow> spanned start (set_body args (set_left [intrinsic_name word] (mk NCall (tok_span start))));
       give (Some n) }
     else if n_kind value = NName \<and> n_text value = ''memory'' \<and> name = ''allocate'' then do {
       take_tok;
       take_tok;
       args \<leftarrow> parse_arg_list R;
       n \<leftarrow> spanned start (set_body args (mk NAlloc (tok_span start)));
       give (Some n) }
     else branch (\<lambda>p. name = ''hash'' \<and> tok_kind (peek p 3) = RParen)
       (do {
          take_tok;
          word \<leftarrow> take_tok;
          take_tok;
          take_tok;
          let a = set_left [value] (mk NParam (n_span value));
          n \<leftarrow> spanned start (set_body [a] (set_left [intrinsic_name word] (mk NCall (tok_span start))));
          give (Some n) })
       (give None) }"

definition expr_as_type :: "node \<Rightarrow> node pm" where
  "expr_as_type value =
     (let t = mk NType (n_span value)
      in if n_kind value = NName then give (set_text (n_text value) t)
         else if n_kind value = NMember \<and> n_left value \<noteq> [] \<and> n_kind (hd (n_left value)) = NName then
           give (set_left (n_left value) (set_text (n_text value) t))
         else do { fail expect_code ''a span constructor names its element type''; give t })"

definition close_slice :: "token \<Rightarrow> node list \<Rightarrow> node list \<Rightarrow> node \<Rightarrow> node pm" where
  "close_slice start lo_part hi_part value = do {
     expect RBracket expect_code ''expected `]`'';
     spanned start (set_right hi_part (set_body lo_part (set_left [value] (mk NSlice (tok_span start))))) }"

definition parse_subscript :: "parsers \<Rightarrow> node \<Rightarrow> token \<Rightarrow> node pm" where
  "parse_subscript R value start =
     (let prefix_slice = do {
        hi_part \<leftarrow> branch (\<lambda>p. tok_kind (peek p (-1)) = DotDotLt) (do { e \<leftarrow> p_expression R; give [e] }) (give []);
        close_slice start [] hi_part value }
      in on_eat DotDotLt prefix_slice (on_eat DotDot prefix_slice (do {
        first \<leftarrow> p_expression R;
        if n_kind first = NBinary \<and> (n_op first = DotDotLt \<or> n_op first = DotDot)
        then close_slice start (n_left first) (n_right first) value
        else on_eat DotDotLt (do { e \<leftarrow> p_expression R; close_slice start [first] [e] value })
          (on_eat DotDot (close_slice start [first] [] value)
            (do {
               expect RBracket expect_code ''expected `]`'';
               spanned start (set_body [first] (set_left [value] (mk NIndex (tok_span start)))) })) })))"

definition parse_member :: "node \<Rightarrow> token \<Rightarrow> node pm" where
  "parse_member value start = do {
     name \<leftarrow> branch (\<lambda>p. at_tok p IntLit) (do { t \<leftarrow> take_tok; give (tok_text t) })
       (branch at_ident (do { t \<leftarrow> take_tok; give (tok_text t) })
         (do { fail expect_code ''expected a member name''; give [] }));
     spanned start (set_text name (set_left [value] (mk NMember (tok_span start)))) }"

definition parse_call :: "parsers \<Rightarrow> node \<Rightarrow> token \<Rightarrow> node pm" where
  "parse_call R value start = do {
     args \<leftarrow> parse_arg_list R;
     c \<leftarrow> spanned start (set_body args (set_left [value] (mk NCall (tok_span start))));
     if n_kind value = NName \<and> n_text value = ''assert'' \<and> args \<noteq> [] \<and> n_left (hd args) \<noteq> []
     then do { tx \<leftarrow> reads (\<lambda>p. assert_text p (hd (n_left (hd args)))); give (set_text tx c) }
     else give c }"

definition parse_generic_call :: "parsers \<Rightarrow> node \<Rightarrow> token \<Rightarrow> node pm" where
  "parse_generic_call R value start = do {
     targs \<leftarrow> parse_type_args R;
     args \<leftarrow> branch (\<lambda>p. at_tok p LParen) (parse_arg_list R) (give []);
     spanned start (set_body args (set_type targs (set_left [value] (mk NCall (tok_span start))))) }"

definition parse_span_make :: "parsers \<Rightarrow> node \<Rightarrow> token \<Rightarrow> node pm" where
  "parse_span_make R value start = do {
     t \<leftarrow> expr_as_type value;
     take_tok;
     take_tok;
     args \<leftarrow> parse_arg_list R;
     spanned start (set_body args (set_type [t] (mk NSpanMake (tok_span start)))) }"

text \<open>One link of the chain: the value it makes, or \<open>None\<close> where the chain ends.\<close>

definition postfix_link :: "parsers \<Rightarrow> node \<Rightarrow> token \<Rightarrow> node option pm" where
  "postfix_link R value start = do {
     standard \<leftarrow> branch (\<lambda>p. at_tok p Dot \<and> tok_kind (peek p 1) = Name \<and> tok_kind (peek p 2) = LParen)
       (parse_standard_call R value start) (give None);
     (case standard of
        Some v \<Rightarrow> give (Some v)
      | None \<Rightarrow>
          on_eat Dot (do { v \<leftarrow> parse_member value start; give (Some v) })
          (branch (\<lambda>p. at_tok p LParen) (do { v \<leftarrow> parse_call R value start; give (Some v) })
          (branch (\<lambda>p. at_tok p LBracket \<and> is_generic_call_ahead p)
            (do { v \<leftarrow> parse_generic_call R value start; give (Some v) })
          (branch (\<lambda>p. at_tok p LBracket \<and> tok_kind (peek p 1) = RBracket \<and> tok_kind (peek p 2) = LParen)
            (do { v \<leftarrow> parse_span_make R value start; give (Some v) })
          (on_eat LBracket (do { v \<leftarrow> parse_subscript R value start; give (Some v) })
            (give None)))))) }"

definition parse_postfix :: "parsers \<Rightarrow> node pm" where
  "parse_postfix R = do {
     start \<leftarrow> reads cur;
     value \<leftarrow> parse_primary R;
     r \<leftarrow> repeat (\<lambda>(value, chain). branch ended_suite (give ((value, chain), False))
       (branch (\<lambda>p. k_max_chain < ps_nest p + chain)
         (do { fail ''lucb.parse.limit'' ''expression nests too deeply''; give ((value, chain), False) })
         (do {
            link \<leftarrow> postfix_link R value start;
            (case link of
               Some v \<Rightarrow> give ((v, chain + 1), True)
             | None \<Rightarrow> give ((value, chain + 1), False)) }))) (value, 0);
     give (fst r) }"

subsection \<open>Operators\<close>

definition parse_unary :: "parsers \<Rightarrow> node pm" where
  "parse_unary R = nested (branch (\<lambda>p. k_max_nest < ps_nest p)
     (do {
        fail ''lucb.parse.limit'' ''expression nests too deeply'';
        sp \<leftarrow> reads (\<lambda>p. tok_span (cur p));
        give (mk NLiteral sp) })
     (do {
        start \<leftarrow> reads cur;
        branch (\<lambda>p. at_any p [KwTry, KwNot, Plus, Minus, MinusPercent, Tilde, Star, Amp])
          (do {
             op \<leftarrow> take_tok;
             e \<leftarrow> p_unary R;
             spanned start (set_left [e] (set_op (tok_kind op) (mk NUnary (tok_span start)))) })
          (branch is_scalar_cast_ahead
            (do {
               take_tok;
               ty \<leftarrow> p_type R;
               expect RParen expect_code ''expected `)`'';
               e \<leftarrow> p_unary R;
               spanned start (set_left [e] (set_type [ty] (mk NCast (tok_span start)))) })
            (parse_postfix R)) }))"

text \<open>The loop of \<open>parse_binary_rest\<close>, on the tree so far, the two flags and the chain's length.\<close>

definition binary_step ::
  "parsers \<Rightarrow> nat \<Rightarrow> node \<times> bool \<times> bool \<times> nat \<Rightarrow> ((node \<times> bool \<times> bool \<times> nat) \<times> bool) pm" where
  "binary_step R min_prec = (\<lambda>(left, used_cmp, used_range, chain).
     branch ended_suite (give ((left, used_cmp, used_range, chain), False))
     (do {
        op \<leftarrow> reads (\<lambda>p. tok_kind (cur p));
        if prec_of op < min_prec \<or> prec_of op = 0 then give ((left, used_cmp, used_range, chain), False)
        else branch (\<lambda>p. k_max_chain < ps_nest p + (chain + 1))
          (do {
             fail ''lucb.parse.limit'' ''expression nests too deeply'';
             give ((left, used_cmp, used_range, chain + 1), False) })
          (do {
             (if is_compare op \<and> used_cmp
              then fail ''lucb.parse.chain'' ''comparison operators cannot be chained'' else give ());
             (if is_compare op \<and> n_kind left = NUnary \<and> n_op left = KwNot
              then fail ''lucb.parse.precedence'' ''ambiguous `not` before comparison; write `not (a == b)`''
              else give ());
             (if is_range_op op \<and> used_range
              then fail ''lucb.parse.chain'' ''range operators cannot be chained'' else give ());
             take_tok;
             right \<leftarrow> p_binary R (prec_of op + 1);
             give ((set_right [right] (set_left [left] (set_op op (mk NBinary (n_span left)))),
                    used_cmp \<or> is_compare op, used_range \<or> is_range_op op, chain + 1), True) }) }))"

definition parse_binary_rest :: "parsers \<Rightarrow> node \<Rightarrow> nat \<Rightarrow> node pm" where
  "parse_binary_rest R left min_prec = do {
     r \<leftarrow> repeat (binary_step R min_prec) (left, False, False, 0);
     give (fst r) }"

definition parse_binary :: "parsers \<Rightarrow> nat \<Rightarrow> node pm" where
  "parse_binary R min_prec = do { left \<leftarrow> p_unary R; parse_binary_rest R left min_prec }"

definition parse_conditional_rest :: "parsers \<Rightarrow> node \<Rightarrow> node pm" where
  "parse_conditional_rest R n = branch ended_suite (give n)
     (on_eat KwIf
       (do {
          c \<leftarrow> p_binary R 1;
          expect KwElse expect_code ''expected `else`'';
          alt \<leftarrow> p_conditional R;
          give (set_right [alt] (set_type [c] (set_left [n] (mk NConditional (n_span n))))) })
       (give n))"

definition parse_conditional :: "parsers \<Rightarrow> node pm" where
  "parse_conditional R = do { n \<leftarrow> p_binary R 1; parse_conditional_rest R n }"

definition else_jump :: "parsers \<Rightarrow> node pm" where
  "else_jump R = do {
     start \<leftarrow> reads cur;
     t \<leftarrow> take_tok;
     if tok_kind t = KwReturn then do {
       value \<leftarrow> branch (\<lambda>p. at_any p [Newline, Dedent, EndOfFile, RParen, Comma, RBracket]) (give [])
         (do { e \<leftarrow> p_else_expr R; give [e] });
       spanned start (set_left value (mk NReturn (tok_span start))) }
     else do {
       label \<leftarrow> branch (\<lambda>p. at_tok p Name) (do { l \<leftarrow> take_tok; give (tok_text l) }) (give []);
       spanned start (set_text label (mk (if tok_kind t = KwBreak then NBreak else NContinue) (tok_span start))) } }"

definition parse_else_rest :: "parsers \<Rightarrow> node \<Rightarrow> node pm" where
  "parse_else_rest R n = branch ended_suite (give n)
     (on_eat KwElse
       (do {
          fallback \<leftarrow> branch (\<lambda>p. at_any p [KwReturn, KwBreak, KwContinue]) (else_jump R) (p_else_expr R);
          give (set_right [fallback] (set_left [n] (mk NElse (n_span n)))) })
       (give n))"

definition parse_else_expr :: "parsers \<Rightarrow> node pm" where
  "parse_else_expr R = branch (\<lambda>p. at_tok p KwTry)
     (do {
        start \<leftarrow> take_tok;
        value \<leftarrow> nested (branch (\<lambda>p. k_max_nest < ps_nest p)
          (do { fail ''lucb.parse.limit'' ''expression nests too deeply''; give [] })
          (do { e \<leftarrow> p_else_expr R; give [e] }));
        give (set_left value (set_op (tok_kind start) (mk NUnary (tok_span start)))) })
     (do { n \<leftarrow> parse_conditional R; parse_else_rest R n })"

text \<open>The \<open>catch\<close> suffix of \<open>parse_expression\<close> and \<open>finish_expression\<close>.\<close>

definition parse_catch :: "parsers \<Rightarrow> node \<Rightarrow> node pm" where
  "parse_catch R n = branch ended_suite (give n)
     (on_eat KwCatch
       (do {
          name \<leftarrow> branch (\<lambda>p. at_tok p Name) (do { t \<leftarrow> take_tok; give (tok_text t) }) (give []);
          expect Colon expect_code ''expected `:`'';
          body \<leftarrow> p_suite R;
          give (set_body [body] (set_text name (set_left [n] (mk NCatch (n_span n))))) })
       (give n))"

definition parse_expression :: "parsers \<Rightarrow> node pm" where
  "parse_expression R = nested (branch (\<lambda>p. k_max_nest < ps_nest p)
     (do {
        fail ''lucb.parse.limit'' ''expression nests too deeply'';
        sp \<leftarrow> reads (\<lambda>p. tok_span (cur p));
        give (mk NName sp) })
     (do { n \<leftarrow> p_else_expr R; parse_catch R n }))"

definition finish_expression :: "parsers \<Rightarrow> node \<Rightarrow> node pm" where
  "finish_expression R unary = do {
     n \<leftarrow> parse_binary_rest R unary 1;
     n \<leftarrow> parse_conditional_rest R n;
     n \<leftarrow> parse_else_rest R n;
     parse_catch R n }"

end
