(* ===== verification/ParseStmt.thy ===== *)
theory ParseStmt
  imports ParseExpr
begin

section \<open>Statements\<close>

text \<open>
  The productions of \<open>src/parse/stmt.cpp\<close> and \<open>parse_asm\<close> of \<open>src/parse/decl.cpp\<close>. A production
  that may return \<open>nullptr\<close> gives an option; \<open>spawn\<close>, a word of the full language, is the only one.
\<close>

subsection \<open>Bindings and conditions\<close>

definition binding_name :: "node option pm" where
  "binding_name = branch (\<lambda>p. at_tok p Underscore)
     (do { t \<leftarrow> take_tok; give (Some (set_text ''_'' (mk NName (tok_span t)))) })
     (branch (\<lambda>p. at_tok p Name) (do { t \<leftarrow> take_tok; give (Some (make_tok NName t)) })
       (do { fail expect_code ''expected a name''; give None }))"

definition binding_target :: "node \<Rightarrow> node pm" where
  "binding_target n = on_eat LParen
     (do {
        names \<leftarrow> comma_list_opt binding_name None [];
        expect RParen expect_code ''expected `)`'';
        give (set_body names n) })
     (branch (\<lambda>p. at_tok p Name) (do { t \<leftarrow> take_tok; give (set_text (tok_text t) n) })
       (do { fail expect_code ''expected a name''; give n }))"

definition parse_binding :: "parsers \<Rightarrow> node pm" where
  "parse_binding R = do {
     start \<leftarrow> reads cur;
     is_let \<leftarrow> reads (\<lambda>p. at_tok p KwLet);
     take_tok;
     n \<leftarrow> binding_target (mk (if is_let then NLet else NVar) (tok_span start));
     ty \<leftarrow> on_eat Colon (do { t \<leftarrow> p_type R; give [t] }) (give []);
     let n = set_type ty n;
     n \<leftarrow> on_eat Eq
       (do {
          uninit \<leftarrow> (if is_let then give False else eat DashDashDash);
          if uninit then give (add_flags FlagUninit n)
          else do { e \<leftarrow> p_expression R; give (set_left [e] n) } })
       (if is_let then do { fail expect_code ''a let binding requires an initialiser''; give n } else give n);
     expect_stmt_newline (n_left n);
     spanned start n }"

definition parse_condition :: "parsers \<Rightarrow> node pm" where
  "parse_condition R = on_eat KwLet
     (do {
        sp \<leftarrow> reads (\<lambda>p. tok_span (peek p (-1)));
        name \<leftarrow> branch (\<lambda>p. at_tok p Name) (do { t \<leftarrow> take_tok; give (tok_text t) })
          (do { fail expect_code ''expected a name''; give [] });
        expect Eq expect_code ''expected `=`'';
        e \<leftarrow> p_expression R;
        give (set_left [e] (set_text name (set_flags FlagIfLet (mk NLet sp)))) })
     (p_expression R)"

text \<open>A condition, its colon and its suite: \<open>if\<close>, \<open>elif\<close> and \<open>while\<close> from the word on.\<close>

definition conditional_suite :: "parsers \<Rightarrow> node_kind \<Rightarrow> node pm" where
  "conditional_suite R kind = do {
     start \<leftarrow> take_tok;
     c \<leftarrow> parse_condition R;
     expect Colon expect_code ''expected `:`'';
     body \<leftarrow> p_suite R;
     let n = set_body [body] (set_left [c] (mk kind (tok_span start)));
     give (if n_kind c = NLet then add_flags FlagIfLet n else n) }"

subsection \<open>Compound statements\<close>

text \<open>\<open>tail->right = elif\<close>: each \<open>elif\<close> is the alternative of the one before it.\<close>

definition chain_elifs :: "node list \<Rightarrow> node list \<Rightarrow> node list" where
  "chain_elifs elifs alternative = foldr (\<lambda>e rest. [set_right rest e]) elifs alternative"

definition parse_if :: "parsers \<Rightarrow> node pm" where
  "parse_if R = do {
     start \<leftarrow> reads cur;
     n \<leftarrow> conditional_suite R NIf;
     elifs \<leftarrow> repeat (\<lambda>es. branch (\<lambda>p. at_tok p KwElif)
       (do { e \<leftarrow> conditional_suite R NIf; give (es @ [e], True) }) (give (es, False))) [];
     alternative \<leftarrow> on_eat KwElse
       (do { expect Colon expect_code ''expected `:`''; s \<leftarrow> p_suite R; give [s] }) (give []);
     spanned start (set_right (chain_elifs elifs alternative) n) }"

definition parse_while :: "parsers \<Rightarrow> node pm" where
  "parse_while R = do { start \<leftarrow> reads cur; n \<leftarrow> conditional_suite R NWhile; spanned start n }"

definition loop_name :: "node option pm" where
  "loop_name = branch (\<lambda>p. at_tok p Name) (do { t \<leftarrow> take_tok; give (Some (make_tok NName t)) })
     (do { fail expect_code ''expected a name''; give None })"

definition loop_target :: "parsers \<Rightarrow> node \<Rightarrow> node pm" where
  "loop_target R n = on_eat LParen
     (do {
        name \<leftarrow> branch (\<lambda>p. at_tok p Name) (do { t \<leftarrow> take_tok; give (tok_text t) }) (give []);
        expect Comma expect_code ''expected `,`'';
        names \<leftarrow> comma_list_opt loop_name None [];
        expect RParen expect_code ''expected `)`'';
        give (set_left names (set_text name n)) })
     (do {
        n \<leftarrow> branch (\<lambda>p. at_any p [Name, Underscore])
          (do { t \<leftarrow> take_tok; give (set_text (tok_text t) n) })
          (do { fail expect_code ''expected a loop variable''; give n });
        ty \<leftarrow> on_eat Colon (do { t \<leftarrow> p_type R; give [t] }) (give []);
        give (set_type ty n) })"

definition parse_for :: "parsers \<Rightarrow> node pm" where
  "parse_for R = do {
     start \<leftarrow> take_tok;
     n \<leftarrow> loop_target R (mk NFor (tok_span start));
     expect KwIn expect_code ''expected `in`'';
     n \<leftarrow> on_eat Amp (give (add_flags FlagByPtr n)) (give n);
     e \<leftarrow> p_expression R;
     expect Colon expect_code ''expected `:`'';
     body \<leftarrow> p_suite R;
     spanned start (set_body [body] (set_right [e] n)) }"

definition parse_with :: "parsers \<Rightarrow> node pm" where
  "parse_with R = do {
     start \<leftarrow> take_tok;
     e \<leftarrow> p_expression R;
     expect Colon expect_code ''expected `:`'';
     body \<leftarrow> p_suite R;
     spanned start (set_body [body] (set_left [e] (mk NWith (tok_span start)))) }"

definition asm_operand :: "parsers \<Rightarrow> node option pm" where
  "asm_operand R = do {
     sp \<leftarrow> reads (\<lambda>p. tok_span (cur p));
     branch (\<lambda>p. at_any p [KwIn, Name])
       (do {
          t \<leftarrow> take_tok;
          let op = set_text (tok_text t) (mk NParam sp);
          op \<leftarrow> on_eat LParen
            (do {
               op \<leftarrow> branch (\<lambda>p. at_any p [StringLit, Name])
                 (do { place \<leftarrow> take_tok; give (set_type [make_tok NName place] op) }) (give op);
               expect RParen expect_code ''expected `)`'';
               branch (\<lambda>p. at_any p [RParen, Comma]) (give op)
                 (do { e \<leftarrow> p_expression R; give (set_left [e] op) }) })
            (give op);
          give (Some op) })
       (do { fail expect_code ''expected an asm operand''; give None }) }"

definition asm_lines :: "node list pm" where
  "asm_lines = repeat (\<lambda>lines. branch (\<lambda>p. at_any p [RawLine, Newline])
     (do {
        t \<leftarrow> take_tok;
        give (if tok_kind t = RawLine then lines @ [make_tok NLiteral t] else lines, True) })
     (give (lines, False))) []"

definition parse_asm :: "parsers \<Rightarrow> node pm" where
  "parse_asm R = do {
     start \<leftarrow> take_tok;
     arch \<leftarrow> branch (\<lambda>p. at_tok p Name) (do { t \<leftarrow> take_tok; give (tok_text t) })
       (do { fail expect_code ''expected an architecture name''; give [] });
     ops \<leftarrow> on_eat LParen
       (do {
          ops \<leftarrow> branch (\<lambda>p. at_tok p RParen) (give []) (comma_list_opt (asm_operand R) None []);
          expect RParen expect_code ''expected `)`'';
          give ops })
       (give []);
     expect Colon expect_code ''expected `:`'';
     expect Newline expect_code ''expected newline'';
     expect Indent expect_code ''expected an indented body'';
     lines \<leftarrow> asm_lines;
     expect Dedent expect_code ''expected a dedent'';
     spanned start (set_body lines (set_left ops (set_text arch (mk NAsm (tok_span start))))) }"

subsection \<open>Simple statements\<close>

definition parse_free :: "parsers \<Rightarrow> node pm" where
  "parse_free R = do {
     start \<leftarrow> take_tok;
     expect LParen expect_code ''expected `(`'';
     e \<leftarrow> p_expression R;
     expect RParen expect_code ''expected `)`'';
     allocator \<leftarrow> on_eat KwIn (do { a \<leftarrow> p_else_expr R; give [a] }) (give []);
     spanned start (set_right allocator (set_left [e] (mk NFree (tok_span start)))) }"

definition is_drop :: "node \<Rightarrow> parser \<Rightarrow> bool" where
  "is_drop left p \<longleftrightarrow> n_kind left = NName \<and> n_text left = ''_'' \<and> at_tok p Eq"

definition parse_drop :: "parsers \<Rightarrow> token \<Rightarrow> node pm" where
  "parse_drop R start = do {
     take_tok;
     value \<leftarrow> p_expression R;
     let callee = add_flags FlagIntrinsic (set_text ''discard'' (mk NName (tok_span start)));
     let a = set_left [value] (mk NParam (n_span value));
     spanned start (set_body [a] (set_left [callee] (mk NCall (tok_span start)))) }"

text \<open>\<open>n->left->body->left\<close> of a drop: the value it drops.\<close>

definition dropped :: "node \<Rightarrow> node list" where
  "dropped d = n_left (hd (n_body d))"

definition parse_return :: "parsers \<Rightarrow> token \<Rightarrow> node pm" where
  "parse_return R start = do {
     take_tok;
     value \<leftarrow> branch (\<lambda>p. at_any p [Newline, Dedent, EndOfFile]) (give [])
       (do { e \<leftarrow> p_expression R; give [e] });
     expect_stmt_newline value;
     spanned start (set_left value (mk NReturn (tok_span start))) }"

definition parse_jump :: "token \<Rightarrow> node pm" where
  "parse_jump start = do {
     t \<leftarrow> take_tok;
     label \<leftarrow> branch (\<lambda>p. at_tok p Name) (do { l \<leftarrow> take_tok; give (tok_text l) }) (give []);
     expect Newline expect_code ''expected newline'';
     give (set_text label (mk (if tok_kind t = KwBreak then NBreak else NContinue) (tok_span start))) }"

text \<open>What follows the call of a \<open>defer\<close>.\<close>

definition defer_end :: "parsers \<Rightarrow> token \<Rightarrow> node \<Rightarrow> node \<Rightarrow> node pm" where
  "defer_end R start n left =
     (let n = set_left [left] n
      in if n_kind left = NCatch then spanned start n
         else on_eat KwCatch
           (do {
              name \<leftarrow> branch (\<lambda>p. at_tok p Name) (do { t \<leftarrow> take_tok; give (tok_text t) }) (give []);
              expect Colon expect_code ''expected `:`'';
              body \<leftarrow> p_suite R;
              spanned start (set_body [body] (set_text name n)) })
           (do { expect Newline expect_code ''expected newline''; give n }))"

definition defer_assign :: "parsers \<Rightarrow> token \<Rightarrow> token \<Rightarrow> node \<Rightarrow> node \<Rightarrow> node pm" where
  "defer_assign R start here n left = do {
     op \<leftarrow> take_tok;
     e \<leftarrow> p_expression R;
     a \<leftarrow> spanned here (set_right [e] (set_left [left] (set_op (tok_kind op) (mk NAssign (tok_span here)))));
     expect_stmt_newline [e];
     spanned start (set_right [a] n) }"

definition parse_defer :: "parsers \<Rightarrow> token \<Rightarrow> node pm" where
  "parse_defer R start = do {
     t \<leftarrow> take_tok;
     let n = mk (if tok_kind t = KwDefer then NDefer else NErrdefer) (tok_span start);
     on_eat Colon (do { s \<leftarrow> p_suite R; spanned start (set_right [s] n) })
       (branch (\<lambda>p. at_tok p KwFree) (do { f \<leftarrow> parse_free R; defer_end R start n f })
         (do {
            here \<leftarrow> reads cur;
            left \<leftarrow> p_unary R;
            branch (is_drop left)
              (do {
                 d \<leftarrow> parse_drop R here;
                 n \<leftarrow> spanned start (set_left [d] n);
                 expect_stmt_newline (dropped d);
                 give n })
              (branch (\<lambda>p. is_assign_op (tok_kind (cur p))) (defer_assign R start here n left)
                (do { e \<leftarrow> finish_expression R left; defer_end R start n e })) })) }"

definition parse_recover :: "parsers \<Rightarrow> token \<Rightarrow> node pm" where
  "parse_recover R start = do {
     take_tok;
     e \<leftarrow> p_expression R;
     expect_stmt_newline [e];
     spanned start (set_left [e] (mk NRecover (tok_span start))) }"

text \<open>A drop, an assignment or an expression.\<close>

definition parse_expr_stmt :: "parsers \<Rightarrow> token \<Rightarrow> node pm" where
  "parse_expr_stmt R start = do {
     left \<leftarrow> p_unary R;
     branch (is_drop left)
       (do {
          d \<leftarrow> parse_drop R start;
          expect_stmt_newline (dropped d);
          spanned start (set_left [d] (mk NExprStmt (tok_span start))) })
       (branch (\<lambda>p. is_assign_op (tok_kind (cur p)))
         (do {
            op \<leftarrow> take_tok;
            e \<leftarrow> p_expression R;
            expect_stmt_newline [e];
            spanned start
              (set_right [e] (set_left [left] (set_op (tok_kind op) (mk NAssign (tok_span start))))) })
         (do {
            e \<leftarrow> finish_expression R left;
            expect_stmt_newline [e];
            spanned start (set_left [e] (mk NExprStmt (tok_span start))) })) }"

definition some_node :: "node pm \<Rightarrow> node option pm" where
  "some_node m = do { n \<leftarrow> m; give (Some n) }"

definition parse_simple_stmt :: "parsers \<Rightarrow> node option pm" where
  "parse_simple_stmt R = do {
     start \<leftarrow> reads cur;
     branch (\<lambda>p. at_name p ''spawn'' \<and> tok_kind (peek p 1) = Name)
       (do { fail ''lucb.parse.tier'' ''this construct belongs to full Luce''; sync_line; give None })
       (branch (\<lambda>p. at_any p [KwLet, KwVar]) (some_node (parse_binding R))
       (branch (\<lambda>p. at_tok p KwReturn) (some_node (parse_return R start))
       (branch (\<lambda>p. at_any p [KwBreak, KwContinue]) (some_node (parse_jump start))
       (branch (\<lambda>p. at_any p [KwDefer, KwErrdefer]) (some_node (parse_defer R start))
       (branch (\<lambda>p. at_tok p KwRecover) (some_node (parse_recover R start))
       (branch (\<lambda>p. at_tok p KwFree)
         (do { n \<leftarrow> parse_free R; expect_stmt_newline (n_left n); give (Some n) })
         (some_node (parse_expr_stmt R start)))))))) }"

subsection \<open>Statements and suites\<close>

definition labelled_loop :: "parsers \<Rightarrow> node pm" where
  "labelled_loop R = do {
     label \<leftarrow> take_tok;
     take_tok;
     n \<leftarrow> branch (\<lambda>p. at_tok p KwWhile) (parse_while R) (parse_for R);
     give (set_label (tok_text label) n) }"

definition parse_statement :: "parsers \<Rightarrow> node option pm" where
  "parse_statement R =
     branch (\<lambda>p. at_tok p KwIf) (some_node (parse_if R))
     (branch (\<lambda>p. at_tok p KwWhile) (some_node (parse_while R))
     (branch (\<lambda>p. at_tok p KwFor) (some_node (parse_for R))
     (branch (\<lambda>p. at_tok p KwMatch) (some_node (parse_match R False))
     (branch (\<lambda>p. at_tok p KwWith) (some_node (parse_with R))
     (branch (\<lambda>p. at_tok p KwAsm) (some_node (parse_asm R))
     (branch (\<lambda>p. at_tok p Name \<and> tok_kind (peek p 1) = Colon \<and>
                  (tok_kind (peek p 2) = KwWhile \<or> tok_kind (peek p 2) = KwFor))
       (some_node (labelled_loop R))
       (parse_simple_stmt R)))))))"

definition suite_statements :: "parsers \<Rightarrow> node list pm" where
  "suite_statements R = repeat (\<lambda>xs. branch (\<lambda>p. at_any p [Dedent, EndOfFile]) (give (xs, False))
     (do {
        skip_docs;
        branch (\<lambda>p. at_any p [Dedent, EndOfFile]) (give (xs, False))
          (do { s \<leftarrow> forced (p_statement R); give (append_node xs s, True) }) })) []"

definition parse_suite :: "parsers \<Rightarrow> node pm" where
  "parse_suite R = do {
     start \<leftarrow> reads cur;
     on_eat Newline
       (do {
          expect Indent expect_code ''expected an indented block'';
          xs \<leftarrow> suite_statements R;
          expect Dedent expect_code ''expected a dedent'';
          spanned start (set_body xs (mk NBlock (tok_span start))) })
       (branch (\<lambda>p. at_any p [KwIf, KwWhile, KwFor, KwMatch, KwWith, KwAsm])
         (do {
            fail ''lucb.parse.suite'' ''a same-line suite cannot contain a compound statement'';
            s \<leftarrow> p_statement R;
            give (set_body (opt_node s) (mk NBlock (tok_span start))) })
         (do {
            s \<leftarrow> parse_simple_stmt R;
            give (set_body (opt_node s) (mk NBlock (tok_span start))) })) }"

end
