(* ===== verification/ParseDecl.thy ===== *)
theory ParseDecl
  imports ParseStmt
begin

section \<open>Declarations and modules\<close>

text \<open>
  The productions of \<open>src/parse/decl.cpp\<close>: imports, attributes, functions, types and their members,
  \<open>extern\<close> declarations, tests, and the module's loop; \<open>merge_extensions\<close>, which joins every
  \<open>extend\<close> to the type it extends. The parser's \<open>flags\<close> are the low word of a node's flags.
\<close>

subsection \<open>Names, paths, attributes\<close>

text \<open>The section sign of the messages, in UTF-8.\<close>

definition section_sign :: string where
  "section_sign = [CHR 0xC2, CHR 0xA7]"

text \<open>\<open>if (!at(Name)) fail(\<dots>) else n->text = take().text\<close>.\<close>

definition take_name :: "string \<Rightarrow> bytes pm" where
  "take_name message = branch (\<lambda>p. at_tok p Name) (do { t \<leftarrow> take_tok; give (tok_text t) })
     (do { fail expect_code message; give [] })"

definition parse_module_path :: "bytes pm" where
  "parse_module_path = branch (\<lambda>p. at_tok p Name)
     (do {
        first \<leftarrow> take_tok;
        path_end \<leftarrow> repeat (\<lambda>path_end. on_eat Dot
          (branch (\<lambda>p. at_tok p Name) (do { t \<leftarrow> take_tok; give (span_end (tok_span t), True) })
            (do { fail expect_code ''expected a name after `.`''; give (path_end, False) }))
          (give (path_end, False))) (span_end (tok_span first));
        reads (\<lambda>p. source_text p (span_start (tok_span first)) path_end) })
     (do { fail expect_code ''expected a module path''; give [] })"

definition import_name :: "node option pm" where
  "import_name = branch (\<lambda>p. at_tok p Name) (do { t \<leftarrow> take_tok; give (Some (make_tok NName t)) })
     (do { fail expect_code ''expected a name''; give None })"

definition parse_import :: "node pm" where
  "parse_import = do {
     start \<leftarrow> reads cur;
     on_eat KwFrom
       (do {
          path \<leftarrow> parse_module_path;
          expect KwImport expect_code ''expected `import`'';
          names \<leftarrow> comma_list_opt import_name None [];
          expect Newline expect_code ''expected newline'';
          spanned start (set_body names (set_text path (mk NFromImport (tok_span start)))) })
       (do {
          expect KwImport expect_code ''expected `import`'';
          path \<leftarrow> parse_module_path;
          alias \<leftarrow> on_eat KwAs
            (branch (\<lambda>p. at_tok p Name) (do { t \<leftarrow> take_tok; give [make_tok NName t] })
              (do { fail expect_code ''expected an alias name''; give [] }))
            (give []);
          expect Newline expect_code ''expected newline'';
          spanned start (set_left alias (set_text path (mk NImport (tok_span start)))) }) }"

definition attribute_flag :: "bytes \<Rightarrow> 64 word option" where
  "attribute_flag name = map_of
     [(''inline'', FlagInline), (''noinline'', FlagNoinline), (''cold'', FlagCold), (''naked'', FlagNaked),
      (''used'', FlagUsed), (''weak'', FlagWeakAttr)] name"

definition section_attribute :: "node pm" where
  "section_attribute = do {
     t \<leftarrow> take_tok;
     let a = make_tok NAttr t;
     expect LParen expect_code ''expected `(`'';
     arg \<leftarrow> branch (\<lambda>p. at_tok p StringLit)
       (do { s \<leftarrow> take_tok; give [set_op StringLit (make_tok NLiteral s)] })
       (do { fail expect_code ''expected a string literal''; give [] });
     expect RParen expect_code ''expected `)`'';
     give (set_left arg a) }"

definition parse_attributes :: "(64 word \<times> node list) pm" where
  "parse_attributes = repeat (\<lambda>(flags, attrs).
     branch (\<lambda>p. at_tok p Name \<and> attribute_flag (tok_text (cur p)) \<noteq> None)
       (do { t \<leftarrow> take_tok; give ((flags OR the (attribute_flag (tok_text t)), attrs), True) })
       (branch (\<lambda>p. at_name p ''section'')
         (do { a \<leftarrow> section_attribute; give ((flags, attrs @ [a]), True) })
         (give ((flags, attrs), False)))) (0, [])"

subsection \<open>Generic parameters, parameters, results\<close>

definition parse_bounds :: "parsers \<Rightarrow> node list pm" where
  "parse_bounds R = do {
     first \<leftarrow> p_type R;
     repeat (\<lambda>bounds. on_eat Amp (do { t \<leftarrow> p_type R; give (bounds @ [t], True) }) (give (bounds, False)))
       [first] }"

definition generic_param :: "parsers \<Rightarrow> node option pm" where
  "generic_param R = do {
     sp \<leftarrow> reads (\<lambda>p. tok_span (cur p));
     branch (\<lambda>p. at_tok p Name)
       (do {
          t \<leftarrow> take_tok;
          bounds \<leftarrow> on_eat Colon (parse_bounds R) (give []);
          give (Some (set_type bounds (set_text (tok_text t) (mk NGenericParam sp)))) })
       (do { fail expect_code ''expected a type parameter''; give None }) }"

definition parse_generic_params :: "parsers \<Rightarrow> node list pm" where
  "parse_generic_params R = do {
     expect LBracket expect_code ''expected `[`'';
     list \<leftarrow> branch (\<lambda>p. at_tok p RBracket) (give []) (comma_list_opt (generic_param R) (Some RBracket) []);
     expect RBracket expect_code ''expected `]`'';
     give list }"

text \<open>\<open>if (at(LBracket) && !is_array_suffix_ahead()) n->left = parse_generic_params()\<close>.\<close>

definition optional_generics :: "parsers \<Rightarrow> node list pm" where
  "optional_generics R =
     branch (\<lambda>p. at_tok p LBracket \<and> \<not> is_array_suffix_ahead p) (parse_generic_params R) (give [])"

definition named_param :: "parsers \<Rightarrow> bool \<Rightarrow> node option pm" where
  "named_param R extern_form = do {
     sp \<leftarrow> reads (\<lambda>p. tok_span (cur p));
     out \<leftarrow> branch (\<lambda>p. extern_form \<and> at_name p ''out'') (do { take_tok; give True }) (give False);
     branch (\<lambda>p. at_any p [Name, KwSelf])
       (do {
          t \<leftarrow> take_tok;
          expect Colon expect_code ''expected `:`'';
          noalias \<leftarrow> branch (\<lambda>p. at_name p ''noalias'') (do { take_tok; give True }) (give False);
          ty \<leftarrow> p_type R;
          dflt \<leftarrow> on_eat Eq (do { e \<leftarrow> p_expression R; give [e] }) (give []);
          let flags = (if out then FlagOut else 0) OR (if noalias then FlagNoalias else 0);
          give (Some (set_left dflt (set_type [ty] (set_flags flags (set_text (tok_text t) (mk NParam sp)))))) })
       (do { fail expect_code ''expected a parameter name''; give None }) }"

text \<open>A parameter of the list; \<open>...\<close> and a failed parameter end it.\<close>

definition param_step :: "parsers \<Rightarrow> bool \<Rightarrow> node list \<Rightarrow> (node list \<times> bool) pm" where
  "param_step R extern_form list = on_eat DotDotDot
     (do {
        (if extern_form then give () else fail expect_code ''a Base function cannot be variadic'');
        sp \<leftarrow> reads (\<lambda>p. tok_span (peek p (-1)));
        give (list @ [set_flags FlagVariadic (mk NParam sp)], False) })
     (do {
        x \<leftarrow> named_param R extern_form;
        (case x of
           None \<Rightarrow> give (list, False)
         | Some n \<Rightarrow>
             on_eat Comma (branch (\<lambda>p. at_tok p RParen) (give (list @ [n], False)) (give (list @ [n], True)))
               (give (list @ [n], False))) })"

definition parse_params :: "parsers \<Rightarrow> bool \<Rightarrow> node list pm" where
  "parse_params R extern_form = do {
     expect LParen expect_code ''expected `(`'';
     list \<leftarrow> branch (\<lambda>p. at_tok p RParen) (give []) (repeat (param_step R extern_form) []);
     expect RParen expect_code ''expected `)`'';
     give list }"

text \<open>\<open>-> !\<close> alone is a fallible unit, whose spelling an \<open>extern\<close> function leaves out.\<close>

definition result_type :: "parsers \<Rightarrow> bytes \<Rightarrow> node list pm" where
  "result_type R unit_name = on_eat Arrow
     (on_eat Bang
       (do {
          sp \<leftarrow> reads (\<lambda>p. tok_span (peek p (-1)));
          give [set_text unit_name (set_flags FlagFallible (mk NType sp))] })
       (do { t \<leftarrow> p_type R; give [t] }))
     (give [])"

definition parse_func :: "parsers \<Rightarrow> 64 word \<Rightarrow> node pm" where
  "parse_func R flags = do {
     start \<leftarrow> reads cur;
     r \<leftarrow> parse_attributes;
     is_static \<leftarrow> eat KwStatic;
     let flags = flags OR fst r OR (if is_static then FlagStatic else 0);
     expect KwFunc expect_code ''expected `func`'';
     name \<leftarrow> take_name ''expected a function name'';
     generics \<leftarrow> optional_generics R;
     params \<leftarrow> parse_params R False;
     result \<leftarrow> result_type R ''unit'';
     expect Colon expect_code ''expected `:`'';
     body \<leftarrow> p_suite R;
     spanned start (set_body [body] (set_type result (set_right params (set_left generics
       (set_text name (set_flags flags (set_attrs (snd r) (mk NFunc (tok_span start))))))))) }"

subsection \<open>Constants, globals, aliases\<close>

definition parse_const :: "parsers \<Rightarrow> 64 word \<Rightarrow> node pm" where
  "parse_const R flags = do {
     start \<leftarrow> reads cur;
     expect KwLet expect_code ''expected `let`'';
     name \<leftarrow> take_name ''expected a name'';
     ty \<leftarrow> on_eat Colon (do { t \<leftarrow> p_type R; give [t] }) (give []);
     expect Eq expect_code ''expected `=`'';
     e \<leftarrow> p_expression R;
     expect_stmt_newline [e];
     spanned start
       (set_left [e] (set_type ty (set_text name (set_flags flags (mk NConst (tok_span start)))))) }"

definition parse_global :: "parsers \<Rightarrow> 64 word \<Rightarrow> node pm" where
  "parse_global R flags = do {
     start \<leftarrow> reads cur;
     is_local \<leftarrow> branch at_local (do { take_tok; give True }) (give False);
     r \<leftarrow> parse_attributes;
     expect KwVar expect_code ''expected `var`'';
     let flags = flags OR (if is_local then FlagThreadLocal else 0) OR fst r;
     name \<leftarrow> take_name ''expected a name'';
     expect Colon expect_code ''expected `:`'';
     ty \<leftarrow> p_type R;
     let n = set_type [ty] (set_text name (set_flags flags (set_attrs (snd r) (mk NGlobal (tok_span start)))));
     n \<leftarrow> on_eat Eq
       (on_eat DashDashDash (give (add_flags FlagUninit n))
         (do { e \<leftarrow> p_expression R; give (set_left [e] n) }))
       (give n);
     (if n_left n \<noteq> [] then expect_stmt_newline (n_left n)
      else do { expect Newline expect_code ''expected newline''; give () });
     spanned start n }"

definition parse_type_alias :: "parsers \<Rightarrow> 64 word \<Rightarrow> node pm" where
  "parse_type_alias R flags = do {
     start \<leftarrow> reads cur;
     expect KwType expect_code ''expected `type`'';
     name \<leftarrow> take_name ''expected a type name'';
     expect Eq expect_code ''expected `=`'';
     ty \<leftarrow> p_type R;
     expect Newline expect_code ''expected newline'';
     spanned start (set_type [ty] (set_text name (set_flags flags (mk NTypeAlias (tok_span start))))) }"

subsection \<open>Structs and members\<close>

text \<open>\<open>align(\<dots>)\<close> from its word on.\<close>

definition parse_align :: "parsers \<Rightarrow> node list pm" where
  "parse_align R = do {
     take_tok;
     expect LParen expect_code ''expected `(`'';
     e \<leftarrow> p_expression R;
     expect RParen expect_code ''expected `)`'';
     give [e] }"

definition parse_conformance :: "parsers \<Rightarrow> node list pm" where
  "parse_conformance R = do {
     expect Colon expect_code ''expected `:`'';
     branch (\<lambda>p. at_tok p Newline) (give [])
       (do {
          first \<leftarrow> p_type R;
          list \<leftarrow> repeat (\<lambda>ts. on_eat Comma (do { t \<leftarrow> p_type R; give (ts @ [t], True) }) (give (ts, False)))
            [first];
          expect Colon expect_code ''expected `:` before the body'';
          give list }) }"

definition parse_field :: "parsers \<Rightarrow> 64 word \<Rightarrow> node list \<Rightarrow> node pm" where
  "parse_field R flags align_e = do {
     start \<leftarrow> reads cur;
     const \<leftarrow> branch (\<lambda>p. at_any p [KwLet, KwVar])
       (do { t \<leftarrow> take_tok; give (if tok_kind t = KwLet then FlagConst else 0) }) (give 0);
     name \<leftarrow> take_name ''expected a field name'';
     expect Colon expect_code ''expected `:`'';
     ty \<leftarrow> p_type R;
     dflt \<leftarrow> on_eat Eq (do { e \<leftarrow> p_expression R; give [e] }) (give []);
     expect Newline expect_code ''expected newline'';
     spanned start (set_left dflt (set_type [ty] (set_text name (set_right align_e
       (set_flags (flags OR const) (mk NField (tok_span start))))))) }"

definition parse_type_member :: "parsers \<Rightarrow> bool \<Rightarrow> node pm" where
  "parse_type_member R is_extern = do {
     is_pub \<leftarrow> eat KwPub;
     exported \<leftarrow> branch (\<lambda>p. at_name p ''export'' \<and> tok_kind (peek p 1) \<noteq> Colon)
       (do { take_tok; give True }) (give False);
     let flags = (if is_pub then FlagPub else 0) OR (if exported then FlagExport else 0);
     branch (\<lambda>p. at_name p ''weak'' \<and> (tok_kind (peek p 1) = KwVar \<or> tok_kind (peek p 1) = KwLet))
       (do { fail ''lucb.parse.tier'' ''this construct belongs to full Luce''; take_tok; give () }) (give ());
     align_e \<leftarrow> branch (\<lambda>p. at_name p ''align'') (parse_align R) (give []);
     branch (\<lambda>p. at_any p [KwLet, KwVar] \<or> (is_extern \<and> at_tok p Name)) (parse_field R flags align_e)
       (branch (\<lambda>p. at_any p [KwFunc, KwStatic] \<or> at_name p ''inline'') (parse_func R flags)
         (do {
            fail expect_code ''expected a field or method'';
            sync_line;
            sp \<leftarrow> reads (\<lambda>p. tok_span (cur p));
            give (mk NField sp) })) }"

definition parse_struct :: "parsers \<Rightarrow> 64 word \<Rightarrow> bool \<Rightarrow> node pm" where
  "parse_struct R flags is_extern = do {
     start \<leftarrow> reads cur;
     r \<leftarrow> branch (\<lambda>p. at_name p ''packed'') (do { take_tok; give (FlagPacked, []) })
       (branch (\<lambda>p. at_name p ''align'') (do { e \<leftarrow> parse_align R; give (0, e) }) (give (0, [])));
     let flags = flags OR fst r;
     expect KwStruct expect_code ''expected `struct`'';
     name \<leftarrow> take_name ''expected a type name'';
     generics \<leftarrow> (if is_extern then give [] else optional_generics R);
     impl \<leftarrow> (if is_extern then do { expect Colon expect_code ''expected `:`''; give [] }
              else parse_conformance R);
     expect Newline expect_code ''expected newline'';
     expect Indent expect_code ''expected an indented body'';
     members \<leftarrow> indented_items (parse_type_member R is_extern) (\<lambda>ms m. ms @ [m]) [];
     expect Dedent expect_code ''expected a dedent'';
     spanned start (set_body members (set_right impl (set_left generics (set_text name (set_type (snd r)
       (set_flags flags (mk (if is_extern then NExternStruct else NStruct) (tok_span start)))))))) }"

definition extend_member :: "parsers \<Rightarrow> node option pm" where
  "extend_member R = do {
     m \<leftarrow> parse_type_member R False;
     if n_kind m \<noteq> NFunc then do {
       fail_at m ''lucb.parse.extend''
         (''an extension adds methods; a field belongs in the type's declaration ('' @ section_sign @ ''9.5)'');
       give None }
     else give (Some m) }"

definition parse_extend :: "parsers \<Rightarrow> node pm" where
  "parse_extend R = do {
     start \<leftarrow> take_tok;
     name \<leftarrow> take_tok;
     expect Colon expect_code ''expected `:`'';
     expect Newline expect_code ''expected newline'';
     expect Indent expect_code ''expected an indented body'';
     members \<leftarrow> indented_items (extend_member R) append_node [];
     expect Dedent expect_code ''expected a dedent'';
     give (set_body members (set_text (tok_text name) (mk NExtend (tok_span start)))) }"

subsection \<open>Enums, unions, interfaces\<close>

definition enum_member :: "parsers \<Rightarrow> node option pm" where
  "enum_member R = do {
     is_pub \<leftarrow> eat KwPub;
     let mflags = (if is_pub then FlagPub else 0);
     branch (\<lambda>p. at_tok p KwStatic \<or> (at_tok p KwFunc \<and> tok_kind (peek p 1) = Name))
       (do { f \<leftarrow> parse_func R mflags; give (Some f) })
       (branch (\<lambda>p. at_tok p Name)
         (do {
            t \<leftarrow> take_tok;
            let c = set_text (tok_text t) (mk NEnumCase (tok_span t));
            c \<leftarrow> branch (\<lambda>p. at_tok p LParen) (do { ps \<leftarrow> parse_params R False; give (set_body ps c) })
              (on_eat Eq (do { e \<leftarrow> p_expression R; give (set_left [e] c) }) (give c));
            expect Newline expect_code ''expected newline'';
            give (Some c) })
         (do { fail expect_code ''expected a case name''; sync_line; give None })) }"

text \<open>The body of an enum or a union: no round forces a token, every round of the code takes one.\<close>

definition plain_items :: "node option pm \<Rightarrow> node list pm" where
  "plain_items item = repeat (\<lambda>acc. branch (\<lambda>p. at_any p [Dedent, EndOfFile]) (give (acc, False))
     (do {
        skip_docs;
        branch (\<lambda>p. at_tok p Dedent) (give (acc, False))
          (do { x \<leftarrow> item; give (append_node acc x, True) }) })) []"

definition parse_enum :: "parsers \<Rightarrow> 64 word \<Rightarrow> node pm" where
  "parse_enum R flags = do {
     start \<leftarrow> reads cur;
     expect KwEnum expect_code ''expected `enum`'';
     name \<leftarrow> take_name ''expected a type name'';
     generics \<leftarrow> optional_generics R;
     backing \<leftarrow> on_eat KwAs (do { t \<leftarrow> p_type R; give [t] }) (give []);
     impl \<leftarrow> parse_conformance R;
     expect Newline expect_code ''expected newline'';
     expect Indent expect_code ''expected an indented body'';
     members \<leftarrow> plain_items (enum_member R);
     expect Dedent expect_code ''expected a dedent'';
     spanned start (set_body members (set_right (backing @ impl) (set_left generics (set_text name
       (set_flags flags (mk NEnum (tok_span start))))))) }"

definition union_member :: "parsers \<Rightarrow> node option pm" where
  "union_member R = branch
     (\<lambda>p. at_any p [KwFunc, KwStatic] \<or> (at_tok p KwPub \<and> tok_kind (peek p 1) \<noteq> Name))
     (do {
        is_pub \<leftarrow> eat KwPub;
        f \<leftarrow> parse_func R (if is_pub then FlagPub else 0);
        give (Some f) })
     (do {
        sp \<leftarrow> reads (\<lambda>p. tok_span (cur p));
        is_pub \<leftarrow> eat KwPub;
        branch (\<lambda>p. at_tok p Name)
          (do {
             t \<leftarrow> take_tok;
             expect Colon expect_code ''expected `:`'';
             ty \<leftarrow> p_type R;
             expect Newline expect_code ''expected newline'';
             give (Some (set_type [ty] (set_text (tok_text t)
               (set_flags (if is_pub then FlagPub else 0) (mk NField sp))))) })
          (do { fail expect_code ''expected a member name''; sync_line; give None }) })"

definition parse_union :: "parsers \<Rightarrow> 64 word \<Rightarrow> node pm" where
  "parse_union R flags = do {
     start \<leftarrow> reads cur;
     expect KwUnion expect_code ''expected `union`'';
     name \<leftarrow> take_name ''expected a type name'';
     expect Colon expect_code ''expected `:`'';
     expect Newline expect_code ''expected newline'';
     expect Indent expect_code ''expected an indented body'';
     members \<leftarrow> plain_items (union_member R);
     expect Dedent expect_code ''expected a dedent'';
     spanned start (set_body members (set_text name (set_flags flags (mk NUnion (tok_span start))))) }"

definition interface_member :: "parsers \<Rightarrow> node pm" where
  "interface_member R = do {
     sp \<leftarrow> reads (\<lambda>p. tok_span (cur p));
     expect KwFunc expect_code ''expected `func`'';
     name \<leftarrow> take_name ''expected a method name'';
     generics \<leftarrow> optional_generics R;
     params \<leftarrow> parse_params R False;
     result \<leftarrow> result_type R ''unit'';
     expect Newline expect_code ''expected newline'';
     give (set_type result (set_right params (set_left generics (set_text name (mk NFunc sp))))) }"

definition parse_interface :: "parsers \<Rightarrow> 64 word \<Rightarrow> node pm" where
  "parse_interface R flags = do {
     start \<leftarrow> reads cur;
     expect KwInterface expect_code ''expected `interface`'';
     name \<leftarrow> take_name ''expected a type name'';
     generics \<leftarrow> optional_generics R;
     expect Colon expect_code ''expected `:`'';
     expect Newline expect_code ''expected newline'';
     expect Indent expect_code ''expected an indented body'';
     members \<leftarrow> indented_items (interface_member R) (\<lambda>ms m. ms @ [m]) [];
     expect Dedent expect_code ''expected a dedent'';
     spanned start (set_body members (set_left generics (set_text name
       (set_flags flags (mk NInterface (tok_span start)))))) }"

subsection \<open>\<open>extern\<close>, \<open>handle\<close>, \<open>test\<close>, \<open>assert\<close>\<close>

definition extern_type :: "parsers \<Rightarrow> 64 word \<Rightarrow> token \<Rightarrow> node pm" where
  "extern_type R flags start = do {
     take_tok;
     name \<leftarrow> take_name ''expected a type name'';
     ty \<leftarrow> on_eat Eq (do { t \<leftarrow> p_type R; give [t] }) (give []);
     expect Newline expect_code ''expected newline'';
     give (set_type ty (set_text name (set_flags flags (mk NExternType (tok_span start))))) }"

definition extern_var :: "parsers \<Rightarrow> 64 word \<Rightarrow> token \<Rightarrow> node pm" where
  "extern_var R flags start = do {
     take_tok;
     name \<leftarrow> take_name ''expected a name'';
     expect Colon expect_code ''expected `:`'';
     ty \<leftarrow> p_type R;
     expect Newline expect_code ''expected newline'';
     give (set_type [ty] (set_text name (set_flags flags (mk NExternVar (tok_span start))))) }"

definition extern_func :: "parsers \<Rightarrow> 64 word \<Rightarrow> token \<Rightarrow> node pm" where
  "extern_func R flags start = do {
     expect KwFunc expect_code ''expected `func`'';
     name \<leftarrow> take_name ''expected a function name'';
     symbol \<leftarrow> on_eat KwAs
       (branch (\<lambda>p. at_tok p StringLit)
         (do { t \<leftarrow> take_tok; give [set_op StringLit (make_tok NLiteral t)] })
         (do { fail expect_code ''expected a string literal''; give [] }))
       (give []);
     params \<leftarrow> parse_params R True;
     result \<leftarrow> result_type R [];
     expect Newline expect_code ''expected newline'';
     spanned start (set_type result (set_right params (set_left symbol (set_text name
       (set_flags flags (mk NExternFunc (tok_span start))))))) }"

text \<open>\<open>blocking\<close>, and the flag it sets.\<close>

definition parse_blocking :: "64 word \<Rightarrow> 64 word pm" where
  "parse_blocking flags = branch (\<lambda>p. at_name p ''blocking'')
     (do { take_tok; give (flags OR FlagBlocking) }) (give flags)"

definition parse_extern :: "parsers \<Rightarrow> 64 word \<Rightarrow> node pm" where
  "parse_extern R flags = do {
     start \<leftarrow> reads cur;
     expect KwExtern expect_code ''expected `extern`'';
     flags \<leftarrow> parse_blocking flags;
     branch (\<lambda>p. at_tok p KwType) (extern_type R flags start)
       (branch (\<lambda>p. at_tok p KwVar) (extern_var R flags start)
       (branch (\<lambda>p. at_tok p KwStruct \<or> at_name p ''packed'' \<or> at_name p ''align'') (parse_struct R flags True)
       (branch (\<lambda>p. at_tok p KwUnion) (do { u \<leftarrow> parse_union R flags; give (set_kind NExternUnion u) })
         (do { flags \<leftarrow> parse_blocking flags; extern_func R flags start })))) }"

definition parse_handle :: "64 word \<Rightarrow> node pm" where
  "parse_handle flags = do {
     start \<leftarrow> take_tok;
     name \<leftarrow> take_tok;
     expect Colon expect_code ''expected `:`'';
     expect Newline expect_code ''expected newline'';
     expect Indent expect_code ''expected an indented body'';
     destroy \<leftarrow> branch (\<lambda>p. at_name p ''destroy'')
       (do {
          take_tok;
          branch (\<lambda>p. at_tok p Name)
            (do { t \<leftarrow> take_tok; give [set_text (tok_text t) (mk NName (tok_span t))] })
            (do { fail expect_code ''expected the destroying function's name''; give [] }) })
       (do { fail expect_code (''a handle names its `destroy` function ('' @ section_sign @ ''17.7)''); give [] });
     expect Newline expect_code ''expected newline'';
     repeat (\<lambda>_. branch (\<lambda>p. at_tok p Newline) (do { take_tok; give ((), True) }) (give ((), False))) ();
     expect Dedent expect_code (''a handle declares `destroy` and nothing else ('' @ section_sign @ ''17.7)'');
     give (set_right destroy (set_text (tok_text name) (set_flags flags (mk NExternType (tok_span start))))) }"

definition parse_test :: "parsers \<Rightarrow> node pm" where
  "parse_test R = do {
     start \<leftarrow> take_tok;
     title \<leftarrow> branch (\<lambda>p. at_tok p StringLit) (do { t \<leftarrow> take_tok; give (tok_text t) })
       (do { fail expect_code ''expected a test name string''; give [] });
     expect Colon expect_code ''expected `:`'';
     body \<leftarrow> p_suite R;
     spanned start (set_body [body] (set_text title (mk NTest (tok_span start)))) }"

definition parse_assert :: "parsers \<Rightarrow> node pm" where
  "parse_assert R = do {
     start \<leftarrow> take_tok;
     args \<leftarrow> parse_arg_list R;
     expect Newline expect_code ''expected newline'';
     spanned start (set_body args (mk NAssert (tok_span start))) }"

end
