(* ===== verification/ParseModule.thy ===== *)
theory ParseModule
  imports ParseDecl
begin

section \<open>Modules and the parser's entry\<close>

text \<open>
  \<open>parse_top\<close>, \<open>parse_module\<close> and \<open>merge_extensions\<close> of \<open>src/parse/decl.cpp\<close>, and \<open>parse\<close> of
  \<open>src/parse/parser.cpp\<close>. \<open>parsers_at n\<close> is the record of the recursive productions \<open>n\<close> calls deep,
  \<open>parse_depth\<close> the depth \<open>parse_tokens\<close> allows: eight calls for each token and eight more.
\<close>

subsection \<open>Top-level declarations\<close>

text \<open>A full-language construct is skipped with its indented body.\<close>

definition skip_body :: "unit pm" where
  "skip_body = branch (\<lambda>p. at_tok p Indent)
     (do {
        take_tok;
        repeat (\<lambda>depth. branch (\<lambda>p. 0 < depth \<and> \<not> at_tok p EndOfFile)
          (do {
             t \<leftarrow> take_tok;
             give (if tok_kind t = Indent then depth + 1 else if tok_kind t = Dedent then depth - 1 else depth, True) })
          (give (depth, False))) (1 :: nat);
        give () })
     (give ())"

definition with_attrs :: "node list \<Rightarrow> node \<Rightarrow> node" where
  "with_attrs attrs n = (if n_attrs n = [] then set_attrs attrs n else n)"

definition parse_declared :: "parsers \<Rightarrow> 64 word \<Rightarrow> node list \<Rightarrow> node option pm" where
  "parse_declared R flags attrs =
     branch (\<lambda>p. at_local p \<or> at_tok p KwVar)
       (do { g \<leftarrow> parse_global R flags; give (Some (with_attrs attrs g)) })
     (branch (\<lambda>p. at_tok p KwLet) (some_node (parse_const R flags))
     (branch (\<lambda>p. at_tok p KwType) (some_node (parse_type_alias R flags))
     (branch (\<lambda>p. at_any p [KwFunc, KwStatic] \<or> at_name p ''inline'' \<or> at_tok p KwExtern)
       (branch (\<lambda>p. at_tok p KwExtern) (some_node (parse_extern R flags))
         (do { f \<leftarrow> parse_func R flags; give (Some (with_attrs attrs f)) }))
     (branch (\<lambda>p. at_tok p KwStruct \<or> at_name p ''packed'' \<or> at_name p ''align'')
       (some_node (parse_struct R flags False))
     (branch (\<lambda>p. at_tok p KwEnum) (some_node (parse_enum R flags))
     (branch (\<lambda>p. at_tok p KwUnion) (some_node (parse_union R flags))
     (branch (\<lambda>p. at_tok p KwInterface) (some_node (parse_interface R flags))
     (branch (\<lambda>p. at_tok p KwExtern) (some_node (parse_extern R flags))
     (branch (\<lambda>p. at_name p ''handle'' \<and> tok_kind (peek p 1) = Name \<and> tok_kind (peek p 2) = Colon)
       (some_node (parse_handle flags))
       (do { fail expect_code ''expected a declaration''; sync_line; give None }))))))))))"

definition parse_top :: "parsers \<Rightarrow> node option pm" where
  "parse_top R = do {
     attribute \<leftarrow> reads (\<lambda>p. if at_name p ''weak'' then weak_is_attribute p else Some True);
     (if attribute = None then give_up else give ());
     branch (\<lambda>p. at_name p ''class'' \<or> at_name p ''spawn'' \<or> (at_name p ''weak'' \<and> attribute = Some False))
       (do {
          fail ''lucb.parse.tier'' ''this construct belongs to full Luce'';
          take_tok;
          sync_line;
          skip_body;
          give None })
     (branch (\<lambda>p. at_tok p KwTest) (some_node (parse_test R))
     (branch (\<lambda>p. at_tok p KwAsm) (some_node (parse_asm R))
     (branch (\<lambda>p. at_name p ''extend'' \<and> tok_kind (peek p 1) = Name \<and> tok_kind (peek p 2) = Colon)
       (some_node (parse_extend R))
     (branch (\<lambda>p. at_name p ''assert'' \<and> tok_kind (peek p 1) = LParen) (some_node (parse_assert R))
     (branch (\<lambda>p. at_name p ''export'' \<and> (tok_kind (peek p 1) = KwFunc \<or> tok_kind (peek p 1) = Name))
       (do { take_tok; f \<leftarrow> parse_func R 0; give (Some (add_flags FlagExport f)) })
       (do {
          is_pub \<leftarrow> eat KwPub;
          r \<leftarrow> parse_attributes;
          parse_declared R ((if is_pub then FlagPub else 0) OR fst r) (snd r) })))))) }"

subsection \<open>Extensions\<close>

definition extends_kind :: "node_kind \<Rightarrow> bool" where
  "extends_kind k \<longleftrightarrow> k = NStruct \<or> k = NEnum \<or> k = NUnion"

text \<open>Append methods to the first struct, enum or union of a name, if the list has one.\<close>

fun extend_first :: "bytes \<Rightarrow> node list \<Rightarrow> node list \<Rightarrow> node list option" where
  "extend_first name methods [] = None"
| "extend_first name methods (d # ds) =
     (if n_text d = name \<and> extends_kind (n_kind d) then Some (set_body (n_body d @ methods) d # ds)
      else map_option (\<lambda>ds'. d # ds') (extend_first name methods ds))"

lemma extend_first_length: "extend_first name methods ds = Some ds' \<Longrightarrow> length ds' = length ds"
  by (induction ds arbitrary: ds') (auto split: if_splits)

text \<open>\<open>kept\<close> is the part of the module's list already walked, without its extensions.\<close>

function merge_extensions :: "node list \<Rightarrow> node list \<Rightarrow> node list pm" where
  "merge_extensions kept [] = give kept"
| "merge_extensions kept (d # rest) =
     (if n_kind d \<noteq> NExtend then merge_extensions (kept @ [d]) rest
      else (case extend_first (n_text d) (n_body d) kept of
              Some kept' \<Rightarrow> merge_extensions kept' rest
            | None \<Rightarrow>
                (case extend_first (n_text d) (n_body d) rest of
                   Some rest' \<Rightarrow> merge_extensions kept rest'
                 | None \<Rightarrow> do {
                     fail_at d ''lucb.parse.extend''
                       (''no struct, enum, or union of this module is named `'' @ n_text d @ ''`'');
                     merge_extensions kept rest })))"
  by pat_completeness auto
termination
  by (relation "measure (\<lambda>(kept, ds). length ds)") (auto dest: extend_first_length)

subsection \<open>Modules\<close>

definition module_item :: "parsers \<Rightarrow> node list \<Rightarrow> (node list \<times> bool) pm" where
  "module_item R decls = do {
     skip_docs;
     branch (\<lambda>p. at_tok p EndOfFile) (give (decls, False))
       (branch (\<lambda>p. at_any p [KwImport, KwFrom])
         (do { i \<leftarrow> parse_import; give (decls @ [i], True) })
         (do { d \<leftarrow> forced (parse_top R); give (append_node decls d, True) })) }"

definition parse_module :: "parsers \<Rightarrow> node pm" where
  "parse_module R = do {
     start \<leftarrow> reads cur;
     decls \<leftarrow> repeat (module_item R) [];
     decls \<leftarrow> merge_extensions [] decls;
     last \<leftarrow> reads cur;
     give (set_body decls (mk NModule ((tok_span start)\<lparr>span_end := span_end (tok_span last)\<rparr>))) }"

subsection \<open>The recursion\<close>

definition stuck_node :: "node pm" where
  "stuck_node = do { give_up; give (mk NName default_span) }"

primrec parsers_at :: "nat \<Rightarrow> parsers" where
  "parsers_at 0 = \<lparr>p_type = stuck_node, p_unary = stuck_node, p_binary = (\<lambda>_. stuck_node),
     p_conditional = stuck_node, p_else_expr = stuck_node, p_expression = stuck_node,
     p_statement = some_node stuck_node, p_suite = stuck_node\<rparr>"
| "parsers_at (Suc n) =
     (let R = parsers_at n
      in \<lparr>p_type = parse_type R, p_unary = parse_unary R, p_binary = parse_binary R,
          p_conditional = parse_conditional R, p_else_expr = parse_else_expr R,
          p_expression = parse_expression R, p_statement = parse_statement R, p_suite = parse_suite R\<rparr>)"

definition parse_depth :: "token list \<Rightarrow> nat" where
  "parse_depth toks = 8 * length toks + 8"

subsection \<open>The entry\<close>

definition start_parser :: "source \<Rightarrow> token list \<Rightarrow> diagnostic_bag \<Rightarrow> parser" where
  "start_parser src toks bag = \<lparr>ps_source = src, ps_tokens = toks, ps_pos = 0, ps_nest = 0, ps_layout = 0,
     ps_diags = bag, ps_stuck = False\<rparr>"

text \<open>The directives a module keeps: the text's own and each fragment's start, in line order.\<close>

definition directive_order :: "directive \<Rightarrow> nat" where
  "directive_order d = 2 * dir_base_line d + (if dir_fragment d then 1 else 0)"

definition segment_directive :: "segment \<Rightarrow> directive" where
  "segment_directive s = \<lparr>dir_base_line = seg_start_line s, dir_file = seg_path s, dir_line = 1,
     dir_column = 0, dir_fragment = True\<rparr>"

definition module_directives :: "source \<Rightarrow> directive list" where
  "module_directives src =
     sort_key directive_order (src_directives src @ map segment_directive (src_segments src))"

record parse_outcome =
  res_module :: "node option"
  res_ok :: bool

text \<open>\<open>None\<close> where the recursion would be deeper than the fuel: theory \<open>ParseReturns\<close> shows it never is.\<close>

definition parse_tokens :: "source \<Rightarrow> token list \<Rightarrow> diagnostic_bag \<Rightarrow> (parse_outcome \<times> diagnostic_bag) option" where
  "parse_tokens src toks bag =
     (if toks = [] then
        Some (\<lparr>res_module = None, res_ok = False\<rparr>,
              add_diag ''lucb.parse.internal'' (src_path src) default_span ''no tokens'' bag)
      else
        let (m, p) = run_state (do { scan_layout_imports; parse_module (parsers_at (parse_depth toks)) })
              (start_parser src toks bag);
            m = (if src_directives src \<noteq> [] \<or> src_segments src \<noteq> []
                 then set_directives (module_directives src) m else m)
        in if ps_stuck p then None
           else Some (\<lparr>res_module = Some m, res_ok = bag_empty (ps_diags p)\<rparr>, ps_diags p))"

end
