(* ===== verification/ParseLaws.thy ===== *)
theory ParseLaws
  imports ParseModule
begin

section \<open>What a parsing operation promises\<close>

text \<open>
  The contract every operation of the parser keeps: on a stream that ends with the end of file it
  returns without running out of fuel, moves forward within the stream, leaves the nesting count
  as it found it and only adds diagnostics. \<open>sound K Q N m\<close> is that contract for \<open>m\<close> from states
  with at most \<open>N\<close> tokens before the last whose current token is of a kind in \<open>K\<close>, with strict
  progress where the result satisfies \<open>Q\<close>. The rules follow the syntax of the monad.
\<close>

definition parser_ok :: "parser \<Rightarrow> bool" where
  "parser_ok p \<longleftrightarrow> ps_tokens p \<noteq> [] \<and> tok_kind (last (ps_tokens p)) = EndOfFile \<and>
     ps_pos p < length (ps_tokens p)"

definition tokens_left :: "parser \<Rightarrow> nat" where
  "tokens_left p = length (ps_tokens p) - 1 - ps_pos p"

definition goes :: "parser \<Rightarrow> parser \<Rightarrow> bool" where
  "goes p p' \<longleftrightarrow> ps_source p' = ps_source p \<and> ps_tokens p' = ps_tokens p \<and> ps_nest p' = ps_nest p \<and>
     ps_layout p' = ps_layout p \<and> ps_stuck p' = ps_stuck p \<and> ps_pos p \<le> ps_pos p' \<and>
     ps_pos p' < length (ps_tokens p) \<and> bag_extends (ps_diags p) (ps_diags p')"

definition any_tok :: "token_kind \<Rightarrow> bool" where "any_tok k \<longleftrightarrow> True"
definition one_of :: "token_kind list \<Rightarrow> token_kind \<Rightarrow> bool" where "one_of ks k \<longleftrightarrow> k \<in> set ks"
definition none_of :: "token_kind list \<Rightarrow> token_kind \<Rightarrow> bool" where "none_of ks k \<longleftrightarrow> k \<notin> set ks"

definition no_gain :: "'a \<Rightarrow> bool" where "no_gain x \<longleftrightarrow> False"
definition all_gain :: "'a \<Rightarrow> bool" where "all_gain x \<longleftrightarrow> True"
definition goes_on :: "'a \<times> bool \<Rightarrow> bool" where "goes_on x \<longleftrightarrow> snd x"
definition is_some :: "'a option \<Rightarrow> bool" where "is_some x \<longleftrightarrow> x \<noteq> None"

definition sound :: "(token_kind \<Rightarrow> bool) \<Rightarrow> ('a \<Rightarrow> bool) \<Rightarrow> nat \<Rightarrow> 'a pm \<Rightarrow> bool" where
  "sound K Q N m \<longleftrightarrow> (\<forall>p. parser_ok p \<and> tokens_left p \<le> N \<and> K (tok_kind (cur p)) \<longrightarrow>
     goes p (snd (run_state m p)) \<and> (Q (fst (run_state m p)) \<longrightarrow> ps_pos p < ps_pos (snd (run_state m p))))"

lemmas kind_sets = any_tok_def one_of_def none_of_def
lemmas gains = no_gain_def all_gain_def goes_on_def is_some_def

subsection \<open>States\<close>

lemma goes_refl: "parser_ok p \<Longrightarrow> goes p p"
  by (simp add: goes_def parser_ok_def)

lemma goes_trans: "goes p q \<Longrightarrow> goes q r \<Longrightarrow> goes p r"
  by (auto simp: goes_def intro: bag_extends_trans)

lemma goes_step:
  "goes p q \<Longrightarrow> goes q r \<Longrightarrow> goes p r \<and> ps_pos p \<le> ps_pos q \<and> ps_pos q \<le> ps_pos r"
  using goes_trans[of p q r] by (simp add: goes_def)

lemma goes_ok: "goes p q \<Longrightarrow> parser_ok p \<Longrightarrow> parser_ok q"
  by (simp add: goes_def parser_ok_def)

lemma goes_left: "goes p q \<Longrightarrow> tokens_left q \<le> tokens_left p"
  by (auto simp: goes_def tokens_left_def)

lemma goes_left_less:
  "goes p q \<Longrightarrow> parser_ok p \<Longrightarrow> ps_pos p < ps_pos q \<Longrightarrow> tokens_left q < tokens_left p"
  by (auto simp: goes_def tokens_left_def parser_ok_def)

lemma cur_ok: "parser_ok p \<Longrightarrow> cur p = ps_tokens p ! ps_pos p"
  by (simp add: parser_ok_def cur_def tok_count_def)

lemma goes_still: "goes p q \<Longrightarrow> parser_ok p \<Longrightarrow> \<not> ps_pos p < ps_pos q \<Longrightarrow> cur q = cur p"
  using goes_ok[of p q] by (simp add: cur_ok goes_def)

lemma not_eof_left: "parser_ok p \<Longrightarrow> tok_kind (cur p) \<noteq> EndOfFile \<Longrightarrow> ps_pos p < tok_count p - 1"
  by (metis (no_types, lifting) cur_ok parser_ok_def tok_count_def diff_Suc_1 last_conv_nth
      less_Suc_eq less_imp_Suc_add linorder_neqE_nat)

lemma soundI:
  "(\<And>p. parser_ok p \<Longrightarrow> tokens_left p \<le> N \<Longrightarrow> K (tok_kind (cur p)) \<Longrightarrow>
     goes p (snd (run_state m p)) \<and> (Q (fst (run_state m p)) \<longrightarrow> ps_pos p < ps_pos (snd (run_state m p)))) \<Longrightarrow>
   sound K Q N m"
  by (simp add: sound_def)

lemma soundD:
  "sound K Q N m \<Longrightarrow> parser_ok p \<Longrightarrow> tokens_left p \<le> N \<Longrightarrow> K (tok_kind (cur p)) \<Longrightarrow>
   goes p (snd (run_state m p)) \<and> (Q (fst (run_state m p)) \<longrightarrow> ps_pos p < ps_pos (snd (run_state m p)))"
  by (simp add: sound_def)

lemma sound_mono: "sound K Q N m \<Longrightarrow> M \<le> N \<Longrightarrow> sound K Q M m"
  by (simp add: sound_def)

lemma run_bind: "run_state (m \<bind> f) p = run_state (f (fst (run_state m p))) (snd (run_state m p))"
  by (simp add: case_prod_unfold)

declare run_state_bind [simp del] run_bind [simp]

subsection \<open>Rules: sequencing\<close>

lemma sound_bind:
  assumes "sound K no_gain N m" "\<And>x. sound any_tok Q N (f x)"
  shows "sound K Q N (m \<bind> f)"
proof (rule soundI)
  fix p assume p: "parser_ok p" "tokens_left p \<le> N" "K (tok_kind (cur p))"
  define x q where "x = fst (run_state m p)" and "q = snd (run_state m p)"
  have q: "goes p q" using soundD[OF assms(1) p] by (simp add: q_def)
  have "goes q (snd (run_state (f x) q)) \<and> (Q (fst (run_state (f x) q)) \<longrightarrow> ps_pos q < ps_pos (snd (run_state (f x) q)))"
    using soundD[OF assms(2), of q x] goes_ok[OF q p(1)] goes_left[OF q] p(2) by (simp add: any_tok_def)
  then show "goes p (snd (run_state (m \<bind> f) p)) \<and>
      (Q (fst (run_state (m \<bind> f) p)) \<longrightarrow> ps_pos p < ps_pos (snd (run_state (m \<bind> f) p)))"
    using goes_step[OF q] unfolding run_bind x_def[symmetric] q_def[symmetric] by fastforce
qed

text \<open>Either \<open>m\<close> has moved, or the current token is still the one before it.\<close>

lemma sound_bind_keep:
  assumes "sound K no_gain N m" "\<And>x M. M < N \<Longrightarrow> sound any_tok no_gain M (f x)" "\<And>x. sound K Q N (f x)"
  shows "sound K Q N (m \<bind> f)"
proof (rule soundI)
  fix p assume p: "parser_ok p" "tokens_left p \<le> N" "K (tok_kind (cur p))"
  define x q where "x = fst (run_state m p)" and "q = snd (run_state m p)"
  have q: "goes p q" using soundD[OF assms(1) p] by (simp add: q_def)
  have ok: "parser_ok q" using q p(1) by (rule goes_ok)
  show "goes p (snd (run_state (m \<bind> f) p)) \<and>
      (Q (fst (run_state (m \<bind> f) p)) \<longrightarrow> ps_pos p < ps_pos (snd (run_state (m \<bind> f) p)))"
  proof (cases "ps_pos p < ps_pos q")
    case True
    have "tokens_left q < N" using goes_left_less[OF q p(1) True] p(2) by simp
    from soundD[OF assms(2)[OF this, of x] ok] have "goes q (snd (run_state (f x) q))" by (simp add: any_tok_def)
    from goes_step[OF q this] True show ?thesis
      unfolding run_bind x_def[symmetric] q_def[symmetric] by simp
  next
    case False
    have "tokens_left q \<le> N" using goes_left[OF q] p(2) by simp
    from soundD[OF assms(3)[of x] ok this] goes_still[OF q p(1) False] p(3)
    have "goes q (snd (run_state (f x) q)) \<and> (Q (fst (run_state (f x) q)) \<longrightarrow> ps_pos q < ps_pos (snd (run_state (f x) q)))"
      by simp
    with goes_step[OF q] show ?thesis
      unfolding run_bind x_def[symmetric] q_def[symmetric] by fastforce
  qed
qed

lemma sound_bind_gain:
  assumes "sound K all_gain N m" "\<And>x M. M < N \<Longrightarrow> sound any_tok no_gain M (f x)"
  shows "sound K Q N (m \<bind> f)"
proof (rule soundI)
  fix p assume p: "parser_ok p" "tokens_left p \<le> N" "K (tok_kind (cur p))"
  define x q where "x = fst (run_state m p)" and "q = snd (run_state m p)"
  have q: "goes p q" "ps_pos p < ps_pos q" using soundD[OF assms(1) p] by (simp_all add: q_def all_gain_def)
  have "tokens_left q < N" using goes_left_less[OF q(1) p(1) q(2)] p(2) by simp
  from soundD[OF assms(2)[OF this, of x] goes_ok[OF q(1) p(1)]]
  have "goes q (snd (run_state (f x) q))" by (simp add: any_tok_def)
  from goes_step[OF q(1) this] q(2) show "goes p (snd (run_state (m \<bind> f) p)) \<and>
      (Q (fst (run_state (m \<bind> f) p)) \<longrightarrow> ps_pos p < ps_pos (snd (run_state (m \<bind> f) p)))"
    unfolding run_bind x_def[symmetric] q_def[symmetric] by simp
qed

text \<open>An operation that moves where it gives a node.\<close>

lemma sound_bind_some:
  assumes "sound K is_some N m" "\<And>x M. M < N \<Longrightarrow> sound any_tok no_gain M (f (Some x))" "sound any_tok Q N (f None)"
  shows "sound K Q N (m \<bind> f)"
proof (rule soundI)
  fix p assume p: "parser_ok p" "tokens_left p \<le> N" "K (tok_kind (cur p))"
  define x q where "x = fst (run_state m p)" and "q = snd (run_state m p)"
  have q: "goes p q" "x \<noteq> None \<Longrightarrow> ps_pos p < ps_pos q"
    using soundD[OF assms(1) p] by (simp_all add: q_def x_def is_some_def)
  have ok: "parser_ok q" using q(1) p(1) by (rule goes_ok)
  show "goes p (snd (run_state (m \<bind> f) p)) \<and>
      (Q (fst (run_state (m \<bind> f) p)) \<longrightarrow> ps_pos p < ps_pos (snd (run_state (m \<bind> f) p)))"
  proof (cases x)
    case None
    have "tokens_left q \<le> N" using goes_left[OF q(1)] p(2) by simp
    from soundD[OF assms(3) ok this] goes_step[OF q(1)] show ?thesis
      unfolding run_bind x_def[symmetric] q_def[symmetric] None by (fastforce simp: any_tok_def)
  next
    case (Some y)
    have lt: "ps_pos p < ps_pos q" using q(2) Some by simp
    have "tokens_left q < N" using goes_left_less[OF q(1) p(1) lt] p(2) by simp
    from soundD[OF assms(2)[OF this, of y] ok] have "goes q (snd (run_state (f (Some y)) q))"
      by (simp add: any_tok_def)
    from goes_step[OF q(1) this] lt show ?thesis
      unfolding run_bind x_def[symmetric] q_def[symmetric] Some by simp
  qed
qed

lemma sound_give: "sound K no_gain N (give x)"
  "sound K goes_on N (give (a, False))" "sound K is_some N (give None)"
  by (auto simp: sound_def gains goes_refl)

lemma sound_any: "sound any_tok Q N m \<Longrightarrow> sound K Q N m"
  by (simp add: sound_def any_tok_def)

lemma sound_weaken:
  "sound any_tok Q N m \<Longrightarrow> sound (one_of ks) Q N m" "sound any_tok Q N m \<Longrightarrow> sound (none_of ks) Q N m"
  by (rule sound_any, assumption)+

lemma sound_nothing: "sound (one_of []) Q N m"
  by (simp add: sound_def one_of_def)

lemma sound_cases:
  "(c \<Longrightarrow> sound K Q N A) \<Longrightarrow> (\<not> c \<Longrightarrow> sound K Q N B) \<Longrightarrow> sound K Q N (if c then A else B)"
  "(\<And>a b. x = (a, b) \<Longrightarrow> sound K Q N (f a b)) \<Longrightarrow> sound K Q N (case x of (a, b) \<Rightarrow> f a b)"
  "(y = None \<Longrightarrow> sound K Q N B) \<Longrightarrow> (\<And>z. y = Some z \<Longrightarrow> sound K Q N (g z)) \<Longrightarrow>
    sound K Q N (case y of None \<Rightarrow> B | Some z \<Rightarrow> g z)"
  by (auto split: prod.splits option.splits)

lemma sound_let: "sound K Q N (h e) \<Longrightarrow> sound K Q N (Let e h)"
  by simp

subsection \<open>Rules: reading and reporting\<close>

lemma run_reads [simp]: "run_state (reads g) p = (g p, p)"
  by (simp add: reads_def)

lemma run_modify [simp]: "run_state (modify h) p = ((), h p)"
  by (simp add: modify_def)

lemma sound_reads: "sound K no_gain N (reads g)"
  by (simp add: sound_def gains goes_refl)

lemma sound_reads_bind: "(\<And>x. sound K Q N (f x)) \<Longrightarrow> sound K Q N (reads g \<bind> f)"
  by (simp add: sound_def)

lemma sound_reads_kind:
  "(\<And>k. sound (one_of [k]) Q N (f k)) \<Longrightarrow> sound K Q N (reads (\<lambda>p. tok_kind (cur p)) \<bind> f)"
  by (simp add: sound_def one_of_def)

lemma goes_report: "parser_ok p \<Longrightarrow> goes p (p\<lparr>ps_diags := add_diag c s sp m (ps_diags p)\<rparr>)"
  by (simp add: goes_def parser_ok_def)

lemma sound_report: "sound K no_gain N (report c sp m)"
  by (simp add: sound_def report_def gains goes_report)

lemma sound_fail: "sound K no_gain N (fail c m)"
  unfolding fail_def by (rule sound_reads_bind sound_report)+

lemma sound_fail_at: "sound K no_gain N (fail_at n c m)"
  unfolding fail_at_def by (rule sound_report)

lemma sound_spanned: "sound K no_gain N (spanned start n)"
  unfolding spanned_def by (rule sound_reads_bind sound_give)+

lemma cur_nest [simp]: "cur (p\<lparr>ps_nest := n\<rparr>) = cur p"
  by (simp add: cur_def tok_count_def)

lemma sound_nested:
  assumes "sound K no_gain N m"
  shows "sound K no_gain N (nested m)"
proof (rule soundI)
  fix p assume p: "parser_ok p" "tokens_left p \<le> N" "K (tok_kind (cur p))"
  let ?p = "p\<lparr>ps_nest := ps_nest p + 1\<rparr>"
  have "goes ?p (snd (run_state m ?p))"
    using soundD[OF assms, of ?p] p by (simp add: parser_ok_def tokens_left_def)
  then show "goes p (snd (run_state (nested m) p)) \<and>
      (no_gain (fst (run_state (nested m) p)) \<longrightarrow> ps_pos p < ps_pos (snd (run_state (nested m) p)))"
    by (simp add: nested_def case_prod_unfold goes_def gains)
qed

subsection \<open>Rules: branching on the current token\<close>

lemma sound_branch_imp:
  assumes "\<And>p. parser_ok p \<Longrightarrow> c p \<Longrightarrow> one_of ks (tok_kind (cur p))" "sound (one_of ks) Q N A" "sound K Q N B"
  shows "sound K Q N (branch c A B)"
  using assms by (simp add: sound_def branch_def)

lemma sound_branch_at:
  "sound (one_of [k]) Q N A \<Longrightarrow> sound K Q N B \<Longrightarrow> sound K Q N (branch (\<lambda>p. at_tok p k) A B)"
  "sound (one_of [k]) Q N A \<Longrightarrow> sound K Q N B \<Longrightarrow> sound K Q N (branch (\<lambda>p. at_tok p k \<and> C p) A B)"
  "sound (one_of [Name]) Q N A \<Longrightarrow> sound K Q N B \<Longrightarrow> sound K Q N (branch (\<lambda>p. at_name p s) A B)"
  "sound (one_of [Name]) Q N A \<Longrightarrow> sound K Q N B \<Longrightarrow> sound K Q N (branch (\<lambda>p. at_name p s \<and> C p) A B)"
  by (auto intro!: sound_branch_imp simp: at_tok_def at_name_def one_of_def)

text \<open>The second alternative on a token known to be one of a list.\<close>

lemma sound_branch_at_one_of:
  "sound (one_of [k]) Q N A \<Longrightarrow> ks' = removeAll k ks \<Longrightarrow> sound (one_of ks') Q N B \<Longrightarrow>
   sound (one_of ks) Q N (branch (\<lambda>p. at_tok p k) A B)"
  by (simp add: sound_def branch_def at_tok_def one_of_def)

lemma sound_branch_any:
  "sound (one_of ks) Q N A \<Longrightarrow> sound K Q N B \<Longrightarrow> sound K Q N (branch (\<lambda>p. at_any p ks) A B)"
  "sound (one_of ks) Q N A \<Longrightarrow> sound K Q N B \<Longrightarrow> sound K Q N (branch (\<lambda>p. at_any p ks \<and> C p) A B)"
  by (auto intro!: sound_branch_imp simp: at_any_def one_of_def)

lemma sound_branch_any_none:
  "sound (one_of ks) Q N A \<Longrightarrow> sound (none_of ks) Q N B \<Longrightarrow>
   sound any_tok Q N (branch (\<lambda>p. at_any p ks) A B)"
  by (simp add: sound_def branch_def at_any_def one_of_def none_of_def any_tok_def)

lemma sound_branch: "sound K Q N A \<Longrightarrow> sound K Q N B \<Longrightarrow> sound K Q N (branch c A B)"
  by (simp add: sound_def branch_def)

subsection \<open>Rules: taking tokens\<close>

lemma run_take: "run_state take_tok p =
    (cur p, if ps_pos p < tok_count p - 1 then p\<lparr>ps_pos := ps_pos p + 1\<rparr> else p)"
  by (simp add: take_tok_def)

lemma goes_take: "parser_ok p \<Longrightarrow> goes p (snd (run_state take_tok p))"
  by (auto simp: run_take goes_def parser_ok_def tok_count_def)

lemma sound_take: "sound K no_gain N take_tok"
  by (simp add: sound_def gains goes_take)

lemma take_gain:
  "parser_ok p \<Longrightarrow> tok_kind (cur p) \<noteq> EndOfFile \<Longrightarrow>
   goes p (snd (run_state take_tok p)) \<and> ps_pos p < ps_pos (snd (run_state take_tok p))"
  using not_eof_left[of p] goes_take[of p] by (simp add: run_take)

lemma sound_take_gain:
  "EndOfFile \<notin> set ks \<Longrightarrow> sound (one_of ks) all_gain N take_tok"
  "EndOfFile \<in> set ks \<Longrightarrow> sound (none_of ks) all_gain N take_tok"
  by (rule soundI, drule take_gain, auto simp: one_of_def none_of_def)+

lemma sound_take_bind:
  "EndOfFile \<notin> set ks \<Longrightarrow> (\<And>t M. M < N \<Longrightarrow> sound any_tok no_gain M (f t)) \<Longrightarrow>
    sound (one_of ks) Q N (take_tok \<bind> f)"
  "EndOfFile \<in> set ks \<Longrightarrow> (\<And>t M. M < N \<Longrightarrow> sound any_tok no_gain M (f t)) \<Longrightarrow>
    sound (none_of ks) Q N (take_tok \<bind> f)"
  by (rule sound_bind_gain[OF sound_take_gain(1)] sound_bind_gain[OF sound_take_gain(2)]; assumption)+

lemma run_eat: "run_state (eat k) p =
    (if at_tok p k then (True, snd (run_state take_tok p)) else (False, p))"
  by (simp add: eat_def branch_def case_prod_unfold)

lemma sound_eat_bind:
  assumes "k \<noteq> EndOfFile" "\<And>M. M < N \<Longrightarrow> sound any_tok no_gain M (f True)" "sound K Q N (f False)"
  shows "sound K Q N (eat k \<bind> f)"
proof (rule soundI)
  fix p assume p: "parser_ok p" "tokens_left p \<le> N" "K (tok_kind (cur p))"
  show "goes p (snd (run_state (eat k \<bind> f) p)) \<and>
      (Q (fst (run_state (eat k \<bind> f) p)) \<longrightarrow> ps_pos p < ps_pos (snd (run_state (eat k \<bind> f) p)))"
  proof (cases "at_tok p k")
    case False
    then show ?thesis using soundD[OF assms(3) p] by (simp add: run_bind run_eat)
  next
    case True
    have "sound (one_of [k]) Q N (take_tok \<bind> (\<lambda>_. f True))"
      by (rule sound_take_bind) (simp_all add: assms(1)[symmetric] assms(2))
    from soundD[OF this p(1,2)] True show ?thesis
      by (simp add: run_bind run_eat at_tok_def one_of_def)
  qed
qed

lemma sound_on_eat:
  "k \<noteq> EndOfFile \<Longrightarrow> (\<And>M. M < N \<Longrightarrow> sound any_tok no_gain M A) \<Longrightarrow> sound K Q N B \<Longrightarrow> sound K Q N (on_eat k A B)"
  unfolding on_eat_def by (rule sound_eat_bind) simp_all

lemma sound_on_eat_one_of:
  assumes "k \<noteq> EndOfFile" "\<And>M. M < N \<Longrightarrow> sound any_tok no_gain M A" "ks' = removeAll k ks" "sound (one_of ks') Q N B"
  shows "sound (one_of ks) Q N (on_eat k A B)"
proof (rule soundI)
  fix p assume p: "parser_ok p" "tokens_left p \<le> N" "one_of ks (tok_kind (cur p))"
  show "goes p (snd (run_state (on_eat k A B) p)) \<and>
      (Q (fst (run_state (on_eat k A B) p)) \<longrightarrow> ps_pos p < ps_pos (snd (run_state (on_eat k A B) p)))"
  proof (cases "at_tok p k")
    case False
    then show ?thesis using soundD[OF assms(4) p(1,2)] p(3) assms(3)
      by (simp add: on_eat_def run_bind run_eat one_of_def at_tok_def)
  next
    case True
    have "sound (one_of [k]) Q N (take_tok \<bind> (\<lambda>_. A))"
      by (rule sound_take_bind) (simp_all add: assms(1)[symmetric] assms(2))
    from soundD[OF this p(1,2)] True show ?thesis
      by (simp add: on_eat_def run_bind run_eat at_tok_def one_of_def)
  qed
qed

lemma sound_eat: "sound K no_gain N (eat k)"
  by (auto simp: sound_def gains run_eat goes_take goes_refl)

lemma sound_on_eat_any: "sound any_tok no_gain N A \<Longrightarrow> sound K no_gain N B \<Longrightarrow> sound K no_gain N (on_eat k A B)"
  by (auto simp: on_eat_def sound_def gains run_bind run_eat any_tok_def
      intro: goes_trans[OF goes_take] dest: goes_ok[OF goes_take] goes_left[OF goes_take]
        le_trans[OF goes_left[OF goes_take]])

lemma sound_expect: "sound K no_gain N (expect k c m)"
  unfolding expect_def by (rule sound_on_eat_any sound_give sound_bind sound_fail)+

lemma sound_expect_bind:
  assumes "k \<noteq> EndOfFile" "\<And>x M. M < N \<Longrightarrow> sound any_tok no_gain M (f x)"
  shows "sound (one_of [k]) Q N (expect k c m \<bind> f)"
proof (rule sound_bind_gain[OF _ assms(2)])
  show "sound (one_of [k]) all_gain N (expect k c m)"
    unfolding expect_def
    by (rule sound_on_eat_one_of[where ks' = "[]"]) (simp_all add: assms(1) sound_give sound_nothing)
qed

lemma sound_eat_known:
  assumes "k \<noteq> EndOfFile" "\<And>x M. M < N \<Longrightarrow> sound any_tok no_gain M (f x)"
  shows "sound (one_of [k]) Q N (eat k \<bind> f)"
proof (rule soundI)
  fix p assume p: "parser_ok p" "tokens_left p \<le> N" "one_of [k] (tok_kind (cur p))"
  have "sound (one_of [k]) Q N (take_tok \<bind> (\<lambda>_. f True))"
    by (rule sound_take_bind) (simp_all add: assms(1)[symmetric] assms(2))
  from soundD[OF this p] p(3)
  show "goes p (snd (run_state (eat k \<bind> f) p)) \<and>
      (Q (fst (run_state (eat k \<bind> f) p)) \<longrightarrow> ps_pos p < ps_pos (snd (run_state (eat k \<bind> f) p)))"
    by (simp add: run_bind run_eat at_tok_def one_of_def)
qed

lemma sound_expect_stmt_newline: "sound K no_gain N (expect_stmt_newline xs)"
  unfolding expect_stmt_newline_def
  by (rule sound_cases sound_give sound_branch sound_bind sound_expect)+

lemma sound_forced_gain:
  assumes "sound any_tok no_gain N m"
  shows "EndOfFile \<in> set ks \<Longrightarrow> sound (none_of ks) all_gain N (forced m)"
proof (rule soundI)
  fix p assume e: "EndOfFile \<in> set ks"
    and p: "parser_ok p" "tokens_left p \<le> N" "none_of ks (tok_kind (cur p))"
  define q where "q = snd (run_state m p)"
  have q: "goes p q" using soundD[OF assms p(1,2)] by (simp add: q_def any_tok_def)
  have run: "snd (run_state (forced m) p) = (if ps_pos q = ps_pos p then snd (run_state take_tok q) else q)"
    by (simp add: forced_def branch_def case_prod_unfold q_def)
  have eof: "tok_kind (cur p) \<noteq> EndOfFile" using p(3) e by (auto simp: none_of_def)
  show "goes p (snd (run_state (forced m) p)) \<and>
      (all_gain (fst (run_state (forced m) p)) \<longrightarrow> ps_pos p < ps_pos (snd (run_state (forced m) p)))"
  proof (cases "ps_pos q = ps_pos p")
    case True
    then have "tok_kind (cur q) \<noteq> EndOfFile" using goes_still[OF q p(1)] eof by simp
    from not_eof_left[OF goes_ok[OF q p(1)] this] True goes_trans[OF q goes_take[OF goes_ok[OF q p(1)]]]
    show ?thesis by (simp add: run run_take)
  next
    case False
    then show ?thesis using q by (simp add: run goes_def)
  qed
qed

lemma sound_forced:
  assumes "sound any_tok no_gain N m"
  shows "sound K no_gain N (forced m)"
  unfolding forced_def
  by (rule sound_reads_bind, rule sound_bind[OF sound_any[OF assms]], rule sound_branch)
    (rule sound_bind sound_take sound_give)+

subsection \<open>Rules: loops\<close>

lemma loop_sound:
  assumes body: "\<And>a. sound any_tok goes_on N (body a)"
  shows "parser_ok p \<Longrightarrow> tokens_left p \<le> N \<Longrightarrow> tokens_left p < fuel \<Longrightarrow> goes p (snd (run_state (loop fuel body a) p))"
proof (induction fuel arbitrary: p a)
  case 0
  then show ?case by simp
next
  case (Suc fuel)
  define r q where "r = fst (run_state (body a) p)" and "q = snd (run_state (body a) p)"
  have q: "goes p q" "snd r \<Longrightarrow> ps_pos p < ps_pos q"
    using soundD[OF body Suc.prems(1,2), of a] by (simp_all add: q_def r_def any_tok_def goes_on_def)
  have run: "run_state (loop (Suc fuel) body a) p =
      (if snd r then run_state (loop fuel body (fst r)) q else (fst r, q))"
    by (simp add: run_bind r_def[symmetric] q_def[symmetric])
  show ?case
  proof (cases "snd r")
    case True
    have "tokens_left q < tokens_left p" using goes_left_less[OF q(1) Suc.prems(1)] q(2) True by simp
    then have "goes q (snd (run_state (loop fuel body (fst r)) q))"
      using Suc.IH[OF goes_ok[OF q(1) Suc.prems(1)]] Suc.prems by simp
    then show ?thesis using True goes_trans[OF q(1)] by (simp only: run) simp
  next
    case False
    then show ?thesis using q(1) by (simp only: run) simp
  qed
qed

lemma sound_repeat:
  assumes "\<And>a. sound any_tok goes_on N (body a)"
  shows "sound K no_gain N (repeat body a)"
proof (rule soundI)
  fix p assume p: "parser_ok p" "tokens_left p \<le> N" "K (tok_kind (cur p))"
  have "tokens_left p < length (ps_tokens p) + 1" by (simp add: tokens_left_def)
  from loop_sound[where body = body and a = a, OF assms p(1,2) this]
  show "goes p (snd (run_state (repeat body a) p)) \<and>
      (no_gain (fst (run_state (repeat body a) p)) \<longrightarrow> ps_pos p < ps_pos (snd (run_state (repeat body a) p)))"
    by (simp add: repeat_def gains del: loop.simps)
qed

text \<open>A loop whose first round moves.\<close>

lemma sound_repeat_gain:
  assumes body: "\<And>a. sound any_tok goes_on N (body a)" and first: "sound K all_gain N (body a)"
  shows "sound K all_gain N (repeat body a)"
proof (rule soundI)
  fix p assume p: "parser_ok p" "tokens_left p \<le> N" "K (tok_kind (cur p))"
  define r q where "r = fst (run_state (body a) p)" and "q = snd (run_state (body a) p)"
  have q: "goes p q" "ps_pos p < ps_pos q"
    using soundD[OF first p] by (simp_all add: q_def all_gain_def)
  have left: "tokens_left q < length (ps_tokens p)"
    using goes_left_less[OF q(1) p(1) q(2)] by (simp add: tokens_left_def)
  have run: "run_state (repeat body a) p =
      (if snd r then run_state (loop (length (ps_tokens p)) body (fst r)) q else (fst r, q))"
    by (simp add: repeat_def run_bind r_def[symmetric] q_def[symmetric])
  have "goes q (snd (run_state (loop (length (ps_tokens p)) body (fst r)) q))"
    using loop_sound[where body = body, OF body goes_ok[OF q(1) p(1)] _ left] goes_left[OF q(1)] p(2) by simp
  then show "goes p (snd (run_state (repeat body a) p)) \<and>
      (all_gain (fst (run_state (repeat body a) p)) \<longrightarrow> ps_pos p < ps_pos (snd (run_state (repeat body a) p)))"
    using goes_step[OF q(1)] q unfolding run by fastforce
qed

end
