(* ===== verification/ParseSound.thy ===== *)
theory ParseSound
  imports ParseLaws
begin

section \<open>Every production keeps the contract\<close>

text \<open>
  \<open>productions_at R N\<close>: the recursive productions keep the contract from states with at most \<open>N\<close>
  tokens left; then so does every operation built on them. \<open>productions_below R N\<close>: they do below
  \<open>N\<close>; then a production that takes a token before it recurs keeps the contract at \<open>N\<close> too, and
  one that hands on without a token does if the one it hands to does. The ranks of that hand-over
  (type, unary, binary, conditional, \<open>else\<close>, expression, statement, suite) give the depth of calls a
  token can cost: eight.
\<close>

lemmas parse_rules =
  sound_nothing sound_give sound_spanned sound_fail sound_fail_at sound_report sound_expect sound_eat
  sound_reads sound_take sound_expect_stmt_newline sound_let sound_take_bind sound_expect_bind
  sound_eat_known sound_eat_bind sound_reads_bind sound_on_eat_one_of sound_on_eat
  sound_branch_at_one_of sound_branch_at sound_branch_any sound_cases sound_branch sound_nested
  sound_repeat sound_forced sound_bind sound_weaken

subsection \<open>Operations without recursion\<close>

lemma skip_docs_sound: "sound K no_gain N skip_docs"
  unfolding skip_docs_def by (rule parse_rules | (simp; fail))+

lemma sync_line_sound: "sound K no_gain N sync_line"
  unfolding sync_line_def
  by (rule sound_branch_any_none parse_rules | (simp; fail))+

lemma comma_list_sound:
  "sound any_tok no_gain N item \<Longrightarrow> sound K no_gain N (comma_list item close xs)"
  unfolding comma_list_def
  by (rule parse_rules | assumption | (erule sound_mono, simp; fail) | (simp; fail))+

lemma comma_list_opt_sound:
  "sound any_tok no_gain N item \<Longrightarrow> sound K no_gain N (comma_list_opt item close xs)"
  unfolding comma_list_opt_def
  by (rule parse_rules | assumption | (erule sound_mono, simp; fail) | (simp; fail))+

lemma parse_literal_sound: "sound K no_gain N parse_literal"
  unfolding parse_literal_def by (rule parse_rules | (simp; fail))+

lemma payload_name_sound: "sound K no_gain N payload_name"
  unfolding payload_name_def by (rule parse_rules | (simp; fail))+

lemma case_pattern_sound: "sound K no_gain N (case_pattern start)"
  unfolding case_pattern_def by (rule parse_rules comma_list_opt_sound payload_name_sound | (simp; fail))+

lemma literal_pattern_sound: "sound K no_gain N (literal_pattern start neg)"
  unfolding literal_pattern_def by (rule parse_rules parse_literal_sound | (simp; fail))+

lemma parse_pattern_sound: "sound K no_gain N parse_pattern"
  unfolding parse_pattern_def
  by (rule parse_rules case_pattern_sound literal_pattern_sound | (simp; fail))+

lemma arm_patterns_sound: "sound K no_gain N arm_patterns"
  unfolding arm_patterns_def by (rule parse_rules parse_pattern_sound | (simp; fail))+

text \<open>The bodies of types and matches: every round moves.\<close>

lemma skip_docs_gain: "sound (one_of [DocComment, Newline]) all_gain N skip_docs"
proof -
  let ?body = "\<lambda>_::unit. branch (\<lambda>p. at_any p [DocComment, Newline]) (do { take_tok; give ((), True) }) (give ((), False))"
  have "sound any_tok goes_on N (?body ())" by (rule parse_rules | (simp; fail))+
  moreover have "sound (one_of [DocComment, Newline]) all_gain N (do { take_tok; give ((), True) })"
    by (rule parse_rules | (simp; fail))+
  then have "sound (one_of [DocComment, Newline]) all_gain N (?body ())"
    by (simp add: sound_def branch_def one_of_def at_any_def)
  ultimately show ?thesis unfolding skip_docs_def by (rule sound_repeat_gain)
qed

lemma sound_skip_docs_bind:
  assumes "\<And>x M. M < N \<Longrightarrow> sound any_tok no_gain M (f x)"
    and "\<And>x. sound (none_of (DocComment # Newline # ks)) Q N (f x)"
  shows "sound (none_of ks) Q N (skip_docs \<bind> f)"
proof (rule soundI)
  fix p assume p: "parser_ok p" "tokens_left p \<le> N" "none_of ks (tok_kind (cur p))"
  show "goes p (snd (run_state (skip_docs \<bind> f) p)) \<and>
      (Q (fst (run_state (skip_docs \<bind> f) p)) \<longrightarrow> ps_pos p < ps_pos (snd (run_state (skip_docs \<bind> f) p)))"
  proof (cases "at_any p [DocComment, Newline]")
    case False
    then have "run_state skip_docs p = ((), p)"
      by (simp add: skip_docs_def repeat_def branch_def)
    moreover have "none_of (DocComment # Newline # ks) (tok_kind (cur p))"
      using False p(3) by (simp add: none_of_def at_any_def)
    ultimately show ?thesis using soundD[OF assms(2) p(1,2)] by simp
  next
    case True
    then have "one_of [DocComment, Newline] (tok_kind (cur p))" by (simp add: one_of_def at_any_def)
    from soundD[OF sound_bind_gain[OF skip_docs_gain assms(1)] p(1,2) this] show ?thesis .
  qed
qed

lemma indented_items_sound:
  assumes item: "sound any_tok no_gain N item"
  shows "sound K no_gain N (indented_items item add acc)"
proof -
  have le: "M \<le> N \<Longrightarrow> sound any_tok no_gain M item" for M using item by (rule sound_mono)
  show ?thesis
    unfolding indented_items_def
    by (rule sound_repeat sound_branch_any_none sound_skip_docs_bind skip_docs_sound
        sound_bind_gain[OF sound_forced_gain] le parse_rules | (simp; fail))+
qed

lemma sync_line_gain: "sound (none_of [EndOfFile, Newline, Dedent]) all_gain N sync_line"
proof -
  let ?body = "\<lambda>_::unit. branch (\<lambda>p. at_any p [EndOfFile, Newline, Dedent]) (give ((), False)) (do { take_tok; give ((), True) })"
  have "sound any_tok goes_on N (?body ())"
    by (rule sound_branch_any_none parse_rules | (simp; fail))+
  moreover have "sound (none_of [EndOfFile, Newline, Dedent]) all_gain N (do { take_tok; give ((), True) })"
    by (rule parse_rules | (simp; fail))+
  then have "sound (none_of [EndOfFile, Newline, Dedent]) all_gain N (?body ())"
    by (simp add: sound_def branch_def none_of_def at_any_def)
  ultimately have "sound (none_of [EndOfFile, Newline, Dedent]) all_gain N (repeat ?body ())"
    by (rule sound_repeat_gain)
  then show ?thesis unfolding sync_line_def
    by (rule sound_bind_gain) (rule parse_rules | (simp; fail))+
qed

subsection \<open>Under the recursive productions\<close>

lemma binding_name_sound: "sound K no_gain N binding_name"
  unfolding binding_name_def by (rule parse_rules | (simp; fail))+

lemma loop_name_sound: "sound K no_gain N loop_name"
  unfolding loop_name_def by (rule parse_rules | (simp; fail))+

lemma import_name_sound: "sound K no_gain N import_name"
  unfolding import_name_def by (rule parse_rules | (simp; fail))+

lemma asm_lines_sound: "sound K no_gain N asm_lines"
  unfolding asm_lines_def by (rule parse_rules | (simp; fail))+

lemma take_name_sound: "sound K no_gain N (take_name m)"
  unfolding take_name_def by (rule parse_rules | (simp; fail))+

lemma parse_module_path_sound: "sound K no_gain N parse_module_path"
  unfolding parse_module_path_def by (rule parse_rules | (simp; fail))+

lemma parse_blocking_sound: "sound K no_gain N (parse_blocking f)"
  unfolding parse_blocking_def by (rule parse_rules | (simp; fail))+

lemma section_attribute_sound: "sound K no_gain N section_attribute"
  unfolding section_attribute_def by (rule parse_rules | (simp; fail))+

lemma section_attribute_gain: "sound (one_of [Name]) all_gain N section_attribute"
  unfolding section_attribute_def by (rule parse_rules | (simp; fail))+

lemma parse_attributes_sound: "sound K no_gain N parse_attributes"
  unfolding parse_attributes_def
  by (rule sound_bind_gain[OF section_attribute_gain] parse_rules | (simp; fail))+

lemma type_qualifiers_sound: "sound K no_gain N (type_qualifiers f)"
  unfolding type_qualifiers_def by (rule parse_rules | (simp; fail))+

lemma sound_branch_not_eof:
  "sound (none_of [EndOfFile]) Q N A \<Longrightarrow> sound any_tok Q N B \<Longrightarrow>
   sound any_tok Q N (branch (\<lambda>p. C p \<and> \<not> at_tok p EndOfFile) A B)"
  by (simp add: sound_def branch_def at_tok_def none_of_def any_tok_def)

lemma skip_body_sound: "sound K no_gain N skip_body"
  unfolding skip_body_def
  by (rule sound_branch_not_eof parse_rules | (simp; fail))+

lemma parse_handle_sound: "sound K no_gain N (parse_handle f)"
  unfolding parse_handle_def by (rule parse_rules | (simp; fail))+

lemma parse_import_sound: "sound K no_gain N parse_import"
  unfolding parse_import_def
  by (rule parse_module_path_sound comma_list_opt_sound import_name_sound parse_rules | (simp; fail))+

lemma parse_import_gain: "sound (one_of [KwImport, KwFrom]) all_gain N parse_import"
  unfolding parse_import_def
  by (rule parse_module_path_sound comma_list_opt_sound import_name_sound parse_rules | (simp; fail))+

named_theorems sound_at "what keeps the contract when the recursive productions do"

lemmas shared_sound = comma_list_sound comma_list_opt_sound skip_docs_sound sync_line_sound
  parse_literal_sound parse_pattern_sound arm_patterns_sound indented_items_sound binding_name_sound
  loop_name_sound import_name_sound asm_lines_sound take_name_sound parse_module_path_sound
  parse_blocking_sound parse_attributes_sound type_qualifiers_sound skip_body_sound parse_handle_sound
  parse_import_sound

lemma sound_branch_path:
  "sound (one_of [Dot]) Q N A \<Longrightarrow> sound K Q N B \<Longrightarrow> sound K Q N (branch (path_continues n s) A B)"
  by (rule sound_branch_imp) (simp_all add: path_continues_def at_tok_def one_of_def)

locale productions_at =
  fixes R :: parsers and N :: nat
  assumes type_sound: "sound any_tok no_gain N (p_type R)"
    and unary_sound: "sound any_tok no_gain N (p_unary R)"
    and binary_sound: "sound any_tok no_gain N (p_binary R k)"
    and conditional_sound: "sound any_tok no_gain N (p_conditional R)"
    and else_sound: "sound any_tok no_gain N (p_else_expr R)"
    and expression_sound: "sound any_tok no_gain N (p_expression R)"
    and statement_sound: "sound any_tok no_gain N (p_statement R)"
    and suite_sound: "sound any_tok no_gain N (p_suite R)"
begin

lemmas entries = type_sound unary_sound binary_sound conditional_sound else_sound expression_sound
  statement_sound suite_sound

lemma entries_below [sound_at]:
  "M \<le> N \<Longrightarrow> sound any_tok no_gain M (p_type R)"
  "M \<le> N \<Longrightarrow> sound any_tok no_gain M (p_unary R)"
  "M \<le> N \<Longrightarrow> sound any_tok no_gain M (p_binary R k)"
  "M \<le> N \<Longrightarrow> sound any_tok no_gain M (p_conditional R)"
  "M \<le> N \<Longrightarrow> sound any_tok no_gain M (p_else_expr R)"
  "M \<le> N \<Longrightarrow> sound any_tok no_gain M (p_expression R)"
  "M \<le> N \<Longrightarrow> sound any_tok no_gain M (p_statement R)"
  "M \<le> N \<Longrightarrow> sound any_tok no_gain M (p_suite R)"
  by (rule entries[THEN sound_mono], assumption)+

lemma wrap_eaten_sound [sound_at]:
  "M \<le> N \<Longrightarrow> k \<noteq> EndOfFile \<Longrightarrow> sound any_tok no_gain M (wrap_eaten k f s v)"
  unfolding wrap_eaten_def by (rule parse_rules | assumption)+

lemma format_part_sound [sound_at]: "M \<le> N \<Longrightarrow> sound any_tok goes_on M (format_part R ps)"
  unfolding format_part_def by (rule sound_at parse_rules | (simp; fail))+

lemma parse_arg_sound [sound_at]: "M \<le> N \<Longrightarrow> sound any_tok no_gain M (parse_arg R)"
  unfolding parse_arg_def by (rule sound_at shared_sound parse_rules | (simp; fail))+

lemma parse_arg_list_sound [sound_at]: "M \<le> N \<Longrightarrow> sound any_tok no_gain M (parse_arg_list R)"
  unfolding parse_arg_list_def by (rule sound_at shared_sound parse_rules | (simp; fail))+

lemma parse_type_args_sound [sound_at]: "M \<le> N \<Longrightarrow> sound any_tok no_gain M (parse_type_args R)"
  unfolding parse_type_args_def by (rule sound_at shared_sound parse_rules | (simp; fail))+

lemma bracket_suffixes_sound [sound_at]: "M \<le> N \<Longrightarrow> sound any_tok no_gain M (bracket_suffixes R s)"
  unfolding bracket_suffixes_def by (rule sound_at shared_sound parse_rules | (simp; fail))+

lemma pointer_suffix_sound [sound_at]: "M \<le> N \<Longrightarrow> sound any_tok no_gain M (pointer_suffix s v f)"
  unfolding pointer_suffix_def by (rule sound_at shared_sound parse_rules | (simp; fail))+

lemma function_type_sound [sound_at]: "M \<le> N \<Longrightarrow> sound any_tok no_gain M (function_type R s)"
  unfolding function_type_def by (rule sound_at shared_sound parse_rules | (simp; fail))+

lemma paren_type_sound [sound_at]: "M \<le> N \<Longrightarrow> sound any_tok no_gain M (paren_type R s)"
  unfolding paren_type_def by (rule sound_at shared_sound parse_rules | (simp; fail))+

lemma type_path_sound [sound_at]: "M \<le> N \<Longrightarrow> sound any_tok no_gain M (type_path n)"
  unfolding type_path_def by (rule sound_branch_path sound_at shared_sound parse_rules | (simp; fail))+

lemma named_type_sound [sound_at]: "M \<le> N \<Longrightarrow> sound any_tok no_gain M (named_type R s)"
  unfolding named_type_def by (rule sound_at shared_sound parse_rules | (simp; fail))+

lemma parse_primary_type_sound [sound_at]: "M \<le> N \<Longrightarrow> sound any_tok no_gain M (parse_primary_type R)"
  unfolding parse_primary_type_def by (rule sound_at shared_sound parse_rules | (simp; fail))+

lemma builtin_arguments_sound [sound_at]: "M \<le> N \<Longrightarrow> sound any_tok no_gain M (builtin_arguments R)"
  unfolding builtin_arguments_def by (rule sound_at shared_sound parse_rules | (simp; fail))+

lemma parse_type_builtin_sound [sound_at]: "M \<le> N \<Longrightarrow> sound any_tok no_gain M (parse_type_builtin R)"
  unfolding parse_type_builtin_def by (rule sound_at shared_sound parse_rules | (simp; fail))+

lemma parse_formatted_sound [sound_at]: "M \<le> N \<Longrightarrow> sound any_tok no_gain M (parse_formatted R)"
  unfolding parse_formatted_def by (rule sound_branch_any_none sound_at shared_sound parse_rules | (simp; fail))+

lemma lambda_param_sound [sound_at]: "M \<le> N \<Longrightarrow> sound any_tok no_gain M (lambda_param R)"
  unfolding lambda_param_def by (rule sound_at shared_sound parse_rules | (simp; fail))+

lemma parse_lambda_sound [sound_at]: "M \<le> N \<Longrightarrow> sound any_tok no_gain M (parse_lambda R)"
  unfolding parse_lambda_def by (rule sound_at shared_sound parse_rules | (simp; fail))+

lemma parse_group_or_tuple_sound [sound_at]: "M \<le> N \<Longrightarrow> sound any_tok no_gain M (parse_group_or_tuple R)"
  unfolding parse_group_or_tuple_def by (rule sound_at shared_sound parse_rules | (simp; fail))+

lemma parse_array_lit_sound [sound_at]: "M \<le> N \<Longrightarrow> sound any_tok no_gain M (parse_array_lit R)"
  unfolding parse_array_lit_def by (rule sound_at shared_sound parse_rules | (simp; fail))+

lemma new_body_sound [sound_at]: "M \<le> N \<Longrightarrow> sound any_tok no_gain M (new_body R)"
  unfolding new_body_def by (rule sound_at shared_sound parse_rules | (simp; fail))+

lemma parse_new_sound [sound_at]: "M \<le> N \<Longrightarrow> sound any_tok no_gain M (parse_new R)"
  unfolding parse_new_def by (rule sound_at shared_sound parse_rules | (simp; fail))+

lemma match_arm_sound [sound_at]: "M \<le> N \<Longrightarrow> sound any_tok no_gain M (match_arm R e)"
  unfolding match_arm_def by (rule sound_at shared_sound parse_rules | (simp; fail))+

lemma parse_match_sound [sound_at]: "M \<le> N \<Longrightarrow> sound any_tok no_gain M (parse_match R e)"
  unfolding parse_match_def by (rule sound_at shared_sound parse_rules | (simp; fail))+

lemma parse_primary_sound [sound_at]: "M \<le> N \<Longrightarrow> sound any_tok no_gain M (parse_primary R)"
  unfolding parse_primary_def by (rule sound_at shared_sound parse_rules | (simp; fail))+

lemma parse_standard_call_sound [sound_at]: "M \<le> N \<Longrightarrow> sound any_tok no_gain M (parse_standard_call R v s)"
  unfolding parse_standard_call_def by (rule sound_at shared_sound parse_rules | (simp; fail))+

lemma expr_as_type_sound [sound_at]: "M \<le> N \<Longrightarrow> sound any_tok no_gain M (expr_as_type v)"
  unfolding expr_as_type_def by (rule sound_at shared_sound parse_rules | (simp; fail))+

lemma close_slice_sound [sound_at]: "M \<le> N \<Longrightarrow> sound any_tok no_gain M (close_slice s lo hi v)"
  unfolding close_slice_def by (rule sound_at shared_sound parse_rules | (simp; fail))+

lemma parse_subscript_sound [sound_at]: "M \<le> N \<Longrightarrow> sound any_tok no_gain M (parse_subscript R v s)"
  unfolding parse_subscript_def by (rule sound_at shared_sound parse_rules | (simp; fail))+

lemma parse_member_sound [sound_at]: "M \<le> N \<Longrightarrow> sound any_tok no_gain M (parse_member v s)"
  unfolding parse_member_def by (rule sound_at shared_sound parse_rules | (simp; fail))+

lemma parse_call_sound [sound_at]: "M \<le> N \<Longrightarrow> sound any_tok no_gain M (parse_call R v s)"
  unfolding parse_call_def by (rule sound_at shared_sound parse_rules | (simp; fail))+

lemma parse_generic_call_sound [sound_at]: "M \<le> N \<Longrightarrow> sound any_tok no_gain M (parse_generic_call R v s)"
  unfolding parse_generic_call_def by (rule sound_at shared_sound parse_rules | (simp; fail))+

lemma parse_span_make_sound [sound_at]: "M \<le> N \<Longrightarrow> sound any_tok no_gain M (parse_span_make R v s)"
  unfolding parse_span_make_def by (rule sound_at shared_sound parse_rules | (simp; fail))+

lemma parse_conditional_rest_sound [sound_at]: "M \<le> N \<Longrightarrow> sound any_tok no_gain M (parse_conditional_rest R n)"
  unfolding parse_conditional_rest_def by (rule sound_at shared_sound parse_rules | (simp; fail))+

lemma else_jump_sound [sound_at]: "M \<le> N \<Longrightarrow> sound any_tok no_gain M (else_jump R)"
  unfolding else_jump_def by (rule sound_at shared_sound parse_rules | (simp; fail))+

lemma parse_else_rest_sound [sound_at]: "M \<le> N \<Longrightarrow> sound any_tok no_gain M (parse_else_rest R n)"
  unfolding parse_else_rest_def by (rule sound_at shared_sound parse_rules | (simp; fail))+

lemma parse_catch_sound [sound_at]: "M \<le> N \<Longrightarrow> sound any_tok no_gain M (parse_catch R n)"
  unfolding parse_catch_def by (rule sound_at shared_sound parse_rules | (simp; fail))+

lemma binding_target_sound [sound_at]: "M \<le> N \<Longrightarrow> sound any_tok no_gain M (binding_target n)"
  unfolding binding_target_def by (rule sound_at shared_sound parse_rules | (simp; fail))+

lemma parse_binding_sound [sound_at]: "M \<le> N \<Longrightarrow> sound any_tok no_gain M (parse_binding R)"
  unfolding parse_binding_def by (rule sound_at shared_sound parse_rules | (simp; fail))+

lemma parse_condition_sound [sound_at]: "M \<le> N \<Longrightarrow> sound any_tok no_gain M (parse_condition R)"
  unfolding parse_condition_def by (rule sound_at shared_sound parse_rules | (simp; fail))+

lemma conditional_suite_sound [sound_at]: "M \<le> N \<Longrightarrow> sound any_tok no_gain M (conditional_suite R k)"
  unfolding conditional_suite_def by (rule sound_at shared_sound parse_rules | (simp; fail))+

lemma conditional_suite_gain:
  "M \<le> N \<Longrightarrow> EndOfFile \<notin> set ks \<Longrightarrow> sound (one_of ks) all_gain M (conditional_suite R kind)"
  unfolding conditional_suite_def by (rule sound_at parse_rules | (simp; fail))+

lemma parse_if_sound [sound_at]: "M \<le> N \<Longrightarrow> sound any_tok no_gain M (parse_if R)"
  unfolding parse_if_def
  by (rule sound_bind_gain[OF conditional_suite_gain] sound_at parse_rules | (simp; fail))+

lemma parse_while_sound [sound_at]: "M \<le> N \<Longrightarrow> sound any_tok no_gain M (parse_while R)"
  unfolding parse_while_def by (rule sound_at shared_sound parse_rules | (simp; fail))+

lemma loop_target_sound [sound_at]: "M \<le> N \<Longrightarrow> sound any_tok no_gain M (loop_target R n)"
  unfolding loop_target_def by (rule sound_at shared_sound parse_rules | (simp; fail))+

lemma parse_for_sound [sound_at]: "M \<le> N \<Longrightarrow> sound any_tok no_gain M (parse_for R)"
  unfolding parse_for_def by (rule sound_at shared_sound parse_rules | (simp; fail))+

lemma parse_with_sound [sound_at]: "M \<le> N \<Longrightarrow> sound any_tok no_gain M (parse_with R)"
  unfolding parse_with_def by (rule sound_at shared_sound parse_rules | (simp; fail))+

lemma asm_operand_sound [sound_at]: "M \<le> N \<Longrightarrow> sound any_tok no_gain M (asm_operand R)"
  unfolding asm_operand_def by (rule sound_at shared_sound parse_rules | (simp; fail))+

lemma parse_asm_sound [sound_at]: "M \<le> N \<Longrightarrow> sound any_tok no_gain M (parse_asm R)"
  unfolding parse_asm_def by (rule sound_at shared_sound parse_rules | (simp; fail))+

lemma parse_free_sound [sound_at]: "M \<le> N \<Longrightarrow> sound any_tok no_gain M (parse_free R)"
  unfolding parse_free_def by (rule sound_at shared_sound parse_rules | (simp; fail))+

lemma parse_drop_sound [sound_at]: "M \<le> N \<Longrightarrow> sound any_tok no_gain M (parse_drop R s)"
  unfolding parse_drop_def by (rule sound_at shared_sound parse_rules | (simp; fail))+

lemma parse_return_sound [sound_at]: "M \<le> N \<Longrightarrow> sound any_tok no_gain M (parse_return R s)"
  unfolding parse_return_def by (rule sound_at shared_sound parse_rules | (simp; fail))+

lemma parse_jump_sound [sound_at]: "M \<le> N \<Longrightarrow> sound any_tok no_gain M (parse_jump s)"
  unfolding parse_jump_def by (rule sound_at shared_sound parse_rules | (simp; fail))+

lemma parse_recover_sound [sound_at]: "M \<le> N \<Longrightarrow> sound any_tok no_gain M (parse_recover R s)"
  unfolding parse_recover_def by (rule sound_at shared_sound parse_rules | (simp; fail))+

lemma parse_bounds_sound [sound_at]: "M \<le> N \<Longrightarrow> sound any_tok no_gain M (parse_bounds R)"
  unfolding parse_bounds_def by (rule sound_at shared_sound parse_rules | (simp; fail))+

lemma generic_param_sound [sound_at]: "M \<le> N \<Longrightarrow> sound any_tok no_gain M (generic_param R)"
  unfolding generic_param_def by (rule sound_at shared_sound parse_rules | (simp; fail))+

lemma parse_generic_params_sound [sound_at]: "M \<le> N \<Longrightarrow> sound any_tok no_gain M (parse_generic_params R)"
  unfolding parse_generic_params_def by (rule sound_at shared_sound parse_rules | (simp; fail))+

lemma optional_generics_sound [sound_at]: "M \<le> N \<Longrightarrow> sound any_tok no_gain M (optional_generics R)"
  unfolding optional_generics_def by (rule sound_at shared_sound parse_rules | (simp; fail))+

lemma named_param_sound [sound_at]: "M \<le> N \<Longrightarrow> sound any_tok no_gain M (named_param R e)"
  unfolding named_param_def by (rule sound_at shared_sound parse_rules | (simp; fail))+

end


lemma array_suffix_at: "is_array_suffix_ahead p \<Longrightarrow> at_tok p LBracket"
  by (simp add: is_array_suffix_ahead_def Let_def split: if_splits)

lemma sound_branch_suffix:
  "sound (one_of [Star, StarQuestion, LBracket]) Q N A \<Longrightarrow> sound K Q N B \<Longrightarrow>
   sound K Q N (branch (\<lambda>p. at_any p [Star, StarQuestion] \<or> is_array_suffix_ahead p \<or> (s \<and> at_tok p LBracket)) A B)"
  by (rule sound_branch_imp) (auto simp: at_any_def at_tok_def one_of_def dest!: array_suffix_at)

lemma sound_branch_drop:
  "sound (one_of [Eq]) Q N A \<Longrightarrow> sound K Q N B \<Longrightarrow> sound K Q N (branch (is_drop left) A B)"
  by (rule sound_branch_imp) (auto simp: is_drop_def at_tok_def one_of_def)

lemma sound_branch_assign:
  "sound (none_of [EndOfFile]) Q N A \<Longrightarrow> sound any_tok Q N B \<Longrightarrow>
   sound any_tok Q N (branch (\<lambda>p. is_assign_op (tok_kind (cur p))) A B)"
  by (auto simp: sound_def branch_def none_of_def any_tok_def is_assign_op_def)

lemma sound_branch_lambda:
  "sound (one_of [LParen]) Q N A \<Longrightarrow> sound K Q N B \<Longrightarrow> sound K Q N (branch is_lambda_ahead A B)"
  "sound (one_of [LParen]) Q N A \<Longrightarrow> sound K Q N B \<Longrightarrow> sound K Q N (branch is_scalar_cast_ahead A B)"
  by (rule sound_branch_imp;
      simp add: is_lambda_ahead_def is_scalar_cast_ahead_def at_tok_def one_of_def Let_def split: if_splits)+

lemma sound_branch_builtin:
  "sound (one_of [Name]) Q N A \<Longrightarrow> sound K Q N B \<Longrightarrow>
   sound K Q N (branch (\<lambda>p. at_type_builtin p 0 False \<or>
     (at_name p s \<and> tok_kind (peek p 1) = Dot \<and> at_type_builtin p 2 True)) A B)"
proof (rule sound_branch_imp)
  fix p assume p: "parser_ok p"
    and c: "at_type_builtin p 0 False \<or> (at_name p s \<and> tok_kind (peek p 1) = Dot \<and> at_type_builtin p 2 True)"
  have "peek p 0 = cur p" using p by (simp add: peek_def cur_def tok_count_def parser_ok_def Let_def)
  then show "one_of [Name] (tok_kind (cur p))"
    using c by (auto simp: at_type_builtin_def at_name_def one_of_def Let_def split: if_splits)
qed

lemma pointer_suffix_gain: "EndOfFile \<notin> set ks \<Longrightarrow> sound (one_of ks) all_gain N (pointer_suffix s v f)"
  unfolding pointer_suffix_def by (rule parse_rules | (simp; fail))+

subsection \<open>The recursive productions themselves\<close>

locale productions_below =
  fixes R :: parsers and N :: nat
  assumes below: "M < N \<Longrightarrow> productions_at R M"
begin

lemmas under = below[THEN productions_at.entries_below(1), OF _ order_refl]
  below[THEN productions_at.entries_below(2), OF _ order_refl]
  below[THEN productions_at.entries_below(3), OF _ order_refl]
  below[THEN productions_at.entries_below(4), OF _ order_refl]
  below[THEN productions_at.entries_below(5), OF _ order_refl]
  below[THEN productions_at.entries_below(6), OF _ order_refl]
  below[THEN productions_at.entries_below(7), OF _ order_refl]
  below[THEN productions_at.entries_below(8), OF _ order_refl]
  below[THEN productions_at.parse_arg_list_sound, OF _ order_refl]
  below[THEN productions_at.parse_type_args_sound, OF _ order_refl]
  below[THEN productions_at.function_type_sound, OF _ order_refl]
  below[THEN productions_at.paren_type_sound, OF _ order_refl]
  below[THEN productions_at.type_path_sound, OF _ order_refl]

lemma bracket_suffixes_gain: "sound (one_of [LBracket]) all_gain N (bracket_suffixes R s)"
  unfolding bracket_suffixes_def
  by (rule sound_repeat_gain under parse_rules | (simp; fail))+

lemma type_suffixes_sound: "sound any_tok no_gain N (type_suffixes R s x)"
  unfolding type_suffixes_def
  by (rule sound_branch_suffix sound_bind_gain[OF bracket_suffixes_gain] sound_bind_gain[OF pointer_suffix_gain]
      parse_rules | (simp; fail))+

lemma parse_primary_type_sound: "sound any_tok no_gain N (parse_primary_type R)"
  unfolding parse_primary_type_def named_type_def
  by (rule under parse_rules | (simp; fail))+

lemma wrap_eaten_here: "k \<noteq> EndOfFile \<Longrightarrow> sound any_tok no_gain N (wrap_eaten k f s v)"
  unfolding wrap_eaten_def by (rule parse_rules | assumption)+

lemma parse_type_sound: "sound any_tok no_gain N (parse_type R)"
  unfolding parse_type_def
  by (rule parse_primary_type_sound type_suffixes_sound type_qualifiers_sound wrap_eaten_here parse_rules | (simp; fail))+

end

end
