(* ===== verification/ParseTotal.thy ===== *)
theory ParseTotal
  imports ParseSound
begin

section \<open>The recursion of the parser ends\<close>

text \<open>
  The remaining productions keep the contract: those that recur without taking a token first, in
  the order of their ranks, and the declarations. \<open>productions_hold\<close> ties the knot: with fuel for
  eight calls per token left, every recursive production keeps the contract, so \<open>parse_tokens\<close>
  never runs out of fuel.
\<close>

lemma sound_forget: "sound K Q N m \<Longrightarrow> sound K no_gain N m"
  by (simp add: sound_def no_gain_def)

lemma some_node_sound: "sound K no_gain N m \<Longrightarrow> sound K no_gain N (some_node m)"
  unfolding some_node_def by (rule parse_rules | assumption)+

subsection \<open>Expressions\<close>

context productions_below
begin

lemmas under_expressions =
  below[THEN productions_at.parse_type_builtin_sound, OF _ order_refl]
  below[THEN productions_at.format_part_sound, OF _ order_refl]
  below[THEN productions_at.lambda_param_sound, OF _ order_refl]
  below[THEN productions_at.builtin_arguments_sound, OF _ order_refl]
  below[THEN productions_at.match_arm_sound, OF _ order_refl]
  below[THEN productions_at.new_body_sound, OF _ order_refl]
  below[THEN productions_at.close_slice_sound, OF _ order_refl]
  below[THEN productions_at.parse_subscript_sound, OF _ order_refl]
  below[THEN productions_at.parse_member_sound, OF _ order_refl]
  below[THEN productions_at.else_jump_sound, OF _ order_refl]

lemma parse_type_builtin_name: "sound (one_of [Name]) no_gain N (parse_type_builtin R)"
proof -
  have skip: "sound (one_of [Name]) no_gain N
      (branch (\<lambda>p. at_name p ''memory'') (do { take_tok; take_tok; give () }) (give ()))"
    by (rule parse_rules | (simp; fail))+
  show ?thesis
    unfolding parse_type_builtin_def
    by (rule sound_bind_keep[OF skip] under under_expressions parse_rules | (simp; fail))+
qed

lemma parse_arg_list_gain: "sound (one_of [LParen]) all_gain N (parse_arg_list R)"
  unfolding parse_arg_list_def parse_arg_def
  by (rule under comma_list_sound parse_rules | (simp; fail))+

lemma parse_type_args_gain: "sound (one_of [LBracket]) all_gain N (parse_type_args R)"
  unfolding parse_type_args_def
  by (rule under comma_list_sound parse_rules | (simp; fail))+

lemmas arg_lists_here = parse_arg_list_gain[THEN sound_forget] parse_type_args_gain[THEN sound_forget]

lemma parse_formatted_here: "sound (one_of [FormatStart]) no_gain N (parse_formatted R)"
  unfolding parse_formatted_def
  by (rule under under_expressions sound_branch_any_none parse_rules | (simp; fail))+

lemma parse_match_here: "sound (one_of [KwMatch]) no_gain N (parse_match R e)"
  unfolding parse_match_def
  by (rule under under_expressions indented_items_sound parse_rules | (simp; fail))+

lemma parse_primary_sound: "sound any_tok no_gain N (parse_primary R)"
  unfolding parse_primary_def parse_lambda_def parse_group_or_tuple_def parse_array_lit_def parse_new_def
  by (rule sound_branch_builtin parse_type_builtin_name sound_branch_lambda under under_expressions
      arg_lists_here parse_formatted_here parse_match_here comma_list_sound comma_list_opt_sound
      parse_literal_sound parse_rules | (simp; fail))+

lemma parse_standard_call_gain: "sound (one_of [Dot]) is_some N (parse_standard_call R v s)"
  unfolding parse_standard_call_def
  by (rule under parse_rules | (simp; fail))+

lemma parse_call_gain: "sound (one_of [LParen]) all_gain N (parse_call R v s)"
  unfolding parse_call_def by (rule sound_bind_gain[OF parse_arg_list_gain] parse_rules | (simp; fail))+

lemma parse_generic_call_gain: "sound (one_of [LBracket]) all_gain N (parse_generic_call R v s)"
  unfolding parse_generic_call_def
  by (rule sound_bind_gain[OF parse_type_args_gain] under parse_rules | (simp; fail))+

lemma expr_as_type_still: "sound K no_gain N (expr_as_type v)"
  unfolding expr_as_type_def by (rule parse_rules | (simp; fail))+

lemma parse_span_make_gain: "sound (one_of [LBracket]) all_gain N (parse_span_make R v s)"
  unfolding parse_span_make_def
  by (rule sound_bind_keep[OF expr_as_type_still] under parse_rules | (simp; fail))+

lemma postfix_link_gain: "sound any_tok is_some N (postfix_link R v s)"
proof -
  have standard: "sound any_tok is_some N
      (branch (\<lambda>p. at_tok p Dot \<and> C p) (parse_standard_call R v s) (give None))" for C
    by (rule parse_standard_call_gain parse_rules)+
  show ?thesis
    unfolding postfix_link_def
    by (rule sound_bind_some[OF standard] under under_expressions sound_bind_gain[OF parse_call_gain]
        sound_bind_gain[OF parse_generic_call_gain] sound_bind_gain[OF parse_span_make_gain] parse_rules
        | (simp; fail))+
qed

lemma parse_postfix_sound: "sound any_tok no_gain N (parse_postfix R)"
  unfolding parse_postfix_def
  by (rule parse_primary_sound sound_bind_some[OF postfix_link_gain] parse_rules | (simp; fail))+

lemma parse_unary_sound: "sound any_tok no_gain N (parse_unary R)"
  unfolding parse_unary_def
  by (rule sound_branch_lambda parse_postfix_sound under parse_rules | (simp; fail))+

lemma binary_step_sound: "sound any_tok goes_on N (binary_step R k x)"
proof -
  have eof: "prec_of EndOfFile = 0" by (simp add: prec_of_def)
  show ?thesis
    unfolding binary_step_def
    by (rule sound_reads_kind sound_bind_keep[OF sound_cases(1)] under parse_rules | (simp add: eof; fail) | (force simp: eof; fail))+
qed

lemma parse_binary_rest_sound: "sound any_tok no_gain N (parse_binary_rest R left k)"
  unfolding parse_binary_rest_def by (rule binary_step_sound parse_rules)+

lemma parse_binary_sound:
  "sound any_tok no_gain N (p_unary R) \<Longrightarrow> sound any_tok no_gain N (parse_binary R k)"
  unfolding parse_binary_def by (rule parse_binary_rest_sound parse_rules | assumption)+

lemma rests_sound:
  "sound any_tok no_gain N (parse_conditional_rest R n)"
  "sound any_tok no_gain N (parse_catch R n)"
  unfolding parse_conditional_rest_def parse_catch_def
  by (rule under parse_rules | (simp; fail))+

lemma parse_else_rest_sound: "sound any_tok no_gain N (parse_else_rest R n)"
  unfolding parse_else_rest_def
  by (rule under under_expressions parse_rules | (simp; fail))+

lemma parse_conditional_sound:
  "sound any_tok no_gain N (p_binary R 1) \<Longrightarrow> sound any_tok no_gain N (parse_conditional R)"
  unfolding parse_conditional_def by (rule rests_sound parse_rules | assumption)+

lemma parse_else_expr_sound:
  "sound any_tok no_gain N (p_binary R 1) \<Longrightarrow> sound any_tok no_gain N (parse_else_expr R)"
  unfolding parse_else_expr_def
  by (assumption | rule parse_conditional_sound parse_else_rest_sound under parse_rules | (simp; fail))+

lemma parse_expression_sound:
  "sound any_tok no_gain N (p_else_expr R) \<Longrightarrow> sound any_tok no_gain N (parse_expression R)"
  unfolding parse_expression_def by (rule rests_sound parse_rules | assumption | (simp; fail))+

lemma finish_expression_sound: "sound any_tok no_gain N (finish_expression R u)"
  unfolding finish_expression_def
  by (rule rests_sound parse_else_rest_sound parse_binary_rest_sound parse_rules)+

end

subsection \<open>Statements\<close>

context productions_below
begin

lemmas under_statements =
  below[THEN productions_at.loop_target_sound, OF _ order_refl]
  below[THEN productions_at.parse_condition_sound, OF _ order_refl]
  below[THEN productions_at.binding_target_sound, OF _ order_refl]
  below[THEN productions_at.parse_if_sound, OF _ order_refl]
  below[THEN productions_at.parse_while_sound, OF _ order_refl]
  below[THEN productions_at.parse_for_sound, OF _ order_refl]
  below[THEN productions_at.parse_free_sound, OF _ order_refl]
  below[THEN productions_at.parse_drop_sound, OF _ order_refl]
  below[THEN productions_at.asm_operand_sound, OF _ order_refl]

lemma conditional_suite_gain: "EndOfFile \<notin> set ks \<Longrightarrow> sound (one_of ks) all_gain N (conditional_suite R kind)"
  unfolding conditional_suite_def
  by (rule under under_statements parse_rules | assumption | (simp; fail))+

lemma parse_if_here: "sound (one_of [KwIf]) no_gain N (parse_if R)"
proof -
  have elif: "sound (one_of [KwElif]) all_gain M (conditional_suite R NIf)" if "M < N" for M
    using below[OF that] by (rule productions_at.conditional_suite_gain) simp_all
  show ?thesis
    unfolding parse_if_def
    by (rule sound_bind_gain[OF conditional_suite_gain] sound_bind_gain[OF elif] under parse_rules | (simp; fail))+
qed

lemma parse_while_here: "sound (one_of [KwWhile]) no_gain N (parse_while R)"
  unfolding parse_while_def
  by (rule sound_bind_gain[OF conditional_suite_gain] parse_rules | (simp; fail))+

lemma takers_here:
  "EndOfFile \<notin> set ks \<Longrightarrow> sound (one_of ks) no_gain N (parse_for R)"
  "EndOfFile \<notin> set ks \<Longrightarrow> sound (one_of ks) no_gain N (parse_with R)"
  "EndOfFile \<notin> set ks \<Longrightarrow> sound (one_of ks) no_gain N (parse_asm R)"
  "EndOfFile \<notin> set ks \<Longrightarrow> sound (one_of ks) no_gain N (labelled_loop R)"
  "EndOfFile \<notin> set ks \<Longrightarrow> sound (one_of ks) no_gain N (parse_free R)"
  "EndOfFile \<notin> set ks \<Longrightarrow> sound (one_of ks) no_gain N (parse_drop R s)"
  "EndOfFile \<notin> set ks \<Longrightarrow> sound (one_of ks) no_gain N (parse_return R s)"
  "EndOfFile \<notin> set ks \<Longrightarrow> sound (one_of ks) no_gain N (parse_jump s)"
  "EndOfFile \<notin> set ks \<Longrightarrow> sound (one_of ks) no_gain N (parse_recover R s)"
  "EndOfFile \<notin> set ks \<Longrightarrow> sound (one_of ks) no_gain N (parse_binding R)"
  unfolding parse_for_def parse_with_def parse_asm_def labelled_loop_def parse_free_def parse_drop_def
    parse_return_def parse_jump_def parse_recover_def parse_binding_def
  by (rule under under_statements comma_list_opt_sound asm_lines_sound parse_rules | (simp; fail))+

lemma parse_expr_stmt_sound:
  assumes "sound any_tok no_gain N (p_unary R)"
  shows "sound any_tok no_gain N (parse_expr_stmt R s)"
  unfolding parse_expr_stmt_def
  by (rule assms sound_branch_drop sound_branch_assign takers_here finish_expression_sound under parse_rules | (simp; fail))+

lemma finish_under: "M < N \<Longrightarrow> sound any_tok no_gain M (finish_expression R u)"
proof -
  assume "M < N"
  then have "productions_below R M" by (intro productions_below.intro below) simp
  then show ?thesis by (rule productions_below.finish_expression_sound)
qed

lemma defer_end_under: "M < N \<Longrightarrow> sound any_tok no_gain M (defer_end R s n l)"
  unfolding defer_end_def by (rule under parse_rules | (simp; fail))+

lemma parse_defer_here: "EndOfFile \<notin> set ks \<Longrightarrow> sound (one_of ks) no_gain N (parse_defer R s)"
  unfolding parse_defer_def defer_assign_def
  by (rule sound_branch_drop sound_branch_assign under under_statements finish_under defer_end_under parse_rules
      | (simp; fail))+

lemma parse_simple_stmt_sound:
  assumes "sound any_tok no_gain N (p_unary R)"
  shows "sound any_tok no_gain N (parse_simple_stmt R)"
  unfolding parse_simple_stmt_def
  by (rule some_node_sound takers_here parse_defer_here parse_expr_stmt_sound[OF assms] sync_line_sound parse_rules
      | (simp; fail))+

lemma parse_statement_sound:
  assumes "sound any_tok no_gain N (p_unary R)"
  shows "sound any_tok no_gain N (parse_statement R)"
  unfolding parse_statement_def
  by (rule some_node_sound parse_if_here parse_while_here takers_here parse_match_here
      parse_simple_stmt_sound[OF assms] parse_rules | (simp; fail))+

lemma suite_statements_under: "M < N \<Longrightarrow> sound any_tok no_gain M (suite_statements R)"
  unfolding suite_statements_def
  by (rule sound_branch_any_none sound_skip_docs_bind skip_docs_sound sound_bind_gain[OF sound_forced_gain]
      under parse_rules | (simp; fail))+

lemma parse_suite_sound:
  assumes "sound any_tok no_gain N (p_unary R)" "sound any_tok no_gain N (p_statement R)"
  shows "sound any_tok no_gain N (parse_suite R)"
  unfolding parse_suite_def
  by (rule assms parse_simple_stmt_sound suite_statements_under parse_rules | (simp; fail))+

end

subsection \<open>Tying the knot\<close>

lemma productions_hold:
  "(8 * N < n \<longrightarrow> sound any_tok no_gain N (p_type (parsers_at n))) \<and>
   (8 * N + 1 < n \<longrightarrow> sound any_tok no_gain N (p_unary (parsers_at n))) \<and>
   (8 * N + 2 < n \<longrightarrow> (\<forall>k. sound any_tok no_gain N (p_binary (parsers_at n) k))) \<and>
   (8 * N + 3 < n \<longrightarrow> sound any_tok no_gain N (p_conditional (parsers_at n))) \<and>
   (8 * N + 4 < n \<longrightarrow> sound any_tok no_gain N (p_else_expr (parsers_at n))) \<and>
   (8 * N + 5 < n \<longrightarrow> sound any_tok no_gain N (p_expression (parsers_at n))) \<and>
   (8 * N + 6 < n \<longrightarrow> sound any_tok no_gain N (p_statement (parsers_at n))) \<and>
   (8 * N + 7 < n \<longrightarrow> sound any_tok no_gain N (p_suite (parsers_at n)))"
proof (induction n arbitrary: N)
  case 0
  show ?case by simp
next
  case (Suc n)
  let ?R = "parsers_at n"
  have at: "productions_at ?R M" if "M < N" "8 * N < Suc n" for M
  proof -
    have "8 * M + 7 < n" using that by simp
    then show ?thesis using Suc.IH[of M] by (intro productions_at.intro) auto
  qed
  have below: "productions_below ?R N" if "8 * N < Suc n"
    using at that by (intro productions_below.intro) simp
  note IH = Suc.IH[of N]
  have "8 * N + 1 < Suc n \<longrightarrow> sound any_tok no_gain N (p_unary (parsers_at (Suc n)))"
    using productions_below.parse_unary_sound[OF below] by (simp add: Let_def)
  moreover have "8 * N < Suc n \<longrightarrow> sound any_tok no_gain N (p_type (parsers_at (Suc n)))"
    using productions_below.parse_type_sound[OF below] by (simp add: Let_def)
  moreover have "8 * N + 2 < Suc n \<longrightarrow> (\<forall>k. sound any_tok no_gain N (p_binary (parsers_at (Suc n)) k))"
    using productions_below.parse_binary_sound[OF below] IH by (simp add: Let_def)
  moreover have "8 * N + 3 < Suc n \<longrightarrow> sound any_tok no_gain N (p_conditional (parsers_at (Suc n)))"
    using productions_below.parse_conditional_sound[OF below] IH by (simp add: Let_def)
  moreover have "8 * N + 4 < Suc n \<longrightarrow> sound any_tok no_gain N (p_else_expr (parsers_at (Suc n)))"
    using productions_below.parse_else_expr_sound[OF below] IH by (simp add: Let_def)
  moreover have "8 * N + 5 < Suc n \<longrightarrow> sound any_tok no_gain N (p_expression (parsers_at (Suc n)))"
    using productions_below.parse_expression_sound[OF below] IH by (simp add: Let_def)
  moreover have "8 * N + 6 < Suc n \<longrightarrow> sound any_tok no_gain N (p_statement (parsers_at (Suc n)))"
    using productions_below.parse_statement_sound[OF below] IH by (simp add: Let_def)
  moreover have "8 * N + 7 < Suc n \<longrightarrow> sound any_tok no_gain N (p_suite (parsers_at (Suc n)))"
    using productions_below.parse_suite_sound[OF below] IH by (simp add: Let_def)
  ultimately show ?case by blast
qed

lemma productions_at_fuel: "8 * N + 7 < n \<Longrightarrow> productions_at (parsers_at n) N"
  using productions_hold[of N n] by (intro productions_at.intro) auto

lemma productions_below_fuel: "8 * N \<le> n \<Longrightarrow> productions_below (parsers_at n) N"
  by (intro productions_below.intro productions_at_fuel) simp

text \<open>The two contracts, on the record the code's recursion is.\<close>

interpretation recursion: productions_at "parsers_at (8 * N + 8)" N for N
  by (rule productions_at_fuel) simp

interpretation recursion_below: productions_below "parsers_at (8 * N)" N for N
  by (rule productions_below_fuel) simp

end
