(* ===== verification/ParseReturns.thy ===== *)
theory ParseReturns
  imports ParseTotal
begin

section \<open>The parser returns\<close>

text \<open>
  Declarations and modules keep the contract of \<open>ParseLaws\<close>; the module's loop leaves at the end of
  file only. \<open>parse_tokens_returns\<close>: on every stream that ends with the end of file the parser
  returns a module, having taken every token.
\<close>

subsection \<open>Rules for the loops of declarations\<close>

lemma sound_branch_at_none:
  "sound (one_of [k]) Q N A \<Longrightarrow> sound (none_of [k]) Q N B \<Longrightarrow> sound any_tok Q N (branch (\<lambda>p. at_tok p k) A B)"
  by (simp add: sound_def branch_def at_tok_def one_of_def none_of_def any_tok_def)

lemma sound_branch_member:
  "sound (one_of [KwStatic, KwFunc]) Q N A \<Longrightarrow> sound K Q N B \<Longrightarrow>
   sound K Q N (branch (\<lambda>p. at_tok p KwStatic \<or> (at_tok p KwFunc \<and> C p)) A B)"
  "sound (one_of [KwFunc, KwStatic, KwPub]) Q N A \<Longrightarrow> sound K Q N B \<Longrightarrow>
   sound K Q N (branch (\<lambda>p. at_any p [KwFunc, KwStatic] \<or> (at_tok p KwPub \<and> C p)) A B)"
  by (rule sound_branch_imp; auto simp: at_any_def at_tok_def one_of_def)+

lemma sound_none_mono: "sound (none_of ks) Q N m \<Longrightarrow> set ks \<subseteq> set ks' \<Longrightarrow> sound (none_of ks') Q N m"
  by (auto simp: sound_def none_of_def)

lemma sound_one_mono: "sound (one_of ks) Q N m \<Longrightarrow> set ks' \<subseteq> set ks \<Longrightarrow> sound (one_of ks') Q N m"
  by (auto simp: sound_def one_of_def)

lemma sync_line_gain': "{EndOfFile, Newline, Dedent} \<subseteq> set ks \<Longrightarrow> sound (none_of ks) all_gain N sync_line"
  by (rule sound_none_mono[OF sync_line_gain]) simp

lemma sound_eat_one_of:
  assumes k: "k \<noteq> EndOfFile" and t: "\<And>M. M < N \<Longrightarrow> sound any_tok no_gain M (f True)"
    and ks: "ks' = removeAll k ks" "sound (one_of ks') Q N (f False)"
  shows "sound (one_of ks) Q N (eat k \<bind> f)"
proof (rule soundI)
  fix p assume p: "parser_ok p" "tokens_left p \<le> N" "one_of ks (tok_kind (cur p))"
  show "goes p (snd (run_state (eat k \<bind> f) p)) \<and>
      (Q (fst (run_state (eat k \<bind> f) p)) \<longrightarrow> ps_pos p < ps_pos (snd (run_state (eat k \<bind> f) p)))"
  proof (cases "at_tok p k")
    case False
    then show ?thesis using soundD[OF ks(2) p(1,2)] p(3) ks(1)
      by (simp add: run_eat one_of_def at_tok_def)
  next
    case True
    have "sound (one_of [k]) Q N (take_tok \<bind> (\<lambda>_. f True))"
      by (rule sound_take_bind) (simp_all add: k[symmetric] t)
    from soundD[OF this p(1,2)] True show ?thesis
      by (simp add: run_eat at_tok_def one_of_def)
  qed
qed

lemma plain_items_sound:
  assumes item: "sound any_tok no_gain N item" "sound (none_of [DocComment, Newline, Dedent, EndOfFile]) all_gain N item"
  shows "sound K no_gain N (plain_items item)"
proof -
  have le: "M \<le> N \<Longrightarrow> sound any_tok no_gain M item" for M using item(1) by (rule sound_mono)
  show ?thesis
    unfolding plain_items_def
    by (rule sound_repeat sound_branch_any_none sound_skip_docs_bind skip_docs_sound
        sound_bind_gain[OF item(2)] le parse_rules | (simp; fail))+
qed

subsection \<open>\<open>weak\<close>\<close>

lemma peek_past: "parser_ok p \<Longrightarrow> tok_count p \<le> ps_pos p + i \<Longrightarrow> tok_kind (peek p (int i)) = EndOfFile"
  by (auto simp: peek_def parser_ok_def tok_count_def Let_def last_conv_nth)

lemma weak_ahead_returns:
  "parser_ok p \<Longrightarrow> 0 < fuel \<Longrightarrow> tok_count p < fuel + ps_pos p + i \<Longrightarrow> weak_ahead fuel p i \<noteq> None"
proof (induction fuel arbitrary: i)
  case 0
  then show ?case by simp
next
  case (Suc fuel)
  show ?case
  proof (cases "tok_count p \<le> ps_pos p + i")
    case True
    then show ?thesis using peek_past[OF Suc.prems(1) True] by (simp add: Let_def)
  next
    case False
    then show ?thesis using Suc.IH[OF Suc.prems(1), of "i + 1"] Suc.IH[OF Suc.prems(1), of "i + 4"] Suc.prems(3)
      by (simp add: Let_def)
  qed
qed

lemma weak_returns: "parser_ok p \<Longrightarrow> weak_is_attribute p \<noteq> None"
  unfolding weak_is_attribute_def by (rule weak_ahead_returns) simp_all

lemma sound_reads_weak:
  assumes "\<And>b. sound K Q N (f (Some b))"
  shows "sound K Q N (reads (\<lambda>p. if at_name p s then weak_is_attribute p else Some True) \<bind> f)"
  using assms weak_returns by (fastforce simp: sound_def)

subsection \<open>Declarations\<close>

lemmas member_rules = sound_branch_member sound_bind_gain[OF sync_line_gain']
  sound_bind_keep[OF sound_fail] sound_bind_keep[OF parse_attributes_sound]

context productions_at
begin

lemma param_step_sound [sound_at]: "M \<le> N \<Longrightarrow> sound any_tok goes_on M (param_step R e ps)"
  unfolding param_step_def by (rule sound_at parse_rules | (simp; fail))+

lemma parse_params_sound [sound_at]: "M \<le> N \<Longrightarrow> sound any_tok no_gain M (parse_params R e)"
  unfolding parse_params_def by (rule sound_at parse_rules | (simp; fail))+

lemma result_type_sound [sound_at]: "M \<le> N \<Longrightarrow> sound any_tok no_gain M (result_type R u)"
  unfolding result_type_def by (rule sound_at parse_rules | (simp; fail))+

lemma parse_func_sound [sound_at]: "M \<le> N \<Longrightarrow> sound any_tok no_gain M (parse_func R f)"
  unfolding parse_func_def by (rule sound_at shared_sound parse_rules | (simp; fail))+

lemma parse_func_gain: "M \<le> N \<Longrightarrow> sound (one_of [KwStatic, KwFunc]) all_gain M (parse_func R f)"
  unfolding parse_func_def
  by (rule sound_eat_one_of member_rules sound_at shared_sound parse_rules | (simp; fail))+

lemma type_member_parts [sound_at]:
  "M \<le> N \<Longrightarrow> sound any_tok no_gain M (parse_align R)"
  "M \<le> N \<Longrightarrow> sound any_tok no_gain M (parse_conformance R)"
  "M \<le> N \<Longrightarrow> sound any_tok no_gain M (parse_field R f a)"
  unfolding parse_align_def parse_conformance_def parse_field_def
  by (rule sound_at shared_sound parse_rules | (simp; fail))+

lemma parse_type_member_sound [sound_at]: "M \<le> N \<Longrightarrow> sound any_tok no_gain M (parse_type_member R e)"
  unfolding parse_type_member_def by (rule sound_at shared_sound parse_rules | (simp; fail))+

lemma extend_member_sound [sound_at]: "M \<le> N \<Longrightarrow> sound any_tok no_gain M (extend_member R)"
  unfolding extend_member_def by (rule sound_at shared_sound parse_rules | (simp; fail))+

lemma interface_member_sound [sound_at]: "M \<le> N \<Longrightarrow> sound any_tok no_gain M (interface_member R)"
  unfolding interface_member_def by (rule sound_at shared_sound parse_rules | (simp; fail))+

lemma enum_member_sound [sound_at]: "M \<le> N \<Longrightarrow> sound any_tok no_gain M (enum_member R)"
  unfolding enum_member_def by (rule sound_at shared_sound parse_rules | (simp; fail))+

lemma union_member_sound [sound_at]: "M \<le> N \<Longrightarrow> sound any_tok no_gain M (union_member R)"
  unfolding union_member_def by (rule sound_at shared_sound parse_rules | (simp; fail))+

lemma enum_member_gain:
  "M \<le> N \<Longrightarrow> sound (none_of [DocComment, Newline, Dedent, EndOfFile]) all_gain M (enum_member R)"
  unfolding enum_member_def
  by (rule member_rules sound_bind_gain[OF parse_func_gain] sound_at shared_sound parse_rules | (simp; fail))+

lemma union_member_gain:
  "M \<le> N \<Longrightarrow> sound (none_of [DocComment, Newline, Dedent, EndOfFile]) all_gain M (union_member R)"
  unfolding union_member_def
  by (rule sound_eat_one_of member_rules sound_bind_gain[OF sound_one_mono[OF parse_func_gain]] sound_at shared_sound
      parse_rules | (simp; fail))+

lemma bodies_sound [sound_at]:
  "M \<le> N \<Longrightarrow> sound any_tok no_gain M (plain_items (enum_member R))"
  "M \<le> N \<Longrightarrow> sound any_tok no_gain M (plain_items (union_member R))"
  by (rule plain_items_sound enum_member_sound union_member_sound enum_member_gain union_member_gain | assumption)+

lemma type_declarations_sound [sound_at]:
  "M \<le> N \<Longrightarrow> sound any_tok no_gain M (parse_struct R f e)"
  "M \<le> N \<Longrightarrow> sound any_tok no_gain M (parse_extend R)"
  "M \<le> N \<Longrightarrow> sound any_tok no_gain M (parse_enum R f)"
  "M \<le> N \<Longrightarrow> sound any_tok no_gain M (parse_union R f)"
  "M \<le> N \<Longrightarrow> sound any_tok no_gain M (parse_interface R f)"
  unfolding parse_struct_def parse_extend_def parse_enum_def parse_union_def parse_interface_def
  by (rule sound_at shared_sound parse_rules | (simp; fail))+

lemma value_declarations_sound [sound_at]:
  "M \<le> N \<Longrightarrow> sound any_tok no_gain M (parse_const R f)"
  "M \<le> N \<Longrightarrow> sound any_tok no_gain M (parse_global R f)"
  "M \<le> N \<Longrightarrow> sound any_tok no_gain M (parse_type_alias R f)"
  "M \<le> N \<Longrightarrow> sound any_tok no_gain M (parse_test R)"
  "M \<le> N \<Longrightarrow> sound any_tok no_gain M (parse_assert R)"
  unfolding parse_const_def parse_global_def parse_type_alias_def parse_test_def parse_assert_def
  by (rule sound_at shared_sound parse_rules | (simp; fail))+

lemma extern_parts_sound [sound_at]:
  "M \<le> N \<Longrightarrow> sound any_tok no_gain M (extern_type R f s)"
  "M \<le> N \<Longrightarrow> sound any_tok no_gain M (extern_var R f s)"
  "M \<le> N \<Longrightarrow> sound any_tok no_gain M (extern_func R f s)"
  unfolding extern_type_def extern_var_def extern_func_def
  by (rule sound_at shared_sound parse_rules | (simp; fail))+

lemma parse_extern_sound [sound_at]: "M \<le> N \<Longrightarrow> sound any_tok no_gain M (parse_extern R f)"
  unfolding parse_extern_def by (rule sound_at shared_sound parse_rules | (simp; fail))+

lemma parse_declared_sound [sound_at]: "M \<le> N \<Longrightarrow> sound any_tok no_gain M (parse_declared R f a)"
  unfolding parse_declared_def by (rule some_node_sound sound_at shared_sound parse_rules | (simp; fail))+

lemma parse_top_sound [sound_at]: "M \<le> N \<Longrightarrow> sound any_tok no_gain M (parse_top R)"
  unfolding parse_top_def
  by (rule sound_reads_weak some_node_sound sound_at shared_sound parse_rules | (simp; fail))+

lemma module_item_sound: "M \<le> N \<Longrightarrow> sound any_tok goes_on M (module_item R ds)"
  unfolding module_item_def
  by (rule sound_branch_at_none sound_bind_gain[OF parse_import_gain] sound_bind_gain[OF sound_forced_gain]
      sound_at shared_sound parse_rules | (simp; fail))+

end

subsection \<open>Modules\<close>

lemma merge_extensions_sound: "sound K no_gain N (merge_extensions kept ds)"
proof (induction kept ds arbitrary: K rule: merge_extensions.induct)
  case (1 kept)
  show ?case by (simp add: sound_give)
next
  case (2 kept d rest)
  show ?case
    by (simp only: merge_extensions.simps)
      (rule sound_cases 2 sound_bind sound_fail_at | assumption | (simp; fail))+
qed

text \<open>A loop ends in a state its body stops in.\<close>

lemma loop_ends:
  assumes body: "\<And>a. sound any_tok goes_on N (body a)"
    and stop: "\<And>a p. parser_ok p \<Longrightarrow> \<not> snd (fst (run_state (body a) p)) \<Longrightarrow> P (snd (run_state (body a) p))"
  shows "parser_ok p \<Longrightarrow> tokens_left p \<le> N \<Longrightarrow> tokens_left p < fuel \<Longrightarrow> P (snd (run_state (loop fuel body a) p))"
proof (induction fuel arbitrary: p a)
  case 0
  then show ?case by simp
next
  case (Suc fuel)
  define r q where "r = fst (run_state (body a) p)" and "q = snd (run_state (body a) p)"
  have q: "goes p q" "snd r \<Longrightarrow> ps_pos p < ps_pos q"
    using soundD[OF body Suc.prems(1,2), of a] by (simp_all add: q_def r_def any_tok_def goes_on_def)
  have run: "run_state (loop (Suc fuel) body a) p =
      (if snd r then run_state (loop fuel body (fst r)) q else (fst r, q))"
    by (simp add: r_def[symmetric] q_def[symmetric])
  show ?case
  proof (cases "snd r")
    case True
    have "tokens_left q < tokens_left p" using goes_left_less[OF q(1) Suc.prems(1)] q(2) True by simp
    then have "P (snd (run_state (loop fuel body (fst r)) q))"
      using Suc.IH[OF goes_ok[OF q(1) Suc.prems(1)]] Suc.prems by simp
    then show ?thesis using True by (simp only: run) simp
  next
    case False
    then show ?thesis using stop[OF Suc.prems(1), of a] by (simp only: run) (simp add: r_def q_def)
  qed
qed

lemma repeat_ends:
  assumes body: "\<And>a. sound any_tok goes_on N (body a)"
    and stop: "\<And>a p. parser_ok p \<Longrightarrow> \<not> snd (fst (run_state (body a) p)) \<Longrightarrow> P (snd (run_state (body a) p))"
    and p: "parser_ok p" "tokens_left p \<le> N"
  shows "P (snd (run_state (repeat body a) p))"
proof -
  have "tokens_left p < length (ps_tokens p) + 1" by (simp add: tokens_left_def)
  from loop_ends[where body = body and P = P and a = a, OF body stop p this] show ?thesis
    by (simp add: repeat_def del: loop.simps)
qed

lemma module_item_stops:
  "\<not> snd (fst (run_state (module_item R a) p)) \<Longrightarrow> at_tok (snd (run_state (module_item R a) p)) EndOfFile"
  by (simp add: module_item_def branch_def split: if_splits)

lemma cur_frame: "ps_pos q = ps_pos p \<Longrightarrow> ps_tokens q = ps_tokens p \<Longrightarrow> cur q = cur p"
  by (simp add: cur_def tok_count_def)

lemma merge_extensions_pos: "ps_pos (snd (run_state (merge_extensions kept ds) p)) = ps_pos p \<and>
    ps_tokens (snd (run_state (merge_extensions kept ds) p)) = ps_tokens p"
  by (induction kept ds arbitrary: p rule: merge_extensions.induct)
    (auto simp: fail_at_def report_def split: option.splits)


context productions_at
begin

lemma parse_module_sound: "M \<le> N \<Longrightarrow> sound any_tok no_gain M (parse_module R)"
  unfolding parse_module_def
  by (rule module_item_sound merge_extensions_sound sound_at shared_sound parse_rules | (simp; fail))+

text \<open>The module's loop takes every token.\<close>

lemma parse_module_ends:
  assumes "parser_ok p" "tokens_left p \<le> N"
  shows "at_tok (snd (run_state (parse_module R) p)) EndOfFile"
proof -
  let ?q = "snd (run_state (repeat (module_item R) []) p)"
  have "at_tok ?q EndOfFile"
    by (rule repeat_ends[where P = "\<lambda>q. at_tok q EndOfFile", OF module_item_sound _ assms])
      (simp_all add: module_item_stops)
  then have "at_tok (snd (run_state (merge_extensions [] ds) ?q)) EndOfFile" for ds
    using merge_extensions_pos[of "[]" ds ?q] cur_frame[of "snd (run_state (merge_extensions [] ds) ?q)" ?q]
    by (simp add: at_tok_def)
  then show ?thesis by (simp add: parse_module_def)
qed

end


lemma start_parser_ok:
  "toks \<noteq> [] \<Longrightarrow> tok_kind (last toks) = EndOfFile \<Longrightarrow>
   parser_ok ((start_parser src toks bag)\<lparr>ps_layout := b\<rparr>)"
  by (simp add: parser_ok_def start_parser_def)

text \<open>On a stream that ends with the end of file the fuel \<open>parse_depth\<close> gives is never used up.\<close>

lemma parse_tokens_cases:
  assumes toks: "toks \<noteq> []" "tok_kind (last toks) = EndOfFile"
  obtains m p where "parse_tokens src toks bag =
      Some (\<lparr>res_module = Some m, res_ok = bag_empty (ps_diags p)\<rparr>, ps_diags p)"
    "bag_extends bag (ps_diags p)" "at_tok p EndOfFile" "ps_nest p = 0" "ps_tokens p = toks"
proof -
  let ?R = "parsers_at (parse_depth toks)"
  define s where "s = (start_parser src toks bag)\<lparr>ps_layout := layout_scan toks 0\<rparr>"
  have ok: "parser_ok s" using toks by (simp add: s_def start_parser_ok)
  have left: "tokens_left s \<le> length toks" by (simp add: s_def tokens_left_def start_parser_def)
  define m p where "m = fst (run_state (parse_module ?R) s)" and "p = snd (run_state (parse_module ?R) s)"
  have R: "productions_at ?R (length toks)" by (rule productions_at_fuel) (simp add: parse_depth_def)
  have go: "goes s p"
    using soundD[OF productions_at.parse_module_sound[OF R order_refl] ok left] by (simp add: p_def any_tok_def)
  have eof: "at_tok p EndOfFile"
    using productions_at.parse_module_ends[OF R ok left] by (simp add: p_def)
  have stuck: "\<not> ps_stuck p" using go by (simp add: goes_def s_def start_parser_def)
  have run: "run_state (do { scan_layout_imports; parse_module ?R }) (start_parser src toks bag) = (m, p)"
    by (simp add: scan_layout_imports_def modify_def m_def p_def s_def start_parser_def)
  have "parse_tokens src toks bag = Some (\<lparr>res_module = Some (if src_directives src \<noteq> [] \<or> src_segments src \<noteq> []
      then set_directives (module_directives src) m else m), res_ok = bag_empty (ps_diags p)\<rparr>, ps_diags p)"
    using stuck toks by (simp add: parse_tokens_def run del: run_bind)
  then show thesis
    by (rule that) (use go eof in \<open>simp_all add: goes_def s_def start_parser_def\<close>)
qed

subsection \<open>Property\<close>

text \<open>
  C4: the parser returns a module on every token stream that ends with the end of file, however
  malformed: its recursive descent never runs deeper than the stream is long, each of its loops
  ends, and it only adds diagnostics to those it was given.
\<close>

theorem parse_tokens_returns:
  assumes "toks \<noteq> []" "tok_kind (last toks) = EndOfFile"
  shows "\<exists>m bag'. parse_tokens src toks bag = Some (\<lparr>res_module = Some m, res_ok = bag_empty bag'\<rparr>, bag') \<and>
    bag_extends bag bag'"
  by (rule parse_tokens_cases[OF assms, of src bag]) blast

lemma parse_tokens_returns_witness:
  "\<exists>m bag'. parse_tokens (fst (from_bytes ''m'' ''x'' empty_bag))
       [\<lparr>tok_kind = RParen, tok_span = default_span, tok_text = '')'', tok_suffix = []\<rparr>,
        \<lparr>tok_kind = EndOfFile, tok_span = default_span, tok_text = [], tok_suffix = []\<rparr>] empty_bag =
     Some (\<lparr>res_module = Some m, res_ok = bag_empty bag'\<rparr>, bag') \<and> bag_extends empty_bag bag'"
  by (rule parse_tokens_returns) simp_all

end
