(* ===== verification/Driver.thy ===== *)
theory Driver
  imports LexRun ParseReturns
begin

section \<open>The front end's commands\<close>

text \<open>
  \<open>lucb lex\<close> and \<open>lucb dump\<close> of \<open>main.cpp\<close>: a file is loaded, tokenized and parsed. The bytes
  a path holds are an argument, \<open>None\<close> where the file cannot be opened; what a command writes to
  its two streams and its exit status are its result.
\<close>

record command_result =
  out_text :: string
  err_text :: string
  exit_status :: nat

definition print_diagnostics :: "bool \<Rightarrow> diagnostic_bag \<Rightarrow> command_result" where
  "print_diagnostics show_warnings bag =
     \<lparr>out_text = [],
      err_text = concat (map (\<lambda>d. diagnostic_format d @ [lf]) (items bag)) @
        (if show_warnings then concat (map (\<lambda>d. diagnostic_format d @ [lf]) (warnings bag)) else []),
      exit_status = (if bag_empty bag then 0 else 1)\<rparr>"

datatype load_result =
  Unopened string
| Refused diagnostic_bag
| Lexed source "token list" diagnostic_bag

definition load_and_lex :: "(string \<Rightarrow> bytes option) \<Rightarrow> string \<Rightarrow> load_result option" where
  "load_and_lex read_file path =
     (case read_file path of
        None \<Rightarrow> Some (Unopened (''cannot open '' @ path))
      | Some s \<Rightarrow>
          let (src, bag) = from_bytes path s empty_bag
          in if \<not> src_ok src then Some (Refused bag)
             else (case tokenize src bag of
                     None \<Rightarrow> None
                   | Some (toks, bag) \<Rightarrow>
                       Some (if bag_empty bag then Lexed src toks bag else Refused bag)))"

definition cmd_dump :: "bool \<Rightarrow> (string \<Rightarrow> bytes option) \<Rightarrow> string \<Rightarrow> command_result option" where
  "cmd_dump show_warnings read_file path =
     (case load_and_lex read_file path of
        None \<Rightarrow> None
      | Some (Unopened message) \<Rightarrow>
          Some ((print_diagnostics show_warnings empty_bag)
            \<lparr>err_text := message @ [lf] @ err_text (print_diagnostics show_warnings empty_bag)\<rparr>)
      | Some (Refused bag) \<Rightarrow> Some (print_diagnostics show_warnings bag)
      | Some (Lexed src toks bag) \<Rightarrow>
          (case parse_tokens src toks bag of
             None \<Rightarrow> None
           | Some (parsed, bag) \<Rightarrow>
               Some ((print_diagnostics show_warnings bag)
                 \<lparr>out_text := (case res_module parsed of None \<Rightarrow> [] | Some m \<Rightarrow> dump_tree m @ [lf])\<rparr>)))"

subsection \<open>Composition\<close>

lemma not_ok_not_empty:
  "\<not> src_ok (fst (from_bytes path s bag)) \<Longrightarrow> \<not> bag_empty (snd (from_bytes path s bag))"
  using from_bytes_bag(2)[of path s bag] by (auto simp: bag_count_def bag_empty_def)

lemma bag_empty_count: "bag_empty b \<longleftrightarrow> bag_count b = 0"
  by (simp add: bag_empty_def bag_count_def)

lemma load_and_lex_cases:
  obtains message where "read_file path = None" "load_and_lex read_file path = Some (Unopened message)"
  | s bag where "read_file path = Some s" "load_and_lex read_file path = Some (Refused bag)" "\<not> bag_empty bag"
  | s toks bag where "read_file path = Some s" "src_ok (fst (from_bytes path s empty_bag))"
      "load_and_lex read_file path = Some (Lexed (fst (from_bytes path s empty_bag)) toks bag)"
      "stream_ok 0 s toks bag" "bag_empty bag"
proof (cases "read_file path")
  case None
  then show thesis by (intro that(1)) (auto simp: load_and_lex_def)
next
  case (Some s)
  define src where "src = fst (from_bytes path s empty_bag)"
  define bag where "bag = snd (from_bytes path s empty_bag)"
  have fb: "from_bytes path s empty_bag = (src, bag)" by (simp add: src_def bag_def)
  show thesis
  proof (cases "src_ok src")
    case False
    then show thesis
      using not_ok_not_empty[of path s empty_bag] that(2)[OF Some, of bag] Some fb
      by (simp add: load_and_lex_def)
  next
    case True
    then have "bag = empty_bag" using from_bytes_bag(1)[of path s empty_bag] fb by simp
    obtain toks bag' where t: "tokenize src bag = Some (toks, bag')" "stream_ok (bag_count bag) s toks bag'"
      using tokenize_cases[of path s empty_bag bag] fb by auto
    have c: "bag_count bag = 0" using \<open>bag = empty_bag\<close> by (simp add: empty_bag_def bag_count_def)
    show thesis
    proof (cases "bag_empty bag'")
      case False
      then show thesis using that(2)[OF Some, of bag'] Some fb t True by (simp add: load_and_lex_def)
    next
      case empty: True
      then show thesis using that(3)[OF Some, of toks bag'] Some fb t True c by (simp add: load_and_lex_def)
    qed
  qed
qed

text \<open>What a clean run of the front end shows of the text.\<close>

definition well_formed_text :: "string \<Rightarrow> bytes \<Rightarrow> bool" where
  "well_formed_text path s =
     (src_ok (fst (from_bytes path s empty_bag)) \<and>
      (case tokenize (fst (from_bytes path s empty_bag)) empty_bag of
         None \<Rightarrow> False
       | Some (toks, bag) \<Rightarrow> bag_empty bag \<and> layout_depth toks = Some 0 \<and> bracket_stack toks = Some [] \<and>
           list_all (token_fits s) toks))"

lemma print_status: "exit_status (print_diagnostics w bag) = (if bag_empty bag then 0 else 1)"
  by (simp add: print_diagnostics_def)

lemma print_text: "\<not> bag_empty bag \<Longrightarrow> err_text (print_diagnostics w bag) \<noteq> []"
  by (cases "items bag") (simp_all add: print_diagnostics_def bag_empty_def)

lemma lexed_well_formed:
  assumes "src_ok (fst (from_bytes path s empty_bag))" "read_file path = Some s" "stream_ok 0 s toks bag"
    "bag_empty bag" "load_and_lex read_file path = Some (Lexed (fst (from_bytes path s empty_bag)) toks bag)"
  shows "well_formed_text path s"
proof -
  have "tokenize (fst (from_bytes path s empty_bag)) empty_bag = Some (toks, bag)"
    using assms(1,2,5) from_bytes_bag(1)[OF assms(1)]
    by (auto simp: load_and_lex_def split: option.splits prod.splits if_splits)
  then show ?thesis
    using assms(1,3,4) by (auto simp: well_formed_text_def stream_ok_def bag_empty_count list_all_iff)
qed

lemma stream_ends: "stream_ok n s toks bag \<Longrightarrow> toks \<noteq> [] \<and> tok_kind (last toks) = EndOfFile"
  by (auto simp: stream_ok_def)

lemma parse_tokens_some:
  assumes "toks \<noteq> []" "tok_kind (last toks) = EndOfFile"
  shows "\<exists>m bag'. parse_tokens src toks bag = Some (\<lparr>res_module = Some m, res_ok = bag_empty bag'\<rparr>, bag')"
  by (rule parse_tokens_cases[OF assms, of src bag]) blast

subsection \<open>Property\<close>

text \<open>
  C5: \<open>lucb dump\<close> returns on every file, whatever its bytes, with status 0 or 1; status 1 comes
  with a diagnostic, and status 0 only with a file that cannot be opened or a text that the source
  gate admits and whose tokens are laid out, bracketed and spelled as they should be.
\<close>

theorem cmd_dump_returns:
  "case cmd_dump show_warnings read_file path of
     None \<Rightarrow> False
   | Some r \<Rightarrow>
       (case read_file path of
          None \<Rightarrow> exit_status r = 0 \<and> out_text r = [] \<and> err_text r \<noteq> []
        | Some s \<Rightarrow> exit_status r = 0 \<and> out_text r \<noteq> [] \<and> well_formed_text path s \<or>
            exit_status r = 1 \<and> err_text r \<noteq> [])"
proof (rule load_and_lex_cases[of read_file path])
  fix message assume "read_file path = None" "load_and_lex read_file path = Some (Unopened message)"
  then show ?thesis by (simp add: cmd_dump_def print_status empty_bag_def bag_empty_def) (simp add: print_diagnostics_def)
next
  fix s bag assume "read_file path = Some s" "load_and_lex read_file path = Some (Refused bag)" "\<not> bag_empty bag"
  then show ?thesis by (simp add: cmd_dump_def print_status print_text)
next
  fix s toks bag
  assume a: "read_file path = Some s" "src_ok (fst (from_bytes path s empty_bag))"
      "load_and_lex read_file path = Some (Lexed (fst (from_bytes path s empty_bag)) toks bag)"
      "stream_ok 0 s toks bag" "bag_empty bag"
  have e: "toks \<noteq> []" "tok_kind (last toks) = EndOfFile" using stream_ends[OF a(4)] by simp_all
  obtain m bag' where p: "parse_tokens (fst (from_bytes path s empty_bag)) toks bag =
      Some (\<lparr>res_module = Some m, res_ok = bag_empty bag'\<rparr>, bag')"
    using parse_tokens_some[OF e] by blast
  have "well_formed_text path s" by (rule lexed_well_formed[OF a(2,1,4,5,3)])
  then show ?thesis using a(1,3) p print_text[of bag' show_warnings] by (simp add: cmd_dump_def print_status)
qed

end
