(* ===== verification/Types.thy ===== *)
theory Types
  imports Ast Literal "HOL-Library.Signed_Division"
begin

section \<open>Resolved types\<close>

text \<open>
  \<open>check/type.h\<close> and \<open>check/type.cpp\<close>: the kinds, the \<open>Type\<close> node, the predicates on it, integer
  and float widths, names, equality, and implicit widening. A \<open>const Type*\<close> is a \<open>ty option\<close>;
  types are interned, so pointer equality is equality of trees. A nominal type refers to its
  declaration by number, so a type that reaches itself through a declaration is a finite tree.
  Words are 64 bits wide, as on the code's targets. Layout is in theory \<open>Layout\<close>.
\<close>

datatype (plugins only: code size) type_kind =
  TyError | TyNever | TyUnit | TyBool | TyI8 | TyI16 | TyI32 | TyI64
  | TyIsize | TyU8 | TyU16 | TyU32 | TyU64 | TyUsize | TyF16 | TyF32
  | TyF64 | TyChar | TyStr | TyStruct | TyUntypedInt | TyVoid | TyPointer | TyArray
  | TySpan | TyOptional | TyFallible | TyErrorVal | TyErrorCode | TyEnum | TyUnion | TyModule
  | TyCStr | TyAllocator | TyParam | TyInterface | TyFmt | TyAtomic | TyTuple | TyFunc

datatype ty = Ty
  (ty_kind: type_kind) (ty_name: string) (ty_decl: "nat option") (ty_c_name: string)
  (ty_elem: "ty option") (ty_length: "64 word") (ty_const: bool) (ty_volatile: bool)
  (ty_nullable: bool) (ty_packed: bool) (ty_align_to: int) (ty_args: "ty option list")
  (ty_bounds: "32 word")

text \<open>A type built with nothing but its kind.\<close>

definition kind_ty :: "type_kind \<Rightarrow> ty" where
  "kind_ty k = Ty k [] None [] None 0 False False False False 0 [] 0"

definition pointer_bytes :: int where
  "pointer_bytes = 8"

definition pointer_bits :: int where
  "pointer_bits = pointer_bytes * 8"

subsection \<open>Predicates\<close>

text \<open>The test \<open>t != nullptr && p(t->kind)\<close>.\<close>

definition of_kind :: "(type_kind \<Rightarrow> bool) \<Rightarrow> ty option \<Rightarrow> bool" where
  "of_kind P t = (case t of None \<Rightarrow> False | Some t \<Rightarrow> P (ty_kind t))"

definition is_int :: "ty option \<Rightarrow> bool" where
  "is_int = of_kind (\<lambda>k. k \<in> {TyI8, TyI16, TyI32, TyI64, TyIsize, TyU8, TyU16, TyU32, TyU64, TyUsize})"

definition is_signed_int :: "ty option \<Rightarrow> bool" where
  "is_signed_int = of_kind (\<lambda>k. k \<in> {TyI8, TyI16, TyI32, TyI64, TyIsize})"

definition is_unsigned_int :: "ty option \<Rightarrow> bool" where
  "is_unsigned_int t \<longleftrightarrow> is_int t \<and> \<not> is_signed_int t"

definition is_float_kind :: "type_kind \<Rightarrow> bool" where
  "is_float_kind k \<longleftrightarrow> k = TyF16 \<or> k = TyF32 \<or> k = TyF64"

definition is_float :: "ty option \<Rightarrow> bool" where
  "is_float = of_kind is_float_kind"

definition is_numeric :: "ty option \<Rightarrow> bool" where
  "is_numeric t \<longleftrightarrow> is_int t \<or> is_float t"

definition is_ptr :: "ty option \<Rightarrow> bool" where "is_ptr = of_kind (\<lambda>k. k = TyPointer)"
definition is_array :: "ty option \<Rightarrow> bool" where "is_array = of_kind (\<lambda>k. k = TyArray)"
definition is_span :: "ty option \<Rightarrow> bool" where "is_span = of_kind (\<lambda>k. k = TySpan)"
definition is_opt :: "ty option \<Rightarrow> bool" where "is_opt = of_kind (\<lambda>k. k = TyOptional)"
definition is_fail :: "ty option \<Rightarrow> bool" where "is_fail = of_kind (\<lambda>k. k = TyFallible)"
definition is_enum :: "ty option \<Rightarrow> bool" where "is_enum = of_kind (\<lambda>k. k = TyEnum)"
definition is_union :: "ty option \<Rightarrow> bool" where "is_union = of_kind (\<lambda>k. k = TyUnion)"
definition is_atomic :: "ty option \<Rightarrow> bool" where "is_atomic = of_kind (\<lambda>k. k = TyAtomic)"
definition is_tup :: "ty option \<Rightarrow> bool" where "is_tup = of_kind (\<lambda>k. k = TyTuple)"
definition is_func :: "ty option \<Rightarrow> bool" where "is_func = of_kind (\<lambda>k. k = TyFunc)"

definition elem_of :: "ty option \<Rightarrow> ty option" where
  "elem_of t = (case t of None \<Rightarrow> None | Some t \<Rightarrow> ty_elem t)"

definition is_void_ptr :: "ty option \<Rightarrow> bool" where
  "is_void_ptr t \<longleftrightarrow> is_ptr t \<and> of_kind (\<lambda>k. k = TyVoid) (elem_of t)"

definition is_int_enum :: "ty option \<Rightarrow> bool" where
  "is_int_enum t \<longleftrightarrow> is_enum t \<and> is_int (elem_of t)"

definition is_null_niche :: "ty option \<Rightarrow> bool" where
  "is_null_niche t \<longleftrightarrow> of_kind (\<lambda>k. k \<in> {TyPointer, TyFunc, TyInterface}) t \<and> ty_nullable (the t)"

definition needs_null_foreign :: "ty option \<Rightarrow> bool" where
  "needs_null_foreign t \<longleftrightarrow> (is_ptr t \<and> \<not> ty_nullable (the t)) \<or> of_kind (\<lambda>k. k = TyCStr) t"

definition is_u8_cspan :: "ty option \<Rightarrow> bool" where
  "is_u8_cspan t \<longleftrightarrow> is_span t \<and> ty_const (the t) \<and> of_kind (\<lambda>k. k = TyU8) (elem_of t)"

text \<open>The bytes of a lane, 0 where the type is no lane type.\<close>

definition lane_bytes :: "type_kind \<Rightarrow> 64 word" where
  "lane_bytes k =
     (if k \<in> {TyI8, TyU8} then 1 else if k \<in> {TyI16, TyU16} then 2
      else if k \<in> {TyI32, TyU32, TyF32} then 4 else if k \<in> {TyI64, TyU64, TyF64} then 8 else 0)"

definition is_vector :: "ty option \<Rightarrow> bool" where
  "is_vector t \<longleftrightarrow> is_array t \<and>
     (case elem_of t of
        None \<Rightarrow> False
      | Some e \<Rightarrow> ty_c_name e = [] \<and> lane_bytes (ty_kind e) \<noteq> 0 \<and>
          ty_length (the t) * lane_bytes (ty_kind e) \<in> {8, 16})"

subsection \<open>Widths\<close>

definition int_bits :: "ty option \<Rightarrow> int" where
  "int_bits t =
     (case t of
        None \<Rightarrow> 0
      | Some t \<Rightarrow>
          (let k = ty_kind t in
           if k = TyUntypedInt then 64
           else if k \<in> {TyI8, TyU8} then 8
           else if k \<in> {TyI16, TyU16} then 16
           else if k \<in> {TyI32, TyU32} then 32
           else if k \<in> {TyI64, TyU64} then 64
           else if k \<in> {TyIsize, TyUsize} then pointer_bits
           else 0))"

definition float_kind_named :: "string \<Rightarrow> type_kind" where
  "float_kind_named name =
     (if name = ''f16'' then TyF16 else if name = ''f32'' then TyF32
      else if name = ''f64'' then TyF64 else TyError)"

definition float_kind_bits :: "type_kind \<Rightarrow> int" where
  "float_kind_bits k = (if k = TyF16 then 16 else if k = TyF32 then 32 else 64)"

definition float_bits :: "ty option \<Rightarrow> int" where
  "float_bits t = (if is_float t then float_kind_bits (ty_kind (the t)) else 0)"

definition bits_integer_c_name :: "ty option \<Rightarrow> string" where
  "bits_integer_c_name t =
     (let width = float_bits t in
      if width = 16 then ''uint16_t'' else if width = 32 then ''uint32_t'' else ''uint64_t'')"

definition int_mask :: "int \<Rightarrow> 64 word" where
  "int_mask bits =
     (if 64 \<le> bits then - 1 else if bits \<le> 0 then 0 else push_bit (nat bits) 1 - 1)"

definition int_max_signed :: "int \<Rightarrow> 64 word" where
  "int_max_signed bits =
     (if 64 \<le> bits then 0x7FFFFFFFFFFFFFFF else push_bit (nat (bits - 1)) 1 - 1)"

definition int_max_unsigned :: "int \<Rightarrow> 64 word" where
  "int_max_unsigned bits = int_mask bits"

definition int_min :: "ty option \<Rightarrow> 64 word" where
  "int_min t =
     (if \<not> is_signed_int t then 0
      else let bits = int_bits t in
        if 64 \<le> bits then 0x8000000000000000 else - int_max_signed bits - 1)"

subsection \<open>Equality and widening\<close>

definition type_eq :: "ty option \<Rightarrow> ty option \<Rightarrow> bool" where
  "type_eq a b \<longleftrightarrow>
     a = b \<or>
     (case (a, b) of
        (Some x, Some y) \<Rightarrow>
          ty_kind x = TyError \<or> ty_kind y = TyError \<or> (ty_kind x = TyNever \<and> ty_kind y = TyNever)
      | _ \<Rightarrow> False)"

definition widens_scalar :: "ty option \<Rightarrow> ty option \<Rightarrow> bool" where
  "widens_scalar from to \<longleftrightarrow>
     (if is_int from \<and> is_int to \<and> is_signed_int from = is_signed_int to then int_bits from < int_bits to
      else is_float from \<and> is_float to \<and> float_bits from < float_bits to)"

text \<open>The recursion is on an atomic's element, and only where the source is no atomic.\<close>

fun can_widen :: "ty option \<Rightarrow> ty option \<Rightarrow> bool" where
  "can_widen from None = False"
| "can_widen from (Some (Ty k nm d cn el len c v nl pk al args bd)) =
     (let to = Some (Ty k nm d cn el len c v nl pk al args bd) in
      if from = None then False
      else if type_eq from to then True
      else if is_atomic to \<and> \<not> is_atomic from then type_eq from el \<or> can_widen from el
      else widens_scalar from to)"

subsection \<open>Names\<close>

text \<open>
  The declarations nominal types refer to: what of a checked declaration node the type functions
  read. A member keeps its checked type, its default (\<open>left\<close>), its alignment (\<open>right\<close>) and the
  names and types of its parameters; a declaration its own type, and whether it is generic.
\<close>

record type_member =
  tm_kind :: node_kind
  tm_text :: string
  tm_ty :: "ty option"
  tm_left :: "node list"
  tm_right :: "node list"
  tm_params :: "ty option list"
  tm_cached :: "64 word option"
  tm_param_names :: "string list"

record type_decl =
  td_kind :: node_kind
  td_text :: string
  td_module :: string
  td_flags :: "64 word"
  td_type :: "node list"
  td_body :: "type_member list"
  td_ty :: "ty option"
  td_generic :: bool

type_synonym decls = "nat \<Rightarrow> type_decl option"

definition decl_of :: "decls \<Rightarrow> ty \<Rightarrow> type_decl option" where
  "decl_of D t = (case ty_decl t of None \<Rightarrow> None | Some d \<Rightarrow> D d)"

definition scalar_name :: "type_kind \<Rightarrow> string option" where
  "scalar_name k =
     map_of [(TyError, ''<error>''), (TyNever, ''never''), (TyUnit, ''unit''), (TyBool, ''bool''),
       (TyI8, ''i8''), (TyI16, ''i16''), (TyI32, ''i32''), (TyI64, ''i64''), (TyIsize, ''isize''),
       (TyU8, ''u8''), (TyU16, ''u16''), (TyU32, ''u32''), (TyU64, ''u64''), (TyUsize, ''usize''),
       (TyF16, ''f16''), (TyF32, ''f32''), (TyF64, ''f64''), (TyChar, ''char''), (TyStr, ''str''),
       (TyStruct, ''<struct>''), (TyUntypedInt, ''<integer>''), (TyVoid, ''void''),
       (TyErrorVal, ''Error''), (TyErrorCode, ''ErrorCode''), (TyModule, ''<module>''),
       (TyCStr, ''c.str''), (TyAllocator, ''Allocator''), (TyParam, ''<param>''),
       (TyInterface, ''<interface>''), (TyFmt, ''fmt'')] k"

definition optional_text :: "bool \<Rightarrow> string \<Rightarrow> string" where
  "optional_text b s = (if b then s else [])"

fun joined :: "string list \<Rightarrow> string" where
  "joined [] = []"
| "joined [s] = s"
| "joined (s # ss) = s @ '', '' @ joined ss"

fun type_name :: "decls \<Rightarrow> ty \<Rightarrow> string" where
  "type_name D (Ty k name d cn el len cst vol nullable packed al args bd) =
     (let elem = (case el of None \<Rightarrow> ''<missing>'' | Some e \<Rightarrow> type_name D e);
          listed = joined (map (\<lambda>a. case a of None \<Rightarrow> ''<missing>'' | Some a \<Rightarrow> type_name D a) args)
      in if name \<noteq> [] then name
         else if k = TyPointer then
           optional_text cst ''const '' @ optional_text vol ''volatile '' @ elem @ ''*'' @ optional_text nullable ''?''
         else if k = TyArray then elem @ ''['' @ to_string_nat (unat len) @ '']''
         else if k = TySpan then optional_text cst ''const '' @ elem @ ''[]''
         else if k = TyOptional then elem @ ''?''
         else if k = TyFallible then elem @ ''!''
         else if k = TyEnum then
           (case d of None \<Rightarrow> ''<enum>'' | Some i \<Rightarrow> (case D i of None \<Rightarrow> ''<enum>'' | Some td \<Rightarrow> td_text td))
         else if k = TyUnion then
           (case d of None \<Rightarrow> ''<union>'' | Some i \<Rightarrow> (case D i of None \<Rightarrow> ''<union>'' | Some td \<Rightarrow> td_text td))
         else if k = TyAtomic then ''@'' @ elem
         else if k = TyTuple then ''('' @ listed @ '')''
         else if k = TyFunc then
           (let s = ''func('' @ listed @ '') -> '' @ elem in if nullable then ''('' @ s @ '')?'' else s)
         else (case scalar_name k of None \<Rightarrow> ''<unknown>'' | Some s \<Rightarrow> s))"

definition type_name_ref :: "decls \<Rightarrow> ty option \<Rightarrow> string" where
  "type_name_ref D t = (case t of None \<Rightarrow> ''<missing>'' | Some t \<Rightarrow> type_name D t)"

text \<open>The fixed C spellings: \<open>c_type_name\<close>.\<close>

definition c_type_name :: "ty option \<Rightarrow> string" where
  "c_type_name t =
     (case t of
        None \<Rightarrow> ''void''
      | Some t \<Rightarrow>
          if ty_c_name t \<noteq> [] then ty_c_name t
          else if ty_kind t = TySpan then (if ty_const t then ''lb_cspan'' else ''lb_span'')
          else (case map_of [(TyBool, ''bool''), (TyI8, ''int8_t''), (TyI16, ''int16_t''), (TyI32, ''int32_t''),
              (TyI64, ''int64_t''), (TyIsize, ''intptr_t''), (TyU8, ''uint8_t''), (TyU16, ''uint16_t''),
              (TyU32, ''uint32_t''), (TyErrorCode, ''uint32_t''), (TyU64, ''uint64_t''), (TyUsize, ''size_t''),
              (TyF16, ''_Float16''), (TyF32, ''float''), (TyF64, ''double''), (TyChar, ''uint32_t''),
              (TyStr, ''lb_str''), (TyCStr, ''const char*''), (TyAllocator, ''lb_alloc''),
              (TyInterface, ''lb_iface''), (TyFmt, ''lb_str''), (TyPointer, ''void*''),
              (TyErrorVal, ''lb_error''), (TyOptional, ''lb_opt''), (TyFallible, ''lb_res'')] (ty_kind t) of
              None \<Rightarrow> ''void'' | Some s \<Rightarrow> s))"

end
