(* ===== verification/Cgen.thy ===== *)
theory Cgen
  imports Types
begin

section \<open>C spellings\<close>

text \<open>
  \<open>emit/cgen.cpp\<close>: how names, types and texts are written in the C. A declaration node is its
  \<open>type_decl\<close>; a declaration that has no type of its own (a function, a global) is one too.
\<close>

subsection \<open>Names\<close>

definition runtime_name :: "string \<Rightarrow> bool" where
  "runtime_name name \<longleftrightarrow>
     name \<in> {''span'', ''str'', ''error'', ''cspan'', ''out'', ''fmtbuf'', ''hash_bytes'', ''hash_mix'',
       ''hash_seed'', ''utf8_ok'', ''r_str'', ''trap'', ''check_index'', ''unknown'', ''pos'',
       ''restore_pos'', ''saved_pos''}"

definition piece :: "string \<Rightarrow> string" where
  "piece name = (if CHR ''_'' \<notin> set name then name else to_string_nat (length name) @ name)"

definition c_field :: "string \<Rightarrow> string" where
  "c_field name =
     (if name \<in> {''auto'', ''break'', ''case'', ''char'', ''const'', ''continue'', ''default'', ''do'',
        ''double'', ''else'', ''enum'', ''extern'', ''float'', ''for'', ''goto'', ''if'', ''inline'', ''int'',
        ''long'', ''register'', ''restrict'', ''return'', ''short'', ''signed'', ''sizeof'', ''static'',
        ''struct'', ''switch'', ''typedef'', ''union'', ''unsigned'', ''void'', ''volatile'', ''while'',
        ''bool'', ''true'', ''false'', ''errno'', ''stdin'', ''stdout'', ''stderr'', ''NULL'', ''alignof'',
        ''offsetof''}
      then name @ ''_'' else name)"

definition ident :: "string \<Rightarrow> string \<Rightarrow> string" where
  "ident pre name =
     pre @ (if pre = ''lb_'' then piece name else name) @
     (if pre = ''lb_'' \<and> runtime_name name then ''_'' else [])"

definition module_tag :: "type_decl option \<Rightarrow> string" where
  "module_tag d =
     (case d of None \<Rightarrow> [] | Some d \<Rightarrow> map (\<lambda>c. if c = CHR ''.'' then CHR ''_'' else c) (td_module d))"

definition tagged_ident :: "string \<Rightarrow> string \<Rightarrow> string" where
  "tagged_ident tag name = (if tag \<noteq> [] then ident ''lb_'' tag @ ''_'' @ piece name else ident ''lb_'' name)"

definition struct_ident :: "type_decl \<Rightarrow> string \<Rightarrow> string" where
  "struct_ident st pre =
     (if td_kind st = NExternStruct \<or> td_kind st = NExternUnion then td_text st
      else tagged_ident (if pre = [] then module_tag (Some st) else pre) (td_text st))"

definition global_ident :: "type_decl \<Rightarrow> string" where
  "global_ident d = tagged_ident (module_tag (Some d)) (td_text d)"

subsection \<open>Type spellings\<close>

definition alnum_char :: "char \<Rightarrow> bool" where
  "alnum_char c \<longleftrightarrow>
     (CHR ''a'' \<le> c \<and> c \<le> CHR ''z'') \<or> (CHR ''A'' \<le> c \<and> c \<le> CHR ''Z'') \<or> (CHR ''0'' \<le> c \<and> c \<le> CHR ''9'')"

definition spelling_code :: "char \<Rightarrow> char" where
  "spelling_code c =
     (case map_of [(CHR ''_'', CHR ''u''), (CHR ''.'', CHR ''d''), (CHR ''*'', CHR ''p''), (CHR ''?'', CHR ''q''),
        (CHR ''['', CHR ''l''), (CHR '']'', CHR ''r''), (CHR ''('', CHR ''o''), (CHR '')'', CHR ''c''),
        (CHR '','', CHR ''m''), (CHR '' '', CHR ''s''), (CHR ''!'', CHR ''f''), (CHR ''@'', CHR ''a''),
        (CHR ''-'', CHR ''h''), (CHR ''>'', CHR ''g'')] c of None \<Rightarrow> CHR ''x'' | Some l \<Rightarrow> l)"

definition sanitize_char :: "char \<Rightarrow> string" where
  "sanitize_char c = (if alnum_char c then [c] else [CHR ''_'', spelling_code c])"

definition sanitize_type_name :: "string \<Rightarrow> string" where
  "sanitize_type_name s = concat (map sanitize_char s)"

fun mangled :: "decls \<Rightarrow> ty \<Rightarrow> string" where
  "mangled D (Ty k name d cn el len cst vol nullable packed al args bd) =
     (let t = Ty k name d cn el len cst vol nullable packed al args bd;
          elem = (case el of None \<Rightarrow> ''<missing>'' | Some e \<Rightarrow> mangled D e);
          listed = joined (map (\<lambda>a. case a of None \<Rightarrow> ''<missing>'' | Some a \<Rightarrow> mangled D a) args)
      in case (case decl_of D t of Some td \<Rightarrow> td_module td | None \<Rightarrow> []) of
           m # ms \<Rightarrow> (m # ms) @ ''.'' @ type_name D t
         | [] \<Rightarrow>
             if k = TyPointer then
               optional_text cst ''const '' @ optional_text vol ''volatile '' @ elem @ ''*'' @ optional_text nullable ''?''
             else if k = TyArray then elem @ ''['' @ to_string_nat (unat len) @ '']''
             else if k = TySpan then optional_text cst ''const '' @ elem @ ''[]''
             else if k = TyOptional then elem @ ''?''
             else if k = TyFallible then elem @ ''!''
             else if k = TyAtomic then ''@'' @ elem
             else if k = TyTuple then ''('' @ listed @ '')''
             else if k = TyFunc then ''func('' @ listed @ '')'' @ '' -> '' @ elem
             else type_name D t)"

definition mangled_ref :: "decls \<Rightarrow> ty option \<Rightarrow> string" where
  "mangled_ref D t = (case t of None \<Rightarrow> ''<missing>'' | Some t \<Rightarrow> mangled D t)"

definition array_c_name :: "decls \<Rightarrow> ty option \<Rightarrow> string" where
  "array_c_name D t = ''lb_a_'' @ sanitize_type_name (mangled_ref D t)"

definition opt_c_name :: "decls \<Rightarrow> ty option \<Rightarrow> string" where
  "opt_c_name D t = ''lb_o_'' @ sanitize_type_name (mangled_ref D (if is_opt t then elem_of t else t))"

definition no_value :: "ty option \<Rightarrow> bool" where
  "no_value t \<longleftrightarrow> t = None \<or> of_kind (\<lambda>k. k = TyUnit \<or> k = TyNever) t"

definition fail_c_name :: "decls \<Rightarrow> ty option \<Rightarrow> string" where
  "fail_c_name D t =
     (let t = (if is_fail t then elem_of t else t)
      in if no_value t then ''lb_r_unit'' else ''lb_r_'' @ sanitize_type_name (mangled_ref D t))"

definition type_args :: "ty option \<Rightarrow> ty option list" where
  "type_args t = (case t of None \<Rightarrow> [] | Some t \<Rightarrow> ty_args t)"

definition joined_names :: "decls \<Rightarrow> ty option list \<Rightarrow> string" where
  "joined_names D args = concat (map (\<lambda>a. ''__'' @ sanitize_type_name (mangled_ref D a)) args)"

definition tup_c_name :: "decls \<Rightarrow> ty option \<Rightarrow> string" where
  "tup_c_name D t = ''lb_t'' @ joined_names D (type_args t)"

definition fn_c_name :: "decls \<Rightarrow> ty option \<Rightarrow> string" where
  "fn_c_name D t =
     (case t of
        None \<Rightarrow> ''lb_fn''
      | Some f \<Rightarrow> ''lb_fn'' @ joined_names D (ty_args f) @ ''__to__'' @
          (if no_value (ty_elem f) then ''unit'' else sanitize_type_name (mangled_ref D (ty_elem f))))"

definition builtin_decl :: "decls \<Rightarrow> ty \<Rightarrow> bool" where
  "builtin_decl D t = (case decl_of D t of None \<Rightarrow> True | Some d \<Rightarrow> td_flags d AND FlagBuiltin \<noteq> 0)"

definition builtin_struct :: "string \<Rightarrow> string option" where
  "builtin_struct =
     map_of [(''FixedBuffer'', ''lb_fixed''), (''Location'', ''lb_Location''), (''Handle'', ''lb_Handle''),
       (''Mutex'', ''lb_Mutex''), (''Condition'', ''lb_Cond''), (''Once'', ''lb_Once''), (''Semaphore'', ''lb_Sem'')]"

definition nominal :: "ty \<Rightarrow> bool" where
  "nominal t \<longleftrightarrow> ty_kind t = TyStruct \<or> ty_kind t = TyUnion \<or> (ty_kind t = TyEnum \<and> \<not> is_int_enum (Some t))"

fun c_type :: "decls \<Rightarrow> ty \<Rightarrow> string" where
  "c_type D (Ty k name d cn el len cst vol nullable packed al args bd) =
     (let t = Ty k name d cn el len cst vol nullable packed al args bd;
          elem = (case el of None \<Rightarrow> ''void'' | Some e \<Rightarrow> c_type D e);
          q = optional_text cst ''const '' @ optional_text vol ''volatile ''
      in if k = TyUntypedInt then ''int64_t''
         else if k = TyStruct \<and> builtin_struct name \<noteq> None \<and> builtin_decl D t then the (builtin_struct name)
         else if k = TyAtomic then ''_Atomic('' @ elem @ '')''
         else if k = TyTuple then tup_c_name D (Some t)
         else if k = TyFunc then fn_c_name D (Some t)
         else if nominal t then
           (case decl_of D t of Some td \<Rightarrow> struct_ident td [] | None \<Rightarrow> ident ''lb_'' name)
         else if is_int_enum (Some t) then elem
         else if k = TyArray then array_c_name D (Some t)
         else if k = TyPointer then
           (case el of
              None \<Rightarrow> q @ ''void*''
            | Some e \<Rightarrow>
                if ty_kind e = TyVoid then ''void*''
                else if nominal e then
                  q @ (if ty_kind e = TyUnion then ''union '' else ''struct '') @ elem @ ''*''
                else q @ elem @ ''*'')
         else if k = TyOptional then
           (case el of
              Some e \<Rightarrow> if is_span el \<and> of_kind (\<lambda>k. k = TyU8) (ty_elem e) \<and> \<not> ty_const e
                        then ''lb_span_opt'' else opt_c_name D (Some t)
            | None \<Rightarrow> opt_c_name D (Some t))
         else if k = TyFallible then fail_c_name D (Some t)
         else c_type_name (Some t))"

definition c_type_ref :: "decls \<Rightarrow> ty option \<Rightarrow> string" where
  "c_type_ref D t = (case t of None \<Rightarrow> ''void'' | Some t \<Rightarrow> c_type D t)"

subsection \<open>Casts and texts\<close>

definition word_cast :: "ty option \<Rightarrow> string \<Rightarrow> string" where
  "word_cast t e = (if is_unsigned_int t then ''(uint64_t)('' else ''(int64_t)('') @ e @ '')''"

definition bits_lit :: "ty option \<Rightarrow> string" where
  "bits_lit t = to_string_int (int_bits t)"

definition down_cast :: "decls \<Rightarrow> ty option \<Rightarrow> string \<Rightarrow> string" where
  "down_cast D t e = ''('' @ c_type_ref D t @ '')('' @ e @ '')''"

definition octal_digit :: "nat \<Rightarrow> char" where
  "octal_digit n = char_of (48 + n mod 8)"

definition escape_byte :: "char \<Rightarrow> string" where
  "escape_byte c =
     (if c = backslash \<or> c = dquote \<or> c = CHR ''?'' then [backslash, c]
      else if c = lf then [backslash, CHR ''n'']
      else if c = tab then [backslash, CHR ''t'']
      else if c = cr then [backslash, CHR ''r'']
      else if byte_value c < 32 \<or> 127 \<le> byte_value c then
        [backslash, octal_digit (byte_value c div 64), octal_digit (byte_value c div 8), octal_digit (byte_value c)]
      else [c])"

definition c_escape :: "bytes \<Rightarrow> string" where
  "c_escape s = dquote # concat (map escape_byte s) @ [dquote]"

text \<open>The searched case is given by its place in the body, counted down as the loop goes.\<close>

fun emit_case_int :: "type_member list \<Rightarrow> int \<Rightarrow> 64 word \<Rightarrow> 64 word" where
  "emit_case_int [] cse next = 0"
| "emit_case_int (m # ms) cse next =
     (if tm_kind m \<noteq> NEnumCase then emit_case_int ms (cse - 1) next
      else let v = (case tm_cached m of Some v \<Rightarrow> v | None \<Rightarrow> next)
           in if cse = 0 then v else emit_case_int ms (cse - 1) (v + 1))"

fun emit_case_tag :: "type_member list \<Rightarrow> int \<Rightarrow> nat \<Rightarrow> nat" where
  "emit_case_tag [] cse i = 0"
| "emit_case_tag (m # ms) cse i =
     (if tm_kind m \<noteq> NEnumCase then emit_case_tag ms (cse - 1) i
      else if cse = 0 then i else emit_case_tag ms (cse - 1) (i + 1))"

end
