(* ===== verification/RtInt.thy ===== *)
theory RtInt
  imports Prelude "HOL-Library.Signed_Division"
begin

section \<open>The runtime's integers\<close>

text \<open>
  The arithmetic families of \<open>runtime/lucb_rt.h\<close> and \<open>runtime/lucb_rt.c\<close>: checked, optional,
  wrapping and saturating operations, shifts and conversions, each on 64-bit words with the width
  as an argument. \<open>int64_t\<close> and \<open>uint64_t\<close> are both \<open>64 word\<close>, read by \<open>sint\<close> or \<open>uint\<close> where the
  C type decides. \<open>lb_trap\<close> does not return: a trap is \<open>Inl\<close> its message.
\<close>

type_synonym 'a trap = "string + 'a"

definition overflow_message :: string where "overflow_message = ''integer overflow''"
definition zero_message :: string where "zero_message = ''division by zero''"
definition shift_message :: string where "shift_message = ''shift count out of range''"
definition range_message :: string where "range_message = ''integer conversion out of range''"

definition sless :: "64 word \<Rightarrow> 64 word \<Rightarrow> bool" where
  "sless a b \<longleftrightarrow> sint a < sint b"

text \<open>\<open>__builtin_add_overflow\<close> and its siblings on \<open>int64_t\<close>: whether the exact result leaves
  the type, and the wrapped result.\<close>

definition add_overflow :: "64 word \<Rightarrow> 64 word \<Rightarrow> bool \<times> 64 word" where
  "add_overflow a b = (sint a + sint b \<noteq> sint (a + b), a + b)"

definition sub_overflow :: "64 word \<Rightarrow> 64 word \<Rightarrow> bool \<times> 64 word" where
  "sub_overflow a b = (sint a - sint b \<noteq> sint (a - b), a - b)"

definition mul_overflow :: "64 word \<Rightarrow> 64 word \<Rightarrow> bool \<times> 64 word" where
  "mul_overflow a b = (sint a * sint b \<noteq> sint (a * b), a * b)"

text \<open>Division and remainder of \<open>int64_t\<close> truncate towards zero.\<close>

definition sdiv_word :: "64 word \<Rightarrow> 64 word \<Rightarrow> 64 word" where
  "sdiv_word a b = word_of_int (sint a sdiv sint b)"

definition smod_word :: "64 word \<Rightarrow> 64 word \<Rightarrow> 64 word" where
  "smod_word a b = word_of_int (sint a smod sint b)"

subsection \<open>Widths\<close>

definition mask_bits :: "int \<Rightarrow> 64 word" where
  "mask_bits bits =
     (if 64 \<le> bits then - 1 else if bits \<le> 0 then 0 else push_bit (nat bits) 1 - 1)"

definition smin :: "int \<Rightarrow> 64 word" where
  "smin bits =
     (if bits \<le> 0 then 0 else if 64 \<le> bits then 0x8000000000000000
      else - push_bit (nat (bits - 1)) 1)"

definition smax :: "int \<Rightarrow> 64 word" where
  "smax bits =
     (if bits \<le> 0 then 0 else if 64 \<le> bits then 0x7FFFFFFFFFFFFFFF
      else push_bit (nat (bits - 1)) 1 - 1)"

definition sext :: "64 word \<Rightarrow> int \<Rightarrow> 64 word" where
  "sext a bits =
     (if bits \<le> 0 then 0
      else if 64 \<le> bits then a
      else let u = a AND mask_bits bits in
        if u AND push_bit (nat (bits - 1)) 1 \<noteq> 0 then u OR NOT (mask_bits bits) else u)"

definition zext :: "64 word \<Rightarrow> int \<Rightarrow> 64 word" where
  "zext a bits = a AND mask_bits bits"

text \<open>The test \<open>overflow || r < smin(bits) || r > smax(bits)\<close> every signed family makes.\<close>

definition out_of_range :: "bool \<times> 64 word \<Rightarrow> int \<Rightarrow> bool" where
  "out_of_range r bits \<longleftrightarrow> fst r \<or> sless (snd r) (smin bits) \<or> sless (smax bits) (snd r)"

subsection \<open>Checked operations\<close>

definition lb_add_s :: "64 word \<Rightarrow> 64 word \<Rightarrow> int \<Rightarrow> 64 word trap" where
  "lb_add_s a b bits =
     (let r = add_overflow (sext a bits) (sext b bits)
      in if out_of_range r bits then Inl overflow_message else Inr (snd r))"

definition lb_add_u :: "64 word \<Rightarrow> 64 word \<Rightarrow> int \<Rightarrow> 64 word trap" where
  "lb_add_u a b bits =
     (let a = zext a bits; b = zext b bits
      in if 64 \<le> bits then (if - 1 - b < a then Inl overflow_message else Inr (a + b))
         else let r = a + b in if mask_bits bits < r then Inl overflow_message else Inr r)"

definition lb_sub_s :: "64 word \<Rightarrow> 64 word \<Rightarrow> int \<Rightarrow> 64 word trap" where
  "lb_sub_s a b bits =
     (let r = sub_overflow (sext a bits) (sext b bits)
      in if out_of_range r bits then Inl overflow_message else Inr (snd r))"

definition lb_sub_u :: "64 word \<Rightarrow> 64 word \<Rightarrow> int \<Rightarrow> 64 word trap" where
  "lb_sub_u a b bits =
     (let a = zext a bits; b = zext b bits
      in if a < b then Inl overflow_message else Inr (a - b))"

definition lb_mul_s :: "64 word \<Rightarrow> 64 word \<Rightarrow> int \<Rightarrow> 64 word trap" where
  "lb_mul_s a b bits =
     (let r = mul_overflow (sext a bits) (sext b bits)
      in if out_of_range r bits then Inl overflow_message else Inr (snd r))"

definition lb_mul_u :: "64 word \<Rightarrow> 64 word \<Rightarrow> int \<Rightarrow> 64 word trap" where
  "lb_mul_u a b bits =
     (let a = zext a bits; b = zext b bits
      in if b \<noteq> 0 \<and> mask_bits bits div b < a then Inl overflow_message else Inr (zext (a * b) bits))"

definition lb_div_s :: "64 word \<Rightarrow> 64 word \<Rightarrow> int \<Rightarrow> 64 word trap" where
  "lb_div_s a b bits =
     (let a = sext a bits; b = sext b bits
      in if b = 0 then Inl zero_message
         else if a = smin bits \<and> b = - 1 then Inl overflow_message
         else Inr (sdiv_word a b))"

definition lb_div_u :: "64 word \<Rightarrow> 64 word \<Rightarrow> int \<Rightarrow> 64 word trap" where
  "lb_div_u a b bits =
     (let a = zext a bits; b = zext b bits
      in if b = 0 then Inl zero_message else Inr (a div b))"

definition lb_mod_s :: "64 word \<Rightarrow> 64 word \<Rightarrow> int \<Rightarrow> 64 word trap" where
  "lb_mod_s a b bits =
     (let a = sext a bits; b = sext b bits
      in if b = 0 then Inl zero_message
         else if a = smin bits \<and> b = - 1 then Inl overflow_message
         else Inr (smod_word a b))"

definition lb_mod_u :: "64 word \<Rightarrow> 64 word \<Rightarrow> int \<Rightarrow> 64 word trap" where
  "lb_mod_u a b bits =
     (let a = zext a bits; b = zext b bits
      in if b = 0 then Inl zero_message else Inr (a mod b))"

definition lb_neg_s :: "64 word \<Rightarrow> int \<Rightarrow> 64 word trap" where
  "lb_neg_s a bits =
     (let a = sext a bits in if a = smin bits then Inl overflow_message else Inr (- a))"

subsection \<open>Optional operations\<close>

text \<open>The result is 0 or 1 with an out-parameter: \<open>None\<close> or \<open>Some\<close> of what is written there.\<close>

definition lb_qadd_s :: "64 word \<Rightarrow> 64 word \<Rightarrow> int \<Rightarrow> 64 word option" where
  "lb_qadd_s a b bits =
     (let r = add_overflow (sext a bits) (sext b bits)
      in if out_of_range r bits then None else Some (snd r))"

definition lb_qadd_u :: "64 word \<Rightarrow> 64 word \<Rightarrow> int \<Rightarrow> 64 word option" where
  "lb_qadd_u a b bits =
     (let a = zext a bits; b = zext b bits
      in if 64 \<le> bits then (if - 1 - b < a then None else Some (a + b))
         else let r = a + b in if mask_bits bits < r then None else Some r)"

definition lb_qsub_s :: "64 word \<Rightarrow> 64 word \<Rightarrow> int \<Rightarrow> 64 word option" where
  "lb_qsub_s a b bits =
     (let r = sub_overflow (sext a bits) (sext b bits)
      in if out_of_range r bits then None else Some (snd r))"

definition lb_qsub_u :: "64 word \<Rightarrow> 64 word \<Rightarrow> int \<Rightarrow> 64 word option" where
  "lb_qsub_u a b bits =
     (let a = zext a bits; b = zext b bits in if a < b then None else Some (a - b))"

definition lb_qmul_s :: "64 word \<Rightarrow> 64 word \<Rightarrow> int \<Rightarrow> 64 word option" where
  "lb_qmul_s a b bits =
     (let r = mul_overflow (sext a bits) (sext b bits)
      in if out_of_range r bits then None else Some (snd r))"

definition lb_qmul_u :: "64 word \<Rightarrow> 64 word \<Rightarrow> int \<Rightarrow> 64 word option" where
  "lb_qmul_u a b bits =
     (let a = zext a bits; b = zext b bits
      in if b \<noteq> 0 \<and> mask_bits bits div b < a then None else Some (zext (a * b) bits))"

subsection \<open>Wrapping operations\<close>

definition lb_addw_s :: "64 word \<Rightarrow> 64 word \<Rightarrow> int \<Rightarrow> 64 word" where
  "lb_addw_s a b bits = sext ((sext a bits + sext b bits) AND mask_bits bits) bits"

definition lb_addw_u :: "64 word \<Rightarrow> 64 word \<Rightarrow> int \<Rightarrow> 64 word" where
  "lb_addw_u a b bits = zext (a + b) bits"

definition lb_subw_s :: "64 word \<Rightarrow> 64 word \<Rightarrow> int \<Rightarrow> 64 word" where
  "lb_subw_s a b bits = sext ((sext a bits - sext b bits) AND mask_bits bits) bits"

definition lb_subw_u :: "64 word \<Rightarrow> 64 word \<Rightarrow> int \<Rightarrow> 64 word" where
  "lb_subw_u a b bits = zext (a - b) bits"

definition lb_mulw_s :: "64 word \<Rightarrow> 64 word \<Rightarrow> int \<Rightarrow> 64 word" where
  "lb_mulw_s a b bits = sext ((sext a bits * sext b bits) AND mask_bits bits) bits"

definition lb_mulw_u :: "64 word \<Rightarrow> 64 word \<Rightarrow> int \<Rightarrow> 64 word" where
  "lb_mulw_u a b bits = zext (a * b) bits"

definition lb_negw_s :: "64 word \<Rightarrow> int \<Rightarrow> 64 word" where
  "lb_negw_s a bits = sext ((0 - sext a bits) AND mask_bits bits) bits"

definition lb_negw_u :: "64 word \<Rightarrow> int \<Rightarrow> 64 word" where
  "lb_negw_u a bits = zext (0 - zext a bits) bits"

subsection \<open>Saturating operations\<close>

definition lb_adds_s :: "64 word \<Rightarrow> 64 word \<Rightarrow> int \<Rightarrow> 64 word" where
  "lb_adds_s a b bits =
     (let a = sext a bits; b = sext b bits; r = add_overflow a b
      in if out_of_range r bits then (if sless a 0 then smin bits else smax bits) else snd r)"

definition lb_adds_u :: "64 word \<Rightarrow> 64 word \<Rightarrow> int \<Rightarrow> 64 word" where
  "lb_adds_u a b bits =
     (let a = zext a bits; b = zext b bits
      in if 64 \<le> bits then (if - 1 - b < a then - 1 else a + b)
         else let r = a + b in if mask_bits bits < r then mask_bits bits else r)"

definition lb_subs_s :: "64 word \<Rightarrow> 64 word \<Rightarrow> int \<Rightarrow> 64 word" where
  "lb_subs_s a b bits =
     (let a = sext a bits; b = sext b bits; r = sub_overflow a b
      in if out_of_range r bits then (if sless a 0 then smin bits else smax bits) else snd r)"

definition lb_subs_u :: "64 word \<Rightarrow> 64 word \<Rightarrow> int \<Rightarrow> 64 word" where
  "lb_subs_u a b bits =
     (let a = zext a bits; b = zext b bits in if a < b then 0 else a - b)"

definition lb_muls_s :: "64 word \<Rightarrow> 64 word \<Rightarrow> int \<Rightarrow> 64 word" where
  "lb_muls_s a b bits =
     (let a = sext a bits; b = sext b bits; r = mul_overflow a b
      in if out_of_range r bits then (if sless a 0 \<noteq> sless b 0 then smin bits else smax bits) else snd r)"

definition lb_muls_u :: "64 word \<Rightarrow> 64 word \<Rightarrow> int \<Rightarrow> 64 word" where
  "lb_muls_u a b bits =
     (let a = zext a bits; b = zext b bits
      in if b \<noteq> 0 \<and> mask_bits bits div b < a then mask_bits bits else zext (a * b) bits)"

subsection \<open>Shifts and complement\<close>

text \<open>The count is compared as \<open>uint64_t\<close> with the width converted to it.\<close>

definition bad_count :: "64 word \<Rightarrow> int \<Rightarrow> bool" where
  "bad_count n bits \<longleftrightarrow> word_of_int bits \<le> n"

definition lb_shl_s :: "64 word \<Rightarrow> 64 word \<Rightarrow> int \<Rightarrow> 64 word trap" where
  "lb_shl_s a n bits =
     (let a = sext a bits
      in if bad_count n bits then Inl shift_message
         else Inr (sext (push_bit (unat n) a AND mask_bits bits) bits))"

definition lb_shl_u :: "64 word \<Rightarrow> 64 word \<Rightarrow> int \<Rightarrow> 64 word trap" where
  "lb_shl_u a n bits =
     (let a = zext a bits
      in if bad_count n bits then Inl shift_message else Inr (zext (push_bit (unat n) a) bits))"

definition lb_shr_s :: "64 word \<Rightarrow> 64 word \<Rightarrow> int \<Rightarrow> 64 word trap" where
  "lb_shr_s a n bits =
     (let a = sext a bits
      in if bad_count n bits then Inl shift_message else Inr (signed_drop_bit (unat n) a))"

definition lb_shr_u :: "64 word \<Rightarrow> 64 word \<Rightarrow> int \<Rightarrow> 64 word trap" where
  "lb_shr_u a n bits =
     (let a = zext a bits
      in if bad_count n bits then Inl shift_message else Inr (drop_bit (unat n) a))"

definition lb_not_u :: "64 word \<Rightarrow> int \<Rightarrow> 64 word" where
  "lb_not_u a bits = zext (NOT a) bits"

subsection \<open>Conversions\<close>

definition fits_u :: "64 word \<Rightarrow> int \<Rightarrow> bool" where
  "fits_u v bits \<longleftrightarrow> v \<le> mask_bits bits"

record lb_source =
  ls_negative :: bool
  ls_bits :: "64 word"

definition source_of :: "64 word \<Rightarrow> int \<Rightarrow> bool \<Rightarrow> lb_source" where
  "source_of a from_bits from_signed =
     (if from_signed then
        let v = sext a from_bits in \<lparr>ls_negative = sless v 0, ls_bits = v\<rparr>
      else \<lparr>ls_negative = False, ls_bits = zext a from_bits\<rparr>)"

definition checked_bits :: "lb_source \<Rightarrow> int \<Rightarrow> bool \<Rightarrow> 64 word trap" where
  "checked_bits s to_bits to_signed =
     (let bad = (if to_signed then
                   (if ls_negative s then sless (ls_bits s) (smin to_bits) else smax to_bits < ls_bits s)
                 else ls_negative s \<or> \<not> fits_u (ls_bits s) to_bits)
      in if bad then Inl range_message else Inr (ls_bits s))"

text \<open>Mode 0 is the checked conversion, any other the cast.\<close>

definition lb_conv_s :: "64 word \<Rightarrow> int \<Rightarrow> bool \<Rightarrow> int \<Rightarrow> bool \<Rightarrow> int \<Rightarrow> 64 word trap" where
  "lb_conv_s a from_bits from_signed to_bits to_signed mode =
     (let s = source_of a from_bits from_signed
      in if mode = 0 then checked_bits s to_bits to_signed
         else let bits = ls_bits s AND mask_bits to_bits
              in Inr (if to_signed then sext bits to_bits else bits))"

definition lb_conv_u :: "64 word \<Rightarrow> int \<Rightarrow> bool \<Rightarrow> int \<Rightarrow> bool \<Rightarrow> int \<Rightarrow> 64 word trap" where
  "lb_conv_u a from_bits from_signed to_bits to_signed mode =
     (let s = source_of a from_bits from_signed
      in if mode = 0 then checked_bits s to_bits to_signed else Inr (zext (ls_bits s) to_bits))"

definition lb_to_char :: "64 word \<Rightarrow> int \<Rightarrow> 32 word trap" where
  "lb_to_char a mode =
     (let bad = 0x10FFFF < a \<or> (0xD800 \<le> a \<and> a \<le> 0xDFFF)
      in if bad \<and> mode = 0 then Inl range_message else Inr (ucast a))"

subsection \<open>Hashing\<close>

definition lb_hash_mix :: "64 word \<Rightarrow> 64 word \<Rightarrow> 64 word" where
  "lb_hash_mix h x =
     (let h = h XOR x; h = h * 0x9E3779B97F4A7C15 in h XOR drop_bit 32 h)"

definition lb_hash_bytes :: "64 word \<Rightarrow> bytes \<Rightarrow> 64 word" where
  "lb_hash_bytes h b =
     lb_hash_mix (fold (\<lambda>c h. lb_hash_mix h (word_of_nat (byte_value c))) b h) (word_of_nat (length b))"

end
