(* ===== verification/IntOps.thy ===== *)
theory IntOps
  imports Types RtInt
begin

section \<open>The interpreter's integers\<close>

text \<open>
  The scalar integer part of \<open>interp/value.h\<close> and \<open>interp/ops.cpp\<close>: values of integer types with
  their readers, the integer branches of \<open>arith\<close> and \<open>unary_scalar\<close>, the comparisons and the
  conversions between integers, characters and integer-backed enums. A value keeps the fields these
  read. \<open>fail\<close> marks the run as trapped with its message: here \<open>Inl\<close> the message.
\<close>

record scalar =
  v_kind :: type_kind
  v_type :: "ty option"
  v_u :: "64 word"

definition v_int :: "ty option \<Rightarrow> 64 word \<Rightarrow> scalar" where
  "v_int t u =
     \<lparr>v_kind = (case t of None \<Rightarrow> TyI64 | Some t \<Rightarrow> ty_kind t), v_type = t,
      v_u = (if is_int t then u AND int_mask (int_bits t) else u)\<rparr>"

definition bits_of :: "scalar \<Rightarrow> ty option \<Rightarrow> int" where
  "bits_of v t =
     (let bits = int_bits (if t \<noteq> None then t else v_type v) in if bits = 0 then 64 else bits)"

definition as_s :: "scalar \<Rightarrow> ty option \<Rightarrow> 64 word" where
  "as_s v t =
     (let bits = bits_of v t; u = v_u v AND int_mask bits
      in if bits < 64 \<and> u AND push_bit (nat (bits - 1)) 1 \<noteq> 0 then u OR NOT (int_mask bits) else u)"

definition as_u :: "scalar \<Rightarrow> ty option \<Rightarrow> 64 word" where
  "as_u v t = v_u v AND int_mask (bits_of v t)"

subsection \<open>Binary operators\<close>

definition unsupported_binary :: string where
  "unsupported_binary = ''unsupported binary operator''"

text \<open>The test \<open>ov || r < int_min(t) || r > int_max_signed(bits)\<close>.\<close>

definition leaves_signed :: "bool \<times> 64 word \<Rightarrow> ty option \<Rightarrow> bool" where
  "leaves_signed r t \<longleftrightarrow>
     fst r \<or> sless (snd r) (int_min t) \<or> sless (int_max_signed (int_bits t)) (snd r)"

definition saturated :: "bool \<times> 64 word \<Rightarrow> bool \<Rightarrow> ty option \<Rightarrow> 64 word" where
  "saturated r low t =
     (if leaves_signed r t then (if low then int_min t else int_max_signed (int_bits t)) else snd r)"

definition arith_signed :: "ty option \<Rightarrow> scalar \<Rightarrow> scalar \<Rightarrow> token_kind \<Rightarrow> scalar trap" where
  "arith_signed t L R op =
     (let a = as_s L t; b = as_s R t
      in if op \<in> {Plus, PlusQuestion, Minus, MinusQuestion, Star, StarQuestion} then
           (let r = (if op = Plus \<or> op = PlusQuestion then add_overflow a b
                     else if op = Minus \<or> op = MinusQuestion then sub_overflow a b
                     else mul_overflow a b)
            in if leaves_signed r t then Inl overflow_message else Inr (v_int t (snd r)))
         else if op = PlusPercent then Inr (v_int t (a + b))
         else if op = MinusPercent then Inr (v_int t (a - b))
         else if op = StarPercent then Inr (v_int t (a * b))
         else if op = PlusPipe then Inr (v_int t (saturated (add_overflow a b) (sless a 0) t))
         else if op = MinusPipe then Inr (v_int t (saturated (sub_overflow a b) (sless a 0) t))
         else if op = StarPipe then Inr (v_int t (saturated (mul_overflow a b) (sless a 0 \<noteq> sless b 0) t))
         else if op = SlashSlash \<or> op = Percent then
           (if b = 0 then Inl zero_message
            else if a = int_min t \<and> b = - 1 then Inl overflow_message
            else Inr (v_int t (if op = SlashSlash then sdiv_word a b else smod_word a b)))
         else Inl unsupported_binary)"

definition arith_unsigned :: "ty option \<Rightarrow> scalar \<Rightarrow> scalar \<Rightarrow> token_kind \<Rightarrow> scalar trap" where
  "arith_unsigned t L R op =
     (let a = as_u L t; b = as_u R t; bits = int_bits t; maxv = int_max_unsigned bits;
          sum_over = (if 64 \<le> bits then - 1 - b < a else maxv < a + b);
          product_over = (b \<noteq> 0 \<and> maxv div b < a)
      in if op = Plus \<or> op = PlusQuestion then
           (if sum_over then Inl overflow_message else Inr (v_int t (a + b)))
         else if op = Minus \<or> op = MinusQuestion then
           (if a < b then Inl overflow_message else Inr (v_int t (a - b)))
         else if op = Star \<or> op = StarQuestion then
           (if product_over then Inl overflow_message else Inr (v_int t (a * b)))
         else if op = PlusPercent then Inr (v_int t (a + b))
         else if op = MinusPercent then Inr (v_int t (a - b))
         else if op = StarPercent then Inr (v_int t (a * b))
         else if op = PlusPipe then Inr (v_int t (if sum_over then maxv else a + b))
         else if op = MinusPipe then Inr (v_int t (if a < b then 0 else a - b))
         else if op = StarPipe then Inr (v_int t (if product_over then maxv else a * b))
         else if op = SlashSlash \<or> op = Percent then
           (if b = 0 then Inl zero_message
            else Inr (v_int t (if op = SlashSlash then a div b else a mod b)))
         else Inl unsupported_binary)"

text \<open>\<open>arith\<close> past its branch for floats.\<close>

definition arith_int :: "ty option \<Rightarrow> scalar \<Rightarrow> scalar \<Rightarrow> token_kind \<Rightarrow> scalar trap" where
  "arith_int t L R op =
     (if op = Amp then Inr (v_int t (as_u L t AND as_u R t))
      else if op = Pipe then Inr (v_int t (as_u L t OR as_u R t))
      else if op = Caret then Inr (v_int t (as_u L t XOR as_u R t))
      else if op = LtLt \<or> op = GtGt then
        (let n = as_u R (if v_type R \<noteq> None then v_type R else t)
         in if word_of_int (int_bits t) \<le> n then Inl shift_message
            else if op = LtLt then Inr (v_int t (push_bit (unat n) (as_u L t)))
            else if is_signed_int t then Inr (v_int t (signed_drop_bit (unat n) (as_s L t)))
            else Inr (v_int t (drop_bit (unat n) (as_u L t))))
      else if is_signed_int t then arith_signed t L R op
      else arith_unsigned t L R op)"

text \<open>The optional operators of \<open>eval_binary\<close>: a trap is undone and gives \<open>none\<close>.\<close>

definition eval_optional :: "ty option \<Rightarrow> scalar \<Rightarrow> scalar \<Rightarrow> token_kind \<Rightarrow> scalar option" where
  "eval_optional t L R op =
     (case arith_int t L R op of Inl _ \<Rightarrow> None | Inr r \<Rightarrow> Some r)"

subsection \<open>Unary operators\<close>

definition unary_int :: "ty option \<Rightarrow> scalar \<Rightarrow> token_kind \<Rightarrow> scalar trap" where
  "unary_int t x op =
     (if op = Tilde then
        (let bits_t = (if is_int_enum t then elem_of t else t); u = NOT (as_u x bits_t)
         in Inr (if is_int_enum t
                 then \<lparr>v_kind = TyEnum, v_type = t, v_u = u AND int_mask (int_bits bits_t)\<rparr>
                 else v_int t u))
      else if op = MinusPercent then
        Inr (v_int t (if is_signed_int t then 0 - as_s x t else 0 - as_u x t))
      else if op = Minus then
        (let a = as_s x t in if a = int_min t then Inl overflow_message else Inr (v_int t (- a)))
      else Inl ''unsupported unary operator'')"

subsection \<open>Comparison\<close>

definition cmp_int :: "scalar \<Rightarrow> scalar \<Rightarrow> ty option \<Rightarrow> token_kind \<Rightarrow> bool" where
  "cmp_int L R t op =
     (let r = (if t \<noteq> None then t else v_type L); q = (if t \<noteq> None then t else v_type R)
      in if is_unsigned_int t \<or> is_unsigned_int (v_type L) then
           (let a = as_u L r; b = as_u R q
            in if op = Lt then a < b else if op = LtEq then a \<le> b
               else if op = Gt then b < a else b \<le> a)
         else
           (let a = sint (as_s L r); b = sint (as_s R q)
            in if op = Lt then a < b else if op = LtEq then a \<le> b
               else if op = Gt then b < a else b \<le> a))"

subsection \<open>Conversions\<close>

definition fits_destination :: "bool \<Rightarrow> 64 word \<Rightarrow> ty option \<Rightarrow> bool" where
  "fits_destination negative bits dest \<longleftrightarrow>
     (if of_kind (\<lambda>k. k = TyChar) dest
      then \<not> negative \<and> bits \<le> 0x10FFFF \<and> \<not> (0xD800 \<le> bits \<and> bits \<le> 0xDFFF)
      else if is_signed_int dest then
        (if negative then \<not> sless bits (int_min dest) else bits \<le> int_max_signed (int_bits dest))
      else \<not> negative \<and> bits \<le> int_max_unsigned (int_bits dest))"

text \<open>The branch of \<open>eval_conv\<close> from an integer to an integer or a character.\<close>

definition conv_int :: "scalar \<Rightarrow> ty option \<Rightarrow> ty option \<Rightarrow> bool \<Rightarrow> scalar trap" where
  "conv_int x src dest check =
     (let negative = is_signed_int src \<and> sless (as_s x src) 0;
          bits = (if is_signed_int src then as_s x src else as_u x src)
      in if check \<and> \<not> fits_destination negative bits dest then Inl range_message
         else Inr (v_int dest (if of_kind (\<lambda>k. k = TyChar) dest then bits AND 0xFFFFFFFF else bits)))"

text \<open>The branch from a character to an integer.\<close>

definition conv_char :: "scalar \<Rightarrow> ty option \<Rightarrow> bool \<Rightarrow> scalar trap" where
  "conv_char x dest check =
     (if check \<and> is_signed_int dest \<and> int_max_signed (int_bits dest) < v_u x then Inl range_message
      else if check \<and> is_unsigned_int dest \<and> int_max_unsigned (int_bits dest) < v_u x then Inl range_message
      else Inr (v_int dest (v_u x)))"

text \<open>The branch from an integer-backed enum to an integer.\<close>

definition conv_enum_int :: "scalar \<Rightarrow> ty option \<Rightarrow> ty option \<Rightarrow> scalar" where
  "conv_enum_int x src dest = v_int dest (as_u x (if elem_of src \<noteq> None then elem_of src else dest))"

text \<open>The branch from an integer to an integer-backed enum, over the declaration's members.\<close>

fun case_listed :: "type_member list \<Rightarrow> 64 word \<Rightarrow> 64 word \<Rightarrow> 64 word \<Rightarrow> bool" where
  "case_listed [] next low u = False"
| "case_listed (c # cs) next low u =
     (if tm_kind c \<noteq> NEnumCase then case_listed cs next low u
      else let v = (case tm_cached c of Some v \<Rightarrow> v | None \<Rightarrow> next)
           in if v AND low = u AND low then True else case_listed cs (v + 1) low u)"

definition conv_int_enum :: "decls \<Rightarrow> scalar \<Rightarrow> ty option \<Rightarrow> ty option \<Rightarrow> bool \<Rightarrow> scalar trap" where
  "conv_int_enum D x src dest check =
     (let u = as_u x src; low = int_mask (int_bits (elem_of dest))
      in case decl_of D (the dest) of
           Some d \<Rightarrow> if check \<and> \<not> case_listed (td_body d) 0 low u then Inl ''invalid enum value''
                     else Inr \<lparr>v_kind = TyEnum, v_type = dest, v_u = u\<rparr>
         | None \<Rightarrow> Inr \<lparr>v_kind = TyEnum, v_type = dest, v_u = u\<rparr>)"

subsection \<open>Hashing\<close>

definition mix64 :: "64 word \<Rightarrow> 64 word \<Rightarrow> 64 word" where
  "mix64 h x = (let h = h XOR x; h = h * 0x9E3779B97F4A7C15 in h XOR drop_bit 32 h)"

text \<open>The branch of \<open>hash_value\<close> for text, from the seed.\<close>

definition hash_text :: "64 word \<Rightarrow> bytes \<Rightarrow> 64 word" where
  "hash_text seed s =
     mix64 (fold (\<lambda>c h. mix64 h (word_of_nat (byte_value c))) s seed) (word_of_nat (length s))"

end
