(* ===== verification/EmitOps.thy ===== *)
theory EmitOps
  imports Cgen IntOps
begin

section \<open>The C of integer operators\<close>

text \<open>
  The scalar part of \<open>emit/expr.cpp\<close> and of the assignment in \<open>emit/stmt.cpp\<close>: which runtime helper
  an operator calls and the text of the call. \<open>at_file_scope\<close> is the emitter's flag.
\<close>

definition arith_helper :: "token_kind \<Rightarrow> string option" where
  "arith_helper op =
     map_of [(Plus, ''add''), (Minus, ''sub''), (Star, ''mul''), (SlashSlash, ''div''), (Percent, ''mod''),
       (PlusPercent, ''addw''), (MinusPercent, ''subw''), (StarPercent, ''mulw''),
       (PlusPipe, ''adds''), (MinusPipe, ''subs''), (StarPipe, ''muls''), (LtLt, ''shl''), (GtGt, ''shr'')] op"

definition helper_name :: "string \<Rightarrow> ty option \<Rightarrow> string" where
  "helper_name name t = ''lb_'' @ name @ (if is_signed_int t then ''_s'' else ''_u'')"

definition emit_helper :: "decls \<Rightarrow> string \<Rightarrow> ty option \<Rightarrow> string \<Rightarrow> string \<Rightarrow> string" where
  "emit_helper D name t L R =
     down_cast D t (helper_name name t @ ''('' @ word_cast t L @ '', '' @ word_cast t R @ '', '' @ bits_lit t @ '')'')"

definition constant_operator :: "token_kind \<Rightarrow> string option" where
  "constant_operator op =
     (if op \<in> {Plus, PlusPercent, PlusPipe} then Some ''+''
      else if op \<in> {Minus, MinusPercent, MinusPipe} then Some ''-''
      else if op \<in> {Star, StarPercent, StarPipe} then Some ''*''
      else if op = SlashSlash then Some ''/''
      else if op = Percent then Some ''%''
      else if op = LtLt then Some ''<<''
      else if op = GtGt then Some ''>>''
      else None)"

definition emit_arith :: "decls \<Rightarrow> bool \<Rightarrow> ty option \<Rightarrow> token_kind \<Rightarrow> string \<Rightarrow> string \<Rightarrow> string" where
  "emit_arith D at_file_scope t op L R =
     (if is_float t then
        ''('' @ L @ '' '' @ (if op = Plus then ''+'' else if op = Minus then ''-'' else if op = Star then ''*'' else ''/'')
          @ '' '' @ R @ '')''
      else if op = Amp \<or> op = Pipe \<or> op = Caret then
        down_cast D t (''('' @ L @ '' '' @ (if op = Amp then ''&'' else if op = Pipe then ''|'' else ''^'') @ '' '' @ R @ '')'')
      else case (if at_file_scope then constant_operator op else None) of
        Some cop \<Rightarrow> ''(('' @ c_type_ref D t @ '')('' @ L @ '' '' @ cop @ '' '' @ R @ ''))''
      | None \<Rightarrow> (case arith_helper op of None \<Rightarrow> ''0'' | Some h \<Rightarrow> emit_helper D h t L R))"

definition emit_unary_scalar :: "decls \<Rightarrow> bool \<Rightarrow> ty option \<Rightarrow> token_kind \<Rightarrow> string \<Rightarrow> string" where
  "emit_unary_scalar D at_file_scope t op x =
     (if op = Tilde then
        (if is_unsigned_int t \<and> \<not> at_file_scope
         then down_cast D t (''lb_not_u('' @ word_cast t x @ '', '' @ bits_lit t @ '')'')
         else down_cast D t (''~('' @ x @ '')''))
      else if is_float t then ''(-('' @ x @ ''))''
      else if at_file_scope \<and> (op = Minus \<or> op = MinusPercent) then down_cast D t (''-('' @ x @ '')'')
      else if op = MinusPercent then
        down_cast D t ((if is_signed_int t then ''lb_negw_s'' else ''lb_negw_u'') @ ''('' @ word_cast t x @ '', '' @ bits_lit t @ '')'')
      else if op = Minus then down_cast D t (''lb_neg_s('' @ word_cast t x @ '', '' @ bits_lit t @ '')'')
      else ''0'')"

text \<open>The optional operators of \<open>emit_binary_values\<close>; \<open>num\<close> is the number of the temporaries.\<close>

definition optional_helper :: "token_kind \<Rightarrow> string" where
  "optional_helper op = (if op = PlusQuestion then ''qadd'' else if op = MinusQuestion then ''qsub'' else ''qmul'')"

definition emit_optional :: "decls \<Rightarrow> ty option \<Rightarrow> token_kind \<Rightarrow> nat \<Rightarrow> string \<Rightarrow> string \<Rightarrow> string" where
  "emit_optional D result op num L R =
     (let et = (if is_opt result then elem_of result else result);
          h = helper_name (optional_helper op) et;
          c = ''_lb_qo'' @ to_string_nat num; r = ''_lb_qr'' @ to_string_nat num;
          oty = (if is_signed_int et then ''int64_t'' else ''uint64_t'')
      in ''({ '' @ oty @ '' '' @ c @ ''; '' @ opt_c_name D result @ '' '' @ r @ ''; '' @
         r @ ''.present = '' @ h @ ''('' @ word_cast et L @ '', '' @ word_cast et R @ '', '' @ bits_lit et @ '', &'' @ c @ ''); '' @
         r @ ''.value = ('' @ c_type_ref D et @ '')('' @ c @ ''); '' @ r @ ''; })'')"

text \<open>The ordered comparison of two numbers: both operands are cast to the left one's type.\<close>

definition emit_compare :: "decls \<Rightarrow> ty option \<Rightarrow> token_kind \<Rightarrow> string \<Rightarrow> string \<Rightarrow> string" where
  "emit_compare D ct op L R =
     (let cty = (if ct \<noteq> None then c_type_ref D ct else ''int64_t'');
          a = ''(('' @ cty @ '')('' @ L @ ''))''; b = ''(('' @ cty @ '')('' @ R @ ''))'';
          cop = (if op = Lt then ''<'' else if op = LtEq then ''<='' else if op = Gt then ''>'' else ''>='')
      in ''('' @ a @ '' '' @ cop @ '' '' @ b @ '')'')"

subsection \<open>Compound assignment\<close>

text \<open>The operator a compound assignment applies: the if-chain of \<open>emit_stmt\<close>, which starts at \<open>Plus\<close>.\<close>

definition assign_operator :: "token_kind \<Rightarrow> token_kind" where
  "assign_operator op =
     (case map_of [(MinusEq, Minus), (StarEq, Star), (SlashEq, Slash), (SlashSlashEq, SlashSlash), (PercentEq, Percent),
        (PlusPercentEq, PlusPercent), (MinusPercentEq, MinusPercent), (StarPercentEq, StarPercent),
        (PlusPipeEq, PlusPipe), (MinusPipeEq, MinusPipe), (StarPipeEq, StarPipe)] op of
        None \<Rightarrow> Plus | Some p \<Rightarrow> p)"

definition emit_atomic_assign :: "token_kind \<Rightarrow> string \<Rightarrow> string \<Rightarrow> string" where
  "emit_atomic_assign op dst rhs =
     (case map_of [(token_kind.Eq, '' = ''), (PlusEq, '' += ''), (MinusEq, '' -= ''), (AmpEq, '' &= ''),
        (PipeEq, '' |= ''), (CaretEq, '' ^= '')] op of
        None \<Rightarrow> [] | Some sign \<Rightarrow> dst @ sign @ rhs @ '';'')"

definition emit_assign :: "decls \<Rightarrow> ty option \<Rightarrow> token_kind \<Rightarrow> string \<Rightarrow> string \<Rightarrow> string" where
  "emit_assign D t op dst rhs =
     (if is_atomic t then emit_atomic_assign op dst rhs
      else if op = token_kind.Eq then dst @ '' = '' @ rhs @ '';''
      else if op = AmpEq \<or> op = PipeEq \<or> op = CaretEq then
        dst @ '' = '' @ dst @ '' '' @ (if op = AmpEq then ''&'' else if op = PipeEq then ''|'' else ''^'') @ '' ('' @ rhs @ '');''
      else if op = LtLtEq \<or> op = GtGtEq then
        dst @ '' = '' @ emit_helper D (if op = LtLtEq then ''shl'' else ''shr'') t dst rhs @ '';''
      else let p = assign_operator op in
        if p = Slash then dst @ '' = '' @ dst @ '' / '' @ rhs @ '';''
        else dst @ '' = '' @ emit_helper D (case arith_helper p of None \<Rightarrow> ''add'' | Some h \<Rightarrow> h) t dst rhs @ '';'')"

subsection \<open>Conversions\<close>

text \<open>The branch of \<open>emit_conv\<close> between integers and characters.\<close>

definition is_char :: "ty option \<Rightarrow> bool" where "is_char = of_kind (\<lambda>k. k = TyChar)"

definition conv_bits :: "ty option \<Rightarrow> int" where
  "conv_bits t = (if is_char t then 32 else int_bits t)"

definition conv_sign :: "ty option \<Rightarrow> bool" where
  "conv_sign t \<longleftrightarrow> \<not> is_char t \<and> is_signed_int t"

definition emit_conv_int :: "decls \<Rightarrow> bool \<Rightarrow> ty option \<Rightarrow> ty option \<Rightarrow> bool \<Rightarrow> string \<Rightarrow> string" where
  "emit_conv_int D at_file_scope st dest check e =
     (let mode = (if check then ''0'' else ''1''); flag = (\<lambda>b. if b then ''1'' else ''0'')
      in if at_file_scope \<and> \<not> check \<and> \<not> is_char st \<and> \<not> is_char dest then
           ''(('' @ c_type_ref D dest @ '')('' @ e @ ''))''
         else let call = (if conv_sign st then ''lb_conv_s'' else ''lb_conv_u'') @ ''('' @ word_cast st e @ '', '' @
                to_string_int (conv_bits st) @ '', '' @ flag (conv_sign st) @ '', '' @
                to_string_int (conv_bits dest) @ '', '' @ flag (conv_sign dest) @ '', '' @ mode @ '')''
              in if is_char dest then ''lb_to_char('' @ call @ '', '' @ mode @ '')'' else down_cast D dest call)"

fun enum_tests :: "decls \<Rightarrow> ty option \<Rightarrow> type_member list \<Rightarrow> 64 word \<Rightarrow> string list" where
  "enum_tests D dest [] next = []"
| "enum_tests D dest (c # cs) next =
     (if tm_kind c \<noteq> NEnumCase then enum_tests D dest cs next
      else let v = (case tm_cached c of Some v \<Rightarrow> v | None \<Rightarrow> next)
           in (''_lb_e == ('' @ c_type_ref D dest @ '')'' @ to_string_nat (unat v) @ ''ull'') # enum_tests D dest cs (v + 1))"

fun disjoined :: "string list \<Rightarrow> string" where
  "disjoined [] = ''0''"
| "disjoined [s] = s"
| "disjoined (s # ss) = s @ '' || '' @ disjoined ss"

definition emit_enum_check :: "decls \<Rightarrow> ty option \<Rightarrow> string \<Rightarrow> string" where
  "emit_enum_check D dest e =
     (let ct = c_type_ref D dest;
          body = (case dest of None \<Rightarrow> [] | Some t \<Rightarrow> (case decl_of D t of None \<Rightarrow> [] | Some d \<Rightarrow> td_body d))
      in ''({ '' @ ct @ '' _lb_e = ('' @ ct @ '')('' @ e @ ''); if (!('' @ disjoined (enum_tests D dest body 0) @
         '')) lb_trap('' @ [dquote] @ ''invalid enum value'' @ [dquote] @ ''); _lb_e; })'')"

end
