(* ===== verification/RtIntLaws.thy ===== *)
theory RtIntLaws
  imports RtInt
begin

section \<open>What the runtime's integers compute\<close>

text \<open>
  The value an operand has at a width, and the exact result of every operation in terms of it:
  checked and optional operations give the integer result or report that it leaves the type,
  wrapping ones reduce it, saturating ones clamp it.
\<close>

subsection \<open>Values at a width\<close>

definition value_u :: "int \<Rightarrow> 64 word \<Rightarrow> int" where
  "value_u bits a = take_bit (nat bits) (uint a)"

definition value_s :: "int \<Rightarrow> 64 word \<Rightarrow> int" where
  "value_s bits a = signed_take_bit (nat bits - 1) (uint a)"

definition min_s :: "int \<Rightarrow> int" where "min_s bits = - (2 ^ (nat bits - 1))"
definition max_s :: "int \<Rightarrow> int" where "max_s bits = 2 ^ (nat bits - 1) - 1"
definition max_u :: "int \<Rightarrow> int" where "max_u bits = 2 ^ nat bits - 1"

definition width :: "int \<Rightarrow> bool" where
  "width bits \<longleftrightarrow> 0 < bits \<and> bits \<le> 64"

lemma widthE: "width bits \<Longrightarrow> (\<And>k. bits = int (Suc k) \<Longrightarrow> k < 64 \<Longrightarrow> P) \<Longrightarrow> P"
  unfolding width_def by (metis Suc_le_eq int_one_le_iff_zero_less of_nat_le_iff of_nat_numeral zero_less_imp_eq_int gr0_implies_Suc of_nat_0_less_iff)

lemma mask_bits_mask: "width bits \<Longrightarrow> mask_bits bits = mask (nat bits)"
  by (auto simp: mask_bits_def width_def mask_eq_decr_exp push_bit_of_1)

lemma zext_take_bit: "width bits \<Longrightarrow> zext a bits = take_bit (nat bits) a"
  by (simp add: zext_def mask_bits_mask take_bit_eq_mask)

lemma uint_zext: "width bits \<Longrightarrow> uint (zext a bits) = value_u bits a"
  by (simp add: zext_take_bit value_u_def unsigned_take_bit_eq)

lemma sext_signed_take_bit: "width bits \<Longrightarrow> sext a bits = signed_take_bit (nat bits - 1) a"
proof (erule widthE)
  fix k assume k: "bits = int (Suc k)" "k < 64"
  show "sext a bits = signed_take_bit (nat bits - 1) a"
  proof (cases "k = 63")
    case True
    have "n < 64 \<Longrightarrow> min n 63 = n" for n :: nat by simp
    with True show ?thesis using k
      by (intro bit_word_eqI) (simp add: sext_def bit_signed_take_bit_iff)
  next
    case False
    have m: "mask_bits bits = mask (Suc k)" using mask_bits_mask[of bits] k by (simp add: width_def nat_add_distrib)
    have t: "(a AND mask (Suc k)) AND push_bit k 1 \<noteq> 0 \<longleftrightarrow> bit a k"
      using k by (simp only: bit_iff_and_push_bit_not_eq_0[symmetric] bit_and_iff bit_mask_iff) simp
    have n: "nat bits = Suc k" "\<not> bits \<le> 0" "\<not> 64 \<le> bits" "nat (bits - 1) = k" using k False by auto
    have "sext a bits = (if bit a k then (a AND mask (Suc k)) OR NOT (mask (Suc k)) else a AND mask (Suc k))"
      using n by (simp only: sext_def m t Let_def if_False n)
    then show ?thesis using k by (intro bit_word_eqI) (auto simp: nat_add_distrib bit_simps min_def not_less less_Suc_eq)
  qed
qed

lemma sint_sext: "width bits \<Longrightarrow> sint (sext a bits) = value_s bits a"
  by (erule widthE, rule bit_eqI)
    (auto simp: sext_signed_take_bit width_def value_s_def bit_simps min_def nat_add_distrib split: if_splits)

subsection \<open>Ranges\<close>

lemma value_s_range: "width bits \<Longrightarrow> min_s bits \<le> value_s bits a \<and> value_s bits a \<le> max_s bits"
  using signed_take_bit_int_less_exp[of "nat bits - 1" "uint a"]
    signed_take_bit_int_greater_eq_minus_exp[of "nat bits - 1" "uint a"]
  by (simp add: value_s_def min_s_def max_s_def)

lemma value_u_range: "0 \<le> value_u bits a \<and> value_u bits a \<le> max_u bits"
  using take_bit_int_less_exp[of "nat bits" "uint a"] by (simp add: value_u_def max_u_def)

text \<open>Every range lies in that of 64 bits.\<close>

lemma range_64:
  assumes "width bits"
  shows "- (2 ^ 63) \<le> min_s bits" "max_s bits < 2 ^ 63" "max_u bits < 2 ^ 64" "min_s bits < 0" "0 \<le> max_s bits" "0 < max_u bits"
proof -
  have "nat bits - 1 \<le> 63" "nat bits \<le> 64" "0 < nat bits" using assms by (auto simp: width_def)
  then have "(2::int) ^ (nat bits - 1) \<le> 2 ^ 63" "(2::int) ^ nat bits \<le> 2 ^ 64" "(1::int) < 2 ^ nat bits"
    by (intro power_increasing one_less_power; simp)+
  then show "- (2 ^ 63) \<le> min_s bits" "max_s bits < 2 ^ 63" "max_u bits < 2 ^ 64" "min_s bits < 0" "0 \<le> max_s bits" "0 < max_u bits"
    by (simp_all add: min_s_def max_s_def max_u_def)
qed

lemma sint_of_int: "- (2 ^ 63) \<le> e \<Longrightarrow> e < 2 ^ 63 \<Longrightarrow> sint (word_of_int e :: 64 word) = e"
  by (simp add: sint_sbintrunc' signed_take_bit_int_eq_self)

lemma uint_of_int: "0 \<le> e \<Longrightarrow> e < 2 ^ 64 \<Longrightarrow> uint (word_of_int e :: 64 word) = e"
  by (simp add: uint_word_of_int take_bit_int_eq_self)

lemma smin_word: "width bits \<Longrightarrow> smin bits = word_of_int (min_s bits)"
  by (auto simp: width_def smin_def min_s_def push_bit_of_1 nat_diff_distrib)

lemma smax_word: "width bits \<Longrightarrow> smax bits = word_of_int (max_s bits)"
  by (auto simp: width_def smax_def max_s_def push_bit_of_1 nat_diff_distrib)

lemma sint_smin: "width bits \<Longrightarrow> sint (smin bits) = min_s bits"
  using range_64[of bits] by (simp add: smin_word sint_of_int)

lemma sint_smax: "width bits \<Longrightarrow> sint (smax bits) = max_s bits"
  using range_64[of bits] by (simp add: smax_word sint_of_int)

lemma uint_smax: "width bits \<Longrightarrow> uint (smax bits) = max_s bits"
  using range_64[of bits] by (simp add: smax_word uint_of_int)

lemma uint_mask_bits: "width bits \<Longrightarrow> uint (mask_bits bits) = max_u bits"
proof -
  assume w: "width bits"
  then have "nat bits \<le> 64" by (simp add: width_def nat_le_iff)
  then have "min 64 (nat bits) = nat bits" by simp
  then have "uint (mask_bits bits) = mask (nat bits)" by (simp add: mask_bits_mask[OF w] uint_mask_eq)
  then show ?thesis by (simp add: max_u_def mask_eq_exp_minus_1)
qed

lemma uint_less_64: "uint (a :: 64 word) < 2 ^ 64"
  using uint_lt2p[of a] by simp

subsection \<open>Exact results\<close>

text \<open>The results of a checked and of an optional operation whose exact result is \<open>e\<close>.\<close>

definition fits_s :: "int \<Rightarrow> int \<Rightarrow> bool" where
  "fits_s bits e \<longleftrightarrow> min_s bits \<le> e \<and> e \<le> max_s bits"

definition in_u :: "int \<Rightarrow> int \<Rightarrow> bool" where
  "in_u bits e \<longleftrightarrow> 0 \<le> e \<and> e \<le> max_u bits"

definition clamp :: "int \<Rightarrow> int \<Rightarrow> int \<Rightarrow> int" where
  "clamp lo hi e = (if e < lo then lo else if hi < e then hi else e)"

lemma overflow_pairs:
  "add_overflow a b = (sint a + sint b \<noteq> sint (word_of_int (sint a + sint b) :: 64 word), word_of_int (sint a + sint b))"
  "sub_overflow a b = (sint a - sint b \<noteq> sint (word_of_int (sint a - sint b) :: 64 word), word_of_int (sint a - sint b))"
  "mul_overflow a b = (sint a * sint b \<noteq> sint (word_of_int (sint a * sint b) :: 64 word), word_of_int (sint a * sint b))"
  by (simp_all add: add_overflow_def sub_overflow_def mul_overflow_def)

lemma out_of_range_exact:
  assumes "width bits"
  shows "out_of_range (e \<noteq> sint (word_of_int e :: 64 word), word_of_int e) bits \<longleftrightarrow> \<not> fits_s bits e"
proof (cases "- (2 ^ 63) \<le> e \<and> e < 2 ^ 63")
  case True
  then show ?thesis using assms
    by (auto simp: out_of_range_def sless_def sint_of_int sint_smin sint_smax fits_s_def)
next
  case False
  then have "\<not> fits_s bits e" using range_64[OF assms] by (auto simp: fits_s_def)
  moreover have "e \<noteq> sint (word_of_int e :: 64 word)"
    using False sint_greater_eq[of "word_of_int e :: 64 word"] sint_less[of "word_of_int e :: 64 word"] by force
  ultimately show ?thesis by (simp add: out_of_range_def)
qed


definition checked :: "(int \<Rightarrow> bool) \<Rightarrow> int \<Rightarrow> 64 word trap" where
  "checked fits e = (if fits e then Inr (word_of_int e) else Inl overflow_message)"

definition fitting :: "(int \<Rightarrow> bool) \<Rightarrow> int \<Rightarrow> 64 word option" where
  "fitting fits e = (if fits e then Some (word_of_int e) else None)"

lemma signed_families:
  assumes "width bits"
  shows "lb_add_s a b bits = checked (fits_s bits) (value_s bits a + value_s bits b)"
    "lb_sub_s a b bits = checked (fits_s bits) (value_s bits a - value_s bits b)"
    "lb_mul_s a b bits = checked (fits_s bits) (value_s bits a * value_s bits b)"
    "lb_qadd_s a b bits = fitting (fits_s bits) (value_s bits a + value_s bits b)"
    "lb_qsub_s a b bits = fitting (fits_s bits) (value_s bits a - value_s bits b)"
    "lb_qmul_s a b bits = fitting (fits_s bits) (value_s bits a * value_s bits b)"
  by (simp_all add: lb_add_s_def lb_sub_s_def lb_mul_s_def lb_qadd_s_def lb_qsub_s_def lb_qmul_s_def overflow_pairs
      sint_sext[OF assms] out_of_range_exact[OF assms] checked_def fitting_def Let_def
      del: of_int_add of_int_diff of_int_mult)

lemma uint_add_exact:
  assumes "width bits" "bits < 64"
  shows "uint (zext a bits + zext b bits) = value_u bits a + value_u bits b"
proof -
  have "nat bits \<le> 63" using assms by (auto simp: width_def)
  then have "(2::int) ^ nat bits \<le> 2 ^ 63" by (intro power_increasing) simp_all
  then have "value_u bits a + value_u bits b < 2 ^ 64"
    using value_u_range[of bits a] value_u_range[of bits b] by (simp add: max_u_def)
  then show ?thesis using assms(1) by (subst uint_add_lem[THEN iffD1]) (simp_all add: uint_zext)
qed

lemma add_u_range:
  assumes "width bits"
  shows "(if 64 \<le> bits then - 1 - zext b bits < zext a bits else mask_bits bits < zext a bits + zext b bits) \<longleftrightarrow>
    \<not> in_u bits (value_u bits a + value_u bits b)"
    "zext a bits + zext b bits = word_of_int (value_u bits a + value_u bits b)"
proof -
  show "zext a bits + zext b bits = word_of_int (value_u bits a + value_u bits b)"
    by (metis assms uint_zext word_of_int_uint of_int_add)
  have lo: "0 \<le> value_u bits a + value_u bits b"
    using value_u_range[of bits a] value_u_range[of bits b] by simp
  show "(if 64 \<le> bits then - 1 - zext b bits < zext a bits else mask_bits bits < zext a bits + zext b bits) \<longleftrightarrow>
    \<not> in_u bits (value_u bits a + value_u bits b)"
  proof (cases "64 \<le> bits")
    case True
    then have b: "bits = 64" using assms by (simp add: width_def)
    have "uint (- 1 - zext b bits) = 2 ^ 64 - 1 - value_u bits b"
      using value_u_range[of bits b] uint_zext[OF assms, of b] b by (simp add: uint_word_ariths max_u_def mod_pos_pos_trivial)
    then show ?thesis using b lo uint_zext[OF assms, of a] by (auto simp: word_less_def in_u_def max_u_def)
  next
    case False
    then show ?thesis using lo by (auto simp: word_less_def uint_add_exact[OF assms] uint_mask_bits[OF assms] in_u_def)
  qed
qed

lemma sub_u_range:
  assumes "width bits"
  shows "zext a bits < zext b bits \<longleftrightarrow> \<not> in_u bits (value_u bits a - value_u bits b)"
    "zext a bits - zext b bits = word_of_int (value_u bits a - value_u bits b)"
  using value_u_range[of bits a] value_u_range[of bits b]
  by (auto simp: word_less_def uint_zext[OF assms] in_u_def) (metis assms uint_zext word_of_int_uint of_int_diff)

lemma quotient_test: "0 < (b::int) \<Longrightarrow> m div b < a \<longleftrightarrow> m < a * b"
proof -
  assume b: "0 < b"
  have m: "m = b * (m div b) + m mod b" and r: "0 \<le> m mod b" "m mod b < b" using b by simp_all
  show ?thesis
  proof
    assume "m div b < a"
    then have "b * (m div b + 1) \<le> b * a" using b by (intro mult_left_mono) simp_all
    then have "b * (m div b) + b \<le> a * b" by (simp add: algebra_simps)
    then show "m < a * b" using m r by linarith
  next
    assume l: "m < a * b"
    show "m div b < a"
    proof (rule ccontr)
      assume "\<not> m div b < a"
      then have "a * b \<le> b * (m div b)" using b by (simp add: mult.commute[of a b])
      then show False using l m r by linarith
    qed
  qed
qed

lemma mul_u_range:
  assumes "width bits"
  shows "zext b bits \<noteq> 0 \<and> mask_bits bits div zext b bits < zext a bits \<longleftrightarrow> \<not> in_u bits (value_u bits a * value_u bits b)"
    "in_u bits (value_u bits a * value_u bits b) \<Longrightarrow>
     zext (zext a bits * zext b bits) bits = word_of_int (value_u bits a * value_u bits b)"
proof -
  have z: "zext b bits = 0 \<longleftrightarrow> value_u bits b = 0" using uint_zext[OF assms, of b] by (metis uint_0_iff)
  have lo: "0 \<le> value_u bits a * value_u bits b"
    using value_u_range[of bits a] value_u_range[of bits b] by simp
  show "zext b bits \<noteq> 0 \<and> mask_bits bits div zext b bits < zext a bits \<longleftrightarrow> \<not> in_u bits (value_u bits a * value_u bits b)"
  proof (cases "value_u bits b = 0")
    case True
    then show ?thesis using range_64(6)[OF assms] by (simp add: z in_u_def)
  next
    case False
    then have "0 < value_u bits b" using value_u_range[of bits b] by simp
    from quotient_test[OF this] show ?thesis using False lo
      by (auto simp: z word_less_def uint_div_distrib uint_zext[OF assms] uint_mask_bits[OF assms] in_u_def)
  qed
  assume r: "in_u bits (value_u bits a * value_u bits b)"
  have w: "zext a bits * zext b bits = word_of_int (value_u bits a * value_u bits b)"
    by (metis assms uint_zext word_of_int_uint of_int_mult)
  have "uint (zext (word_of_int (value_u bits a * value_u bits b)) bits) = value_u bits a * value_u bits b"
    using r range_64(3)[OF assms]
    by (simp add: uint_zext[OF assms] value_u_def[of bits "word_of_int _"] uint_of_int in_u_def max_u_def
        take_bit_int_eq_self del: of_int_mult)
  then show "zext (zext a bits * zext b bits) bits = word_of_int (value_u bits a * value_u bits b)"
    by (metis w word_of_int_uint)
qed


lemma if_checked: "(if \<not> fits e then Inl overflow_message else Inr (word_of_int e)) = checked fits e"
  by (simp add: checked_def)

lemma if_fitting: "(if \<not> fits e then None else Some (word_of_int e)) = fitting fits e"
  by (simp add: fitting_def)

lemma unsigned_families:
  assumes "width bits"
  shows "lb_add_u a b bits = checked (in_u bits) (value_u bits a + value_u bits b)"
    "lb_sub_u a b bits = checked (in_u bits) (value_u bits a - value_u bits b)"
    "lb_mul_u a b bits = checked (in_u bits) (value_u bits a * value_u bits b)"
    "lb_qadd_u a b bits = fitting (in_u bits) (value_u bits a + value_u bits b)"
    "lb_qsub_u a b bits = fitting (in_u bits) (value_u bits a - value_u bits b)"
    "lb_qmul_u a b bits = fitting (in_u bits) (value_u bits a * value_u bits b)"
proof -
  let ?over = "if 64 \<le> bits then - 1 - zext b bits < zext a bits else mask_bits bits < zext a bits + zext b bits"
  have "lb_add_u a b bits = (if ?over then Inl overflow_message else Inr (zext a bits + zext b bits))"
    "lb_qadd_u a b bits = (if ?over then None else Some (zext a bits + zext b bits))"
    by (simp_all add: lb_add_u_def lb_qadd_u_def Let_def)
  then show "lb_add_u a b bits = checked (in_u bits) (value_u bits a + value_u bits b)"
    "lb_qadd_u a b bits = fitting (in_u bits) (value_u bits a + value_u bits b)"
    by (simp_all only: add_u_range(1)[OF assms]) (simp_all only: add_u_range(2)[OF assms] if_checked if_fitting)
  show "lb_sub_u a b bits = checked (in_u bits) (value_u bits a - value_u bits b)"
    "lb_qsub_u a b bits = fitting (in_u bits) (value_u bits a - value_u bits b)"
    by (simp_all only: lb_sub_u_def lb_qsub_u_def Let_def sub_u_range[OF assms] if_checked if_fitting)
  show "lb_mul_u a b bits = checked (in_u bits) (value_u bits a * value_u bits b)"
    "lb_qmul_u a b bits = fitting (in_u bits) (value_u bits a * value_u bits b)"
    by (cases "in_u bits (value_u bits a * value_u bits b)";
        simp_all only: lb_mul_u_def lb_qmul_u_def Let_def mul_u_range[OF assms] checked_def fitting_def simp_thms if_True if_False)+
qed

lemma sext_word: "width bits \<Longrightarrow> sext a bits = word_of_int (value_s bits a)"
  by (simp add: sint_sext[symmetric])

lemma zext_word: "width bits \<Longrightarrow> zext a bits = word_of_int (value_u bits a)"
  using word_of_int_uint[of "zext a bits"] by (simp add: uint_zext)

lemma uint_take_bit: "uint (word_of_int e :: 64 word) = take_bit 64 e"
  by (simp add: uint_word_of_int take_bit_eq_mod)

lemma value_s_of_int: "width bits \<Longrightarrow> value_s bits (word_of_int e) = signed_take_bit (nat bits - 1) e"
  by (erule widthE, rule bit_eqI) (auto simp: value_s_def bit_simps min_def uint_take_bit nat_add_distrib)

lemma value_u_of_int: "width bits \<Longrightarrow> value_u bits (word_of_int e) = take_bit (nat bits) e"
  by (auto simp: value_u_def uint_take_bit take_bit_take_bit width_def min_def nat_le_iff)

lemma masked_sext: "width bits \<Longrightarrow> sext (a AND mask_bits bits) bits = sext a bits"
  by (simp add: sext_def Let_def and.assoc) (simp add: mask_bits_def width_def)

lemma value_s_masked: "width bits \<Longrightarrow> value_s bits (a AND mask_bits bits) = value_s bits a"
  by (metis sint_sext masked_sext)

lemma value_u_arith:
  assumes "width bits"
  shows "value_u bits (a + b) = take_bit (nat bits) (value_u bits a + value_u bits b)"
    "value_u bits (a - b) = take_bit (nat bits) (value_u bits a - value_u bits b)"
    "value_u bits (a * b) = take_bit (nat bits) (value_u bits a * value_u bits b)"
proof -
  have le: "nat bits \<le> 64" using assms by (simp add: width_def nat_le_iff)
  then show "value_u bits (a + b) = take_bit (nat bits) (value_u bits a + value_u bits b)"
    "value_u bits (a - b) = take_bit (nat bits) (value_u bits a - value_u bits b)"
    "value_u bits (a * b) = take_bit (nat bits) (value_u bits a * value_u bits b)"
    unfolding value_u_def uint_word_arith_bintrs
    by (simp_all add: take_bit_take_bit min_def take_bit_add take_bit_diff take_bit_mult)
qed

lemma wrapping_families:
  assumes "width bits"
  shows "lb_addw_s a b bits = word_of_int (signed_take_bit (nat bits - 1) (value_s bits a + value_s bits b))"
    "lb_subw_s a b bits = word_of_int (signed_take_bit (nat bits - 1) (value_s bits a - value_s bits b))"
    "lb_mulw_s a b bits = word_of_int (signed_take_bit (nat bits - 1) (value_s bits a * value_s bits b))"
    "lb_negw_s a bits = word_of_int (signed_take_bit (nat bits - 1) (- value_s bits a))"
    "lb_addw_u a b bits = word_of_int (take_bit (nat bits) (value_u bits a + value_u bits b))"
    "lb_subw_u a b bits = word_of_int (take_bit (nat bits) (value_u bits a - value_u bits b))"
    "lb_mulw_u a b bits = word_of_int (take_bit (nat bits) (value_u bits a * value_u bits b))"
    "lb_negw_u a bits = word_of_int (take_bit (nat bits) (- value_u bits a))"
  unfolding lb_addw_s_def lb_subw_s_def lb_mulw_s_def lb_negw_s_def lb_addw_u_def lb_subw_u_def lb_mulw_u_def
      lb_negw_u_def masked_sext[OF assms] sext_word[OF assms] zext_word[OF assms] diff_0
      value_u_arith[OF assms] of_int_add[symmetric] of_int_diff[symmetric] of_int_mult[symmetric] of_int_minus[symmetric]
      value_s_masked[OF assms] value_s_of_int[OF assms] value_u_of_int[OF assms]
  by (rule refl)+

subsection \<open>Division\<close>

text \<open>A truncated quotient leaves the type in one case only.\<close>

lemma sdiv_bounds:
  fixes a b :: int
  assumes "b \<noteq> 0"
  shows "0 < b \<Longrightarrow> min a 0 \<le> a sdiv b \<and> a sdiv b \<le> max a 0"
    "b < - 1 \<Longrightarrow> 2 * \<bar>a sdiv b\<bar> \<le> \<bar>a\<bar>"
proof -
  have t: "\<bar>a sdiv b\<bar> \<le> \<bar>a\<bar> div \<bar>b\<bar>" "0 \<le> \<bar>a\<bar> div \<bar>b\<bar>"
    by (simp_all add: signed_divide_int_def abs_mult sgn_if pos_imp_zdiv_nonneg_iff assms)
  have m: "(\<bar>a\<bar> div \<bar>b\<bar>) * \<bar>b\<bar> \<le> \<bar>a\<bar>"
  proof -
    have "0 \<le> \<bar>a\<bar> mod \<bar>b\<bar>" using assms by simp
    then show ?thesis using minus_mod_eq_div_mult[of "\<bar>a\<bar>" "\<bar>b\<bar>"] by linarith
  qed
  show "b < - 1 \<Longrightarrow> 2 * \<bar>a sdiv b\<bar> \<le> \<bar>a\<bar>"
  proof -
    assume "b < - 1"
    then have "(\<bar>a\<bar> div \<bar>b\<bar>) * 2 \<le> (\<bar>a\<bar> div \<bar>b\<bar>) * \<bar>b\<bar>" using t(2) by (intro mult_left_mono) simp_all
    then show ?thesis using t(1) m by linarith
  qed
  assume b: "0 < b"
  have "\<bar>a\<bar> div b \<le> \<bar>a\<bar>" using zdiv_mono2[of "\<bar>a\<bar>" 1 b] b by simp
  then show "min a 0 \<le> a sdiv b \<and> a sdiv b \<le> max a 0"
    using b t(2) by (auto simp: signed_divide_int_def sgn_if)
qed

lemma sdiv_fits:
  assumes "width bits" "value_s bits b \<noteq> 0"
  shows "fits_s bits (value_s bits a sdiv value_s bits b) \<longleftrightarrow>
    \<not> (value_s bits a = min_s bits \<and> value_s bits b = - 1)"
proof -
  let ?a = "value_s bits a" and ?b = "value_s bits b"
  have r: "min_s bits \<le> ?a" "?a \<le> max_s bits" "min_s bits \<le> ?b" "max_s bits = - min_s bits - 1" "min_s bits < 0"
    using value_s_range[OF assms(1), of a] value_s_range[OF assms(1), of b] range_64[OF assms(1)]
    by (auto simp: min_s_def max_s_def)
  consider "0 < ?b" | "?b = - 1" | "?b < - 1" using assms(2) by linarith
  then show ?thesis
  proof cases
    case 1
    then show ?thesis using sdiv_bounds(1)[OF assms(2) 1, of ?a] r by (auto simp: fits_s_def)
  next
    case 2
    then have "?a sdiv ?b = - ?a" by (simp add: signed_divide_int_def sgn_if)
    then show ?thesis using 2 r by (auto simp: fits_s_def)
  next
    case 3
    then show ?thesis using sdiv_bounds(2)[OF assms(2) 3, of ?a] r by (auto simp: fits_s_def)
  qed
qed

lemma sint_eq_iff: "(x :: 64 word) = y \<longleftrightarrow> sint x = sint y"
  by (auto intro: signed_word_eqI)

lemma value_s_eq_iff:
  assumes "width bits"
  shows "sext b bits = 0 \<longleftrightarrow> value_s bits b = 0" "sext b bits = - 1 \<longleftrightarrow> value_s bits b = - 1"
    "sext b bits = smin bits \<longleftrightarrow> value_s bits b = min_s bits"
  by (simp_all add: sint_eq_iff sint_sext[OF assms] sint_smin[OF assms])

lemma value_u_eq_0: "width bits \<Longrightarrow> zext b bits = 0 \<longleftrightarrow> value_u bits b = 0"
  by (metis uint_zext uint_0_iff)

lemma division_families:
  assumes "width bits"
  shows "lb_div_s a b bits = (if value_s bits b = 0 then Inl zero_message
      else checked (fits_s bits) (value_s bits a sdiv value_s bits b))"
    "lb_mod_s a b bits = (if value_s bits b = 0 then Inl zero_message
      else if fits_s bits (value_s bits a sdiv value_s bits b) then Inr (word_of_int (value_s bits a smod value_s bits b))
      else Inl overflow_message)"
    "lb_div_u a b bits = (if value_u bits b = 0 then Inl zero_message
      else Inr (word_of_int (value_u bits a div value_u bits b)))"
    "lb_mod_u a b bits = (if value_u bits b = 0 then Inl zero_message
      else Inr (word_of_int (value_u bits a mod value_u bits b)))"
  using sdiv_fits[OF assms, of b a]
  by (auto simp: lb_div_s_def lb_mod_s_def lb_div_u_def lb_mod_u_def Let_def value_s_eq_iff[OF assms]
      value_u_eq_0[OF assms] sdiv_word_def smod_word_def sint_sext[OF assms] checked_def word_div_def word_mod_def
      uint_zext[OF assms])

lemma negation_family:
  assumes "width bits"
  shows "lb_neg_s a bits = checked (fits_s bits) (- value_s bits a)"
proof -
  have "lb_neg_s a bits = (if value_s bits a = min_s bits then Inl overflow_message else Inr (- sext a bits))"
    by (simp add: lb_neg_s_def Let_def value_s_eq_iff[OF assms])
  then show ?thesis using value_s_range[OF assms, of a]
    by (auto simp: sext_word[OF assms] checked_def fits_s_def min_s_def max_s_def)
qed

subsection \<open>Saturation\<close>

lemma saturating_signed:
  assumes "width bits"
  shows "lb_adds_s a b bits = word_of_int (clamp (min_s bits) (max_s bits) (value_s bits a + value_s bits b))"
    "lb_subs_s a b bits = word_of_int (clamp (min_s bits) (max_s bits) (value_s bits a - value_s bits b))"
    "lb_muls_s a b bits = word_of_int (clamp (min_s bits) (max_s bits) (value_s bits a * value_s bits b))"
proof -
  let ?a = "value_s bits a" and ?b = "value_s bits b"
  have r: "min_s bits \<le> ?a" "?a \<le> max_s bits" "min_s bits \<le> ?b" "?b \<le> max_s bits" "min_s bits < 0" "0 \<le> max_s bits"
      "max_s bits = - min_s bits - 1"
    using value_s_range[OF assms, of a] value_s_range[OF assms, of b] range_64[OF assms]
    by (auto simp: min_s_def max_s_def)
  have neg: "sless (sext x bits) 0 \<longleftrightarrow> value_s bits x < 0" for x by (simp add: sless_def sint_sext[OF assms])
  have in_range: "fits_s bits e \<Longrightarrow> clamp (min_s bits) (max_s bits) e = e" for e by (simp add: fits_s_def clamp_def)
  have below: "\<not> fits_s bits e \<Longrightarrow> e < 0 \<Longrightarrow> clamp (min_s bits) (max_s bits) e = min_s bits" for e
    using r by (auto simp: fits_s_def clamp_def)
  have above: "\<not> fits_s bits e \<Longrightarrow> 0 \<le> e \<Longrightarrow> clamp (min_s bits) (max_s bits) e = max_s bits" for e
    using r by (auto simp: fits_s_def clamp_def)
  have sat: "\<not> fits_s bits e \<Longrightarrow> c \<longleftrightarrow> e < 0 \<Longrightarrow>
      (if c then smin bits else smax bits) = word_of_int (clamp (min_s bits) (max_s bits) e)" for c e
    using below[of e] above[of e] by (auto simp: smin_word[OF assms] smax_word[OF assms])
  note defs = Let_def neg overflow_pairs sint_sext[OF assms] out_of_range_exact[OF assms] snd_conv
  show "lb_adds_s a b bits = word_of_int (clamp (min_s bits) (max_s bits) (?a + ?b))"
  proof (cases "fits_s bits (?a + ?b)")
    case False
    then have "?a < 0 \<longleftrightarrow> ?a + ?b < 0" using r by (auto simp: fits_s_def)
    from sat[OF False this] show ?thesis using False by (simp only: lb_adds_s_def defs if_True simp_thms)
  qed (simp only: lb_adds_s_def defs in_range if_True if_False simp_thms)
  show "lb_subs_s a b bits = word_of_int (clamp (min_s bits) (max_s bits) (?a - ?b))"
  proof (cases "fits_s bits (?a - ?b)")
    case False
    then have "?a < 0 \<longleftrightarrow> ?a - ?b < 0" using r by (auto simp: fits_s_def)
    from sat[OF False this] show ?thesis using False by (simp only: lb_subs_s_def defs if_True simp_thms)
  qed (simp only: lb_subs_s_def defs in_range if_True if_False simp_thms)
  show "lb_muls_s a b bits = word_of_int (clamp (min_s bits) (max_s bits) (?a * ?b))"
  proof (cases "fits_s bits (?a * ?b)")
    case False
    then have "?a \<noteq> 0" "?b \<noteq> 0" using r by (auto simp: fits_s_def)
    then have "(?a < 0) \<noteq> (?b < 0) \<longleftrightarrow> ?a * ?b < 0" by (auto simp: mult_less_0_iff)
    from sat[OF False this] show ?thesis using False by (simp only: lb_muls_s_def defs if_True simp_thms)
  qed (simp only: lb_muls_s_def defs in_range if_True if_False simp_thms)
qed

lemma mask_bits_word: "width bits \<Longrightarrow> mask_bits bits = word_of_int (max_u bits)"
  using word_of_int_uint[of "mask_bits bits"] by (simp add: uint_mask_bits)

lemma saturating_unsigned:
  assumes "width bits"
  shows "lb_adds_u a b bits = word_of_int (clamp 0 (max_u bits) (value_u bits a + value_u bits b))"
    "lb_subs_u a b bits = word_of_int (clamp 0 (max_u bits) (value_u bits a - value_u bits b))"
    "lb_muls_u a b bits = word_of_int (clamp 0 (max_u bits) (value_u bits a * value_u bits b))"
proof -
  let ?a = "value_u bits a" and ?b = "value_u bits b"
  have r: "0 \<le> ?a" "?a \<le> max_u bits" "0 \<le> ?b" "?b \<le> max_u bits"
    using value_u_range[of bits a] value_u_range[of bits b] by simp_all
  have in_range: "in_u bits e \<Longrightarrow> clamp 0 (max_u bits) e = e" for e by (simp add: in_u_def clamp_def)
  have above: "\<not> in_u bits e \<Longrightarrow> 0 \<le> e \<Longrightarrow> clamp 0 (max_u bits) e = max_u bits" for e
    by (auto simp: in_u_def clamp_def)
  let ?over = "if 64 \<le> bits then - 1 - zext b bits < zext a bits else mask_bits bits < zext a bits + zext b bits"
  have "lb_adds_u a b bits = (if ?over then mask_bits bits else zext a bits + zext b bits)"
    by (simp add: lb_adds_u_def Let_def mask_bits_def)
  then have "lb_adds_u a b bits = (if \<not> in_u bits (?a + ?b) then mask_bits bits else zext a bits + zext b bits)"
    by (simp only: add_u_range(1)[OF assms])
  then show "lb_adds_u a b bits = word_of_int (clamp 0 (max_u bits) (?a + ?b))"
    using r above[of "?a + ?b"] in_range[of "?a + ?b"]
    by (cases "in_u bits (?a + ?b)") (simp_all only: add_u_range(2)[OF assms] mask_bits_word[OF assms] if_True if_False simp_thms add_nonneg_nonneg)
  have "\<not> in_u bits (?a - ?b) \<Longrightarrow> clamp 0 (max_u bits) (?a - ?b) = 0" using r by (auto simp: in_u_def clamp_def)
  then show "lb_subs_u a b bits = word_of_int (clamp 0 (max_u bits) (?a - ?b))"
    using in_range[of "?a - ?b"]
    by (cases "in_u bits (?a - ?b)") (simp_all only: lb_subs_u_def Let_def sub_u_range[OF assms] if_True if_False simp_thms of_int_0)
  have "lb_muls_u a b bits = (if \<not> in_u bits (?a * ?b) then mask_bits bits else zext (zext a bits * zext b bits) bits)"
    by (simp only: lb_muls_u_def Let_def mul_u_range(1)[OF assms])
  then show "lb_muls_u a b bits = word_of_int (clamp 0 (max_u bits) (?a * ?b))"
    using r above[of "?a * ?b"] in_range[of "?a * ?b"]
    by (cases "in_u bits (?a * ?b)")
      (simp_all only: mul_u_range(2)[OF assms] mask_bits_word[OF assms] if_True if_False simp_thms mult_nonneg_nonneg)
qed

subsection \<open>Shifts\<close>

lemma bad_count_iff: "width bits \<Longrightarrow> bad_count n bits \<longleftrightarrow> bits \<le> uint n"
  by (simp add: bad_count_def word_le_def uint_of_int width_def)

lemma push_word: "push_bit n (word_of_int e :: 64 word) = word_of_int (e * 2 ^ n)"
  by (simp add: push_bit_eq_mult)

lemma shift_families:
  assumes "width bits"
  shows "lb_shl_s a n bits = (if bits \<le> uint n then Inl shift_message
      else Inr (word_of_int (signed_take_bit (nat bits - 1) (value_s bits a * 2 ^ unat n))))"
    "lb_shl_u a n bits = (if bits \<le> uint n then Inl shift_message
      else Inr (word_of_int (take_bit (nat bits) (value_u bits a * 2 ^ unat n))))"
    "lb_shr_s a n bits = (if bits \<le> uint n then Inl shift_message
      else Inr (word_of_int (value_s bits a div 2 ^ unat n)))"
    "lb_shr_u a n bits = (if bits \<le> uint n then Inl shift_message
      else Inr (word_of_int (value_u bits a div 2 ^ unat n)))"
proof -
  show "lb_shl_s a n bits = (if bits \<le> uint n then Inl shift_message
      else Inr (word_of_int (signed_take_bit (nat bits - 1) (value_s bits a * 2 ^ unat n))))"
    unfolding lb_shl_s_def Let_def bad_count_iff[OF assms] masked_sext[OF assms]
    by (simp only: sext_word[OF assms] push_word value_s_of_int[OF assms])
  show "lb_shl_u a n bits = (if bits \<le> uint n then Inl shift_message
      else Inr (word_of_int (take_bit (nat bits) (value_u bits a * 2 ^ unat n))))"
    unfolding lb_shl_u_def Let_def bad_count_iff[OF assms]
    by (simp only: zext_word[OF assms] push_word value_u_of_int[OF assms])
  have s: "signed_drop_bit m (sext a bits) = word_of_int (value_s bits a div 2 ^ m)" for m
    using arg_cong[OF sint_signed_drop_bit_eq[of m "sext a bits"], of "word_of_int :: int \<Rightarrow> 64 word"]
    by (simp add: sint_sext[OF assms] drop_bit_eq_div)
  show "lb_shr_s a n bits = (if bits \<le> uint n then Inl shift_message
      else Inr (word_of_int (value_s bits a div 2 ^ unat n)))"
    by (simp only: lb_shr_s_def Let_def bad_count_iff[OF assms] s)
  have u: "drop_bit m (zext a bits) = word_of_int (value_u bits a div 2 ^ m)" for m
  proof -
    have "uint (drop_bit m (zext a bits)) = drop_bit m (uint (zext a bits))" by (rule bit_eqI) (simp add: bit_simps)
    then have "uint (drop_bit m (zext a bits)) = value_u bits a div 2 ^ m"
      by (simp only: uint_zext[OF assms] drop_bit_eq_div)
    then show ?thesis by (metis word_of_int_uint)
  qed
  show "lb_shr_u a n bits = (if bits \<le> uint n then Inl shift_message
      else Inr (word_of_int (value_u bits a div 2 ^ unat n)))"
    by (simp only: lb_shr_u_def Let_def bad_count_iff[OF assms] u)
qed

lemma value_u_not: "width bits \<Longrightarrow> value_u bits (NOT a) = max_u bits - value_u bits a"
proof -
  assume w: "width bits"
  have "value_u bits (- 1) = max_u bits"
    using value_u_of_int[OF w, of "- 1"] by (simp add: max_u_def take_bit_minus_one_eq_mask mask_eq_exp_minus_1)
  then have "value_u bits (NOT a) = take_bit (nat bits) (max_u bits - value_u bits a)"
    using value_u_arith(2)[OF w, of "- 1" a] by (simp add: not_eq_complement minus_diff_commute)
  also have "\<dots> = max_u bits - value_u bits a"
    using value_u_range[of bits a] by (intro take_bit_int_eq_self) (simp_all add: max_u_def)
  finally show ?thesis .
qed

lemma complement_family: "width bits \<Longrightarrow> lb_not_u a bits = word_of_int (max_u bits - value_u bits a)"
  by (simp only: lb_not_u_def zext_word value_u_not)

subsection \<open>Conversions\<close>

definition value_of :: "int \<Rightarrow> bool \<Rightarrow> 64 word \<Rightarrow> int" where
  "value_of bits sg a = (if sg then value_s bits a else value_u bits a)"

definition fits_type :: "int \<Rightarrow> bool \<Rightarrow> int \<Rightarrow> bool" where
  "fits_type bits sg e = (if sg then fits_s bits e else in_u bits e)"

definition wrap_to :: "int \<Rightarrow> bool \<Rightarrow> int \<Rightarrow> int" where
  "wrap_to bits sg e = (if sg then signed_take_bit (nat bits - 1) e else take_bit (nat bits) e)"

lemma source_bits:
  assumes "width fb"
  shows "ls_bits (source_of a fb fs) = word_of_int (value_of fb fs a)"
    "ls_negative (source_of a fb fs) \<longleftrightarrow> value_of fb fs a < 0"
  using value_u_range[of fb a]
  by (simp_all add: source_of_def Let_def value_of_def sext_word[OF assms] zext_word[OF assms] sless_def
      sint_sext[OF assms] flip: sext_word[OF assms])

lemma value_of_bounds:
  assumes "width fb"
  shows "- (2 ^ 63) \<le> value_of fb fs a" "value_of fb fs a < 2 ^ 64" "fs \<Longrightarrow> value_of fb fs a < 2 ^ 63"
  using value_s_range[OF assms, of a] value_u_range[of fb a] range_64[OF assms]
  by (auto simp: value_of_def)

lemma checked_conversion:
  assumes "width fb" "width tb"
  shows "checked_bits (source_of a fb fs) tb ts =
    (if fits_type tb ts (value_of fb fs a) then Inr (word_of_int (value_of fb fs a)) else Inl range_message)"
proof -
  let ?v = "value_of fb fs a"
  have neg: "?v < 0 \<Longrightarrow> fs" using value_u_range[of fb a] by (auto simp: value_of_def split: if_splits)
  have s: "?v < 0 \<Longrightarrow> sint (word_of_int ?v :: 64 word) = ?v"
    using value_of_bounds[OF assms(1), of fs a] neg by (intro sint_of_int) auto
  have u: "0 \<le> ?v \<Longrightarrow> uint (word_of_int ?v :: 64 word) = ?v"
    using value_of_bounds[OF assms(1), of fs a] by (intro uint_of_int) auto
  show ?thesis
    using s u range_64[OF assms(2)]
    by (auto simp: checked_bits_def Let_def source_bits[OF assms(1)] sless_def sint_smin[OF assms(2)] word_less_def
        word_le_def uint_smax[OF assms(2)] fits_u_def uint_mask_bits[OF assms(2)] fits_type_def fits_s_def in_u_def)
qed

lemma conversion_families:
  assumes "width fb" "width tb"
  shows "lb_conv_s a fb fs tb ts mode =
      (if mode \<noteq> 0 then Inr (word_of_int (wrap_to tb ts (value_of fb fs a)))
       else if fits_type tb ts (value_of fb fs a) then Inr (word_of_int (value_of fb fs a)) else Inl range_message)"
    "lb_conv_u a fb fs tb ts mode =
      (if mode \<noteq> 0 then Inr (word_of_int (take_bit (nat tb) (value_of fb fs a)))
       else if fits_type tb ts (value_of fb fs a) then Inr (word_of_int (value_of fb fs a)) else Inl range_message)"
proof -
  have z: "x AND mask_bits tb = word_of_int (value_u tb x)" for x
    using zext_word[OF assms(2), of x] by (simp only: zext_def)
  have "sext (x AND mask_bits tb) tb = word_of_int (value_s tb x)" for x
    using masked_sext[OF assms(2)] sext_word[OF assms(2)] by metis
  then show "lb_conv_s a fb fs tb ts mode =
      (if mode \<noteq> 0 then Inr (word_of_int (wrap_to tb ts (value_of fb fs a)))
       else if fits_type tb ts (value_of fb fs a) then Inr (word_of_int (value_of fb fs a)) else Inl range_message)"
    by (simp only: lb_conv_s_def Let_def checked_conversion[OF assms] source_bits[OF assms(1)] wrap_to_def z
        value_s_of_int[OF assms(2)] value_u_of_int[OF assms(2)]) simp
  show "lb_conv_u a fb fs tb ts mode =
      (if mode \<noteq> 0 then Inr (word_of_int (take_bit (nat tb) (value_of fb fs a)))
       else if fits_type tb ts (value_of fb fs a) then Inr (word_of_int (value_of fb fs a)) else Inl range_message)"
    by (simp only: lb_conv_u_def Let_def checked_conversion[OF assms] source_bits[OF assms(1)]
        zext_word[OF assms(2)] value_u_of_int[OF assms(2)]) simp
qed

subsection \<open>Properties\<close>

text \<open>
  C10: checked arithmetic is exact at every width from 1 to 64 bits: addition, subtraction,
  multiplication, negation and division give the mathematical result of the operands' values when it
  is a value of the type and trap otherwise, and no intermediate wrap-around is visible.
\<close>

theorem checked_arithmetic_exact:
  assumes "width bits"
  shows "lb_add_s a b bits = checked (fits_s bits) (value_s bits a + value_s bits b) \<and>
    lb_sub_s a b bits = checked (fits_s bits) (value_s bits a - value_s bits b) \<and>
    lb_mul_s a b bits = checked (fits_s bits) (value_s bits a * value_s bits b) \<and>
    lb_neg_s a bits = checked (fits_s bits) (- value_s bits a) \<and>
    (lb_div_s a b bits = (if value_s bits b = 0 then Inl zero_message
      else checked (fits_s bits) (value_s bits a sdiv value_s bits b))) \<and>
    lb_add_u a b bits = checked (in_u bits) (value_u bits a + value_u bits b) \<and>
    lb_sub_u a b bits = checked (in_u bits) (value_u bits a - value_u bits b) \<and>
    lb_mul_u a b bits = checked (in_u bits) (value_u bits a * value_u bits b)"
  by (intro conjI; rule signed_families[OF assms] unsigned_families[OF assms] negation_family[OF assms] division_families[OF assms])

lemma checked_arithmetic_exact_witness:
  "lb_mul_s 0xF0 0x0B 8 = Inl overflow_message"
  using checked_arithmetic_exact[of 8 "0xF0" "0x0B"]
  by (simp add: width_def checked_def fits_s_def min_s_def max_s_def value_s_def)

text \<open>
  C29: saturating arithmetic clamps the mathematical result to the range of the type, at every width:
  the side it clamps to is that of the result although only the operands' signs are tested.
\<close>

theorem saturating_arithmetic_clamps:
  assumes "width bits"
  shows "lb_adds_s a b bits = word_of_int (clamp (min_s bits) (max_s bits) (value_s bits a + value_s bits b)) \<and>
    lb_subs_s a b bits = word_of_int (clamp (min_s bits) (max_s bits) (value_s bits a - value_s bits b)) \<and>
    lb_muls_s a b bits = word_of_int (clamp (min_s bits) (max_s bits) (value_s bits a * value_s bits b)) \<and>
    lb_adds_u a b bits = word_of_int (clamp 0 (max_u bits) (value_u bits a + value_u bits b)) \<and>
    lb_subs_u a b bits = word_of_int (clamp 0 (max_u bits) (value_u bits a - value_u bits b)) \<and>
    lb_muls_u a b bits = word_of_int (clamp 0 (max_u bits) (value_u bits a * value_u bits b))"
  by (intro conjI; rule saturating_signed[OF assms] saturating_unsigned[OF assms])

lemma saturating_arithmetic_clamps_witness:
  "lb_muls_s 0xF0 0x0B 8 = word_of_int (- 128)"
  using saturating_arithmetic_clamps[of 8 "0xF0" "0x0B"]
  by (simp add: width_def clamp_def min_s_def max_s_def value_s_def)

text \<open>
  C30: a conversion between integer types of any widths and signs gives the source's value when the
  destination holds it, and otherwise traps when checked and reduces it modulo the destination's
  range when it is a cast.
\<close>

theorem conversion_exact:
  assumes "width from_bits" "width to_bits"
  shows "lb_conv_s a from_bits from_signed to_bits to_signed mode =
    (if mode \<noteq> 0 then Inr (word_of_int (wrap_to to_bits to_signed (value_of from_bits from_signed a)))
     else if fits_type to_bits to_signed (value_of from_bits from_signed a)
     then Inr (word_of_int (value_of from_bits from_signed a)) else Inl range_message)"
  by (rule conversion_families(1)[OF assms])

lemma conversion_exact_witness: "lb_conv_s 300 32 True 8 False 0 = Inl range_message"
  using conversion_exact[of 32 8 300 True False 0]
  by (simp add: width_def fits_type_def in_u_def value_of_def value_s_def max_u_def)

end
