(* ===== verification/OracleC.thy ===== *)
theory OracleC
  imports EmitOps RtIntLaws
begin

section \<open>The interpreter and the runtime agree on integers\<close>

text \<open>
  An operator on an integer type is computed twice in the program: by \<open>arith\<close> of the interpreter,
  the oracle of the tests, and by the runtime helper the emitted C calls. Here both are shown to be
  the same function of the operands' values.
\<close>

subsection \<open>Types\<close>

lemma is_int_cases:
  "is_int t \<Longrightarrow> int_bits t = 8 \<or> int_bits t = 16 \<or> int_bits t = 32 \<or> int_bits t = 64"
  by (cases t) (auto simp: is_int_def of_kind_def int_bits_def pointer_bits_def pointer_bytes_def Let_def)

lemma int_width: "is_int t \<Longrightarrow> width (int_bits t)"
  using is_int_cases[of t] by (auto simp: width_def)

lemma signed_is_int: "is_signed_int t \<Longrightarrow> is_int t"
  by (cases t) (auto simp: is_int_def is_signed_int_def of_kind_def)

lemma same_masks: "int_mask bits = mask_bits bits" "int_max_unsigned bits = mask_bits bits"
  by (simp_all add: int_mask_def mask_bits_def int_max_unsigned_def)

lemma int_max_smax: "width bits \<Longrightarrow> int_max_signed bits = smax bits"
  by (auto simp: int_max_signed_def smax_def width_def)

lemma int_min_smin: "is_signed_int t \<Longrightarrow> int_min t = smin (int_bits t)"
  using int_width[OF signed_is_int, of t]
  by (auto simp: int_min_def smin_def width_def int_max_signed_def Let_def)

lemma bits_of_int: "is_int t \<Longrightarrow> bits_of v t = int_bits t"
  using int_width[of t] by (cases t) (auto simp: bits_of_def Let_def width_def is_int_def of_kind_def)

lemma as_u_zext: "is_int t \<Longrightarrow> as_u v t = zext (v_u v) (int_bits t)"
  by (simp add: as_u_def bits_of_int zext_def same_masks)

lemma as_s_sext: "is_int t \<Longrightarrow> as_s v t = sext (v_u v) (int_bits t)"
  using int_width[of t]
  by (auto simp: as_s_def bits_of_int sext_def same_masks Let_def width_def mask_bits_def)

lemma v_int_zext: "is_int t \<Longrightarrow> v_u (v_int t u) = zext u (int_bits t)"
  by (simp add: v_int_def zext_def same_masks)

subsection \<open>The call\<close>

text \<open>The runtime function a helper's C name is linked to, its total results included in the traps.\<close>

definition runtime_function :: "string \<Rightarrow> (64 word \<Rightarrow> 64 word \<Rightarrow> int \<Rightarrow> 64 word trap) option" where
  "runtime_function =
     map_of [(''lb_add_s'', lb_add_s), (''lb_add_u'', lb_add_u), (''lb_sub_s'', lb_sub_s), (''lb_sub_u'', lb_sub_u),
       (''lb_mul_s'', lb_mul_s), (''lb_mul_u'', lb_mul_u), (''lb_div_s'', lb_div_s), (''lb_div_u'', lb_div_u),
       (''lb_mod_s'', lb_mod_s), (''lb_mod_u'', lb_mod_u),
       (''lb_addw_s'', \<lambda>a b n. Inr (lb_addw_s a b n)), (''lb_addw_u'', \<lambda>a b n. Inr (lb_addw_u a b n)),
       (''lb_subw_s'', \<lambda>a b n. Inr (lb_subw_s a b n)), (''lb_subw_u'', \<lambda>a b n. Inr (lb_subw_u a b n)),
       (''lb_mulw_s'', \<lambda>a b n. Inr (lb_mulw_s a b n)), (''lb_mulw_u'', \<lambda>a b n. Inr (lb_mulw_u a b n)),
       (''lb_adds_s'', \<lambda>a b n. Inr (lb_adds_s a b n)), (''lb_adds_u'', \<lambda>a b n. Inr (lb_adds_u a b n)),
       (''lb_subs_s'', \<lambda>a b n. Inr (lb_subs_s a b n)), (''lb_subs_u'', \<lambda>a b n. Inr (lb_subs_u a b n)),
       (''lb_muls_s'', \<lambda>a b n. Inr (lb_muls_s a b n)), (''lb_muls_u'', \<lambda>a b n. Inr (lb_muls_u a b n)),
       (''lb_shl_s'', lb_shl_s), (''lb_shl_u'', lb_shl_u), (''lb_shr_s'', lb_shr_s), (''lb_shr_u'', lb_shr_u)]"

text \<open>A C object of integer type \<open>t\<close> holding a value, converted to the 64-bit parameter.\<close>

definition c_operand :: "ty option \<Rightarrow> scalar \<Rightarrow> 64 word" where
  "c_operand t v = (if is_signed_int t then sext (v_u v) (int_bits t) else zext (v_u v) (int_bits t))"

text \<open>The call \<open>emit_helper\<close> writes: the operands, of types \<open>lt\<close> and \<open>rt\<close>, converted, the result converted back to \<open>t\<close>.\<close>

definition c_call :: "string \<Rightarrow> ty option \<Rightarrow> ty option \<Rightarrow> ty option \<Rightarrow> scalar \<Rightarrow> scalar \<Rightarrow> scalar trap" where
  "c_call h t lt rt L R =
     (case runtime_function (helper_name h t) of
        None \<Rightarrow> Inl ''no such function''
      | Some f \<Rightarrow> (case f (c_operand lt L) (c_operand rt R) (int_bits t) of
          Inl message \<Rightarrow> Inl message
        | Inr r \<Rightarrow> Inr \<lparr>v_kind = ty_kind (the t), v_type = t, v_u = zext r (int_bits t)\<rparr>))"

subsection \<open>Extensions of extensions\<close>

lemma zext_zext [simp]: "zext (zext a bits) bits = zext a bits"
  by (simp add: zext_def and.assoc)

lemma zext_0 [simp]: "zext 0 bits = 0"
  by (simp add: zext_def)

lemma sext_sext: "width bits \<Longrightarrow> sext (sext a bits) bits = sext a bits"
  by (simp add: sext_signed_take_bit signed_take_bit_signed_take_bit)

lemma zext_sext: "width bits \<Longrightarrow> zext (sext a bits) bits = zext a bits"
  by (auto simp: sext_signed_take_bit zext_take_bit take_bit_signed_take_bit width_def)

lemma sext_zext: "width bits \<Longrightarrow> sext (zext a bits) bits = sext a bits"
  by (simp add: zext_def masked_sext)

lemma zext_push: "width bits \<Longrightarrow> zext (push_bit n (sext a bits)) bits = zext (push_bit n (zext a bits)) bits"
proof (rule bit_word_eqI)
  fix m assume w: "width bits" and m: "m < LENGTH(64)"
  have "nat bits - Suc 0 \<le> m - n \<Longrightarrow> m < nat bits \<Longrightarrow> m - n = nat bits - Suc 0" by simp
  then show "bit (zext (push_bit n (sext a bits)) bits) m = bit (zext (push_bit n (zext a bits)) bits) m"
    using m by (auto simp: sext_signed_take_bit[OF w] zext_take_bit[OF w] bit_simps min_def)
qed

lemma int_result: "is_int t \<Longrightarrow> \<lparr>v_kind = ty_kind (the t), v_type = t, v_u = zext r (int_bits t)\<rparr> = v_int t r"
  by (cases t) (auto simp: v_int_def zext_def same_masks is_int_def of_kind_def)

lemma v_int_eqI: "is_int t \<Longrightarrow> zext a (int_bits t) = zext b (int_bits t) \<Longrightarrow> v_int t a = v_int t b"
  by (simp flip: int_result)

lemma leaves_signed_range: "is_signed_int t \<Longrightarrow> leaves_signed r t = out_of_range r (int_bits t)"
  using int_width[OF signed_is_int, of t]
  by (simp add: leaves_signed_def out_of_range_def int_min_smin int_max_smax)

subsection \<open>Each helper\<close>

text \<open>What a call of a linked function gives.\<close>

lemma c_call_linked:
  "is_int t \<Longrightarrow> runtime_function (helper_name h t) = Some f \<Longrightarrow>
   c_call h t lt rt L R = (case f (c_operand lt L) (c_operand rt R) (int_bits t) of
      Inl message \<Rightarrow> Inl message | Inr r \<Rightarrow> Inr (v_int t r))"
  by (simp add: c_call_def int_result split: sum.split)

lemmas helper_defs = lb_add_s_def lb_add_u_def lb_sub_s_def lb_sub_u_def lb_mul_s_def lb_mul_u_def lb_div_s_def
  lb_div_u_def lb_mod_s_def lb_mod_u_def lb_adds_s_def lb_adds_u_def lb_subs_s_def lb_subs_u_def lb_muls_s_def
  lb_muls_u_def

lemma signed_agree:
  assumes t: "is_signed_int t" and op: "arith_helper op = Some h" "op \<noteq> LtLt" "op \<noteq> GtGt"
  shows "c_call h t t t L R = arith_signed t L R op"
proof -
  have i: "is_int t" and w: "width (int_bits t)" using signed_is_int[OF t] int_width by auto
  note rules = c_operand_def t sext_sext[OF w] zext_sext[OF w] masked_sext[OF w] as_s_sext[OF i]
    int_min_smin[OF t] int_max_smax[OF w] leaves_signed_range[OF t] arith_signed_def helper_name_def runtime_function_def
    saturated_def Let_def
  show ?thesis
    using op
    by (auto simp: arith_helper_def split: if_splits)
      (auto simp: c_call_linked[OF i] rules helper_defs lb_addw_s_def lb_subw_s_def lb_mulw_s_def
        intro!: v_int_eqI[OF i] simp: zext_sext[OF w])
qed

text \<open>The two tests of the unsigned families, kept folded.\<close>

definition sum_over :: "64 word \<Rightarrow> 64 word \<Rightarrow> int \<Rightarrow> bool" where
  "sum_over a b bits \<longleftrightarrow> (if 64 \<le> bits then - 1 - b < a else mask_bits bits < a + b)"

definition product_over :: "64 word \<Rightarrow> 64 word \<Rightarrow> int \<Rightarrow> bool" where
  "product_over a b bits \<longleftrightarrow> b \<noteq> 0 \<and> mask_bits bits div b < a"

definition difference_over :: "64 word \<Rightarrow> 64 word \<Rightarrow> bool" where
  "difference_over a b \<longleftrightarrow> a < b"

lemma unsigned_folded:
  "lb_add_u a b bits = (if sum_over (zext a bits) (zext b bits) bits then Inl overflow_message else Inr (zext a bits + zext b bits))"
  "lb_adds_u a b bits = (if sum_over (zext a bits) (zext b bits) bits then mask_bits bits else zext a bits + zext b bits)"
  "lb_sub_u a b bits = (if difference_over (zext a bits) (zext b bits) then Inl overflow_message else Inr (zext a bits - zext b bits))"
  "lb_subs_u a b bits = (if difference_over (zext a bits) (zext b bits) then 0 else zext a bits - zext b bits)"
  "lb_mul_u a b bits = (if product_over (zext a bits) (zext b bits) bits then Inl overflow_message else Inr (zext (zext a bits * zext b bits) bits))"
  "lb_muls_u a b bits = (if product_over (zext a bits) (zext b bits) bits then mask_bits bits else zext (zext a bits * zext b bits) bits)"
  by (simp_all only: lb_add_u_def lb_adds_u_def lb_sub_u_def lb_subs_u_def lb_mul_u_def lb_muls_u_def Let_def sum_over_def
      difference_over_def product_over_def) (simp_all only: mask_bits_def split: if_split, simp_all)

lemma unsigned_agree:
  assumes t: "is_unsigned_int t" and op: "arith_helper op = Some h" "op \<noteq> LtLt" "op \<noteq> GtGt"
  shows "c_call h t t t L R = arith_unsigned t L R op"
proof -
  have i: "is_int t" and ns: "\<not> is_signed_int t" and w: "width (int_bits t)"
    using t int_width by (auto simp: is_unsigned_int_def)
  define a b n where "a = zext (v_u L) (int_bits t)" and "b = zext (v_u R) (int_bits t)" and "n = int_bits t"
  have parts: "c_operand t L = a" "c_operand t R = b" "as_u L t = a" "as_u R t = b" "zext a n = a" "zext b n = b"
    by (simp_all add: c_operand_def ns as_u_zext[OF i] a_def b_def n_def)
  have folded: "arith_unsigned t L R op =
      (if op = Plus \<or> op = PlusQuestion then (if sum_over a b n then Inl overflow_message else Inr (v_int t (a + b)))
       else if op = Minus \<or> op = MinusQuestion then (if difference_over a b then Inl overflow_message else Inr (v_int t (a - b)))
       else if op = Star \<or> op = StarQuestion then (if product_over a b n then Inl overflow_message else Inr (v_int t (a * b)))
       else if op = PlusPercent then Inr (v_int t (a + b))
       else if op = MinusPercent then Inr (v_int t (a - b))
       else if op = StarPercent then Inr (v_int t (a * b))
       else if op = PlusPipe then Inr (v_int t (if sum_over a b n then mask_bits n else a + b))
       else if op = MinusPipe then Inr (v_int t (if difference_over a b then 0 else a - b))
       else if op = StarPipe then Inr (v_int t (if product_over a b n then mask_bits n else a * b))
       else if op = SlashSlash \<or> op = Percent then
         (if b = 0 then Inl zero_message else Inr (v_int t (if op = SlashSlash then a div b else a mod b)))
       else Inl unsupported_binary)"
    by (simp only: arith_unsigned_def Let_def parts same_masks sum_over_def product_over_def difference_over_def n_def)
  have wrap: "v_int t (zext x n) = v_int t x" for x using v_int_eqI[OF i, of "zext x n" x] by (simp add: n_def)
  note helper = c_call_linked[OF i] runtime_function_def helper_name_def ns parts n_def[symmetric] unsigned_folded wrap
    lb_addw_u_def lb_subw_u_def lb_mulw_u_def lb_div_u_def lb_mod_u_def Let_def
  from op consider "op = Plus" "h = ''add''" | "op = Minus" "h = ''sub''" | "op = Star" "h = ''mul''"
    | "op = SlashSlash" "h = ''div''" | "op = Percent" "h = ''mod''" | "op = PlusPercent" "h = ''addw''"
    | "op = MinusPercent" "h = ''subw''" | "op = StarPercent" "h = ''mulw''" | "op = PlusPipe" "h = ''adds''"
    | "op = MinusPipe" "h = ''subs''" | "op = StarPipe" "h = ''muls''"
    by (auto simp: arith_helper_def split: if_splits)
  then show ?thesis unfolding folded by cases (simp_all add: helper)
qed

text \<open>A count is read by its own type; a negative one is out of range either way.\<close>

lemma bit_le_uint: "bit (w :: 64 word) m \<Longrightarrow> 2 ^ m \<le> uint w"
  using bit_imp_le_length[of w m]
  by (metis bit_iff_odd div_pos_pos_trivial even_zero linorder_not_less uint_ge_0 bit_uint_iff)

lemma ext_cases:
  assumes "width n"
  shows "\<not> bit a (nat n - 1) \<Longrightarrow> sext a n = zext a n"
    "bit a (nat n - 1) \<Longrightarrow> 2 ^ (nat n - 1) \<le> uint (sext a n) \<and> 2 ^ (nat n - 1) \<le> uint (zext a n)"
proof -
  have n: "0 < nat n" "nat n \<le> 64" using assms by (auto simp: width_def nat_le_iff)
  {
    assume "\<not> bit a (nat n - 1)"
    then show "sext a n = zext a n"
    proof (intro bit_word_eqI)
      fix m assume "m < LENGTH(64)"
      have "nat n - Suc 0 \<le> m \<Longrightarrow> m < nat n \<Longrightarrow> m = nat n - Suc 0" using n by simp
      then show "bit (sext a n) m = bit (zext a n) m" using \<open>\<not> bit a (nat n - 1)\<close> \<open>m < LENGTH(64)\<close> n
        by (auto simp: sext_signed_take_bit[OF assms] zext_take_bit[OF assms] bit_simps min_def)
    qed
  }
  assume "bit a (nat n - 1)"
  then have "bit (sext a n) (nat n - 1)" "bit (zext a n) (nat n - 1)"
    using n by (simp_all add: sext_signed_take_bit[OF assms] zext_take_bit[OF assms] bit_simps)
  then show "2 ^ (nat n - 1) \<le> uint (sext a n) \<and> 2 ^ (nat n - 1) \<le> uint (zext a n)"
    by (simp only: bit_le_uint simp_thms)
qed

lemma count_agrees:
  assumes r: "is_int rt" and w: "width bits"
  shows "word_of_int bits \<le> c_operand rt R \<longleftrightarrow> word_of_int bits \<le> as_u R rt"
    "\<not> word_of_int bits \<le> as_u R rt \<Longrightarrow> c_operand rt R = as_u R rt"
proof -
  have n: "width (int_bits rt)" using r by (rule int_width)
  have le: "128 \<le> (2::int) ^ (nat (int_bits rt) - 1)"
    using is_int_cases[OF r] power_increasing[of 7 "nat (int_bits rt) - 1" "2::int"] by auto
  have b: "uint (word_of_int bits :: 64 word) = bits" "bits \<le> 64" using w by (auto simp: uint_of_int width_def)
  have "c_operand rt R = as_u R rt \<or> word_of_int bits \<le> c_operand rt R \<and> word_of_int bits \<le> as_u R rt"
  proof (cases "bit (v_u R) (nat (int_bits rt) - 1)")
    case True
    have "bits \<le> uint (sext (v_u R) (int_bits rt))" "bits \<le> uint (zext (v_u R) (int_bits rt))"
      using ext_cases(2)[OF n True] le b by linarith+
    then show ?thesis by (simp add: c_operand_def as_u_zext[OF r] word_le_def b)
  next
    case False
    from ext_cases(1)[OF n this] show ?thesis by (simp add: c_operand_def as_u_zext[OF r])
  qed
  then show "word_of_int bits \<le> c_operand rt R \<longleftrightarrow> word_of_int bits \<le> as_u R rt"
    "\<not> word_of_int bits \<le> as_u R rt \<Longrightarrow> c_operand rt R = as_u R rt" by auto
qed

lemma shifts_agree:
  assumes t: "is_int t" and r: "is_int rt" and v: "v_type R = rt" and op: "op = LtLt \<and> h = ''shl'' \<or> op = GtGt \<and> h = ''shr''"
  shows "c_call h t t rt L R = arith_int t L R op"
proof -
  define n over where "n = as_u R rt" and "over = (word_of_int (int_bits t) \<le> as_u R rt)"
  have w: "width (int_bits t)" using t by (rule int_width)
  have rn: "rt \<noteq> None" using r by (cases rt) (simp_all add: is_int_def of_kind_def)
  have arith: "arith_int t L R op = (if over then Inl shift_message
      else if op = LtLt then Inr (v_int t (push_bit (unat n) (as_u L t)))
      else if is_signed_int t then Inr (v_int t (signed_drop_bit (unat n) (as_s L t)))
      else Inr (v_int t (drop_bit (unat n) (as_u L t))))"
    using op rn by (auto simp only: arith_int_def Let_def v n_def over_def token_kind.distinct simp_thms if_True if_False)
  have bad: "bad_count (c_operand rt R) (int_bits t) = over"
    using count_agrees(1)[OF r w, of R] by (simp only: bad_count_def over_def)
  have same: "\<not> over \<Longrightarrow> c_operand rt R = n"
    unfolding over_def n_def by (rule count_agrees(2)[OF r w])
  note rules = c_call_linked[OF t] runtime_function_def helper_name_def Let_def bad c_operand_def[of t]
    lb_shl_s_def lb_shl_u_def lb_shr_s_def lb_shr_u_def as_u_zext[OF t] as_s_sext[OF t] sext_sext[OF w] masked_sext[OF w]
  have left: "v_int t (sext (push_bit m (sext x (int_bits t))) (int_bits t)) = v_int t (push_bit m (zext x (int_bits t)))"
    "v_int t (zext (push_bit m (zext x (int_bits t))) (int_bits t)) = v_int t (push_bit m (zext x (int_bits t)))" for m x
    by (rule v_int_eqI[OF t]; simp add: zext_sext[OF w] zext_push[OF w])+
  show ?thesis unfolding arith
  proof (cases over)
    case True
    then show "c_call h t t rt L R = (if over then Inl shift_message
      else if op = LtLt then Inr (v_int t (push_bit (unat n) (as_u L t)))
      else if is_signed_int t then Inr (v_int t (signed_drop_bit (unat n) (as_s L t)))
      else Inr (v_int t (drop_bit (unat n) (as_u L t))))"
      using op by (cases "is_signed_int t") (auto simp: rules)
  next
    case False
    then show "c_call h t t rt L R = (if over then Inl shift_message
      else if op = LtLt then Inr (v_int t (push_bit (unat n) (as_u L t)))
      else if is_signed_int t then Inr (v_int t (signed_drop_bit (unat n) (as_s L t)))
      else Inr (v_int t (drop_bit (unat n) (as_u L t))))"
      using op by (cases "is_signed_int t") (auto simp: rules same left bad[unfolded same[OF False]])
  qed
qed

subsection \<open>Conversions, negation, optional operators\<close>

text \<open>The runtime function a \<open>+?\<close>, \<open>-?\<close> or \<open>*?\<close> calls, and the call.\<close>

definition optional_function :: "string \<Rightarrow> (64 word \<Rightarrow> 64 word \<Rightarrow> int \<Rightarrow> 64 word option) option" where
  "optional_function =
     map_of [(''lb_qadd_s'', lb_qadd_s), (''lb_qadd_u'', lb_qadd_u), (''lb_qsub_s'', lb_qsub_s),
       (''lb_qsub_u'', lb_qsub_u), (''lb_qmul_s'', lb_qmul_s), (''lb_qmul_u'', lb_qmul_u)]"

definition c_optional :: "token_kind \<Rightarrow> ty option \<Rightarrow> scalar \<Rightarrow> scalar \<Rightarrow> scalar option" where
  "c_optional op t L R =
     (case optional_function (helper_name (optional_helper op) t) of
        None \<Rightarrow> None
      | Some f \<Rightarrow> map_option (v_int t) (f (c_operand t L) (c_operand t R) (int_bits t)))"

lemma arith_agree:
  assumes t: "is_int t" and op: "arith_helper op = Some h" "op \<noteq> LtLt" "op \<noteq> GtGt"
  shows "c_call h t t t L R = arith_int t L R op"
proof -
  have "op \<noteq> Amp" "op \<noteq> Pipe" "op \<noteq> Caret" using op(1) by (auto simp: arith_helper_def)
  then show ?thesis
    using signed_agree[OF _ op, of t L R] unsigned_agree[OF _ op, of t L R] t op
    by (simp add: arith_int_def is_unsigned_int_def)
qed

lemma checked_fitting:
  "(case (case checked P e of Inl m \<Rightarrow> Inl m | Inr r \<Rightarrow> Inr (g r)) of Inl m \<Rightarrow> None | Inr r \<Rightarrow> Some r) = map_option g (fitting P e)"
  by (simp add: checked_def fitting_def)

lemma optional_plain:
  "arith_int t L R PlusQuestion = arith_int t L R Plus"
  "arith_int t L R MinusQuestion = arith_int t L R Minus"
  "arith_int t L R StarQuestion = arith_int t L R Star"
  by (simp_all add: arith_int_def arith_signed_def arith_unsigned_def)

lemma optional_agree:
  assumes t: "is_int t" and op: "op \<in> {PlusQuestion, MinusQuestion, StarQuestion}"
  shows "c_optional op t L R = eval_optional t L R op"
proof -
  have w: "width (int_bits t)" using t by (rule int_width)
  have linked: "runtime_function (helper_name ''add'' t) = Some (if is_signed_int t then lb_add_s else lb_add_u)"
    "runtime_function (helper_name ''sub'' t) = Some (if is_signed_int t then lb_sub_s else lb_sub_u)"
    "runtime_function (helper_name ''mul'' t) = Some (if is_signed_int t then lb_mul_s else lb_mul_u)"
    "optional_function (helper_name ''qadd'' t) = Some (if is_signed_int t then lb_qadd_s else lb_qadd_u)"
    "optional_function (helper_name ''qsub'' t) = Some (if is_signed_int t then lb_qsub_s else lb_qsub_u)"
    "optional_function (helper_name ''qmul'' t) = Some (if is_signed_int t then lb_qmul_s else lb_qmul_u)"
    by (simp_all add: helper_name_def runtime_function_def optional_function_def)
  have plain: "arith_int t L R Plus = c_call ''add'' t t t L R" "arith_int t L R Minus = c_call ''sub'' t t t L R"
    "arith_int t L R Star = c_call ''mul'' t t t L R"
    using arith_agree[OF t, of Plus "''add''"] arith_agree[OF t, of Minus "''sub''"] arith_agree[OF t, of Star "''mul''"]
    by (simp_all add: arith_helper_def)
  show ?thesis using op
    by (cases "is_signed_int t")
      (auto simp: eval_optional_def c_optional_def optional_helper_def optional_plain plain c_call_linked[OF t] linked
        signed_families[OF w] unsigned_families[OF w] checked_fitting)
qed

subsection \<open>Properties\<close>



lemma v_int_u: "is_int s \<Longrightarrow> v_u (v_int s u) = zext u (int_bits s)"
  by (rule v_int_zext)

text \<open>
  C28: an operand narrower than the operator's type is read differently in the two: a negative \<open>i32\<close>
  beside an \<open>i64\<close> keeps its value in the C, which extends its sign, and gains \<open>2 ^ 32\<close> in the
  interpreter, which reads the bits it keeps at the wider type; so \<open>-5 + 10\<close> is 4294967301 there.
\<close>

theorem narrow_operand_read_unsigned:
  assumes "is_signed_int s" "is_signed_int t" "int_bits s < int_bits t"
  shows "sint (c_operand s (v_int s u)) = value_s (int_bits s) u \<and>
    sint (as_s (v_int s u) t) = value_u (int_bits s) u"
proof
  have i: "is_int s" "is_int t" using assms signed_is_int by auto
  then have w: "width (int_bits s)" "width (int_bits t)" using int_width by auto
  have le: "nat (int_bits s) \<le> nat (int_bits t) - 1" "nat (int_bits t) \<le> 64"
    using assms(3) w by (auto simp: width_def)
  show "sint (c_operand s (v_int s u)) = value_s (int_bits s) u"
    using assms(1) by (simp add: c_operand_def v_int_u[OF i(1)] sext_zext[OF w(1)] sint_sext[OF w(1)])
  have "uint (zext u (int_bits s)) < 2 ^ nat (int_bits s)"
    using value_u_range[of "int_bits s" u] by (simp add: uint_zext[OF w(1)] max_u_def)
  also have "(2::int) ^ nat (int_bits s) \<le> 2 ^ (nat (int_bits t) - 1)" using le by (intro power_increasing) auto
  finally have "signed_take_bit (nat (int_bits t) - 1) (uint (zext u (int_bits s))) = uint (zext u (int_bits s))"
    by (intro signed_take_bit_int_eq_self) (simp_all add: order_trans[of "- _" 0])
  then show "sint (as_s (v_int s u) t) = value_u (int_bits s) u"
    by (simp add: as_s_sext[OF i(2)] v_int_u[OF i(1)] sint_sext[OF w(2)] value_s_def uint_zext[OF w(1)])
qed

lemma narrow_operand_read_unsigned_witness:
  "let i32 = Some (kind_ty TyI32); i64 = Some (kind_ty TyI64)
   in sint (c_operand i32 (v_int i32 (- 5))) = value_s 32 (- 5) \<and> sint (as_s (v_int i32 (- 5)) i64) = value_u 32 (- 5) \<and>
      c_call ''add'' i64 i32 i64 (v_int i32 (- 5)) (v_int i64 10) = Inr (v_int i64 5) \<and>
      arith_int i64 (v_int i32 (- 5)) (v_int i64 10) Plus = Inr (v_int i64 4294967301)"
  using narrow_operand_read_unsigned[of "Some (kind_ty TyI32)" "Some (kind_ty TyI64)" "- 5"]
  by (simp add: Let_def c_call_def runtime_function_def helper_name_def is_signed_int_def is_int_def of_kind_def
      kind_ty_def int_bits_def c_operand_def sext_def zext_def mask_bits_def v_int_def same_masks lb_add_s_def
      add_overflow_def out_of_range_def sless_def smin_def smax_def arith_int_def arith_signed_def as_s_def bits_of_def
      leaves_signed_def int_min_def int_max_signed_def int_mask_def)

text \<open>
  An ordered comparison is made in the left operand's type, in both: a wider right operand loses its
  high bits, so \<open>5 < 2 ^ 40\<close> is false when the 5 is an \<open>i32\<close>.
\<close>

lemma comparison_in_left_type:
  "(\<forall>s L R. is_signed_int s \<and> v_type L = s \<longrightarrow>
      cmp_int L R s Lt = (value_s (int_bits s) (v_u L) < value_s (int_bits s) (v_u R))) \<and>
   (let i32 = Some (kind_ty TyI32); i64 = Some (kind_ty TyI64)
    in \<not> cmp_int (v_int i32 5) (v_int i64 (2 ^ 40)) i32 Lt \<and>
       emit_compare D i32 Lt ''a'' ''b'' = ''(((int32_t)(a)) < ((int32_t)(b)))'')"
proof (intro conjI allI impI)
  fix s and L R :: scalar assume a: "is_signed_int s \<and> v_type L = s"
  then have i: "is_int s" and w: "width (int_bits s)" using signed_is_int int_width by auto
  have n: "s \<noteq> None" using i by (cases s) (simp_all add: is_int_def of_kind_def)
  then show "cmp_int L R s Lt = (value_s (int_bits s) (v_u L) < value_s (int_bits s) (v_u R))"
    using a n by (simp add: cmp_int_def Let_def is_unsigned_int_def as_s_sext[OF i] sint_sext[OF w])
next
  show "let i32 = Some (kind_ty TyI32); i64 = Some (kind_ty TyI64)
    in \<not> cmp_int (v_int i32 5) (v_int i64 (2 ^ 40)) i32 Lt \<and>
       emit_compare D i32 Lt ''a'' ''b'' = ''(((int32_t)(a)) < ((int32_t)(b)))''"
    by (simp add: Let_def cmp_int_def is_unsigned_int_def is_signed_int_def is_int_def of_kind_def kind_ty_def int_bits_def
        v_int_def int_mask_def as_s_def bits_of_def emit_compare_def c_type_ref_def nominal_def is_int_enum_def is_enum_def
        c_type_name_def)
qed

text \<open>
  A compound \<open>+=\<close>, \<open>-=\<close> or \<open>*=\<close> on a float is emitted as a call of the unsigned integer helper at
  width 0, on the operands converted to integers; and every such call gives 0.
\<close>

theorem float_compound_assignment:
  assumes "is_float t" "op = PlusEq \<and> h = ''add'' \<or> op = MinusEq \<and> h = ''sub'' \<or> op = StarEq \<and> h = ''mul''"
  shows "emit_assign D t op dst rhs =
      dst @ '' = ('' @ c_type_ref D t @ '')(lb_'' @ h @ ''_u((int64_t)('' @ dst @ ''), (int64_t)('' @ rhs @ ''), 0));'' \<and>
    (\<exists>f. runtime_function (''lb_'' @ h @ ''_u'') = Some f \<and> (\<forall>a b. f a b 0 = Inr 0))"
proof -
  have t: "\<not> is_atomic t" "\<not> is_signed_int t" "\<not> is_unsigned_int t" "int_bits t = 0"
    using assms(1) by (cases t; auto simp: is_float_def is_float_kind_def is_atomic_def is_signed_int_def is_unsigned_int_def
        is_int_def of_kind_def int_bits_def Let_def)+
  have bits: "bits_lit t = ''0''" by (simp only: bits_lit_def t) code_simp
  have zero: "lb_add_u a b 0 = Inr 0" "lb_sub_u a b 0 = Inr 0" "lb_mul_u a b 0 = Inr 0" for a b
    by (simp_all add: lb_add_u_def lb_sub_u_def lb_mul_u_def zext_def mask_bits_def Let_def)
  have p: "arith_helper (assign_operator op) = Some h \<and> assign_operator op \<noteq> Slash \<and>
      op \<notin> {token_kind.Eq, AmpEq, PipeEq, CaretEq, LtLtEq, GtGtEq}"
    using assms(2) by (elim disjE conjE) (simp_all add: arith_helper_def assign_operator_def)
  then have "emit_assign D t op dst rhs = dst @ '' = '' @ emit_helper D h t dst rhs @ '';''"
    by (simp add: emit_assign_def t Let_def)
  moreover have "emit_helper D h t dst rhs =
      ''('' @ c_type_ref D t @ '')(lb_'' @ h @ ''_u((int64_t)('' @ dst @ ''), (int64_t)('' @ rhs @ ''), 0))''"
    by (simp add: emit_helper_def down_cast_def helper_name_def word_cast_def bits t)
  moreover have "\<exists>f. runtime_function (''lb_'' @ h @ ''_u'') = Some f \<and> (\<forall>a b. f a b 0 = Inr 0)"
    using assms(2) zero by (elim disjE conjE) (simp_all add: runtime_function_def)
  ultimately show ?thesis by simp
qed

lemma float_compound_assignment_witness:
  "emit_assign (\<lambda>_. None) (Some (kind_ty TyF64)) StarEq ''lv_x'' ''2.0'' =
     ''lv_x = (double)(lb_mul_u((int64_t)(lv_x), (int64_t)(2.0), 0));''"
  using float_compound_assignment[of "Some (kind_ty TyF64)" StarEq "''mul''" "\<lambda>_. None" "''lv_x''" "''2.0''"]
  by (simp add: is_float_def of_kind_def is_float_kind_def kind_ty_def c_type_ref_def nominal_def is_int_enum_def is_enum_def
      c_type_name_def)

text \<open>
  At file scope a saturating operator is written as the plain one, so a constant that saturates in the
  interpreter wraps in the C: \<open>200 +| 100\<close> as a \<open>u8\<close> is 255 and \<open>(uint8_t)(300)\<close>.
\<close>

lemma file_scope_saturation:
  "let u8 = Some (kind_ty TyU8)
   in emit_arith D True u8 PlusPipe ''200'' ''100'' = ''((uint8_t)(200 + 100))'' \<and>
      arith_int u8 (v_int u8 200) (v_int u8 100) PlusPipe = Inr (v_int u8 255) \<and>
      v_u (v_int u8 (200 + 100)) = 44"
  by (simp add: Let_def emit_arith_def constant_operator_def is_float_def is_float_kind_def of_kind_def kind_ty_def
      c_type_ref_def nominal_def is_int_enum_def is_enum_def c_type_name_def arith_int_def arith_unsigned_def
      is_signed_int_def is_int_def int_bits_def v_int_def int_mask_def as_u_def bits_of_def int_max_unsigned_def)

text \<open>
  A negative case of an integer-backed enum converts to a positive integer in the interpreter: the
  case \<open>-1\<close> of an \<open>i8\<close> enum is 255 as an \<open>i32\<close>, where the emitted cast keeps -1.
\<close>

lemma enum_conversion_zero_extends:
  "let i8 = Some (kind_ty TyI8); i32 = Some (kind_ty TyI32);
       e = Some (Ty TyEnum ''Sign'' None [] i8 0 False False False False 0 [] 0);
       x = \<lparr>v_kind = TyEnum, v_type = e, v_u = - 1\<rparr>
   in sint (as_s (conv_enum_int x e i32) i32) = 255 \<and> sint (c_operand i8 x) = - 1"
  by (simp add: Let_def conv_enum_int_def elem_of_def as_u_def bits_of_def kind_ty_def int_bits_def int_mask_def v_int_def
      is_int_def of_kind_def as_s_def c_operand_def is_signed_int_def sext_def mask_bits_def)

end
