(* ===== verification/Sync.thy ===== *)
theory Sync
  imports Prelude RtInt "HOL-Library.Word"
begin

text \<open>
  The synchronisation objects of the runtime (\<open>src/runtime/lucb_rt.c\<close>): a mutex, a condition, a
  once and a semaphore, each one atomic 32-bit cell. A C function is a step function on its own
  control point and the cells it shares: one step is one atomic access, so that threads interleave
  between any two accesses. A pointer argument is an optional cell, \<open>None\<close> the null pointer, at which
  every function traps.

  The second half runs any number of threads over the steps. A thread follows the discipline of its
  object (only the thread inside unlocks or waits; only a thread with a permit gives one back); the
  interface \<open>token_protocol\<close> counts the tokens of an object, and its interpretations give mutual
  exclusion, at most one run of a once, and the permits of a semaphore.
\<close>

section \<open>Atomic accesses\<close>

type_synonym cell = "32 word"

definition compare_exchange :: "cell \<Rightarrow> cell \<Rightarrow> cell \<Rightarrow> bool \<times> cell" where
  "compare_exchange c expected desired = (if c = expected then (True, desired) else (False, c))"

definition with_pointer :: "'c option \<Rightarrow> ('c \<Rightarrow> 'r) \<Rightarrow> 'r trap" where
  "with_pointer p f = (case p of None \<Rightarrow> Inl ''null pointer'' | Some c \<Rightarrow> Inr (f c))"

section \<open>The mutex\<close>

text \<open>The control points of \<open>lb_mutex_lock\<close>: before the exchange, in the waiting loop, returned.\<close>

datatype lock_point = LockTry | LockSpin | LockHeld

fun lb_mutex_lock_step :: "lock_point \<Rightarrow> cell \<Rightarrow> lock_point \<times> cell" where
  "lb_mutex_lock_step LockTry c =
     (case compare_exchange c 0 1 of (taken, c') \<Rightarrow> (if taken then LockHeld else LockSpin, c'))"
| "lb_mutex_lock_step LockSpin c = (if c \<noteq> 0 then LockSpin else LockTry, c)"
| "lb_mutex_lock_step LockHeld c = (LockHeld, c)"

definition lb_mutex_lock :: "cell option \<Rightarrow> lock_point trap" where
  "lb_mutex_lock p = with_pointer p (\<lambda>_. LockTry)"

definition lb_mutex_unlock :: "cell option \<Rightarrow> cell trap" where
  "lb_mutex_unlock p = with_pointer p (\<lambda>_. 0)"

definition lb_mutex_try :: "cell option \<Rightarrow> (bool \<times> cell) trap" where
  "lb_mutex_try p = with_pointer p (\<lambda>c. compare_exchange c 0 1)"

section \<open>The condition\<close>

text \<open>
  The control points of \<open>lb_cond_wait\<close>: before the sequence is read, with it read and the mutex still
  held, in the waiting loop, and locking the mutex again. The shared cells are the condition's
  sequence and the mutex.
\<close>

datatype wait_point = WaitRead | WaitUnlock cell | WaitSpin cell | WaitLock lock_point

fun lb_cond_wait_step :: "wait_point \<Rightarrow> cell \<times> cell \<Rightarrow> wait_point \<times> (cell \<times> cell)" where
  "lb_cond_wait_step WaitRead (q, m) = (WaitUnlock q, (q, m))"
| "lb_cond_wait_step (WaitUnlock s) (q, m) = (WaitSpin s, (q, 0))"
| "lb_cond_wait_step (WaitSpin s) (q, m) = (if q = s then WaitSpin s else WaitLock LockTry, (q, m))"
| "lb_cond_wait_step (WaitLock p) (q, m) = (case lb_mutex_lock_step p m of (p', m') \<Rightarrow> (WaitLock p', (q, m')))"

definition lb_cond_wait :: "cell option \<Rightarrow> cell option \<Rightarrow> wait_point trap" where
  "lb_cond_wait c m = (if c = None \<or> m = None then Inl ''null pointer'' else Inr WaitRead)"

definition lb_cond_signal :: "cell option \<Rightarrow> cell trap" where
  "lb_cond_signal p = with_pointer p (\<lambda>q. q + 1)"

definition lb_cond_broadcast :: "cell option \<Rightarrow> cell trap" where
  "lb_cond_broadcast p = lb_cond_signal p"

section \<open>The once\<close>

definition lb_once_begin :: "cell option \<Rightarrow> (bool \<times> cell) trap" where
  "lb_once_begin p = with_pointer p (\<lambda>c. compare_exchange c 0 1)"

definition lb_once_end :: "cell option \<Rightarrow> cell trap" where
  "lb_once_end p = with_pointer p (\<lambda>_. 2)"

text \<open>One test of the loop of \<open>lb_once_wait\<close>: whether it ends.\<close>

definition lb_once_wait_step :: "cell \<Rightarrow> bool" where
  "lb_once_wait_step c = (c = 2)"

definition lb_once_wait :: "cell option \<Rightarrow> bool trap" where
  "lb_once_wait p = with_pointer p lb_once_wait_step"

section \<open>The semaphore\<close>

text \<open>
  The control points of \<open>lb_sem_acquire\<close>: before the load, with a count to exchange, in the waiting
  loop, returned. The exchange is the weak one, which may fail on equal values: the argument
  \<open>spurious\<close> says that this one does.
\<close>

datatype sem_point = SemLoad | SemExchange cell | SemSpin | SemHeld

fun lb_sem_acquire_step :: "bool \<Rightarrow> sem_point \<Rightarrow> cell \<Rightarrow> sem_point \<times> cell" where
  "lb_sem_acquire_step spurious SemLoad c = (if 0 < c then SemExchange c else SemSpin, c)"
| "lb_sem_acquire_step spurious (SemExchange n) c =
     (if spurious then (SemSpin, c)
      else case compare_exchange c n (n - 1) of (taken, c') \<Rightarrow> (if taken then SemHeld else SemSpin, c'))"
| "lb_sem_acquire_step spurious SemSpin c = (if c = 0 then SemSpin else SemLoad, c)"
| "lb_sem_acquire_step spurious SemHeld c = (SemHeld, c)"

definition lb_sem_acquire :: "cell option \<Rightarrow> sem_point trap" where
  "lb_sem_acquire p = with_pointer p (\<lambda>_. SemLoad)"

definition lb_sem_release :: "cell option \<Rightarrow> cell trap" where
  "lb_sem_release p = with_pointer p (\<lambda>c. c + 1)"

section \<open>Threads\<close>

text \<open>
  A state is the list of the threads' control points and the shared cells; a step is an action one
  thread can make.
\<close>

inductive interleave :: "('a \<Rightarrow> 'p \<Rightarrow> 'c \<Rightarrow> ('p \<times> 'c) option) \<Rightarrow> 'p list \<times> 'c \<Rightarrow> 'p list \<times> 'c \<Rightarrow> bool"
  for act where
  thread_acts: "i < length ps \<Longrightarrow> act a (ps ! i) c = Some (p, c') \<Longrightarrow> interleave act (ps, c) (ps[i := p], c')"

inductive_cases interleaveE: "interleave act s s'"

abbreviation runs :: "('a \<Rightarrow> 'p \<Rightarrow> 'c \<Rightarrow> ('p \<times> 'c) option) \<Rightarrow> 'p list \<times> 'c \<Rightarrow> 'p list \<times> 'c \<Rightarrow> bool" where
  "runs act \<equiv> (interleave act)\<^sup>*\<^sup>*"

definition total :: "('p \<Rightarrow> nat) \<Rightarrow> ('c \<Rightarrow> nat) \<Rightarrow> 'p list \<times> 'c \<Rightarrow> nat" where
  "total weight tokens s = tokens (snd s) + sum_list (map weight (fst s))"

lemma weight_le_total: "i < length ps \<Longrightarrow> (w (ps ! i) :: nat) \<le> sum_list (map w ps)"
  using elem_le_sum_list[of i "map w ps"] by simp

lemma sum_list_map_update:
  "i < length ps \<Longrightarrow> sum_list (map w (ps[i := p])) + w (ps ! i) = sum_list (map w ps) + (w p :: nat)"
  using weight_le_total[of i ps w] by (simp add: map_update sum_list_update)

lemma weights_le_total: "i < length ps \<Longrightarrow> j < length ps \<Longrightarrow> i \<noteq> j \<Longrightarrow> (w (ps ! i) :: nat) + w (ps ! j) \<le> sum_list (map w ps)"
proof (induction ps arbitrary: i j)
  case (Cons p ps)
  then show ?case
    using weight_le_total[of "i - 1" ps w] weight_le_total[of "j - 1" ps w] Cons.IH[of "i - 1" "j - 1"]
    by (cases i; cases j) (auto intro: trans_le_add2)
qed simp

lemma runs_length: "runs act s s' \<Longrightarrow> length (fst s') = length (fst s)"
  by (induction rule: rtranclp_induct) (auto elim!: interleaveE)

text \<open>
  The interface of an object: every action keeps the number of its tokens, the free ones in the cell
  and those the thread holds, as long as there are no more than the cell can count.
\<close>

locale token_protocol =
  fixes act :: "'a \<Rightarrow> 'p \<Rightarrow> 'c \<Rightarrow> ('p \<times> 'c) option"
    and ok :: "'p \<Rightarrow> bool" and weight :: "'p \<Rightarrow> nat" and tokens :: "'c \<Rightarrow> nat" and bound :: nat
  assumes conserves: "act a p c = Some (p', c') \<Longrightarrow> ok p \<Longrightarrow> tokens c + weight p \<le> bound \<Longrightarrow>
    ok p' \<and> tokens c' + weight p' = tokens c + weight p"
begin

lemma step_total:
  assumes "interleave act s s'" "list_all ok (fst s)" "total weight tokens s \<le> bound"
  shows "list_all ok (fst s') \<and> total weight tokens s' = total weight tokens s"
  using assms(1)
proof (rule interleaveE)
  fix i ps a c p c'
  assume s: "s = (ps, c)" "s' = (ps[i := p], c')" and i: "i < length ps" and a: "act a (ps ! i) c = Some (p, c')"
  then have "ok p \<and> tokens c' + weight p = tokens c + weight (ps ! i)"
    using conserves[OF a] assms(2,3) weight_le_total[OF i, of weight] by (simp add: total_def list_all_length)
  then show ?thesis
    using s i assms(2) sum_list_map_update[OF i, of weight p] by (simp add: total_def list_all_length nth_list_update)
qed

lemma runs_total:
  assumes "runs act s s'" "list_all ok (fst s)" "total weight tokens s \<le> bound"
  shows "list_all ok (fst s') \<and> total weight tokens s' = total weight tokens s"
  using assms(1) by (induction rule: rtranclp_induct) (use assms(2,3) step_total in auto)

lemma one_holder:
  assumes "runs act s s'" "list_all ok (fst s)" "total weight tokens s \<le> bound" "bound = 1"
    "i < length (fst s')" "j < length (fst s')" "0 < weight (fst s' ! i)" "0 < weight (fst s' ! j)"
  shows "i = j"
proof (rule ccontr)
  assume "i \<noteq> j"
  then have "2 \<le> sum_list (map weight (fst s'))"
    using weights_le_total[of i "fst s'" j weight] assms(5-8) by linarith
  moreover have "total weight tokens s' \<le> 1" using runs_total[OF assms(1-3)] assms(3,4) by simp
  ultimately show False by (simp add: total_def)
qed

end

section \<open>A mutex and a condition\<close>

datatype monitor_point = Away | Locking lock_point | Inside | Waiting wait_point

datatype monitor_action = CallLock | CallTry | CallUnlock | CallWait | CallSignal | Proceed

text \<open>
  The shared cells are the sequence of the condition and the state of the mutex. A call that has
  returned leaves the thread inside; \<open>Proceed\<close> is the next access of the call it is in.
\<close>

fun monitor_act :: "monitor_action \<Rightarrow> monitor_point \<Rightarrow> cell \<times> cell \<Rightarrow> (monitor_point \<times> (cell \<times> cell)) option" where
  "monitor_act CallLock Away (q, m) =
     (case lb_mutex_lock (Some m) of Inl _ \<Rightarrow> None | Inr p \<Rightarrow> Some (Locking p, (q, m)))"
| "monitor_act CallTry Away (q, m) =
     (case lb_mutex_try (Some m) of Inl _ \<Rightarrow> None | Inr (taken, m') \<Rightarrow> Some (if taken then Inside else Away, (q, m')))"
| "monitor_act CallUnlock Inside (q, m) =
     (case lb_mutex_unlock (Some m) of Inl _ \<Rightarrow> None | Inr m' \<Rightarrow> Some (Away, (q, m')))"
| "monitor_act CallWait Inside (q, m) =
     (case lb_cond_wait (Some q) (Some m) of Inl _ \<Rightarrow> None | Inr w \<Rightarrow> Some (Waiting w, (q, m)))"
| "monitor_act CallSignal Away (q, m) =
     (case lb_cond_signal (Some q) of Inl _ \<Rightarrow> None | Inr q' \<Rightarrow> Some (Away, (q', m)))"
| "monitor_act CallSignal Inside (q, m) =
     (case lb_cond_signal (Some q) of Inl _ \<Rightarrow> None | Inr q' \<Rightarrow> Some (Inside, (q', m)))"
| "monitor_act Proceed (Locking p) (q, m) =
     (case lb_mutex_lock_step p m of (p', m') \<Rightarrow> Some (if p' = LockHeld then Inside else Locking p', (q, m')))"
| "monitor_act Proceed (Waiting w) (q, m) =
     (case lb_cond_wait_step w (q, m) of (w', s') \<Rightarrow> Some (if w' = WaitLock LockHeld then Inside else Waiting w', s'))"
| "monitor_act _ _ _ = None"

text \<open>Who holds the mutex: the thread inside, or one whose wait has not yet let go of it.\<close>

fun holds_mutex :: "monitor_point \<Rightarrow> bool" where
  "holds_mutex Away = False"
| "holds_mutex (Locking p) = (p = LockHeld)"
| "holds_mutex Inside = True"
| "holds_mutex (Waiting w) = (case w of WaitRead \<Rightarrow> True | WaitUnlock _ \<Rightarrow> True | WaitSpin _ \<Rightarrow> False | WaitLock p \<Rightarrow> p = LockHeld)"

definition mutex_free :: "cell \<times> cell \<Rightarrow> nat" where
  "mutex_free s = of_bool (snd s = 0)"

abbreviation mutex_weight :: "monitor_point \<Rightarrow> nat" where
  "mutex_weight p \<equiv> of_bool (holds_mutex p)"

lemmas sync_calls = lb_mutex_lock_def lb_mutex_try_def lb_mutex_unlock_def lb_cond_wait_def lb_cond_signal_def
  lb_cond_broadcast_def lb_once_begin_def lb_once_end_def lb_once_wait_def lb_once_wait_step_def lb_sem_acquire_def
  lb_sem_release_def with_pointer_def compare_exchange_def

lemma monitor_conserves:
  assumes "monitor_act a p c = Some (p', c')" "mutex_free c + mutex_weight p \<le> 1"
  shows "mutex_free c' + mutex_weight p' = mutex_free c + mutex_weight p"
  using assms
proof (induction a p c rule: monitor_act.induct)
  case (7 p q m)
  then show ?case by (cases p) (auto simp: sync_calls mutex_free_def split: if_splits)
next
  case (8 w q m)
  then show ?case
  proof (cases w)
    case (WaitLock p)
    with 8 show ?thesis by (cases p) (auto simp: sync_calls mutex_free_def split: if_splits)
  qed (auto simp: sync_calls mutex_free_def split: if_splits)
qed (auto simp: sync_calls mutex_free_def split: if_splits)

interpretation mutex: token_protocol monitor_act "\<lambda>_. True" mutex_weight mutex_free 1
  by unfold_locales (simp add: monitor_conserves)

text \<open>A state no thread has touched: every thread away, the mutex free.\<close>

definition monitor_start :: "nat \<Rightarrow> cell \<Rightarrow> monitor_point list \<times> (cell \<times> cell)" where
  "monitor_start n q = (replicate n Away, (q, 0))"

lemma monitor_start_total: "total mutex_weight mutex_free (monitor_start n q) = 1"
  by (simp add: total_def monitor_start_def mutex_free_def)

lemma mutex_taken:
  assumes "runs monitor_act (monitor_start n q) (ps, (q', m))"
  shows "sum_list (map mutex_weight ps) = of_bool (m \<noteq> 0)"
proof -
  have "total mutex_weight mutex_free (ps, (q', m)) = 1"
    using mutex.runs_total[OF assms] by (simp add: monitor_start_total list_all_iff)
  then show ?thesis unfolding total_def mutex_free_def by (cases "m = 0") simp_all
qed

lemma mutex_free_iff:
  assumes "runs monitor_act (monitor_start n q) (ps, (q', m))"
  shows "m = 0 \<longleftrightarrow> (\<forall>p \<in> set ps. \<not> holds_mutex p)"
proof -
  have "sum_list (map mutex_weight ps) = 0 \<longleftrightarrow> (\<forall>p \<in> set ps. \<not> holds_mutex p)"
    by (auto simp: sum_list_eq_0_iff)
  then show ?thesis using mutex_taken[OF assms] by auto
qed

text \<open>Scripts: the state after a list of the threads' actions, when every one of them can be made.\<close>

fun script :: "('a \<Rightarrow> 'p \<Rightarrow> 'c \<Rightarrow> ('p \<times> 'c) option) \<Rightarrow> (nat \<times> 'a) list \<Rightarrow> 'p list \<times> 'c \<Rightarrow> ('p list \<times> 'c) option" where
  "script act [] s = Some s"
| "script act ((i, a) # as) (ps, c) =
     (if i < length ps
      then case act a (ps ! i) c of None \<Rightarrow> None | Some (p, c') \<Rightarrow> script act as (ps[i := p], c')
      else None)"

lemma script_runs: "script act as s = Some s' \<Longrightarrow> runs act s s'"
proof (induction act as s rule: script.induct)
  case (2 act i a as ps c)
  then show ?case
    by (auto split: if_splits option.splits prod.splits intro: converse_rtranclp_into_rtranclp thread_acts)
qed simp

lemma script_goes_on: "runs act s0 s \<Longrightarrow> script act as s = Some s' \<Longrightarrow> runs act s0 s'"
  using script_runs rtranclp_trans by metis

text \<open>
  C7: whatever the interleaving of any number of threads that lock, try, unlock, wait and signal,
  at most one is inside the mutex, a thread whose wait has returned included; and the mutex's state
  is 0 exactly when nobody holds it.
\<close>

theorem mutex_excludes:
  assumes "runs monitor_act (monitor_start n q) (ps, (q', m))"
  shows "(\<forall>i < n. \<forall>j < n. holds_mutex (ps ! i) \<and> holds_mutex (ps ! j) \<longrightarrow> i = j) \<and>
    (m = 0 \<longleftrightarrow> (\<forall>p \<in> set ps. \<not> holds_mutex p))"
proof (intro conjI allI impI)
  have n: "length ps = n" using runs_length[OF assms] by (simp add: monitor_start_def)
  show "i = j" if "i < n" "j < n" "holds_mutex (ps ! i) \<and> holds_mutex (ps ! j)" for i j
    using mutex.one_holder[OF assms, of i j] that by (simp add: monitor_start_total n list_all_iff)
  show "m = 0 \<longleftrightarrow> (\<forall>p \<in> set ps. \<not> holds_mutex p)" by (rule mutex_free_iff[OF assms])
qed

lemma mutex_excludes_witness:
  "let ps = [Waiting (WaitLock LockSpin), Inside]
   in (\<forall>i < 2. \<forall>j < 2. holds_mutex (ps ! i) \<and> holds_mutex (ps ! j) \<longrightarrow> i = j) \<and>
      ((1::cell) = 0 \<longleftrightarrow> (\<forall>p \<in> set ps. \<not> holds_mutex p))"
  unfolding Let_def
  by (rule mutex_excludes[of _ 0 _ 1], rule script_runs[of _ "[(0, CallLock), (0, Proceed), (0, CallWait), (0, Proceed),
      (0, Proceed), (1, CallTry), (1, CallSignal), (0, Proceed), (0, Proceed)]"])
    (simp add: monitor_start_def sync_calls numeral_2_eq_2)

lemma free_mutex_taken:
  assumes "i < length ps" "ps ! i = Locking p"
  shows "\<exists>ps' q' m'. runs monitor_act (ps, (q, 0)) (ps', (q', m')) \<and> ps' ! i = Inside"
proof (cases p)
  case LockSpin
  then show ?thesis
    using script_runs[of monitor_act "[(i, Proceed), (i, Proceed)]" "(ps, (q, 0))" "(ps[i := Inside], (q, 1))"] assms
    by (intro exI conjI) (auto simp: sync_calls)
next
  case LockTry
  then show ?thesis
    using script_runs[of monitor_act "[(i, Proceed)]" "(ps, (q, 0))" "(ps[i := Inside], (q, 1))"] assms
    by (intro exI conjI) (auto simp: sync_calls)
next
  case LockHeld
  then show ?thesis
    using script_runs[of monitor_act "[(i, Proceed)]" "(ps, (q, 0))" "(ps[i := Inside], (q, 0))"] assms
    by (intro exI conjI) (auto simp: sync_calls)
qed

lemma held_mutex_freed:
  assumes "j < length ps" "holds_mutex (ps ! j)"
  shows "\<exists>p. runs monitor_act (ps, (q, m)) (ps[j := p], (q, 0))"
proof -
  have left: ?thesis if "script monitor_act as (ps, (q, m)) = Some (ps[j := p], (q, 0))" for as p
    using script_runs[OF that] by blast
  show ?thesis
  proof (cases "ps ! j")
    case Inside
    then show ?thesis using assms by (intro left[of "[(j, CallUnlock)]" Away]) (simp add: sync_calls)
  next
    case (Locking p)
    then show ?thesis
      using assms by (intro left[of "[(j, Proceed), (j, CallUnlock)]" Away]) (simp add: sync_calls)
  next
    case (Waiting w)
    show ?thesis
    proof (cases w)
      case WaitRead
      then show ?thesis
        using assms Waiting by (intro left[of "[(j, Proceed), (j, Proceed)]" "Waiting (WaitSpin q)"]) simp
    next
      case (WaitUnlock s)
      then show ?thesis using assms Waiting by (intro left[of "[(j, Proceed)]" "Waiting (WaitSpin s)"]) simp
    next
      case WaitSpin
      then show ?thesis using assms Waiting by simp
    next
      case (WaitLock p)
      then show ?thesis
        using assms Waiting by (intro left[of "[(j, Proceed), (j, CallUnlock)]" Away]) (simp add: sync_calls)
    qed
  qed (use assms in simp)
qed

text \<open>
  C31: the mutex is never lost: from every state the threads can reach, a thread in \<open>lb_mutex_lock\<close> can
  still get in, by steps of the holder that leaves and then its own.
\<close>

theorem mutex_obtainable:
  assumes "runs monitor_act (monitor_start n q) (ps, (q', m))" "i < n" "ps ! i = Locking p"
  shows "\<exists>ps' s. runs monitor_act (ps, (q', m)) (ps', s) \<and> ps' ! i = Inside"
proof -
  have n: "length ps = n" using runs_length[OF assms(1)] by (simp add: monitor_start_def)
  show ?thesis
  proof (cases "m = 0")
    case True
    then show ?thesis using free_mutex_taken[of i ps p q'] assms n by auto
  next
    case False
    then have "\<exists>p \<in> set ps. holds_mutex p" using mutex_free_iff[OF assms(1)] by blast
    then obtain j where j: "j < length ps" "holds_mutex (ps ! j)" by (auto simp: in_set_conv_nth)
    then obtain h where free: "runs monitor_act (ps, (q', m)) (ps[j := h], (q', 0))" using held_mutex_freed by blast
    show ?thesis
    proof (cases "i = j")
      case True
      then have "p = LockHeld" using j assms(3) by simp
      then have "script monitor_act [(i, Proceed)] (ps, (q', m)) = Some (ps[i := Inside], (q', m))"
        using assms n by simp
      then show ?thesis using script_runs assms(2) n by (metis nth_list_update_eq)
    next
      case False
      then have "i < length (ps[j := h])" "ps[j := h] ! i = Locking p" using assms n by simp_all
      then obtain ps' q'' m' where "runs monitor_act (ps[j := h], (q', 0)) (ps', (q'', m'))" "ps' ! i = Inside"
        using free_mutex_taken by blast
      then show ?thesis using rtranclp_trans[OF free] by blast
    qed
  qed
qed

lemma mutex_obtainable_witness:
  "\<exists>ps' s. runs monitor_act ([Inside, Locking LockSpin], (0, 1)) (ps', s) \<and> ps' ! 1 = Inside"
proof (rule mutex_obtainable[of 2 0])
  show "runs monitor_act (monitor_start 2 0) ([Inside, Locking LockSpin], (0, 1))"
    by (rule script_runs[of _ "[(0, CallTry), (1, CallLock), (1, Proceed)]"])
      (simp add: monitor_start_def sync_calls numeral_2_eq_2)
qed simp_all

text \<open>
  A waiter reads the sequence before it lets go of the mutex, so no signal after that is lost: its
  loop ends at any count of signals that is not a multiple of \<open>2 ^ 32\<close>.
\<close>

lemma signals_count: "((\<lambda>q. projr (lb_cond_signal (Some q))) ^^ k) q = q + of_nat k"
  by (induction k) (simp_all add: sync_calls)

lemma no_lost_wakeup:
  "lb_cond_wait_step (WaitSpin s) (((\<lambda>q. projr (lb_cond_signal (Some q))) ^^ k) s, m) =
     (if 2 ^ 32 dvd k then WaitSpin s else WaitLock LockTry, (s + of_nat k, m))"
  by (simp add: signals_count word_of_nat_eq_0_iff)

section \<open>A once\<close>

text \<open>
  \<open>Once.run\<close> is emitted as a begin, then the body and an end for the thread that began, and a wait for
  the others (\<open>src/emit/call.cpp\<close>). A thread's point is where it is and how often it has run the body.
\<close>

datatype once_point = Apart | InBody | Awaiting | Passed

datatype once_action = CallRun | OnceProceed

fun once_act :: "once_action \<Rightarrow> once_point \<times> nat \<Rightarrow> cell \<Rightarrow> ((once_point \<times> nat) \<times> cell) option" where
  "once_act CallRun (p, r) c =
     (if p = Apart \<or> p = Passed
      then case lb_once_begin (Some c) of Inl _ \<Rightarrow> None
           | Inr (first, c') \<Rightarrow> Some (if first then (InBody, r + 1) else (Awaiting, r), c')
      else None)"
| "once_act OnceProceed (InBody, r) c = (case lb_once_end (Some c) of Inl _ \<Rightarrow> None | Inr c' \<Rightarrow> Some ((Passed, r), c'))"
| "once_act OnceProceed (Awaiting, r) c = Some (if lb_once_wait_step c then (Passed, r) else (Awaiting, r), c)"
| "once_act OnceProceed p c = None"

definition once_free :: "cell \<Rightarrow> nat" where
  "once_free c = of_bool (c = 0)"

text \<open>A thread in the body has been counted as a run of it.\<close>

definition once_point_ok :: "once_point \<times> nat \<Rightarrow> bool" where
  "once_point_ok p = (fst p = InBody \<longrightarrow> 0 < snd p)"

interpretation once: token_protocol once_act once_point_ok snd once_free 1
proof
  fix a p c p' c'
  assume "once_act a p c = Some (p', c')" "once_point_ok p" "once_free c + snd p \<le> 1"
  then show "once_point_ok p' \<and> once_free c' + snd p' = once_free c + snd p"
    by (induction a p c rule: once_act.induct) (auto simp: sync_calls once_free_def once_point_ok_def split: if_splits)
qed

definition once_start :: "nat \<Rightarrow> (once_point \<times> nat) list \<times> cell" where
  "once_start n = (replicate n (Apart, 0), 0)"

lemma once_start_total: "total snd once_free (once_start n) = 1"
  by (simp add: total_def once_start_def once_free_def sum_list_replicate)

text \<open>Where the threads can be at each value of the cell.\<close>

definition once_inv :: "(once_point \<times> nat) list \<times> cell \<Rightarrow> bool" where
  "once_inv s = (list_all once_point_ok (fst s) \<and> total snd once_free s = 1 \<and>
     (\<forall>p \<in> set (fst s). (fst p = Passed \<longrightarrow> snd s = 2) \<and> (fst p = InBody \<longrightarrow> snd s = 1)))"

lemma once_inv_step:
  assumes st: "interleave once_act s s'" and inv: "once_inv s"
  shows "once_inv s'"
proof -
  obtain i ps a c p c' where s: "s = (ps, c)" "s' = (ps[i := p], c')" and i: "i < length ps"
    and act: "once_act a (ps ! i) c = Some (p, c')" using st by (auto elim: interleaveE)
  have tot: "list_all once_point_ok (fst s') \<and> total snd once_free s' = 1"
    using once.step_total[OF st] inv by (simp add: once_inv_def)
  have old: "(fst x = Passed \<longrightarrow> c = 2) \<and> (fst x = InBody \<longrightarrow> c = 1 \<and> 0 < snd x)" if "x \<in> set ps" for x
    using that inv s by (auto simp: once_inv_def list_all_iff once_point_ok_def)
  have one: "j = i" if "j < length ps" "fst (ps ! j) = InBody" "fst (ps ! i) = InBody" for j
    using that old[OF nth_mem[OF that(1)]] old[OF nth_mem[OF i]] once.one_holder[of s s j i] inv s i
    by (simp add: once_inv_def)
  have "(fst x = Passed \<longrightarrow> c' = 2) \<and> (fst x = InBody \<longrightarrow> c' = 1)" if x: "x \<in> set (ps[i := p])" for x
  proof -
    obtain j where j: "j < length ps" "x = ps[i := p] ! j" using x by (auto simp: in_set_conv_nth)
    obtain w r where w: "ps ! i = (w, r)" by (cases "ps ! i")
    note act = act[unfolded w] and old_i = old[OF nth_mem[OF i], unfolded w]
    show ?thesis
    proof (cases "j = i")
      case True
      then have "x = p" using j by simp
      then show ?thesis using act old_i by (cases a; cases w) (auto simp: sync_calls split: if_splits)
    next
      case False
      then have "x = ps ! j" using j by simp
      then show ?thesis
        using act old_i old[OF nth_mem[OF j(1)]] one[OF j(1)] False w
        by (cases a; cases w) (auto simp: sync_calls split: if_splits)
    qed
  qed
  then show ?thesis using tot s by (simp add: once_inv_def)
qed

lemma once_inv_runs: "runs once_act (once_start n) s \<Longrightarrow> once_inv s"
proof (induction rule: rtranclp_induct)
  case base
  show ?case by (simp add: once_inv_def once_start_total) (simp add: once_start_def list_all_iff once_point_ok_def)
qed (rule once_inv_step)

text \<open>
  C32: whatever the interleaving, the body of a once runs at most once in all; and a thread that has
  passed \<open>run\<close> passes after the body has run to its end, by the one thread that began it.
\<close>

theorem once_runs_once:
  assumes "runs once_act (once_start n) (ps, c)"
  shows "sum_list (map snd ps) \<le> 1 \<and>
    ((\<exists>p \<in> set ps. fst p = Passed) \<longrightarrow> sum_list (map snd ps) = 1 \<and> (\<forall>p \<in> set ps. fst p \<noteq> InBody))"
proof -
  have inv: "once_inv (ps, c)" by (rule once_inv_runs[OF assms])
  then have runs: "of_bool (c = 0) + sum_list (map snd ps) = 1" by (simp add: once_inv_def total_def once_free_def)
  have "c = 2" if "\<exists>p \<in> set ps. fst p = Passed" using inv that by (auto simp: once_inv_def)
  moreover have "c = 1" if "\<exists>p \<in> set ps. fst p = InBody" using inv that by (auto simp: once_inv_def)
  ultimately have two: "\<not> (\<exists>p \<in> set ps. fst p = InBody) \<and> c \<noteq> 0" if "\<exists>p \<in> set ps. fst p = Passed"
    using that by force
  show ?thesis
  proof (cases "c = 0")
    case True
    then have s: "sum_list (map snd ps) = 0" using runs by simp
    show ?thesis unfolding s using True two by auto
  next
    case False
    then show ?thesis using runs two by simp
  qed
qed

lemma once_runs_once_witness:
  "let ps = [(Passed, 1 :: nat), (Awaiting, 0)]
   in sum_list (map snd ps) \<le> 1 \<and>
      ((\<exists>p \<in> set ps. fst p = Passed) \<longrightarrow> sum_list (map snd ps) = 1 \<and> (\<forall>p \<in> set ps. fst p \<noteq> InBody))"
proof -
  have "runs once_act (once_start 2) ([(Passed, 1), (Awaiting, 0)], 2)"
    by (rule script_runs[of _ "[(0, CallRun), (1, CallRun), (1, OnceProceed), (0, OnceProceed)]"])
      (simp add: once_start_def sync_calls numeral_2_eq_2)
  then show ?thesis unfolding Let_def by (rule once_runs_once)
qed

section \<open>A semaphore\<close>

text \<open>A thread's point is its place in an acquire, if it is in one, and the permits it has.\<close>

datatype sem_action = CallAcquire | CallRelease | SemProceed bool

fun sem_act :: "sem_action \<Rightarrow> sem_point option \<times> nat \<Rightarrow> cell \<Rightarrow> ((sem_point option \<times> nat) \<times> cell) option" where
  "sem_act CallAcquire (None, k) c =
     (case lb_sem_acquire (Some c) of Inl _ \<Rightarrow> None | Inr p \<Rightarrow> Some ((Some p, k), c))"
| "sem_act CallRelease (None, Suc k) c =
     (case lb_sem_release (Some c) of Inl _ \<Rightarrow> None | Inr c' \<Rightarrow> Some ((None, k), c'))"
| "sem_act (SemProceed spurious) (Some p, k) c =
     (case lb_sem_acquire_step spurious p c of (p', c') \<Rightarrow>
        Some (if p' = SemHeld \<and> p \<noteq> SemHeld then (None, Suc k) else (Some p', k), c'))"
| "sem_act _ _ _ = None"

text \<open>
  The count an exchange expects is one its load found positive, so it never takes a permit from an
  empty semaphore.
\<close>

fun sem_point_ok :: "sem_point option \<times> nat \<Rightarrow> bool" where
  "sem_point_ok (Some (SemExchange n), k) = (0 < n)"
| "sem_point_ok p = True"

interpretation sem: token_protocol sem_act sem_point_ok snd unat "2 ^ 32 - 1"
proof
  fix a p c p' c'
  assume "sem_act a p c = Some (p', c')" "sem_point_ok p" "unat c + snd p \<le> 2 ^ 32 - 1"
  then show "sem_point_ok p' \<and> unat c' + snd p' = unat c + snd p"
  proof (induction a p c rule: sem_act.induct)
    case (2 k c)
    then have "unat (c + 1) = unat c + 1" by (subst unat_plus_simple[THEN iffD1]) (auto simp: word_le_nat_alt unat_word_ariths)
    with 2 show ?case by (auto simp: sync_calls)
  next
    case (3 spurious p k c)
    then show ?case
      by (cases p) (auto simp: sync_calls unat_minus_one word_neq_0_conv unat_gt_0 split: if_splits)
  qed (auto simp: sync_calls)
qed

definition sem_start :: "nat \<Rightarrow> cell \<Rightarrow> (sem_point option \<times> nat) list \<times> cell" where
  "sem_start n c = (replicate n (None, 0), c)"

text \<open>
  C33: whatever the interleaving, and whichever weak exchanges fail, the permits the threads hold and
  the count of a semaphore add up to the count it began with; so no more threads than that are ever
  past \<open>acquire\<close>, and the count never wraps.
\<close>

theorem semaphore_permits:
  assumes "runs sem_act (sem_start n c0) (ps, c)"
  shows "unat c + sum_list (map snd ps) = unat c0"
proof -
  have "unat c0 \<le> 2 ^ 32 - 1" using unsigned_less[of c0, where ?'a = nat] by simp
  then show ?thesis using sem.runs_total[OF assms] by (simp add: total_def sem_start_def list_all_iff map_replicate_const sum_list_replicate)
qed

lemma semaphore_permits_witness:
  "unat (0 :: cell) + sum_list (map snd [(None :: sem_point option, 1), (Some SemSpin, 0)]) = unat (1 :: cell)"
  by (rule semaphore_permits[of 2], rule script_runs[of _ "[(0, CallAcquire), (1, CallAcquire), (1, SemProceed False),
      (0, SemProceed False), (0, SemProceed False), (1, SemProceed False)]"])
    (simp add: sem_start_def sync_calls numeral_2_eq_2)

end
