(* ===== verification/Layout.thy ===== *)
theory Layout
  imports Types "HOL-Library.Monad_Syntax"
begin

section \<open>Layout of types\<close>

text \<open>
  The layout part of \<open>check/type.cpp\<close>: alignment, size, field offsets and zeroability. Alignment and
  size call each other through the declarations of nominal types, so each is a step function over
  the two of them, tied by fuel; running out of fuel is \<open>None\<close>. Layouts are \<open>int\<close>s in the code, and
  mathematical integers here: a layout of more than \<open>2 ^ 31 - 1\<close> bytes is undefined behaviour there.
  The conversions \<open>static_cast<int>\<close> of 64-bit lengths and alignments are written out.
\<close>

fun const_u64_node :: "node \<Rightarrow> 64 word option" where
  "const_u64_node (Node k sp text tk fl left right body ty lb at dirs) =
     (if k = NLiteral \<and> tk = IntLit then
        (let p = parse_int_literal text in if int_ok p then Some (int_value p) else None)
      else if k = NGroup then (case left of [] \<Rightarrow> None | n # _ \<Rightarrow> const_u64_node n)
      else None)"

definition const_u64_lit :: "node list \<Rightarrow> 64 word option" where
  "const_u64_lit ns = (case ns of [] \<Rightarrow> None | n # _ \<Rightarrow> const_u64_node n)"

definition static_int :: "64 word \<Rightarrow> int" where
  "static_int n = sint (ucast n :: 32 word)"

definition pad_to :: "int \<Rightarrow> int \<Rightarrow> int" where
  "pad_to off align =
     (if align \<le> 1 then off
      else let r = off smod align in if r = 0 then off else off + (align - r))"

definition padded :: "int \<Rightarrow> int \<Rightarrow> int" where
  "padded n align =
     (if align \<le> 1 then n
      else let r = n smod align in if r = 0 then n else n + (align - r))"

type_synonym layout = "ty option \<Rightarrow> int option"

text \<open>An alignment raised by an \<open>align(N)\<close> whose \<open>N\<close> is a literal.\<close>

definition raised_by :: "node list \<Rightarrow> int \<Rightarrow> int" where
  "raised_by ns a =
     (case const_u64_lit ns of None \<Rightarrow> a | Some n \<Rightarrow> if a < static_int n then static_int n else a)"

definition field_align :: "layout \<Rightarrow> type_member \<Rightarrow> int option" where
  "field_align al f = do {
     a \<leftarrow> al (tm_ty f);
     let a = raised_by (tm_right f) a;
     Some (if a < 1 then 1 else a)
   }"

definition is_packed :: "ty \<Rightarrow> type_decl \<Rightarrow> bool" where
  "is_packed t d \<longleftrightarrow> ty_packed t \<or> has_flag (td_flags d) FlagPacked"

definition effective_align :: "layout \<Rightarrow> bool \<Rightarrow> type_member \<Rightarrow> int option" where
  "effective_align al packed f = (if packed then Some 1 else field_align al f)"

text \<open>
  The loop of \<open>layout_struct\<close> on the size, the alignment and the offset asked for; \<open>want\<close> is \<open>None\<close>
  where the caller passes no place for an offset.
\<close>

fun layout_fields ::
  "layout \<Rightarrow> layout \<Rightarrow> bool \<Rightarrow> string option \<Rightarrow> type_member list \<Rightarrow> int \<Rightarrow> int \<Rightarrow> int \<Rightarrow> (int \<times> int \<times> int) option" where
  "layout_fields al sz packed want [] used align off = Some (used, align, off)"
| "layout_fields al sz packed want (m # ms) used align off =
     (if tm_kind m \<noteq> NField then layout_fields al sz packed want ms used align off
      else do {
        fa \<leftarrow> effective_align al packed m;
        fs \<leftarrow> sz (tm_ty m);
        let used = (if packed then used else pad_to used fa);
        layout_fields al sz packed want ms (used + fs) (if align < fa then fa else align)
          (if want = Some (tm_text m) then used else off)
      })"

definition raised_struct :: "ty \<Rightarrow> type_decl \<Rightarrow> int \<Rightarrow> int" where
  "raised_struct t d align =
     (let align = raised_by (td_type d) align in if align < ty_align_to t then ty_align_to t else align)"

definition layout_struct :: "layout \<Rightarrow> layout \<Rightarrow> decls \<Rightarrow> ty \<Rightarrow> string option \<Rightarrow> (int \<times> int) option" where
  "layout_struct al sz D t want =
     (case decl_of D t of
        None \<Rightarrow> Some (0, - 1)
      | Some d \<Rightarrow> do {
          (used, align, off) \<leftarrow> layout_fields al sz (is_packed t d) want (td_body d) 0 1 (- 1);
          Some (pad_to used (raised_struct t d align), off)
        })"

text \<open>The loops that take the largest alignment, from a first one.\<close>

fun max_align :: "('a \<Rightarrow> int option) \<Rightarrow> 'a list \<Rightarrow> int \<Rightarrow> int option" where
  "max_align al [] align = Some align"
| "max_align al (x # xs) align = do {
     a \<leftarrow> al x;
     max_align al xs (if align < a then a else align)
   }"

definition fields_of :: "type_decl \<Rightarrow> type_member list" where
  "fields_of d = filter (\<lambda>m. tm_kind m = NField) (td_body d)"

definition cases_of :: "type_decl \<Rightarrow> type_member list" where
  "cases_of d = filter (\<lambda>m. tm_kind m = NEnumCase) (td_body d)"

definition at_least_one :: "int \<Rightarrow> int" where
  "at_least_one a = (if a < 1 then 1 else a)"

definition struct_align :: "layout \<Rightarrow> decls \<Rightarrow> ty \<Rightarrow> int option" where
  "struct_align al D t = do {
     align \<leftarrow> (case decl_of D t of
        None \<Rightarrow> Some 1
      | Some d \<Rightarrow> do {
          align \<leftarrow> max_align (effective_align al (is_packed t d)) (fields_of d) 1;
          Some (raised_by (td_type d) align)
        });
     Some (at_least_one (if align < ty_align_to t then ty_align_to t else align))
   }"

definition union_align :: "layout \<Rightarrow> decls \<Rightarrow> ty \<Rightarrow> int option" where
  "union_align al D t =
     (case decl_of D t of
        None \<Rightarrow> Some 1
      | Some d \<Rightarrow> max_align (\<lambda>m. al (tm_ty m)) (fields_of d) 1)"

text \<open>The payloads of an enum, one case after another.\<close>

definition enum_align :: "layout \<Rightarrow> decls \<Rightarrow> ty \<Rightarrow> int option" where
  "enum_align al D t =
     (case decl_of D t of
        None \<Rightarrow> Some 4
      | Some d \<Rightarrow> max_align al (concat (map tm_params (cases_of d))) 4)"

definition type_align_step :: "layout \<Rightarrow> layout \<Rightarrow> decls \<Rightarrow> ty option \<Rightarrow> int option" where
  "type_align_step al sz D t =
     (case t of
        None \<Rightarrow> Some 1
      | Some ty \<Rightarrow>
          let k = ty_kind ty in
          if k \<in> {TyPointer, TySpan, TyStr, TyCStr, TyAllocator, TyInterface, TyFunc} then Some pointer_bytes
          else if k = TyArray then al (ty_elem ty)
          else if k = TyStruct then struct_align al D ty
          else if k = TyUnion then do { align \<leftarrow> union_align al D ty; Some (at_least_one align) }
          else if k = TyTuple then do { align \<leftarrow> max_align al (ty_args ty) 1; Some (at_least_one align) }
          else if k = TyOptional then al (ty_elem ty)
          else if k = TyFallible then do {
            a \<leftarrow> (case ty_elem ty of None \<Rightarrow> Some 1 | Some e \<Rightarrow> al (Some e));
            Some (if 8 < a then a else 8)
          }
          else if k = TyEnum then (if is_int_enum t then al (ty_elem ty) else enum_align al D ty)
          else do { n \<leftarrow> sz t; Some (if n \<le> 0 then 1 else n) })"

fun tuple_size :: "layout \<Rightarrow> layout \<Rightarrow> ty option list \<Rightarrow> int \<Rightarrow> int option" where
  "tuple_size al sz [] used = Some used"
| "tuple_size al sz (x # xs) used = do {
     a \<leftarrow> al x;
     s \<leftarrow> sz x;
     tuple_size al sz xs ((if 1 < a then let r = used smod a in if r \<noteq> 0 then used + (a - r) else used else used) + s)
   }"

fun union_size :: "layout \<Rightarrow> layout \<Rightarrow> type_member list \<Rightarrow> int \<Rightarrow> int \<Rightarrow> (int \<times> int) option" where
  "union_size al sz [] used align = Some (used, align)"
| "union_size al sz (m # ms) used align = do {
     fs \<leftarrow> sz (tm_ty m);
     fa \<leftarrow> al (tm_ty m);
     union_size al sz ms (if used < fs then fs else used) (if align < fa then fa else align)
   }"

text \<open>The payload of a case: the offset reached and the largest alignment.\<close>

fun payload_size :: "layout \<Rightarrow> layout \<Rightarrow> ty option list \<Rightarrow> int \<Rightarrow> int \<Rightarrow> (int \<times> int) option" where
  "payload_size al sz [] s a = Some (s, a)"
| "payload_size al sz (p # ps) s a = do {
     fa \<leftarrow> al p;
     fs \<leftarrow> sz p;
     payload_size al sz ps (pad_to s fa + fs) (if a < fa then fa else a)
   }"

fun cases_size :: "layout \<Rightarrow> layout \<Rightarrow> type_member list \<Rightarrow> int \<Rightarrow> int \<Rightarrow> (int \<times> int) option" where
  "cases_size al sz [] psz palign = Some (psz, palign)"
| "cases_size al sz (c # cs) psz palign = do {
     (s, a) \<leftarrow> payload_size al sz (tm_params c) 0 1;
     let s = pad_to s a;
     cases_size al sz cs (if psz < s then s else psz) (if palign < a then a else palign)
   }"

definition enum_size :: "layout \<Rightarrow> layout \<Rightarrow> decls \<Rightarrow> ty \<Rightarrow> int option" where
  "enum_size al sz D t = do {
     (psz, palign) \<leftarrow> cases_size al sz (case decl_of D t of None \<Rightarrow> [] | Some d \<Rightarrow> cases_of d) 0 4;
     Some (pad_to (pad_to 4 palign + psz) palign)
   }"

definition fixed_size :: "type_kind \<Rightarrow> int option" where
  "fixed_size k = map_of
     [(TyBool, 1), (TyI8, 1), (TyU8, 1), (TyI16, 2), (TyU16, 2), (TyF16, 2), (TyI32, 4), (TyU32, 4),
      (TyF32, 4), (TyErrorCode, 4), (TyI64, 8), (TyU64, 8), (TyF64, 8), (TyIsize, pointer_bytes),
      (TyUsize, pointer_bytes), (TyChar, 4), (TyUnit, 0), (TyStr, pointer_bytes + 8),
      (TyPointer, pointer_bytes), (TyCStr, pointer_bytes), (TyFunc, pointer_bytes),
      (TyAllocator, pointer_bytes + 4), (TyInterface, pointer_bytes * 2), (TyFmt, pointer_bytes + 8),
      (TySpan, pointer_bytes + 8), (TyErrorVal, 4 + pointer_bytes + 8), (TyVoid, 0)] k"

definition type_size_step :: "layout \<Rightarrow> layout \<Rightarrow> decls \<Rightarrow> ty option \<Rightarrow> int option" where
  "type_size_step al sz D t =
     (case t of
        None \<Rightarrow> Some 0
      | Some ty \<Rightarrow>
          let k = ty_kind ty in
          (case fixed_size k of
             Some n \<Rightarrow> Some n
           | None \<Rightarrow>
               if k = TyOptional then do {
                 align \<leftarrow> al t;
                 value \<leftarrow> sz (ty_elem ty);
                 Some (padded (value + 1) align)
               }
               else if k = TyFallible then do {
                 align \<leftarrow> al t;
                 value \<leftarrow> (case ty_elem ty of
                    None \<Rightarrow> Some 0
                  | Some e \<Rightarrow> if ty_kind e = TyUnit then Some 0 else sz (Some e));
                 Some (padded (padded value 8 + 24 + 1) align)
               }
               else if k = TyAtomic then sz (ty_elem ty)
               else if k = TyTuple then do {
                 used \<leftarrow> tuple_size al sz (ty_args ty) 0;
                 align \<leftarrow> al t;
                 Some (padded used align)
               }
               else if k = TyArray then do {
                 elem \<leftarrow> sz (ty_elem ty);
                 Some (elem * static_int (ty_length ty))
               }
               else if k = TyStruct then map_option fst (layout_struct al sz D ty None)
               else if k = TyUnion then
                 (case decl_of D ty of
                    None \<Rightarrow> Some 0
                  | Some d \<Rightarrow> do {
                      (used, align) \<leftarrow> union_size al sz (fields_of d) 0 1;
                      Some (pad_to used align)
                    })
               else if k = TyEnum then (if is_int_enum t then sz (ty_elem ty) else enum_size al sz D ty)
               else Some 0))"

subsection \<open>The functions, on fuel\<close>

fun layouts :: "decls \<Rightarrow> nat \<Rightarrow> layout \<times> layout" where
  "layouts D 0 = (\<lambda>t. None, \<lambda>t. None)"
| "layouts D (Suc n) =
     (type_align_step (fst (layouts D n)) (snd (layouts D n)) D, type_size_step (fst (layouts D n)) (snd (layouts D n)) D)"

definition type_align :: "decls \<Rightarrow> nat \<Rightarrow> ty option \<Rightarrow> int option" where
  "type_align D n = fst (layouts D n)"

definition type_size :: "decls \<Rightarrow> nat \<Rightarrow> ty option \<Rightarrow> int option" where
  "type_size D n = snd (layouts D n)"

lemma type_align_simps [simp]:
  "type_align D 0 t = None"
  "type_align D (Suc n) t = type_align_step (type_align D n) (type_size D n) D t"
  by (simp_all add: type_align_def type_size_def)

lemma type_size_simps [simp]:
  "type_size D 0 t = None"
  "type_size D (Suc n) t = type_size_step (type_align D n) (type_size D n) D t"
  by (simp_all add: type_align_def type_size_def)

definition type_offset :: "decls \<Rightarrow> nat \<Rightarrow> ty \<Rightarrow> string \<Rightarrow> int option" where
  "type_offset D n t field =
     (if is_union (Some t) then Some 0
      else map_option snd (layout_struct (type_align D n) (type_size D n) D t (Some field)))"

subsection \<open>Zeroability\<close>

text \<open>Whether a case of an integer-backed enum has the value 0, as the loop counts the values.\<close>

fun zero_case :: "type_member list \<Rightarrow> 64 word \<Rightarrow> bool" where
  "zero_case [] next = False"
| "zero_case (c # cs) next =
     (let v = (case const_u64_lit (tm_left c) of None \<Rightarrow> next | Some v \<Rightarrow> v)
      in v = 0 \<or> zero_case cs (v + 1))"

fun all_zeroable :: "('a \<Rightarrow> bool option) \<Rightarrow> 'a list \<Rightarrow> bool option" where
  "all_zeroable z [] = Some True"
| "all_zeroable z (x # xs) = do { b \<leftarrow> z x; if b then all_zeroable z xs else Some False }"

fun zero_members :: "(ty option \<Rightarrow> bool option) \<Rightarrow> type_member list \<Rightarrow> bool option" where
  "zero_members z [] = Some True"
| "zero_members z (m # ms) =
     (if tm_kind m = NField then do {
        b \<leftarrow> z (tm_ty m);
        if \<not> b \<or> tm_left m \<noteq> [] then Some False else zero_members z ms
      }
      else if tm_kind m = NFunc \<and> tm_text m = ''init'' then Some False
      else zero_members z ms)"

definition is_zeroable_step :: "(ty option \<Rightarrow> bool option) \<Rightarrow> decls \<Rightarrow> ty option \<Rightarrow> bool option" where
  "is_zeroable_step z D t =
     (case t of
        None \<Rightarrow> Some False
      | Some ty \<Rightarrow>
          if is_atomic t then z (ty_elem ty)
          else if is_int t \<or> is_float t \<or> ty_kind ty \<in> {TyBool, TyUnit, TyStr, TyChar, TySpan, TyErrorCode} then Some True
          else if is_ptr t \<and> ty_nullable ty then Some True
          else if is_func t \<and> ty_nullable ty then Some True
          else if is_array t then z (ty_elem ty)
          else if is_tup t then do {
            b \<leftarrow> all_zeroable z (ty_args ty);
            Some (b \<and> 0 < length (ty_args ty))
          }
          else if is_opt t \<or> ty_kind ty \<in> {TyErrorVal, TyAllocator} then Some True
          else
            (case decl_of D ty of
               None \<Rightarrow> Some False
             | Some d \<Rightarrow>
                 if is_int_enum t then Some (zero_case (cases_of d) 0)
                 else if is_enum t then (case cases_of d of [] \<Rightarrow> Some False | c # _ \<Rightarrow> Some (tm_params c = []))
                 else if is_union t then all_zeroable (\<lambda>m. z (tm_ty m)) (fields_of d)
                 else if ty_kind ty \<noteq> TyStruct then Some False
                 else zero_members z (td_body d)))"

fun is_zeroable :: "decls \<Rightarrow> nat \<Rightarrow> ty option \<Rightarrow> bool option" where
  "is_zeroable D 0 t = None"
| "is_zeroable D (Suc n) t = is_zeroable_step (is_zeroable D n) D t"

end
