(* ===== verification/Containment.thy ===== *)
theory Containment
  imports Types "HOL-Library.Monad_Syntax"
begin

section \<open>Containment by value\<close>

text \<open>
  The check that no declaration contains itself by value (\<open>check_containment\<close> and
  \<open>contains_by_value\<close> of \<open>check/check.cpp\<close>): a depth-first search through the fields and payloads of
  the declarations a type mentions, with the list of declarations already entered. The walk through
  one type is structural; entering a declaration takes a unit of fuel, and as none is entered twice
  the number of declarations is enough.

  The search is exact: it answers whether the declaration is reachable. A result type \<open>T!\<close> is not
  searched, in the code as here.
\<close>

text \<open>The types a declaration holds by value: its fields, and the payloads of its cases.\<close>

definition member_types :: "type_member \<Rightarrow> ty option list" where
  "member_types m =
     (if tm_kind m = NField then [tm_ty m] else if tm_kind m = NEnumCase then tm_params m else [])"

definition content_types :: "decls \<Rightarrow> nat \<Rightarrow> ty option list" where
  "content_types D e = (case D e of None \<Rightarrow> [] | Some d \<Rightarrow> concat (map member_types (td_body d)))"

type_synonym search = "nat list \<Rightarrow> (bool \<times> nat list) option"

fun search_type :: "(nat \<Rightarrow> search) \<Rightarrow> nat \<Rightarrow> ty option \<Rightarrow> search" and
    search_types :: "(nat \<Rightarrow> search) \<Rightarrow> nat \<Rightarrow> ty option list \<Rightarrow> search" where
  "search_type enter d None seen = Some (False, seen)"
| "search_type enter d (Some (Ty k nm dc cn el len c v nl pk al args bd)) seen =
     (if k = TyArray \<or> k = TyAtomic \<or> k = TyOptional then search_type enter d el seen
      else if k = TyTuple then search_types enter d args seen
      else if k = TyStruct \<or> k = TyUnion \<or> k = TyEnum then
        (case dc of
           None \<Rightarrow> Some (False, seen)
         | Some e \<Rightarrow>
             if e = d then Some (True, seen)
             else if e \<in> set seen then Some (False, seen)
             else enter e (seen @ [e]))
      else Some (False, seen))"
| "search_types enter d [] seen = Some (False, seen)"
| "search_types enter d (t # ts) seen = do {
     (found, seen) \<leftarrow> search_type enter d t seen;
     if found then Some (True, seen) else search_types enter d ts seen
   }"

fun search_decl :: "decls \<Rightarrow> nat \<Rightarrow> nat \<Rightarrow> nat \<Rightarrow> search" where
  "search_decl D 0 d e seen = None"
| "search_decl D (Suc n) d e seen = search_types (search_decl D n d) d (content_types D e) seen"

definition contains_by_value :: "decls \<Rightarrow> nat \<Rightarrow> ty option \<Rightarrow> nat \<Rightarrow> bool option" where
  "contains_by_value D n t d = map_option fst (search_type (search_decl D n d) d t [])"

text \<open>
  \<open>check_containment\<close>: whether the declaration is reported, and its members with the types of the
  offending ones lost.
\<close>

definition lose :: "decls \<Rightarrow> nat \<Rightarrow> nat \<Rightarrow> ty option \<Rightarrow> ty option" where
  "lose D n d t = (if contains_by_value D n t d = Some True then Some (kind_ty TyError) else t)"

definition check_containment :: "decls \<Rightarrow> nat \<Rightarrow> nat \<Rightarrow> type_member \<Rightarrow> type_member" where
  "check_containment D n d m =
     (if tm_kind m = NField then m\<lparr>tm_ty := lose D n d (tm_ty m)\<rparr>
      else if tm_kind m = NEnumCase then m\<lparr>tm_params := map (lose D n d) (tm_params m)\<rparr>
      else m)"

text \<open>The loop over the declarations of a module, each checked with the types the earlier ones lost.\<close>

definition check_decl :: "nat \<Rightarrow> decls \<Rightarrow> nat \<Rightarrow> decls" where
  "check_decl n D d =
     (case D d of
        None \<Rightarrow> D
      | Some td \<Rightarrow> D(d \<mapsto> td\<lparr>td_body := map (check_containment D n d) (td_body td)\<rparr>))"

definition check_decls :: "nat \<Rightarrow> nat list \<Rightarrow> decls \<Rightarrow> decls" where
  "check_decls n ds D = foldl (check_decl n) D ds"

section \<open>The search is exact\<close>

text \<open>The declarations a type mentions by value, and those it reaches.\<close>

fun by_value :: "ty option \<Rightarrow> nat set" and by_values :: "ty option list \<Rightarrow> nat set" where
  "by_value None = {}"
| "by_value (Some (Ty k nm dc cn el len c v nl pk al args bd)) =
     (if k = TyArray \<or> k = TyAtomic \<or> k = TyOptional then by_value el
      else if k = TyTuple then by_values args
      else if k = TyStruct \<or> k = TyUnion \<or> k = TyEnum then set_option dc
      else {})"
| "by_values [] = {}"
| "by_values (t # ts) = by_value t \<union> by_values ts"

lemma by_values_Union: "by_values ts = (\<Union>t \<in> set ts. by_value t)"
  by (induction ts) auto

definition holds_decl :: "decls \<Rightarrow> nat rel" where
  "holds_decl D = {(e, e'). e' \<in> by_values (content_types D e)}"

definition reaches :: "decls \<Rightarrow> ty option \<Rightarrow> nat set" where
  "reaches D t = (holds_decl D)\<^sup>* `` by_value t"

text \<open>
  What a search that has ended without finding \<open>d\<close> has done: it has entered declarations, none of
  them \<open>d\<close>, and every declaration it entered is searched through.
\<close>

definition searched :: "decls \<Rightarrow> nat \<Rightarrow> nat set \<Rightarrow> nat list \<Rightarrow> nat list \<Rightarrow> bool" where
  "searched D d goal seen seen' \<longleftrightarrow>
     set seen \<subseteq> set seen' \<and> goal \<subseteq> set seen' - {d} \<and>
     (\<forall>e \<in> set seen' - set seen. by_values (content_types D e) \<subseteq> set seen' - {d})"

lemma searched_trans:
  "searched D d A s s' \<Longrightarrow> searched D d B s' s'' \<Longrightarrow> searched D d (A \<union> B) s s''"
  unfolding searched_def by blast

definition search_ok :: "decls \<Rightarrow> nat \<Rightarrow> (nat \<Rightarrow> search) \<Rightarrow> bool" where
  "search_ok D d enter \<longleftrightarrow> (\<forall>e seen found seen'. enter e seen = Some (found, seen') \<longrightarrow>
     (if found then (e, d) \<in> (holds_decl D)\<^sup>+
      else searched D d (by_values (content_types D e)) seen seen'))"

lemma search_okD:
  "search_ok D d enter \<Longrightarrow> enter e (seen @ [e]) = Some (found, seen') \<Longrightarrow> e \<noteq> d \<Longrightarrow>
    (if found then (e, d) \<in> (holds_decl D)\<^sup>* else searched D d {e} seen seen')"
  unfolding search_ok_def searched_def by (cases found) fastforce+

lemma search_type_ok:
  shows "search_ok D d enter \<Longrightarrow> search_type enter d t seen = Some (found, seen') \<Longrightarrow>
      if found then \<exists>e \<in> by_value t. (e, d) \<in> (holds_decl D)\<^sup>* else searched D d (by_value t) seen seen'"
    and "search_ok D d enter \<Longrightarrow> search_types enter d ts seen = Some (found, seen') \<Longrightarrow>
      if found then \<exists>e \<in> by_values ts. (e, d) \<in> (holds_decl D)\<^sup>* else searched D d (by_values ts) seen seen'"
proof (induction enter d t seen and enter d ts seen arbitrary: found seen' and found seen'
    rule: search_type_search_types.induct)
  case (2 enter d k nm dc cn el len c v nl pk al args bd seen)
  consider "k = TyArray \<or> k = TyAtomic \<or> k = TyOptional" | "k = TyTuple"
    | e where "k = TyStruct \<or> k = TyUnion \<or> k = TyEnum" "dc = Some e"
    | "k \<notin> {TyArray, TyAtomic, TyOptional, TyTuple}" "k \<in> {TyStruct, TyUnion, TyEnum} \<longrightarrow> dc = None"
    by (cases dc) auto
  then show ?case
  proof cases
    case 1
    then show ?thesis using "2.IH"(1) "2.prems" by auto
  next
    case 2
    then show ?thesis using "2.IH"(2) "2.prems" by auto
  next
    case 3
    then have "(if e = d then Some (True, seen) else if e \<in> set seen then Some (False, seen) else enter e (seen @ [e]))
        = Some (found, seen')" and one: "by_value (Some (Ty k nm dc cn el len c v nl pk al args bd)) = {e}"
      using "2.prems"(2) by auto
    then show ?thesis using search_okD[OF "2.prems"(1), of e seen found seen']
      by (auto split: if_splits simp: searched_def)
  next
    case 4
    then show ?thesis using "2.prems" by (auto simp: searched_def)
  qed
next
  case (4 enter d t ts seen)
  then obtain b s where s: "search_type enter d t seen = Some (b, s)"
      "(if b then Some (True, s) else search_types enter d ts s) = Some (found, seen')"
    by (auto split: bind_splits)
  note first = "4.IH"(1)[OF "4.prems"(1) s(1)]
  show ?case
  proof (cases b)
    case True
    then show ?thesis using first s(2) by auto
  next
    case False
    then have "search_types enter d ts s = Some (found, seen')" using s(2) by simp
    note rest = "4.IH"(2)[OF s(1) refl False "4.prems"(1) this]
    then show ?thesis using first False searched_trans[of D d "by_value t" seen s "by_values ts" seen'] by (cases found) auto
  qed
qed (auto simp: searched_def)

lemma search_decl_ok: "search_ok D d (search_decl D n d)"
proof (induction n)
  case (Suc n)
  show ?case
    unfolding search_ok_def
  proof (intro allI impI)
    fix e seen found seen'
    assume "search_decl D (Suc n) d e seen = Some (found, seen')"
    then have "if found then \<exists>e' \<in> by_values (content_types D e). (e', d) \<in> (holds_decl D)\<^sup>*
        else searched D d (by_values (content_types D e)) seen seen'"
      using search_type_ok(2)[OF Suc] by simp
    then show "if found then (e, d) \<in> (holds_decl D)\<^sup>+ else searched D d (by_values (content_types D e)) seen seen'"
      by (auto simp: holds_decl_def split: if_splits intro: rtrancl_into_trancl2)
  qed
qed (simp add: search_ok_def)

lemma contains_by_value_ok:
  assumes "contains_by_value D n t d = Some found"
  shows "found = (d \<in> reaches D t)"
proof -
  obtain seen' where s: "search_type (search_decl D n d) d t [] = Some (found, seen')"
    using assms by (auto simp: contains_by_value_def)
  note ok = search_type_ok(1)[OF search_decl_ok s]
  show ?thesis
  proof (cases found)
    case True
    then show ?thesis using ok by (auto simp: reaches_def)
  next
    case False
    then have s: "by_value t \<subseteq> set seen' - {d}"
        "\<And>e e'. e \<in> set seen' \<Longrightarrow> (e, e') \<in> holds_decl D \<Longrightarrow> e' \<in> set seen' - {d}"
      using ok by (auto simp: searched_def holds_decl_def)
    have "e' \<in> set seen' - {d}" if "(e, e') \<in> (holds_decl D)\<^sup>*" "e \<in> by_value t" for e e'
      using that by (induction rule: rtrancl_induct) (use s in auto)
    then show ?thesis using False by (auto simp: reaches_def)
  qed
qed

section \<open>Fuel for every declaration is enough\<close>

definition decls_within :: "decls \<Rightarrow> nat set \<Rightarrow> bool" where
  "decls_within D U \<longleftrightarrow> finite U \<and> (\<forall>e. by_values (content_types D e) \<subseteq> U)"

definition returns_within :: "nat set \<Rightarrow> nat list \<Rightarrow> (bool \<times> nat list) option \<Rightarrow> bool" where
  "returns_within U seen r \<longleftrightarrow> (\<exists>b seen'. r = Some (b, seen') \<and> set seen \<subseteq> set seen' \<and> set seen' \<subseteq> U)"

definition enters :: "nat set \<Rightarrow> nat \<Rightarrow> (nat \<Rightarrow> search) \<Rightarrow> bool" where
  "enters U n enter \<longleftrightarrow> finite U \<and>
     (\<forall>e seen. set seen \<subseteq> U \<and> card (U - set seen) < n \<longrightarrow> returns_within U seen (enter e seen))"

lemma returns_within_here: "set seen \<subseteq> U \<Longrightarrow> returns_within U seen (Some (b, seen))"
  by (simp add: returns_within_def)

lemma search_type_returns:
  shows "enters U n enter \<Longrightarrow> by_value t \<subseteq> U \<Longrightarrow> set seen \<subseteq> U \<Longrightarrow> card (U - set seen) \<le> n \<Longrightarrow>
      returns_within U seen (search_type enter d t seen)"
    and "enters U n enter \<Longrightarrow> by_values ts \<subseteq> U \<Longrightarrow> set seen \<subseteq> U \<Longrightarrow> card (U - set seen) \<le> n \<Longrightarrow>
      returns_within U seen (search_types enter d ts seen)"
proof (induction enter d t seen and enter d ts seen rule: search_type_search_types.induct)
  case (1 enter d seen)
  then show ?case by (simp add: returns_within_here)
next
  case (2 enter d k nm dc cn el len c v nl pk al args bd seen)
  consider "k = TyArray \<or> k = TyAtomic \<or> k = TyOptional" | "k = TyTuple"
    | e where "k = TyStruct \<or> k = TyUnion \<or> k = TyEnum" "dc = Some e"
    | "k \<notin> {TyArray, TyAtomic, TyOptional, TyTuple}" "k \<in> {TyStruct, TyUnion, TyEnum} \<longrightarrow> dc = None"
    by (cases dc) auto
  then show ?case
  proof cases
    case 1
    then show ?thesis using "2.IH"(1)[OF 1 "2.prems"(1) _ "2.prems"(3,4)] "2.prems"(2) by simp
  next
    case 2
    then show ?thesis using "2.IH"(2)[OF _ 2 "2.prems"(1) _ "2.prems"(3,4)] "2.prems"(2) by simp
  next
    case (3 e)
    then have e: "e \<in> U" using "2.prems"(2) by auto
    have "returns_within U seen (enter e (seen @ [e]))" if "e \<notin> set seen"
    proof -
      have fin: "finite U" using "2.prems"(1) by (simp add: enters_def)
      have "U - set (seen @ [e]) \<subset> U - set seen" using e that by auto
      then have "card (U - set (seen @ [e])) < n"
        using "2.prems"(4) psubset_card_mono[of "U - set seen" "U - set (seen @ [e])"] fin by simp
      then have "returns_within U (seen @ [e]) (enter e (seen @ [e]))"
        using "2.prems"(1,3) e by (simp add: enters_def)
      then show ?thesis by (auto simp: returns_within_def)
    qed
    then show ?thesis using 3 returns_within_here[OF "2.prems"(3)] by auto
  next
    case 4
    then show ?thesis using returns_within_here[OF "2.prems"(3)] by auto
  qed
next
  case (3 enter d seen)
  then show ?case by (simp add: returns_within_here)
next
  case (4 enter d t ts seen)
  have "returns_within U seen (search_type enter d t seen)"
    using "4.IH"(1)[OF "4.prems"(1) _ "4.prems"(3,4)] "4.prems"(2) by simp
  then obtain b s where s: "search_type enter d t seen = Some (b, s)" "set seen \<subseteq> set s" "set s \<subseteq> U"
    by (auto simp: returns_within_def)
  have "finite U" using "4.prems"(1) by (simp add: enters_def)
  then have le: "card (U - set s) \<le> n"
    using card_mono[of "U - set seen" "U - set s"] s(2) "4.prems"(4) by (meson Diff_mono finite_Diff le_trans subset_refl)
  show ?case
  proof (cases b)
    case True
    then show ?thesis using s by (auto simp: returns_within_def)
  next
    case False
    have "returns_within U s (search_types enter d ts s)"
      using "4.IH"(2)[OF s(1) refl False "4.prems"(1) _ s(3) le] "4.prems"(2) by simp
    then show ?thesis using s False by (auto simp: returns_within_def)
  qed
qed

lemma search_decl_enters: "decls_within D U \<Longrightarrow> enters U n (search_decl D n d)"
proof (induction n)
  case 0
  then show ?case by (simp add: enters_def decls_within_def)
next
  case (Suc n)
  have "returns_within U seen (search_decl D (Suc n) d e seen)" if "set seen \<subseteq> U" "card (U - set seen) < Suc n" for e seen
    using search_type_returns(2)[OF Suc.IH[OF Suc.prems], of "content_types D e" seen] that Suc.prems
    by (simp add: decls_within_def)
  then show ?case using Suc.prems by (simp add: enters_def decls_within_def)
qed

lemma search_exact:
  assumes "decls_within D U" "by_value t \<subseteq> U" "card U \<le> n"
  shows "contains_by_value D n t d = Some (d \<in> reaches D t)"
proof -
  obtain b where "contains_by_value D n t d = Some b"
    using search_type_returns(1)[OF search_decl_enters[OF assms(1), of n d] assms(2), of "[]" d] assms(3)
    by (auto simp: contains_by_value_def returns_within_def)
  then show ?thesis using contains_by_value_ok by simp
qed


section \<open>The check leaves no cycle\<close>

lemma by_value_lose: "by_value (lose D n d t) = (if contains_by_value D n t d = Some True then {} else by_value t)"
  by (simp add: lose_def kind_ty_def)

lemma member_types_check: "member_types (check_containment D n d m) = map (lose D n d) (member_types m)"
  by (simp add: member_types_def check_containment_def)

lemma content_types_check:
  "content_types (check_decl n D d) e = (if e = d then map (lose D n d) (content_types D d) else content_types D e)"
proof (cases "D d")
  case (Some td)
  then show ?thesis by (simp add: check_decl_def content_types_def map_concat comp_def member_types_check)
qed (simp add: check_decl_def content_types_def)

lemma by_values_lose: "by_values (map (lose D n d) ts) \<subseteq> by_values ts"
  by (auto simp: by_values_Union by_value_lose split: if_splits)

lemma holds_decl_check: "holds_decl (check_decl n D d) \<subseteq> holds_decl D"
  using by_values_lose[of D n d "content_types D d"] by (auto simp: holds_decl_def content_types_check split: if_splits)

lemma decls_within_check: "decls_within D U \<Longrightarrow> decls_within (check_decl n D d) U"
  using by_values_lose[of D n d "content_types D d"] by (fastforce simp: decls_within_def content_types_check)

lemma check_decl_no_cycle:
  assumes "decls_within D U" "card U \<le> n"
  shows "(d, d) \<notin> (holds_decl (check_decl n D d))\<^sup>+"
proof
  let ?D = "check_decl n D d"
  assume "(d, d) \<in> (holds_decl ?D)\<^sup>+"
  then obtain e where e: "(d, e) \<in> holds_decl ?D" "(e, d) \<in> (holds_decl ?D)\<^sup>*" by (meson tranclD)
  then obtain t where t: "t \<in> set (content_types D d)" "e \<in> by_value (lose D n d t)"
    by (auto simp: holds_decl_def content_types_check by_values_Union)
  then have one: "e \<in> by_value t" "contains_by_value D n t d \<noteq> Some True" by (auto simp: by_value_lose split: if_splits)
  have "by_value t \<subseteq> U" using assms(1) t(1) by (auto simp: decls_within_def by_values_Union)
  then have "d \<notin> reaches D t" using search_exact[OF assms(1) _ assms(2)] one(2) by auto
  moreover have "(e, d) \<in> (holds_decl D)\<^sup>*" using e(2) rtrancl_mono[OF holds_decl_check] by blast
  ultimately show False using one(1) by (auto simp: reaches_def)
qed

lemma check_decls_simps: "check_decls n [] D = D" "check_decls n (d # ds) D = check_decls n ds (check_decl n D d)"
  by (simp_all add: check_decls_def)

lemma holds_decl_checked: "holds_decl (check_decls n ds D) \<subseteq> holds_decl D"
proof (induction ds arbitrary: D)
  case (Cons d ds)
  then show ?case using holds_decl_check[of n D d] by (fastforce simp: check_decls_simps)
qed (simp add: check_decls_simps)

lemma decls_within_checked: "decls_within D U \<Longrightarrow> decls_within (check_decls n ds D) U"
  by (induction ds arbitrary: D) (simp_all add: check_decls_simps decls_within_check)

lemma check_decls_no_cycle:
  "decls_within D U \<Longrightarrow> card U \<le> n \<Longrightarrow> d \<in> set ds \<Longrightarrow> (d, d) \<notin> (holds_decl (check_decls n ds D))\<^sup>+"
proof (induction ds arbitrary: D)
  case (Cons e ds)
  show ?case
  proof (cases "d \<in> set ds")
    case True
    then show ?thesis using Cons decls_within_check by (simp add: check_decls_simps)
  next
    case False
    then have "d = e" using Cons.prems by simp
    then show ?thesis
      using check_decl_no_cycle[OF Cons.prems(1,2), of d] trancl_mono[OF _ holds_decl_checked]
      by (auto simp: check_decls_simps)
  qed
qed simp

lemma checked_acyclic:
  assumes "decls_within D U" "card U \<le> n" "dom D \<subseteq> set ds"
  shows "acyclic (holds_decl (check_decls n ds D))"
proof (rule acyclicI, rule allI)
  fix d
  show "(d, d) \<notin> (holds_decl (check_decls n ds D))\<^sup>+"
  proof (cases "D d")
    case None
    then have "by_values (content_types D d) = {}" by (simp add: content_types_def)
    then have "d \<notin> Domain (holds_decl D)" by (auto simp: holds_decl_def)
    then have "d \<notin> Domain (holds_decl (check_decls n ds D))" using holds_decl_checked by blast
    then show ?thesis by (metis Domain.DomainI tranclD)
  next
    case (Some td)
    then show ?thesis using check_decls_no_cycle[OF assms(1,2)] assms(3) by blast
  qed
qed

lemma checked_wf:
  assumes "decls_within D U" "card U \<le> n" "dom D \<subseteq> set ds"
  shows "wf ((holds_decl (check_decls n ds D))\<inverse>)"
proof -
  have "holds_decl (check_decls n ds D) \<subseteq> set ds \<times> U"
  proof
    fix x assume "x \<in> holds_decl (check_decls n ds D)"
    then obtain d e where x: "x = (d, e)" "(d, e) \<in> holds_decl D" using holds_decl_checked by (cases x) blast
    then have "D d \<noteq> None" by (auto simp: holds_decl_def content_types_def split: option.splits)
    then show "x \<in> set ds \<times> U" using x assms(1,3) by (auto simp: holds_decl_def decls_within_def)
  qed
  then have "finite (holds_decl (check_decls n ds D))"
    using assms(1) finite_subset by (fastforce simp: decls_within_def)
  then show ?thesis using checked_acyclic[OF assms] by (simp add: finite_acyclic_wf_converse)
qed

text \<open>
  A module of two declarations: \<open>struct A\<close> with fields \<open>next: A?\<close> and \<open>b: B*\<close>, and \<open>struct B\<close> with
  a field \<open>a: A\<close>. The first field of \<open>A\<close> is reported and loses its type; the rest stay.
\<close>

definition struct_ty :: "nat \<Rightarrow> ty option" where
  "struct_ty d = Some (Ty TyStruct [] (Some d) [] None 0 False False False False 0 [] 0)"

definition wrapper_ty :: "type_kind \<Rightarrow> ty option \<Rightarrow> ty option" where
  "wrapper_ty k t = Some (Ty k [] None [] t 0 False False False False 0 [] 0)"

definition plain_field :: "string \<Rightarrow> ty option \<Rightarrow> type_member" where
  "plain_field name t = \<lparr>tm_kind = NField, tm_text = name, tm_ty = t, tm_left = [], tm_right = [], tm_params = [], tm_cached = None, tm_param_names = []\<rparr>"

definition plain_struct :: "type_member list \<Rightarrow> type_decl" where
  "plain_struct ms = \<lparr>td_kind = NStruct, td_text = ''S'', td_module = [], td_flags = 0, td_type = [], td_body = ms, td_ty = None, td_generic = False\<rparr>"

definition two_structs :: decls where
  "two_structs = [0 \<mapsto> plain_struct [plain_field ''next'' (wrapper_ty TyOptional (struct_ty 0)), plain_field ''b'' (wrapper_ty TyPointer (struct_ty 1))],
     1 \<mapsto> plain_struct [plain_field ''a'' (struct_ty 0)]]"

lemma two_structs_contents:
  "content_types two_structs e =
     (if e = 0 then [wrapper_ty TyOptional (struct_ty 0), wrapper_ty TyPointer (struct_ty 1)] else if e = 1 then [struct_ty 0] else [])"
  by (simp add: content_types_def two_structs_def plain_struct_def plain_field_def member_types_def)

lemma two_structs_within: "decls_within two_structs {0, 1}"
  by (simp add: decls_within_def two_structs_contents struct_ty_def wrapper_ty_def)


end
