(* ===== verification/LayoutLaws.thy ===== *)
theory LayoutLaws
  imports Layout Containment
begin

section \<open>Every layout is computed\<close>

text \<open>
  A family of results over fuel settles when it has one value from some fuel on. The steps of the
  layout are built from the operations that keep this, so a type's layout settles when those of the
  types it holds by value do; and after the containment check that is a well-founded order.
\<close>

definition settles :: "(nat \<Rightarrow> 'a option) \<Rightarrow> bool" where
  "settles f \<longleftrightarrow> (\<exists>v N. \<forall>n \<ge> N. f n = Some v)"

named_theorems settle

lemma settles_some [settle]: "settles (\<lambda>n. Some v)"
  by (auto simp: settles_def)

lemma settles_bind [settle]:
  assumes "settles f" "\<And>v. settles (\<lambda>n. g n v)"
  shows "settles (\<lambda>n. Option.bind (f n) (g n))"
proof -
  obtain v N where "\<forall>n \<ge> N. f n = Some v" using assms(1) by (auto simp: settles_def)
  moreover obtain w M where "\<forall>n \<ge> M. g n v = Some w" using assms(2)[of v] by (auto simp: settles_def)
  ultimately have "\<forall>n \<ge> max N M. Option.bind (f n) (g n) = Some w" by simp
  then show ?thesis unfolding settles_def by blast
qed

lemma settles_if [settle]: "(P \<Longrightarrow> settles f) \<Longrightarrow> (\<not> P \<Longrightarrow> settles g) \<Longrightarrow> settles (\<lambda>n. if P then f n else g n)"
  by (cases P) auto

lemma settles_option [settle]:
  "(x = None \<Longrightarrow> settles f) \<Longrightarrow> (\<And>y. x = Some y \<Longrightarrow> settles (\<lambda>n. g n y)) \<Longrightarrow>
    settles (\<lambda>n. case x of None \<Rightarrow> f n | Some y \<Rightarrow> g n y)"
  by (cases x) auto

lemma settles_prod [settle]: "(\<And>a b. settles (\<lambda>n. g n a b)) \<Longrightarrow> settles (\<lambda>n. case x of (a, b) \<Rightarrow> g n a b)"
  by (cases x) auto

lemma settles_map [settle]: "settles f \<Longrightarrow> settles (\<lambda>n. map_option h (f n))"
  unfolding settles_def by fastforce

lemma settles_shift: "settles (\<lambda>n. f (Suc n)) = settles f"
proof
  assume "settles (\<lambda>n. f (Suc n))"
  then obtain v N where v: "\<And>n. N \<le> n \<Longrightarrow> f (Suc n) = Some v" by (auto simp: settles_def)
  have "f n = Some v" if "Suc N \<le> n" for n using v[of "n - 1"] that by (cases n) auto
  then show "settles f" unfolding settles_def by blast
qed (auto simp: settles_def intro: le_SucI)

text \<open>Both parts of a type's layout settle.\<close>

definition laid_out :: "decls \<Rightarrow> ty option \<Rightarrow> bool" where
  "laid_out D t \<longleftrightarrow> settles (\<lambda>n. type_align D n t) \<and> settles (\<lambda>n. type_size D n t)"

lemma align_settles: "settles (\<lambda>n. type_align D n t) \<longleftrightarrow> settles (\<lambda>n. type_align_step (type_align D n) (type_size D n) D t)"
  by (subst settles_shift[symmetric]) simp

lemma size_settles: "settles (\<lambda>n. type_size D n t) \<longleftrightarrow> settles (\<lambda>n. type_size_step (type_align D n) (type_size D n) D t)"
  by (subst settles_shift[symmetric]) simp

text \<open>The loops of the layout, over families that settle on what they meet.\<close>

lemma max_align_settles:
  "(\<And>x. x \<in> set xs \<Longrightarrow> settles (\<lambda>n. f n x)) \<Longrightarrow> settles (\<lambda>n. max_align (f n) xs a)"
  by (induction xs arbitrary: a) (auto intro!: settle)

lemma effective_align_settles:
  "settles (\<lambda>n. al n (tm_ty m)) \<Longrightarrow> settles (\<lambda>n. effective_align (al n) packed m)"
  by (cases packed) (auto simp: effective_align_def field_align_def Let_def intro!: settle)

lemma layout_fields_settles:
  "(\<And>m. m \<in> set ms \<Longrightarrow> tm_kind m = NField \<Longrightarrow> settles (\<lambda>n. al n (tm_ty m)) \<and> settles (\<lambda>n. sz n (tm_ty m))) \<Longrightarrow>
    settles (\<lambda>n. layout_fields (al n) (sz n) packed want ms u a off)"
proof (induction ms arbitrary: u a off)
  case (Cons m ms)
  then show ?case
    by (cases "tm_kind m = NField") (auto simp: Let_def intro!: settle effective_align_settles)
qed (simp add: settle)

lemma tuple_size_settles:
  "(\<And>x. x \<in> set xs \<Longrightarrow> settles (\<lambda>n. al n x) \<and> settles (\<lambda>n. sz n x)) \<Longrightarrow>
    settles (\<lambda>n. tuple_size (al n) (sz n) xs u)"
  by (induction xs arbitrary: u) (auto intro!: settle)

lemma union_size_settles:
  "(\<And>m. m \<in> set ms \<Longrightarrow> settles (\<lambda>n. al n (tm_ty m)) \<and> settles (\<lambda>n. sz n (tm_ty m))) \<Longrightarrow>
    settles (\<lambda>n. union_size (al n) (sz n) ms u a)"
  by (induction ms arbitrary: u a) (auto intro!: settle)

lemma payload_size_settles:
  "(\<And>x. x \<in> set xs \<Longrightarrow> settles (\<lambda>n. al n x) \<and> settles (\<lambda>n. sz n x)) \<Longrightarrow>
    settles (\<lambda>n. payload_size (al n) (sz n) xs u a)"
  by (induction xs arbitrary: u a) (auto intro!: settle)

lemma cases_size_settles:
  "(\<And>c x. c \<in> set cs \<Longrightarrow> x \<in> set (tm_params c) \<Longrightarrow> settles (\<lambda>n. al n x) \<and> settles (\<lambda>n. sz n x)) \<Longrightarrow>
    settles (\<lambda>n. cases_size (al n) (sz n) cs u a)"
proof (induction cs arbitrary: u a)
  case (Cons c cs)
  have "settles (\<lambda>n. payload_size (al n) (sz n) (tm_params c) 0 1)" using Cons.prems[of c] by (intro payload_size_settles) simp
  then show ?case using Cons by (auto simp: Let_def intro!: settle)
qed (simp add: settle)

text \<open>The types a type is laid out from, within its own tree.\<close>

definition parts :: "ty \<Rightarrow> ty option set" where
  "parts t = (if ty_kind t = TyTuple then set (ty_args t) else {ty_elem t})"

definition contents :: "decls \<Rightarrow> ty \<Rightarrow> ty option set" where
  "contents D t = (case ty_decl t of None \<Rightarrow> {} | Some e \<Rightarrow> set (content_types D e))"

lemma decl_members:
  assumes "decl_of D t = Some d"
  shows "m \<in> set (fields_of d) \<Longrightarrow> tm_ty m \<in> contents D t"
    and "m \<in> set (td_body d) \<Longrightarrow> tm_kind m = NField \<Longrightarrow> tm_ty m \<in> contents D t"
    and "c \<in> set (cases_of d) \<Longrightarrow> x \<in> set (tm_params c) \<Longrightarrow> x \<in> contents D t"
  using assms
  by (auto simp: contents_def content_types_def decl_of_def fields_of_def cases_of_def member_types_def split: option.splits
      intro!: bexI)

text \<open>
  A type settles when its parts do and, for a nominal type, the contents of its declaration. The
  alignment of a scalar is its size, and the size of an optional, a result or a tuple reads its
  alignment: neither asks for both of itself.
\<close>

lemmas align_settlesI = align_settles[THEN iffD2]
lemmas size_settlesI = size_settles[THEN iffD2]

lemma laid_outI: "settles (\<lambda>n. type_align D n t) \<Longrightarrow> settles (\<lambda>n. type_size D n t) \<Longrightarrow> laid_out D t"
  by (simp add: laid_out_def)

lemma laid_out_None: "laid_out D None"
  by (intro laid_outI align_settlesI size_settlesI) (simp_all add: type_align_step_def type_size_step_def settle)

lemma laid_outD: "laid_out D t \<Longrightarrow> settles (\<lambda>n. type_align D n t)" "laid_out D t \<Longrightarrow> settles (\<lambda>n. type_size D n t)"
  by (simp_all add: laid_out_def)

lemma laid_out_int: "is_int t \<Longrightarrow> laid_out D t"
proof -
  assume i: "is_int t"
  then obtain ty where t: "t = Some ty"
    "ty_kind ty \<in> {TyI8, TyI16, TyI32, TyI64, TyIsize, TyU8, TyU16, TyU32, TyU64, TyUsize}"
    by (cases t) (auto simp: is_int_def of_kind_def)
  then have "settles (\<lambda>n. type_size D n t)"
    by (intro size_settlesI) (auto simp: type_size_step_def fixed_size_def settle)
  then show ?thesis using t by (intro laid_outI align_settlesI) (auto simp: type_align_step_def intro!: settle)
qed

lemma struct_align_settles:
  assumes "\<And>p. p \<in> contents D t \<Longrightarrow> laid_out D p"
  shows "settles (\<lambda>n. struct_align (type_align D n) D t)"
  unfolding struct_align_def
  by (intro settle max_align_settles effective_align_settles laid_outD assms decl_members(1))

lemma layout_struct_settles:
  assumes "\<And>p. p \<in> contents D t \<Longrightarrow> laid_out D p"
  shows "settles (\<lambda>n. layout_struct (type_align D n) (type_size D n) D t want)"
  unfolding layout_struct_def
  by (intro settle layout_fields_settles conjI laid_outD assms decl_members(2))

lemma union_settles:
  assumes "\<And>p. p \<in> contents D t \<Longrightarrow> laid_out D p"
  shows "settles (\<lambda>n. union_align (type_align D n) D t)"
    and "decl_of D t = Some d \<Longrightarrow> settles (\<lambda>n. union_size (type_align D n) (type_size D n) (fields_of d) u a)"
  unfolding union_align_def
  by (intro settle max_align_settles union_size_settles conjI laid_outD assms decl_members(1); assumption)+

lemma enum_settles:
  assumes "\<And>p. p \<in> contents D t \<Longrightarrow> laid_out D p"
  shows "settles (\<lambda>n. enum_align (type_align D n) D t)"
    and "settles (\<lambda>n. enum_size (type_align D n) (type_size D n) D t)"
proof -
  have payload: "laid_out D x" if "decl_of D t = Some d" "c \<in> set (cases_of d)" "x \<in> set (tm_params c)" for d c x
    by (rule assms[OF decl_members(3)[OF that]])
  show "settles (\<lambda>n. enum_align (type_align D n) D t)"
    unfolding enum_align_def by (intro settle max_align_settles laid_outD) (use payload in auto)
  show "settles (\<lambda>n. enum_size (type_align D n) (type_size D n) D t)"
    unfolding enum_size_def
    by (cases "decl_of D t") (use payload in \<open>auto intro!: settle cases_size_settles laid_outD\<close>)
qed

text \<open>
  A type settles when its parts do and, for a nominal type, the contents of its declaration. The
  alignment of a scalar is its size, and the size of an optional, a result or a tuple reads its
  alignment: neither asks for both of itself.
\<close>

lemma laid_out_step:
  assumes parts: "\<And>p. p \<in> parts t \<Longrightarrow> ty_kind t \<in> {TyArray, TyAtomic, TyOptional, TyFallible, TyTuple} \<Longrightarrow> laid_out D p"
    and contents: "\<And>p. p \<in> contents D t \<Longrightarrow> ty_kind t \<in> {TyStruct, TyUnion, TyEnum} \<Longrightarrow> laid_out D p"
  shows "laid_out D (Some t)"
proof -
  let ?a = "\<lambda>n. type_align D n" and ?s = "\<lambda>n. type_size D n"
  let ?align = "settles (\<lambda>n. ?a n (Some t))" and ?size = "settles (\<lambda>n. ?s n (Some t))"
  have elem: "settles (\<lambda>n. ?a n (ty_elem t))" "settles (\<lambda>n. ?s n (ty_elem t))"
    if "ty_kind t \<in> {TyArray, TyAtomic, TyOptional, TyFallible}"
    using parts[of "ty_elem t"] that by (auto simp: parts_def laid_out_def)
  have arg: "settles (\<lambda>n. ?a n x)" "settles (\<lambda>n. ?s n x)" if "x \<in> set (ty_args t)" "ty_kind t = TyTuple" for x
    using parts[of x] that by (auto simp: parts_def laid_out_def)
  consider "ty_kind t \<in> {TyPointer, TySpan, TyStr, TyCStr, TyAllocator, TyInterface, TyFunc}"
    | "ty_kind t = TyArray" | "ty_kind t = TyStruct" | "ty_kind t = TyUnion" | "ty_kind t = TyTuple"
    | "ty_kind t = TyOptional" | "ty_kind t = TyFallible" | "ty_kind t = TyEnum" | "ty_kind t = TyAtomic"
    | "ty_kind t \<notin> {TyPointer, TySpan, TyStr, TyCStr, TyAllocator, TyInterface, TyFunc, TyArray, TyStruct, TyUnion,
        TyTuple, TyOptional, TyFallible, TyEnum, TyAtomic}" by auto
  then show ?thesis
  proof cases
    case 1
    then show ?thesis
      by (intro laid_outI align_settlesI size_settlesI) (auto simp: type_align_step_def type_size_step_def fixed_size_def settle)
  next
    case 2
    then show ?thesis
      using elem by (intro laid_outI align_settlesI size_settlesI) (auto simp: type_align_step_def type_size_step_def fixed_size_def intro!: settle)
  next
    case 3
    then have "settles (\<lambda>n. struct_align (?a n) D t)" "settles (\<lambda>n. layout_struct (?a n) (?s n) D t None)"
      using contents by (auto intro: struct_align_settles layout_struct_settles)
    with 3 show ?thesis
      by (intro laid_outI align_settlesI size_settlesI) (auto simp: type_align_step_def type_size_step_def fixed_size_def intro!: settle)
  next
    case 4
    note u = union_settles[of D t, OF contents]
    with 4 show ?thesis
      by (intro laid_outI align_settlesI size_settlesI) (auto simp: type_align_step_def type_size_step_def fixed_size_def intro!: settle)
  next
    case 5
    then have "settles (\<lambda>n. max_align (?a n) (ty_args t) 1)" and sizes: "settles (\<lambda>n. tuple_size (?a n) (?s n) (ty_args t) 0)"
      using arg by (auto intro: max_align_settles tuple_size_settles)
    with 5 have "?align" by (intro align_settlesI) (auto simp: type_align_step_def intro!: settle)
    then show ?thesis
      using 5 sizes by (intro laid_outI size_settlesI) (auto simp: type_size_step_def fixed_size_def intro!: settle)
  next
    case 6
    then have "?align" using elem by (intro align_settlesI) (auto simp: type_align_step_def intro!: settle)
    then show ?thesis
      using 6 elem by (intro laid_outI size_settlesI) (auto simp: type_size_step_def fixed_size_def intro!: settle)
  next
    case 7
    then have "?align"
      using elem by (intro align_settlesI; cases "ty_elem t") (auto simp: type_align_step_def intro!: settle)
    then show ?thesis
      using 7 elem
      by (intro laid_outI size_settlesI; cases "ty_elem t") (auto simp: type_size_step_def fixed_size_def intro!: settle)
  next
    case 8
    note e = enum_settles[of D t, OF contents]
    have "laid_out D (ty_elem t)" if "is_int_enum (Some t)"
      using that by (intro laid_out_int) (auto simp: is_int_enum_def elem_of_def)
    with 8 e show ?thesis
      by (intro laid_outI align_settlesI size_settlesI) (auto simp: type_align_step_def type_size_step_def fixed_size_def laid_out_def intro!: settle)
  next
    case 9
    then have "?size" using elem by (intro size_settlesI) (auto simp: type_size_step_def fixed_size_def)
    then show ?thesis
      using 9 by (intro laid_outI align_settlesI) (auto simp: type_align_step_def intro!: settle)
  next
    case 10
    have "?size"
      using 10
      by (intro size_settlesI; cases "fixed_size (ty_kind t)") (auto simp: type_size_step_def fixed_size_def settle)
    then show ?thesis
      using 10 by (intro laid_outI align_settlesI) (auto simp: type_align_step_def intro!: settle)
  qed
qed

text \<open>A type that holds no result \<open>T!\<close> by value.\<close>

fun storable :: "ty option \<Rightarrow> bool" and storables :: "ty option list \<Rightarrow> bool" where
  "storable None = True"
| "storable (Some (Ty k nm dc cn el len c v nl pk al args bd)) =
     (if k = TyFallible then False
      else if k = TyArray \<or> k = TyAtomic \<or> k = TyOptional then storable el
      else if k = TyTuple then storables args
      else True)"
| "storables [] = True"
| "storables (t # ts) = (storable t \<and> storables ts)"

lemma storables_all: "storables ts = (\<forall>t \<in> set ts. storable t)"
  by (induction ts) auto

lemma storable_laid_out:
  shows "storable t \<Longrightarrow> (\<And>e p. e \<in> by_value t \<Longrightarrow> p \<in> set (content_types D e) \<Longrightarrow> laid_out D p) \<Longrightarrow> laid_out D t"
    and "storables ts \<Longrightarrow> (\<And>e p. e \<in> by_values ts \<Longrightarrow> p \<in> set (content_types D e) \<Longrightarrow> laid_out D p) \<Longrightarrow>
      \<forall>t \<in> set ts. laid_out D t"
proof (induction t and ts rule: storable_storables.induct)
  case 1
  show ?case by (rule laid_out_None)
next
  case (2 k nm dc cn el len c v nl pk al args bd)
  show ?case
  proof (rule laid_out_step)
    fix p
    assume p: "p \<in> parts (Ty k nm dc cn el len c v nl pk al args bd)"
      "ty_kind (Ty k nm dc cn el len c v nl pk al args bd) \<in> {TyArray, TyAtomic, TyOptional, TyFallible, TyTuple}"
    have k: "k \<noteq> TyFallible" using "2.prems"(1) by (auto split: if_splits)
    show "laid_out D p"
    proof (cases "k = TyTuple")
      case True
      have "\<forall>t \<in> set args. laid_out D t"
        by (rule "2.IH"(2)) (use True "2.prems" in \<open>simp_all split: if_splits\<close>)
      then show ?thesis using p True by (simp add: parts_def)
    next
      case False
      then have kind: "k = TyArray \<or> k = TyAtomic \<or> k = TyOptional" using p(2) k by auto
      have "laid_out D el"
        by (rule "2.IH"(1)) (use k kind "2.prems" in \<open>auto split: if_splits\<close>)
      then show ?thesis using p(1) False by (simp add: parts_def)
    qed
  next
    fix p
    assume "p \<in> contents D (Ty k nm dc cn el len c v nl pk al args bd)"
      "ty_kind (Ty k nm dc cn el len c v nl pk al args bd) \<in> {TyStruct, TyUnion, TyEnum}"
    then show "laid_out D p" using "2.prems"(2) by (cases dc) (auto simp: contents_def)
  qed
next
  case 3
  show ?case by simp
next
  case (4 t ts)
  have "laid_out D t" by (rule "4.IH"(1)) (use "4.prems"(1) in simp, rule "4.prems"(2), simp_all)
  moreover have "\<forall>t \<in> set ts. laid_out D t" by (rule "4.IH"(2)) (use "4.prems"(1) in simp, rule "4.prems"(2), simp_all)
  ultimately show ?case by simp
qed

lemma storables_checked: "(\<And>e. storables (content_types D e)) \<Longrightarrow> storables (content_types (check_decls n ds D) e)"
proof (induction ds arbitrary: D)
  case (Cons d ds)
  have "storable (lose D n d t)" if "storable t" for t using that by (simp add: lose_def kind_ty_def)
  then have "storables (content_types (check_decl n D d) e)" for e
    using Cons.prems by (simp add: content_types_check storables_all)
  then show ?case using Cons.IH by (simp add: check_decls_simps)
qed (simp add: check_decls_simps)



end
