(* ===== verification/StructLaws.thy ===== *)
theory StructLaws
  imports LayoutLaws
begin

section \<open>Fields of a structure\<close>

text \<open>
  What the loop of \<open>layout_struct\<close> computes: the fields one after another, each at the next offset
  its alignment divides, with the alignment of the whole the largest of theirs.
\<close>

lemma pad_to_mod:
  assumes "0 \<le> off" "1 \<le> align"
  shows "pad_to off align = off + (- off) mod align"
proof (cases "align = 1")
  case False
  have "off smod align = off mod align" using assms by (simp add: smod_mod_positive)
  moreover have "(- off) mod align = (if off mod align = 0 then 0 else align - off mod align)"
    by (rule zmod_zminus1_eq_if)
  ultimately show ?thesis using assms False by (simp add: pad_to_def Let_def)
qed (simp add: pad_to_def)

lemma pad_to_ge: "0 \<le> off \<Longrightarrow> 1 \<le> align \<Longrightarrow> off \<le> pad_to off align"
  by (simp add: pad_to_mod)

lemma pad_to_dvd: "0 \<le> off \<Longrightarrow> 1 \<le> align \<Longrightarrow> align dvd pad_to off align"
  by (simp add: pad_to_mod dvd_eq_mod_eq_0 mod_add_right_eq)

text \<open>A field as the loop sees it: its name, its alignment and its size.\<close>

type_synonym row = "string \<times> int \<times> int"

fun place :: "bool \<Rightarrow> row list \<Rightarrow> int \<Rightarrow> (string \<times> int) list \<times> int" where
  "place packed [] u = ([], u)"
| "place packed ((x, a, s) # rows) u =
     (let lo = (if packed then u else pad_to u a); (los, hi) = place packed rows (lo + s)
      in ((x, lo) # los, hi))"

definition row_of :: "layout \<Rightarrow> layout \<Rightarrow> bool \<Rightarrow> type_member \<Rightarrow> row option" where
  "row_of al sz packed m = do {
     a \<leftarrow> effective_align al packed m;
     s \<leftarrow> sz (tm_ty m);
     Some (tm_text m, a, s)
   }"

text \<open>The rows of all the fields, when every one of them has a layout.\<close>

fun rows_of :: "layout \<Rightarrow> layout \<Rightarrow> bool \<Rightarrow> type_member list \<Rightarrow> row list option" where
  "rows_of al sz packed [] = Some []"
| "rows_of al sz packed (m # ms) =
     (if tm_kind m \<noteq> NField then rows_of al sz packed ms
      else do { r \<leftarrow> row_of al sz packed m; rs \<leftarrow> rows_of al sz packed ms; Some (r # rs) })"

definition largest :: "row list \<Rightarrow> int \<Rightarrow> int" where
  "largest rows a = foldl (\<lambda>a r. if a < fst (snd r) then fst (snd r) else a) a rows"

lemma layout_fields_rows:
  assumes "layout_fields al sz packed want ms u a off = Some (u', a', off')"
  shows "\<exists>rows. rows_of al sz packed ms = Some rows \<and> u' = snd (place packed rows u) \<and> a' = largest rows a \<and>
    (\<forall>x. want = Some x \<longrightarrow> off' = (case map_of (rev (fst (place packed rows u))) x of None \<Rightarrow> off | Some lo \<Rightarrow> lo))"
  using assms
proof (induction ms arbitrary: u a off)
  case (Cons m ms)
  show ?case
  proof (cases "tm_kind m = NField")
    case True
    then obtain fa fs where f: "effective_align al packed m = Some fa" "sz (tm_ty m) = Some fs"
      and rest: "layout_fields al sz packed want ms ((if packed then u else pad_to u fa) + fs) (if a < fa then fa else a)
        (if want = Some (tm_text m) then (if packed then u else pad_to u fa) else off) = Some (u', a', off')"
      using Cons.prems by (auto simp: Let_def split: bind_splits)
    define lo where "lo = (if packed then u else pad_to u fa)"
    obtain rows where rows: "rows_of al sz packed ms = Some rows"
      and u': "u' = snd (place packed rows (lo + fs))" and a': "a' = largest rows (if a < fa then fa else a)"
      and off': "\<And>x. want = Some x \<Longrightarrow> off' = (case map_of (rev (fst (place packed rows (lo + fs)))) x of
          None \<Rightarrow> (if want = Some (tm_text m) then lo else off) | Some l \<Rightarrow> l)"
      using Cons.IH[OF rest] unfolding lo_def by blast
    have all: "rows_of al sz packed (m # ms) = Some ((tm_text m, fa, fs) # rows)"
      using True f rows by (simp add: row_of_def)
    have place: "place packed ((tm_text m, fa, fs) # rows) u =
        ((tm_text m, lo) # fst (place packed rows (lo + fs)), snd (place packed rows (lo + fs)))"
      by (simp add: lo_def Let_def split: prod.splits)
    have "off' = (case map_of (rev (fst (place packed ((tm_text m, fa, fs) # rows) u))) x of None \<Rightarrow> off | Some l \<Rightarrow> l)"
      if "want = Some x" for x
      using off'[OF that] that unfolding place
      by (cases "map_of (rev (fst (place packed rows (lo + fs)))) x") (simp_all add: map_add_def)
    then show ?thesis using all place u' a' by (auto simp: largest_def)
  next
    case False
    then show ?thesis using Cons by simp
  qed
qed (simp add: largest_def)

lemma place_bounds:
  assumes "\<forall>r \<in> set rows. 1 \<le> fst (snd r) \<and> 0 \<le> snd (snd r)" "0 \<le> u"
  shows "u \<le> snd (place packed rows u) \<and> length (fst (place packed rows u)) = length rows \<and>
    map fst (fst (place packed rows u)) = map fst rows \<and>
    (\<forall>i < length rows. u \<le> snd (fst (place packed rows u) ! i) \<and>
       snd (fst (place packed rows u) ! i) + snd (snd (rows ! i)) \<le> snd (place packed rows u) \<and>
       (\<not> packed \<longrightarrow> fst (snd (rows ! i)) dvd snd (fst (place packed rows u) ! i)) \<and>
       (\<forall>j < length rows. i < j \<longrightarrow> snd (fst (place packed rows u) ! i) + snd (snd (rows ! i)) \<le> snd (fst (place packed rows u) ! j)))"
  using assms
proof (induction rows arbitrary: u)
  case (Cons r rows)
  obtain x a s where r: "r = (x, a, s)" by (cases r)
  let ?lo = "if packed then u else pad_to u a"
  have a: "1 \<le> a" "0 \<le> s" using Cons.prems r by auto
  have lo: "u \<le> ?lo" using Cons.prems(2) a pad_to_ge by auto
  have u: "0 \<le> ?lo + s" using lo Cons.prems(2) a by linarith
  define p where "p = place packed rows (?lo + s)"
  have split: "place packed (r # rows) u = ((x, ?lo) # fst p, snd p)"
    by (simp add: r p_def Let_def split: prod.splits)
  have IH: "?lo + s \<le> snd p" "length (fst p) = length rows" "map fst (fst p) = map fst rows"
    "\<And>i. i < length rows \<Longrightarrow> ?lo + s \<le> snd (fst p ! i) \<and> snd (fst p ! i) + snd (snd (rows ! i)) \<le> snd p \<and>
       (\<not> packed \<longrightarrow> fst (snd (rows ! i)) dvd snd (fst p ! i)) \<and>
       (\<forall>j < length rows. i < j \<longrightarrow> snd (fst p ! i) + snd (snd (rows ! i)) \<le> snd (fst p ! j))"
    using Cons.IH[OF _ u] Cons.prems(1) by (auto simp: p_def)
  have dvd: "a dvd ?lo" if "\<not> packed" using that Cons.prems(2) a by (simp add: pad_to_dvd)
  show ?case
    unfolding split
  proof (intro conjI allI impI)
    fix i assume i: "i < length (r # rows)"
    show "u \<le> snd (fst ((x, ?lo) # fst p, snd p) ! i)" using lo a IH(4)[of "i - 1"] i by (cases i) auto
    show "snd (fst ((x, ?lo) # fst p, snd p) ! i) + snd (snd ((r # rows) ! i)) \<le> snd ((x, ?lo) # fst p, snd p)"
      using IH(1) IH(4)[of "i - 1"] i r by (cases i) auto
    show "fst (snd ((r # rows) ! i)) dvd snd (fst ((x, ?lo) # fst p, snd p) ! i)" if "\<not> packed"
      using dvd IH(4)[of "i - 1"] i r that by (cases i) auto
    fix j assume j: "j < length (r # rows)" "i < j"
    then obtain j' where j': "j = Suc j'" "j' < length rows" by (cases j) auto
    show "snd (fst ((x, ?lo) # fst p, snd p) ! i) + snd (snd ((r # rows) ! i)) \<le> snd (fst ((x, ?lo) # fst p, snd p) ! j)"
      using IH(4)[OF j'(2)] IH(4)[of "i - 1"] i j j' r by (cases i) auto
  qed (use lo a IH r in auto)
qed simp

lemma rows_of_nth:
  "rows_of al sz packed ms = Some rows \<Longrightarrow>
    length rows = length (filter (\<lambda>m. tm_kind m = NField) ms) \<and>
    (\<forall>i < length rows. row_of al sz packed (filter (\<lambda>m. tm_kind m = NField) ms ! i) = Some (rows ! i))"
proof (induction ms arbitrary: rows)
  case (Cons m ms)
  show ?case
  proof (cases "tm_kind m = NField")
    case True
    then obtain r rs where "row_of al sz packed m = Some r" "rows_of al sz packed ms = Some rs" "rows = r # rs"
      using Cons.prems by (auto split: bind_splits)
    then show ?thesis using Cons.IH[of rs] True by (auto simp: nth_Cons split: nat.splits)
  qed (use Cons in simp)
qed simp

lemma max_align_rows:
  "rows_of al sz packed ms = Some rows \<Longrightarrow>
    max_align (effective_align al packed) (filter (\<lambda>m. tm_kind m = NField) ms) a = Some (largest rows a)"
proof (induction ms arbitrary: rows a)
  case (Cons m ms)
  then show ?case
    by (cases "tm_kind m = NField") (auto simp: row_of_def largest_def split: bind_splits)
qed (simp add: largest_def)

lemma largest_ge: "a \<le> largest rows a"
proof (induction rows arbitrary: a)
  case (Cons r rows)
  have "a \<le> (if a < fst (snd r) then fst (snd r) else a)" by simp
  also have "\<dots> \<le> largest rows (if a < fst (snd r) then fst (snd r) else a)" by (rule Cons.IH)
  finally show ?case by (simp add: largest_def)
qed (simp add: largest_def)

lemma raised_by_ge: "a \<le> raised_by ns a"
  by (simp add: raised_by_def split: option.splits)

lemma raised_struct_ge: "a \<le> raised_struct t d a"
  using raised_by_ge[of a "td_type d"] by (simp add: raised_struct_def Let_def)

lemma row_of_parts:
  assumes "row_of al sz packed m = Some r"
  shows "fst r = tm_text m" "effective_align al packed m = Some (fst (snd r))" "sz (tm_ty m) = Some (snd (snd r))"
  using assms by (auto simp: row_of_def split: bind_splits)

lemma row_align_pos: "row_of al sz packed m = Some r \<Longrightarrow> 1 \<le> fst (snd r)"
  by (auto simp: row_of_def effective_align_def field_align_def Let_def split: bind_splits if_splits)

lemma rows_layout_fields:
  "rows_of al sz packed ms = Some rows \<Longrightarrow> \<exists>u' a' off'. layout_fields al sz packed want ms u a off = Some (u', a', off')"
proof (induction ms arbitrary: rows u a off)
  case (Cons m ms)
  then show ?case by (cases "tm_kind m = NField") (auto simp: row_of_def Let_def split: bind_splits)
qed simp

lemma map_fst_place: "map fst (fst (place packed rows u)) = map fst rows"
  by (induction packed rows u rule: place.induct) (auto simp: Let_def split: prod.splits)

lemma map_of_nth: "distinct (map fst xs) \<Longrightarrow> i < length xs \<Longrightarrow> map_of (rev xs) (fst (xs ! i)) = Some (snd (xs ! i))"
  by (simp add: map_of_eq_Some_iff distinct_rev rev_map[symmetric])

text \<open>The bytes of a field: from its offset to its offset and size.\<close>

definition extent :: "decls \<Rightarrow> nat \<Rightarrow> ty \<Rightarrow> type_member \<Rightarrow> (int \<times> int) option" where
  "extent D n t f = do {
     lo \<leftarrow> type_offset D n t (tm_text f);
     s \<leftarrow> type_size D n (tm_ty f);
     Some (lo, lo + s)
   }"

lemma struct_align_rows:
  assumes "ty_kind t = TyStruct" "decl_of D t = Some d"
    and "rows_of (type_align D n) (type_size D n) (is_packed t d) (td_body d) = Some rows"
  shows "type_align D (Suc n) (Some t) = Some (raised_struct t d (largest rows 1))"
proof -
  have "1 \<le> raised_struct t d (largest rows 1)"
    using largest_ge[of 1 rows] raised_struct_ge[of "largest rows 1" t d] by linarith
  then show ?thesis
    using assms max_align_rows[OF assms(3), of 1, folded fields_of_def]
    by (simp add: type_align_step_def struct_align_def raised_struct_def at_least_one_def Let_def)
qed

lemma struct_rows:
  assumes "ty_kind t = TyStruct" "decl_of D t = Some d" "distinct (map tm_text (fields_of d))"
    and "type_size D (Suc n) (Some t) = Some s"
  obtains rows where "rows_of (type_align D n) (type_size D n) (is_packed t d) (td_body d) = Some rows"
    "s = pad_to (snd (place (is_packed t d) rows 0)) (raised_struct t d (largest rows 1))"
    "\<And>i. i < length (fields_of d) \<Longrightarrow>
       type_offset D n t (tm_text (fields_of d ! i)) = Some (snd (fst (place (is_packed t d) rows 0) ! i))"
proof -
  let ?al = "type_align D n" and ?sz = "type_size D n" and ?p = "is_packed t d"
  have "map_option fst (layout_struct ?al ?sz D t None) = Some s"
    using assms(1,4) by (simp add: type_size_step_def fixed_size_def)
  then obtain u a off where l: "layout_fields ?al ?sz ?p None (td_body d) 0 1 (- 1) = Some (u, a, off)"
      and s: "s = pad_to u (raised_struct t d a)"
    using assms(2) by (auto simp: layout_struct_def split: bind_splits)
  obtain rows where rows: "rows_of ?al ?sz ?p (td_body d) = Some rows" "u = snd (place ?p rows 0)" "a = largest rows 1"
    using layout_fields_rows[OF l] by auto
  note len = rows_of_nth[OF rows(1), folded fields_of_def]
  have names: "map fst (fst (place ?p rows 0)) = map tm_text (fields_of d)"
  proof -
    have "fst (rows ! i) = tm_text (fields_of d ! i)" if "i < length rows" for i
      using len that row_of_parts by blast
    then show ?thesis using len unfolding map_fst_place by (intro nth_equalityI) simp_all
  qed
  show ?thesis
  proof (rule that[OF rows(1)])
    show "s = pad_to (snd (place ?p rows 0)) (raised_struct t d (largest rows 1))" using s rows by simp
    fix i assume i: "i < length (fields_of d)"
    show "type_offset D n t (tm_text (fields_of d ! i)) = Some (snd (fst (place ?p rows 0) ! i))"
    proof -
      let ?x = "tm_text (fields_of d ! i)"
      obtain u' a' off where lx: "layout_fields ?al ?sz ?p (Some ?x) (td_body d) 0 1 (- 1) = Some (u', a', off)"
        using rows_layout_fields[OF rows(1)] by blast
      have "off = (case map_of (rev (fst (place ?p rows 0))) ?x of None \<Rightarrow> - 1 | Some lo \<Rightarrow> lo)"
        using layout_fields_rows[OF lx] rows(1) by auto
      moreover have "length (fst (place ?p rows 0)) = length (fields_of d)"
        using arg_cong[OF names, of length] by simp
      then have "fst (fst (place ?p rows 0) ! i) = ?x" "i < length (fst (place ?p rows 0))"
        using i names by (metis nth_map, simp)
      ultimately have "off = snd (fst (place ?p rows 0) ! i)"
        using map_of_nth[of "fst (place ?p rows 0)" i] assms(3) names by simp
      then show ?thesis
        using lx assms(1,2) by (simp add: type_offset_def is_union_def of_kind_def layout_struct_def)
    qed
  qed
qed


definition pair_struct :: type_decl where
  "pair_struct = plain_struct [plain_field ''a'' (Some (kind_ty TyU8)), plain_field ''b'' (Some (kind_ty TyU32))]"


text \<open>
  A result type in a payload is not searched: an enum with a case that holds a result of the enum
  itself passes the check, and its size is computed at no fuel.
\<close>

definition result_enum :: decls where
  "result_enum = [0 \<mapsto> \<lparr>td_kind = NEnum, td_text = ''E'', td_module = [], td_flags = 0, td_type = [],
     td_body = [\<lparr>tm_kind = NEnumCase, tm_text = ''Node'', tm_ty = None, tm_left = [], tm_right = [],
       tm_params = [wrapper_ty TyFallible (Some (Ty TyEnum ''E'' (Some 0) [] None 0 False False False False 0 [] 0))],
       tm_cached = None, tm_param_names = []\<rparr>], td_ty = None, td_generic = False\<rparr>]"

lemma result_payload_not_searched:
  "contains_by_value result_enum n (wrapper_ty TyFallible (Some (Ty TyEnum ''E'' (Some 0) [] None 0 False False False False 0 [] 0))) 0
    = Some False"
  by (simp add: contains_by_value_def wrapper_ty_def)

lemma result_payload_no_layout:
  "let e = Some (Ty TyEnum ''E'' (Some 0) [] None 0 False False False False 0 [] 0)
   in type_align result_enum n e = None \<and> type_size result_enum n e = None \<and>
      type_align result_enum n (wrapper_ty TyFallible e) = None \<and> type_size result_enum n (wrapper_ty TyFallible e) = None"
proof (induction n)
  case (Suc n)
  then show ?case
    by (simp add: Let_def type_align_step_def type_size_step_def fixed_size_def enum_align_def enum_size_def
        is_int_enum_def is_int_def of_kind_def elem_of_def decl_of_def cases_of_def wrapper_ty_def
        is_enum_def result_enum_def split: bind_splits)
qed (simp add: Let_def)

text \<open>
  The value of a case is read as a plain literal: an integer-backed enum whose only case is \<open>-1\<close> is
  taken to have a case 0, and so to be zeroable.
\<close>

lemma minus_one_zeroable:
  assumes "n_kind one = NLiteral" "n_op one = IntLit"
  shows "is_zeroable [0 \<mapsto> plain_struct [\<lparr>tm_kind = NEnumCase, tm_text = ''A'', tm_ty = None,
        tm_left = [set_left [one] (set_op Minus (mk NUnary sp))], tm_right = [], tm_params = [], tm_cached = None, tm_param_names = []\<rparr>]] 1
      (Some (Ty TyEnum ''E'' (Some 0) [] (Some (kind_ty TyI8)) 0 False False False False 0 [] 0)) = Some True"
  by (simp add: is_zeroable_step_def is_atomic_def is_int_def is_float_def is_float_kind_def is_ptr_def is_func_def
      is_array_def is_tup_def is_opt_def of_kind_def decl_of_def is_int_enum_def is_enum_def elem_of_def kind_ty_def
      plain_struct_def cases_of_def const_u64_lit_def mk_def)

end
