(* ===== verification/Package.thy ===== *)
theory Package
  imports ParseModule LexRun
begin

section \<open>Packages\<close>

text \<open>
  \<open>pkg/package.cpp\<close>: the manifest, the modules an entry reaches and the order they are checked in.
  The file system is a record of what the code asks of it; the standard modules the seed embeds are
  part of it, as the build generates them. The path functions of \<open>std::filesystem\<close> are those of
  POSIX. A module node's \<open>resolved\<close> imports are the names of the modules they resolve to, in order:
  the names of the loaded modules are distinct.
\<close>

record file_system =
  fs_dir :: "string \<Rightarrow> bool"
  fs_file :: "string \<Rightarrow> bool"
  fs_read :: "string \<Rightarrow> bytes option"
  fs_std :: "string \<Rightarrow> bytes option"
  fs_platform :: bytes

subsection \<open>Paths\<close>

fun drop_slashes :: "string \<Rightarrow> string" where
  "drop_slashes [] = []"
| "drop_slashes (c # s) = (if c = CHR ''/'' then drop_slashes s else c # s)"

definition dirname_of :: "string \<Rightarrow> string" where
  "dirname_of path =
     (let before = dropWhile (\<lambda>c. c \<noteq> CHR ''/'') (rev path)
      in if before = [] then ''.''
         else let d = rev (drop_slashes before) in if d = [] then ''/'' else d)"

definition join_path :: "string \<Rightarrow> string \<Rightarrow> string" where
  "join_path a b =
     (if a = [] \<or> a = ''.'' then b
      else if take 1 b = ''/'' then b
      else if last a = CHR ''/'' then a @ b
      else a @ ''/'' @ b)"

subsection \<open>Text of the manifest\<close>

definition trimmed_away :: "char \<Rightarrow> bool" where
  "trimmed_away c \<longleftrightarrow> c = CHR '' '' \<or> c = tab \<or> c = cr"

definition trim :: "string \<Rightarrow> string" where
  "trim s = rev (dropWhile trimmed_away (rev (dropWhile trimmed_away s)))"

definition unquote :: "string \<Rightarrow> string" where
  "unquote s =
     (if 2 \<le> length s \<and> ((hd s = dquote \<and> last s = dquote) \<or> (hd s = squote \<and> last s = squote))
      then take (length s - 2) (drop 1 s) else s)"

text \<open>The pieces of a text between the separators: one more than there are separators.\<close>

fun split_on :: "char \<Rightarrow> string \<Rightarrow> string list" where
  "split_on sep [] = [[]]"
| "split_on sep (c # s) =
     (if c = sep then [] # split_on sep s
      else case split_on sep s of [] \<Rightarrow> [[c]] | p # ps \<Rightarrow> (c # p) # ps)"

definition string_list :: "string \<Rightarrow> string list" where
  "string_list raw =
     (let body = (if 2 \<le> length raw \<and> hd raw = CHR ''['' \<and> last raw = CHR '']''
                  then take (length raw - 2) (drop 1 raw) else raw)
      in map unquote (filter (\<lambda>item. item \<noteq> []) (map trim (split_on (CHR '','') body))))"

record manifest =
  mf_name :: string
  mf_root :: string
  mf_symbol_prefix :: string
  mf_sources :: "string list"
  mf_libraries :: "string list"
  mf_link_search :: "string list"
  mf_frameworks :: "string list"
  mf_pkg_config :: "string list"

definition no_manifest :: manifest where
  "no_manifest = \<lparr>mf_name = ''app'', mf_root = [], mf_symbol_prefix = [], mf_sources = [], mf_libraries = [],
     mf_link_search = [], mf_frameworks = [], mf_pkg_config = []\<rparr>"

definition set_native :: "string \<Rightarrow> string list \<Rightarrow> manifest \<Rightarrow> manifest" where
  "set_native key v m =
     (if key = ''sources'' then m\<lparr>mf_sources := v\<rparr>
      else if key = ''libraries'' then m\<lparr>mf_libraries := v\<rparr>
      else if key = ''link_search'' then m\<lparr>mf_link_search := v\<rparr>
      else if key = ''frameworks'' then m\<lparr>mf_frameworks := v\<rparr>
      else if key = ''pkg_config'' then m\<lparr>mf_pkg_config := v\<rparr>
      else m)"

definition manifest_entry :: "string \<Rightarrow> string \<Rightarrow> string \<Rightarrow> manifest \<Rightarrow> manifest" where
  "manifest_entry section key raw m =
     (if section = ''[package]'' then
        (if key = ''name'' then m\<lparr>mf_name := unquote raw\<rparr>
         else if key = ''symbol_prefix'' then m\<lparr>mf_symbol_prefix := unquote raw\<rparr>
         else m)
      else if section = ''[native]'' then set_native key (string_list raw) m
      else m)"

definition before_equals :: "string \<Rightarrow> string" where
  "before_equals t = takeWhile (\<lambda>c. c \<noteq> CHR ''='') t"

fun manifest_lines :: "string list \<Rightarrow> string \<Rightarrow> manifest \<Rightarrow> manifest" where
  "manifest_lines [] section m = m"
| "manifest_lines (line # lines) section m =
     (let t = trim line in
      if t = [] \<or> hd t = CHR ''#'' then manifest_lines lines section m
      else if hd t = CHR ''['' then manifest_lines lines t m
      else if CHR ''='' \<notin> set t then manifest_lines lines section m
      else manifest_lines lines section
        (manifest_entry section (trim (before_equals t)) (trim (drop (length (before_equals t) + 1) t)) m))"

definition parse_manifest_text :: "string \<Rightarrow> string \<Rightarrow> manifest \<Rightarrow> manifest" where
  "parse_manifest_text text root m =
     manifest_lines (split_on lf text) [] (m\<lparr>mf_root := root, mf_name := ''app''\<rparr>)"

subsection \<open>Names\<close>

definition module_alias :: "string \<Rightarrow> string" where
  "module_alias path = rev (takeWhile (\<lambda>c. c \<noteq> CHR ''.'') (rev path))"

definition dotted_to_path :: "string \<Rightarrow> string" where
  "dotted_to_path dotted = map (\<lambda>c. if c = CHR ''.'' then CHR ''/'' else c) dotted"

definition is_std_module :: "string \<Rightarrow> bool" where
  "is_std_module name \<longleftrightarrow>
     name \<in> {''memory'', ''luce'', ''io'', ''host_files'', ''host_process'', ''c'', ''atomic'', ''thread'', ''sync''}"

definition is_letter :: "char \<Rightarrow> bool" where
  "is_letter c \<longleftrightarrow> (97 \<le> byte_value c \<and> byte_value c \<le> 122) \<or> (65 \<le> byte_value c \<and> byte_value c \<le> 90) \<or> c = CHR ''_''"

definition is_digit_byte :: "char \<Rightarrow> bool" where
  "is_digit_byte c \<longleftrightarrow> 48 \<le> byte_value c \<and> byte_value c \<le> 57"

definition file_names_a_module :: "string \<Rightarrow> bool" where
  "file_names_a_module path =
     (let base = rev (takeWhile (\<lambda>c. c \<noteq> CHR ''/'') (rev path));
          stem = takeWhile (\<lambda>c. c \<noteq> CHR ''.'') base
      in (case stem of [] \<Rightarrow> False | c # cs \<Rightarrow> is_letter c \<and> list_all (\<lambda>c. is_letter c \<or> is_digit_byte c) cs))"

end
