(* ===== verification/Load.thy ===== *)
theory Load
  imports Package
begin

section \<open>Loading modules\<close>

record loaded_module =
  lm_path :: string
  lm_name :: string
  lm_source :: source
  lm_tokens :: "token list"
  lm_module :: node
  lm_links :: "string list"

record loading =
  ld_files :: "loaded_module list"
  ld_bag :: diagnostic_bag

text \<open>
  A load step gives whether it succeeded and the new state; \<open>None\<close> is the lack of fuel, of the
  tokenizer, of the parser or of the nesting of imports.
\<close>

type_synonym load_step = "loading \<Rightarrow> (bool \<times> loading) option"

definition report_import :: "string \<Rightarrow> span \<Rightarrow> string \<Rightarrow> loading \<Rightarrow> loading" where
  "report_import path sp message st =
     st\<lparr>ld_bag := add_diag ''lucb.check.import'' path sp message (ld_bag st)\<rparr>"

definition find_loaded :: "loaded_module list \<Rightarrow> string \<Rightarrow> loaded_module option" where
  "find_loaded files name = find (\<lambda>f. lm_name f = name) files"

definition resolve_under :: "file_system \<Rightarrow> string \<Rightarrow> string \<Rightarrow> string option" where
  "resolve_under fs root rel =
     (let file = join_path root (rel @ ''.lucb''); directory = join_path root rel
      in if fs_file fs file then Some file
         else if fs_file fs (join_path directory ''ORDER'') then Some directory
         else None)"

definition resolve_file :: "file_system \<Rightarrow> string \<Rightarrow> string \<Rightarrow> string option" where
  "resolve_file fs root dotted =
     (case resolve_under fs root (dotted_to_path dotted) of
        Some p \<Rightarrow> Some p
      | None \<Rightarrow> resolve_under fs (join_path root ''src'') (dotted_to_path dotted))"

text \<open>
  The imports of the package namespace \<open>luce_std\<close> renamed to the modules the seed embeds:
  \<open>luce_std_as_standard\<close>, on the list of the module's declarations.
\<close>

definition luce_std_prefix :: string where
  "luce_std_prefix = ''luce_std.''"

definition standard_import :: "node \<Rightarrow> node list" where
  "standard_import d =
     (if (n_kind d = NImport \<or> n_kind d = NFromImport) \<and> length luce_std_prefix < length (n_text d) \<and>
         take (length luce_std_prefix) (n_text d) = luce_std_prefix
      then [set_text (drop (length luce_std_prefix) (n_text d)) d]
      else if n_kind d = NFromImport \<and> n_text d = ''luce_std'' \<and> n_body d \<noteq> []
      then map (\<lambda>n. set_text (n_text n) (mk NImport (n_span n))) (n_body d)
      else [d])"

definition luce_std_as_standard :: "node \<Rightarrow> node" where
  "luce_std_as_standard m = set_body (concat (map standard_import (n_body m))) m"

definition is_import :: "node \<Rightarrow> bool" where
  "is_import d \<longleftrightarrow> n_kind d = NImport \<or> n_kind d = NFromImport"

subsection \<open>Fragments\<close>

definition is_blank :: "char \<Rightarrow> bool" where
  "is_blank c \<longleftrightarrow> c = lf \<or> c = CHR '' '' \<or> c = cr \<or> c = tab"

fun blank_words :: "string \<Rightarrow> string \<Rightarrow> string list" where
  "blank_words [] word = (if word = [] then [] else [rev word])"
| "blank_words (c # s) word =
     (if is_blank c then (if word = [] then blank_words s [] else rev word # blank_words s [])
      else blank_words s (c # word))"

text \<open>The fragments read in order: the texts, or the first path that cannot be read.\<close>

fun read_fragments :: "file_system \<Rightarrow> string \<Rightarrow> string list \<Rightarrow> string + (string \<times> bytes) list" where
  "read_fragments fs directory [] = Inr []"
| "read_fragments fs directory (name # names) =
     (let fragment = join_path directory name in
      case fs_read fs fragment of
        None \<Rightarrow> Inl fragment
      | Some text \<Rightarrow>
          (case read_fragments fs directory names of
             Inl e \<Rightarrow> Inl e
           | Inr rest \<Rightarrow> Inr ((fragment, text) # rest)))"

subsection \<open>A module\<close>

text \<open>
  \<open>load_source\<close>, over the function that loads the imports of the file just pushed. The module's name
  and path are written into its node.
\<close>

definition name_module :: "string \<Rightarrow> string \<Rightarrow> node \<Rightarrow> node" where
  "name_module name path m = set_left [set_text path (mk NName default_span)] (set_text name m)"

definition load_source ::
  "(nat \<Rightarrow> string list \<Rightarrow> load_step) \<Rightarrow> string list \<Rightarrow> string \<Rightarrow> source \<Rightarrow> load_step" where
  "load_source imports stack name s st =
     (if \<not> src_ok s then Some (False, st)
      else case tokenize s (ld_bag st) of
        None \<Rightarrow> None
      | Some (toks, bag) \<Rightarrow>
          if \<not> bag_empty bag then Some (False, st\<lparr>ld_bag := bag\<rparr>)
          else (case parse_tokens s toks bag of
                  None \<Rightarrow> None
                | Some (parsed, bag) \<Rightarrow>
                    let st = st\<lparr>ld_bag := bag\<rparr> in
                    if \<not> bag_empty bag then Some (False, st)
                    else (case res_module parsed of
                            None \<Rightarrow> Some (False, st)
                          | Some m \<Rightarrow>
                              (case imports (length (ld_files st)) (stack @ [name])
                                  (st\<lparr>ld_files := ld_files st @
                                    [\<lparr>lm_path = src_path s, lm_name = name, lm_source = s, lm_tokens = toks,
                                      lm_module = name_module name (src_path s) m, lm_links = []\<rparr>]\<rparr>) of
                                 None \<Rightarrow> None
                               | Some (ok, st) \<Rightarrow> Some (ok \<and> bag_empty (ld_bag st), st)))))"

definition load_bytes ::
  "(nat \<Rightarrow> string list \<Rightarrow> load_step) \<Rightarrow> string list \<Rightarrow> string \<Rightarrow> string \<Rightarrow> bytes \<Rightarrow> load_step" where
  "load_bytes imports stack path name bs st =
     (let (s, bag) = from_bytes path bs (ld_bag st)
      in load_source imports stack name s (st\<lparr>ld_bag := bag\<rparr>))"

definition load_fragments ::
  "file_system \<Rightarrow> (nat \<Rightarrow> string list \<Rightarrow> load_step) \<Rightarrow> string list \<Rightarrow> string \<Rightarrow> string \<Rightarrow> load_step" where
  "load_fragments fs imports stack directory name st =
     (case fs_read fs (join_path directory ''ORDER'') of
        None \<Rightarrow> Some (False, report_import directory default_span
                  (''cannot open '' @ join_path directory ''ORDER'') st)
      | Some order \<Rightarrow>
          (case read_fragments fs directory (blank_words order []) of
             Inl fragment \<Rightarrow> Some (False, report_import fragment default_span (''cannot open '' @ fragment) st)
           | Inr parts \<Rightarrow>
               if parts = [] then
                 Some (False, report_import directory default_span ''an `ORDER` names at least one fragment'' st)
               else
                 let (s, bag) = source_assembled directory (map fst parts) (map snd parts) (ld_bag st)
                 in load_source imports stack name s (st\<lparr>ld_bag := assembled directory (src_segments s) bag\<rparr>)))"

definition load_one ::
  "file_system \<Rightarrow> (nat \<Rightarrow> string list \<Rightarrow> load_step) \<Rightarrow> string list \<Rightarrow> string \<Rightarrow> string \<Rightarrow> load_step" where
  "load_one fs imports stack path name st =
     (if find_loaded (ld_files st) name \<noteq> None then Some (True, st)
      else if \<not> file_names_a_module path then
        Some (False, report_import path default_span (''a module's file name is an identifier ('' @ [CHR 0xC2, CHR 0xA7] @ ''16.1)'') st)
      else if fs_dir fs path then load_fragments fs imports stack path name st
      else case fs_read fs path of
        None \<Rightarrow> Some (False, report_import path default_span (''cannot open '' @ path) st)
      | Some bs \<Rightarrow> load_bytes imports stack path name bs st)"

subsection \<open>Imports\<close>

definition embedded_source :: "file_system \<Rightarrow> string \<Rightarrow> bytes option" where
  "embedded_source fs dep = (if dep = ''platform'' then Some (fs_platform fs) else fs_std fs dep)"

definition load_missing ::
  "file_system \<Rightarrow> string \<Rightarrow> (nat \<Rightarrow> string list \<Rightarrow> load_step) \<Rightarrow> string list \<Rightarrow> string \<Rightarrow> span \<Rightarrow> string \<Rightarrow> load_step" where
  "load_missing fs root imports stack here sp dep st =
     (case resolve_file fs root dep of
        Some path \<Rightarrow> load_one fs imports stack path dep st
      | None \<Rightarrow>
          (case embedded_source fs dep of
             None \<Rightarrow> Some (False, report_import here sp (''cannot find module `'' @ dep @ ''`'') st)
           | Some bs \<Rightarrow> load_bytes imports stack (''<std>/'' @ dep @ ''.lucb'') dep bs st))"

definition link_to :: "nat \<Rightarrow> string \<Rightarrow> loading \<Rightarrow> loading" where
  "link_to idx dep st =
     (if find_loaded (ld_files st) dep = None then st
      else st\<lparr>ld_files := (ld_files st)[idx := (ld_files st ! idx)\<lparr>lm_links := lm_links (ld_files st ! idx) @ [dep]\<rparr>]\<rparr>)"

text \<open>The loop of \<open>load_imports\<close> over the declarations of file \<open>idx\<close>.\<close>

fun import_each ::
  "file_system \<Rightarrow> string \<Rightarrow> (nat \<Rightarrow> string list \<Rightarrow> load_step) \<Rightarrow> nat \<Rightarrow> string list \<Rightarrow> node list \<Rightarrow> load_step" where
  "import_each fs root imports idx stack [] st = Some (bag_empty (ld_bag st), st)"
| "import_each fs root imports idx stack (d # ds) st =
     (if \<not> is_import d \<or> is_std_module (n_text d) then import_each fs root imports idx stack ds st
      else if n_text d \<in> set stack then
        Some (False, report_import (lm_path (ld_files st ! idx)) (n_span d) ''module cycle'' st)
      else
        (case (if find_loaded (ld_files st) (n_text d) \<noteq> None then Some (True, st)
               else load_missing fs root imports stack (lm_path (ld_files st ! idx)) (n_span d) (n_text d) st) of
           None \<Rightarrow> None
         | Some (ok, st) \<Rightarrow>
             if \<not> ok then Some (False, st)
             else import_each fs root imports idx stack ds (link_to idx (n_text d) st)))"

fun load_imports :: "file_system \<Rightarrow> string \<Rightarrow> nat \<Rightarrow> nat \<Rightarrow> string list \<Rightarrow> load_step" where
  "load_imports fs root 0 idx stack st = None"
| "load_imports fs root (Suc n) idx stack st =
     (let m = luce_std_as_standard (lm_module (ld_files st ! idx));
          st = st\<lparr>ld_files := (ld_files st)[idx := (ld_files st ! idx)\<lparr>lm_module := m\<rparr>]\<rparr>
      in import_each fs root (load_imports fs root n) idx stack (n_body m) st)"

subsection \<open>Order\<close>

fun index_of :: "loaded_module list \<Rightarrow> string \<Rightarrow> nat option" where
  "index_of [] name = None"
| "index_of (f # fs) name = (if lm_name f = name then Some 0 else map_option Suc (index_of fs name))"

text \<open>
  \<open>visit_dependencies\<close>, on fuel for the nesting: the flags of the files seen, and the files in post
  order.
\<close>

type_synonym visit_step = "bool list \<times> nat list \<Rightarrow> (bool list \<times> nat list) option"

fun visit_links :: "loaded_module list \<Rightarrow> (nat \<Rightarrow> visit_step) \<Rightarrow> string list \<Rightarrow> visit_step" where
  "visit_links files visit [] v = Some v"
| "visit_links files visit (l # ls) v =
     (case index_of files l of
        None \<Rightarrow> visit_links files visit ls v
      | Some j \<Rightarrow> (case visit j v of None \<Rightarrow> None | Some v \<Rightarrow> visit_links files visit ls v))"

fun visit_dependencies :: "loaded_module list \<Rightarrow> nat \<Rightarrow> nat \<Rightarrow> visit_step" where
  "visit_dependencies files 0 i v = None"
| "visit_dependencies files (Suc n) i (seen, post) =
     (if seen ! i then Some (seen, post)
      else case visit_links files (visit_dependencies files n) (lm_links (files ! i)) (seen[i := True], post) of
        None \<Rightarrow> None
      | Some (seen, post) \<Rightarrow> Some (seen, post @ [i]))"

fun visit_all :: "loaded_module list \<Rightarrow> nat \<Rightarrow> nat list \<Rightarrow> visit_step" where
  "visit_all files n [] v = Some v"
| "visit_all files n (i # is) v =
     (case visit_dependencies files n i v of None \<Rightarrow> None | Some v \<Rightarrow> visit_all files n is v)"

definition order_dependencies_first :: "loaded_module list \<Rightarrow> loaded_module list option" where
  "order_dependencies_first files =
     (if length files < 3 then Some files
      else map_option (\<lambda>(seen, post). files ! 0 # map (\<lambda>k. files ! k) (filter (\<lambda>k. k \<noteq> 0) (rev post)))
        (visit_all files (length files + 1) (0 # [0 ..< length files]) (replicate (length files) False, [])))"

subsection \<open>The program\<close>

fun find_manifest_up :: "file_system \<Rightarrow> nat \<Rightarrow> string \<Rightarrow> string option" where
  "find_manifest_up fs 0 dir = None"
| "find_manifest_up fs (Suc n) dir =
     (if fs_file fs (join_path dir ''luce.toml'') then Some (join_path dir ''luce.toml'')
      else if dir = ''/'' \<or> dir = ''.'' \<or> dirname_of dir = dir then None
      else find_manifest_up fs n (dirname_of dir))"

definition find_manifest :: "file_system \<Rightarrow> string \<Rightarrow> string option" where
  "find_manifest fs start = find_manifest_up fs 16 (if fs_dir fs start then start else dirname_of start)"

definition slurp :: "file_system \<Rightarrow> string \<Rightarrow> bytes" where
  "slurp fs path = (case fs_read fs path of None \<Rightarrow> [] | Some s \<Rightarrow> s)"

definition package_manifest :: "file_system \<Rightarrow> string \<Rightarrow> manifest" where
  "package_manifest fs path =
     (if fs_dir fs path then
        (if fs_file fs (join_path path ''luce.toml'')
         then parse_manifest_text (slurp fs (join_path path ''luce.toml'')) path no_manifest
         else no_manifest\<lparr>mf_root := path\<rparr>)
      else
        (case find_manifest fs path of
           Some toml \<Rightarrow> parse_manifest_text (slurp fs toml) (dirname_of toml) no_manifest
         | None \<Rightarrow> no_manifest\<lparr>mf_root := dirname_of path\<rparr>))"

definition package_entry :: "file_system \<Rightarrow> string \<Rightarrow> string option" where
  "package_entry fs path =
     (if \<not> fs_dir fs path then Some path
      else if fs_file fs (join_path path ''main.lucb'') then Some (join_path path ''main.lucb'')
      else if fs_file fs (join_path (join_path path ''src'') ''main.lucb'') then Some (join_path (join_path path ''src'') ''main.lucb'')
      else None)"

definition entry_name :: "string \<Rightarrow> string \<Rightarrow> string" where
  "entry_name root entry =
     (if length root < length entry \<and> take (length root) entry = root then
        let rel = drop (length root) entry;
            rel = (if rel \<noteq> [] \<and> hd rel = CHR ''/'' then drop 1 rel else rel);
            rel = (if 5 \<le> length rel \<and> drop (length rel - 5) rel = ''.lucb'' then take (length rel - 5) rel else rel);
            rel = map (\<lambda>c. if c = CHR ''/'' then CHR ''.'' else c) rel
        in if rel = [] then ''main'' else rel
      else ''main'')"

definition load_program :: "file_system \<Rightarrow> nat \<Rightarrow> string \<Rightarrow> diagnostic_bag \<Rightarrow> (bool \<times> manifest \<times> loading) option" where
  "load_program fs n path bag =
     (let m = package_manifest fs path; st = \<lparr>ld_files = [], ld_bag = bag\<rparr> in
      case package_entry fs path of
        None \<Rightarrow> Some (False, m, report_import path default_span ''no main.lucb in this package'' st)
      | Some entry \<Rightarrow>
          (case load_one fs (load_imports fs (mf_root m) n) [] entry (entry_name (mf_root m) entry) st of
             None \<Rightarrow> None
           | Some (ok, st) \<Rightarrow>
               if \<not> ok then Some (False, m, st)
               else (case order_dependencies_first (ld_files st) of
                       None \<Rightarrow> None
                     | Some files \<Rightarrow> Some (True, m, st\<lparr>ld_files := files\<rparr>))))"

end
