(* ===== verification/LoadLaws.thy ===== *)
theory LoadLaws
  imports Load
begin

section \<open>What loading keeps\<close>

text \<open>
  The modules loaded are those on the stack, whose imports are being loaded, and the finished ones.
  Listed in the order they finish, every finished module imports only modules finished before it,
  and each of its imports is linked; a module on the stack is linked to finished ones only. So no
  chain of imports comes back to its start, and the entry, which finishes last, is imported by none.
\<close>

definition links_in :: "loaded_module list \<Rightarrow> string \<Rightarrow> string set \<Rightarrow> bool" where
  "links_in files name S \<longleftrightarrow> (\<forall>f \<in> set files. lm_name f = name \<longrightarrow> set (lm_links f) \<subseteq> S)"

definition all_linked :: "loaded_module \<Rightarrow> bool" where
  "all_linked f \<longleftrightarrow> (\<forall>d \<in> set (n_body (lm_module f)). is_import d \<and> \<not> is_std_module (n_text d) \<longrightarrow> n_text d \<in> set (lm_links f))"

fun finished :: "loaded_module list \<Rightarrow> string list \<Rightarrow> bool" where
  "finished files [] = True"
| "finished files (name # earlier) =
     (links_in files name (set earlier) \<and> (\<forall>f \<in> set files. lm_name f = name \<longrightarrow> all_linked f) \<and> finished files earlier)"

definition load_inv :: "loaded_module list \<Rightarrow> string list \<Rightarrow> string list \<Rightarrow> bool" where
  "load_inv files stack fin \<longleftrightarrow>
     distinct (map lm_name files) \<and> distinct (stack @ fin) \<and> set (map lm_name files) = set stack \<union> set fin \<and>
     finished files fin \<and> (\<forall>name \<in> set stack. links_in files name (set fin))"

text \<open>The files that were there keep their names, their modules and their links, the one at \<open>idx\<close> apart.\<close>

definition grows :: "nat option \<Rightarrow> loaded_module list \<Rightarrow> loaded_module list \<Rightarrow> bool" where
  "grows except files files' \<longleftrightarrow> length files \<le> length files' \<and>
     (\<forall>i < length files. lm_name (files' ! i) = lm_name (files ! i) \<and>
        (except \<noteq> Some i \<longrightarrow> files' ! i = files ! i))"

lemma grows_refl: "grows e files files"
  by (simp add: grows_def)

lemma grows_trans: "grows e a b \<Longrightarrow> grows e b c \<Longrightarrow> grows e a c"
  by (simp add: grows_def)

lemma grows_weaken: "grows None a b \<Longrightarrow> grows e a b"
  by (simp add: grows_def)

lemma find_loaded_None: "find_loaded files name = None \<longleftrightarrow> name \<notin> set (map lm_name files)"
  by (auto simp: find_loaded_def find_None_iff)

lemma finished_cong:
  "finished files fin \<Longrightarrow> (\<And>f. f \<in> set files' \<Longrightarrow> lm_name f \<in> set fin \<Longrightarrow> f \<in> set files) \<Longrightarrow> finished files' fin"
  by (induction fin) (fastforce simp: links_in_def)+

text \<open>What a successful step of loading a module gives: the module is finished, after what was.\<close>

definition loads :: "string list \<Rightarrow> string \<Rightarrow> loading \<Rightarrow> loading \<Rightarrow> bool" where
  "loads stack name st st' \<longleftrightarrow> (\<forall>fin. load_inv (ld_files st) stack fin \<and> name \<notin> set (map lm_name (ld_files st)) \<longrightarrow>
     (\<exists>new. load_inv (ld_files st') stack (name # new @ fin)) \<and> grows None (ld_files st) (ld_files st') \<and>
     lm_name (ld_files st' ! length (ld_files st)) = name)"

definition imports_ok :: "(nat \<Rightarrow> string list \<Rightarrow> load_step) \<Rightarrow> bool" where
  "imports_ok imports \<longleftrightarrow> (\<forall>idx stack st st' name fin.
     imports idx (stack @ [name]) st = Some (True, st') \<and> load_inv (ld_files st) (stack @ [name]) fin \<and>
     idx < length (ld_files st) \<and> lm_name (ld_files st ! idx) = name \<longrightarrow>
     (\<exists>new. load_inv (ld_files st') (stack @ [name]) (new @ fin)) \<and> grows (Some idx) (ld_files st) (ld_files st') \<and>
     all_linked (ld_files st' ! idx))"

lemma links_in_mono: "links_in files name S \<Longrightarrow> S \<subseteq> T \<Longrightarrow> links_in files name T"
  by (fastforce simp: links_in_def)

lemma load_invI:
  assumes "distinct (map lm_name files)" "distinct (stack @ fin)" "set (map lm_name files) = set stack \<union> set fin"
    "finished files fin" "\<And>name. name \<in> set stack \<Longrightarrow> links_in files name (set fin)"
  shows "load_inv files stack fin"
  using assms unfolding load_inv_def by blast

lemma load_invD:
  assumes "load_inv files stack fin"
  shows "distinct (map lm_name files)" "distinct (stack @ fin)" "set (map lm_name files) = set stack \<union> set fin"
    "finished files fin" "name \<in> set stack \<Longrightarrow> links_in files name (set fin)"
  using assms unfolding load_inv_def by blast+

lemma load_inv_push:
  assumes "load_inv files stack fin" "lm_name f \<notin> set (map lm_name files)" "lm_links f = []"
  shows "load_inv (files @ [f]) (stack @ [lm_name f]) fin"
proof (rule load_invI)
  note inv = load_invD[OF assms(1)]
  have out: "lm_name f \<notin> set stack" "lm_name f \<notin> set fin" using inv(3) assms(2) by auto
  show "distinct (map lm_name (files @ [f]))" using inv(1) assms(2) by simp
  show "distinct ((stack @ [lm_name f]) @ fin)" using inv(2) out by simp
  show "set (map lm_name (files @ [f])) = set (stack @ [lm_name f]) \<union> set fin" using inv(3) by auto
  show "finished (files @ [f]) fin" by (rule finished_cong[OF inv(4)]) (use out in auto)
  show "links_in (files @ [f]) name (set fin)" if "name \<in> set (stack @ [lm_name f])" for name
  proof (cases "name = lm_name f")
    case True
    then have "g \<in> set files \<Longrightarrow> lm_name g \<noteq> name" for g using assms(2) by (metis image_eqI list.set_map)
    then show ?thesis using assms(3) by (auto simp: links_in_def)
  next
    case False
    then have "links_in files name (set fin)" using that by (intro inv(5)) simp
    then show ?thesis using False unfolding links_in_def by (simp add: eq_commute)
  qed
qed

lemma nth_named: "distinct (map lm_name files) \<Longrightarrow> i < length files \<Longrightarrow> f \<in> set files \<Longrightarrow> lm_name f = lm_name (files ! i) \<Longrightarrow> f = files ! i"
  by (metis distinct_map inj_on_eq_iff nth_mem)

lemma load_inv_pop:
  assumes "load_inv files (stack @ [name]) fin" "idx < length files" "lm_name (files ! idx) = name" "all_linked (files ! idx)"
  shows "load_inv files stack (name # fin)"
proof (rule load_invI)
  note inv = load_invD[OF assms(1)]
  have "all_linked f" if "f \<in> set files" "lm_name f = name" for f
    using nth_named[OF inv(1) assms(2) that(1)] assms(3,4) that(2) by simp
  then show "finished files (name # fin)" using inv(4) inv(5)[of name] by simp
  show "distinct (stack @ name # fin)" using inv(2) by auto
  show "links_in files x (set (name # fin))" if "x \<in> set stack" for x
    by (rule links_in_mono[OF inv(5)]) (use that in auto)
qed (use load_invD[OF assms(1)] in auto)

lemma load_source_loads:
  assumes "imports_ok imports" "load_source imports stack name s st = Some (True, st')"
  shows "loads stack name st st'"
  unfolding loads_def
proof (intro allI impI, elim conjE)
  fix fin
  assume inv: "load_inv (ld_files st) stack fin" and new: "name \<notin> set (map lm_name (ld_files st))"
  obtain f bag where f: "lm_name f = name" "lm_links f = []"
    and imp: "imports (length (ld_files st)) (stack @ [name]) (st\<lparr>ld_bag := bag, ld_files := ld_files st @ [f]\<rparr>) = Some (True, st')"
    using assms(2)
    by (auto simp: load_source_def Let_def split: if_splits option.splits prod.splits
        intro!: that[of "\<lparr>lm_path = _, lm_name = _, lm_source = _, lm_tokens = _, lm_module = _, lm_links = []\<rparr>"])
  let ?files = "ld_files st @ [f]"
  have "load_inv ?files (stack @ [name]) fin" using load_inv_push[OF inv, of f] new f by simp
  then have "load_inv (ld_files (st\<lparr>ld_bag := bag, ld_files := ?files\<rparr>)) (stack @ [name]) fin" by simp
  moreover have "length (ld_files st) < length (ld_files (st\<lparr>ld_bag := bag, ld_files := ?files\<rparr>))"
    "lm_name (ld_files (st\<lparr>ld_bag := bag, ld_files := ?files\<rparr>) ! length (ld_files st)) = name" using f by simp_all
  ultimately obtain more where inv': "load_inv (ld_files st') (stack @ [name]) (more @ fin)"
    and g': "grows (Some (length (ld_files st))) (ld_files (st\<lparr>ld_bag := bag, ld_files := ?files\<rparr>)) (ld_files st')"
    and linked: "all_linked (ld_files st' ! length (ld_files st))"
    using assms(1) imp unfolding imports_ok_def by blast
  have g: "grows (Some (length (ld_files st))) ?files (ld_files st')" using g' by simp
  have at: "length (ld_files st) < length (ld_files st')" "lm_name (ld_files st' ! length (ld_files st)) = name"
    using g f by (auto simp: grows_def nth_append)
  have "load_inv (ld_files st') stack (name # more @ fin)" by (rule load_inv_pop[OF inv' at linked])
  moreover have "grows None (ld_files st) (ld_files st')" using g by (auto simp: grows_def nth_append)
  ultimately show "(\<exists>new. load_inv (ld_files st') stack (name # new @ fin)) \<and> grows None (ld_files st) (ld_files st') \<and>
      lm_name (ld_files st' ! length (ld_files st)) = name" using at by blast
qed

lemma loads_bag [simp]: "loads stack name (st\<lparr>ld_bag := bag\<rparr>) st' = loads stack name st st'"
  by (simp add: loads_def)

lemma load_bytes_loads:
  "imports_ok imports \<Longrightarrow> load_bytes imports stack path name bs st = Some (True, st') \<Longrightarrow> loads stack name st st'"
  using load_source_loads by (fastforce simp: load_bytes_def split: prod.splits)

lemma load_fragments_loads:
  "imports_ok imports \<Longrightarrow> load_fragments fs imports stack directory name st = Some (True, st') \<Longrightarrow> loads stack name st st'"
  using load_source_loads
  by (fastforce simp: load_fragments_def split: prod.splits option.splits sum.splits if_splits)

lemma load_one_loads:
  "imports_ok imports \<Longrightarrow> load_one fs imports stack path name st = Some (True, st') \<Longrightarrow> loads stack name st st'"
  using load_fragments_loads load_bytes_loads
  by (fastforce simp: load_one_def loads_def find_loaded_None split: option.splits if_splits)

lemma load_missing_loads:
  "imports_ok imports \<Longrightarrow> load_missing fs root imports stack here sp dep st = Some (True, st') \<Longrightarrow> loads stack dep st st'"
  using load_one_loads load_bytes_loads by (fastforce simp: load_missing_def split: option.splits)

lemma load_inv_update:
  assumes inv: "load_inv files stack fin" and idx: "idx < length files" "lm_name (files ! idx) \<in> set stack"
    and f': "lm_name f' = lm_name (files ! idx)" "set (lm_links f') \<subseteq> set fin"
  shows "load_inv (files[idx := f']) stack fin"
proof -
  have names: "map lm_name (files[idx := f']) = map lm_name files"
    using idx f'(1) by (simp add: map_update list_update_same_conv)
  have apart: "set stack \<inter> set fin = {}" using inv by (auto simp: load_inv_def)
  have either: "f = f' \<or> f \<in> set files" if "f \<in> set (files[idx := f'])" for f
    using that set_update_subset_insert by fastforce
  have "finished (files[idx := f']) fin"
  proof (rule finished_cong[of files])
    show "finished files fin" using inv by (simp add: load_inv_def)
    fix f assume f: "f \<in> set (files[idx := f'])" "lm_name f \<in> set fin"
    then have "f \<noteq> f'" using idx(2) f'(1) apart by auto
    then show "f \<in> set files" using either[OF f(1)] by blast
  qed
  moreover have "links_in (files[idx := f']) name (set fin)" if "name \<in> set stack" for name
  proof -
    have "links_in files name (set fin)" using load_invD(5)[OF inv that] .
    then show ?thesis unfolding links_in_def using either f'(2) by blast
  qed
  ultimately show ?thesis using inv unfolding load_inv_def names by simp
qed

lemma stack_links:
  "load_inv files stack fin \<Longrightarrow> idx < length files \<Longrightarrow> lm_name (files ! idx) \<in> set stack \<Longrightarrow>
    set (lm_links (files ! idx)) \<subseteq> set fin"
  by (auto simp: load_inv_def links_in_def)

lemma load_inv_link:
  assumes inv: "load_inv (ld_files st) stack fin" and idx: "idx < length (ld_files st)" "lm_name (ld_files st ! idx) \<in> set stack"
    and dep: "dep \<in> set fin"
  shows "load_inv (ld_files (link_to idx dep st)) stack fin"
    and "ld_files (link_to idx dep st) =
      (ld_files st)[idx := (ld_files st ! idx)\<lparr>lm_links := lm_links (ld_files st ! idx) @ [dep]\<rparr>]"
proof -
  have "dep \<in> set (map lm_name (ld_files st))" using load_invD(3)[OF inv] dep by simp
  then have "\<not> find_loaded (ld_files st) dep = None" unfolding find_loaded_None by simp
  then show files: "ld_files (link_to idx dep st) =
      (ld_files st)[idx := (ld_files st ! idx)\<lparr>lm_links := lm_links (ld_files st ! idx) @ [dep]\<rparr>]"
    by (simp only: link_to_def if_False) simp
  show "load_inv (ld_files (link_to idx dep st)) stack fin"
    unfolding files by (rule load_inv_update[OF inv idx]) (use stack_links[OF inv idx] dep in auto)
qed

text \<open>The loop over the declarations of a file.\<close>

definition imports_of :: "node list \<Rightarrow> string set" where
  "imports_of ds = {n_text d | d. d \<in> set ds \<and> is_import d \<and> \<not> is_std_module (n_text d)}"

lemma all_linked_imports: "all_linked f \<longleftrightarrow> imports_of (n_body (lm_module f)) \<subseteq> set (lm_links f)"
  by (auto simp: all_linked_def imports_of_def)

lemma import_each_ok:
  assumes "imports_ok imports"
  shows "import_each fs root imports idx stack ds st = Some (True, st') \<Longrightarrow> load_inv (ld_files st) stack fin \<Longrightarrow>
    idx < length (ld_files st) \<Longrightarrow> lm_name (ld_files st ! idx) \<in> set stack \<Longrightarrow>
    (\<exists>new. load_inv (ld_files st') stack (new @ fin)) \<and> grows (Some idx) (ld_files st) (ld_files st') \<and>
    lm_module (ld_files st' ! idx) = lm_module (ld_files st ! idx) \<and>
    set (lm_links (ld_files st ! idx)) \<union> imports_of ds \<subseteq> set (lm_links (ld_files st' ! idx))"
proof (induction ds arbitrary: st fin)
  case Nil
  then show ?case by (auto simp: grows_refl imports_of_def intro: exI[of _ "[]"])
next
  case (Cons d ds)
  show ?case
  proof (cases "is_import d \<and> \<not> is_std_module (n_text d)")
    case False
    then have "imports_of (d # ds) = imports_of ds" by (auto simp: imports_of_def)
    with False show ?thesis using Cons by simp
  next
    case True
    let ?dep = "n_text d"
    have dep: "imports_of (d # ds) = insert ?dep (imports_of ds)" using True by (auto simp: imports_of_def)
    have out: "?dep \<notin> set stack" using Cons.prems(1) True by (auto split: if_splits)
    obtain st1 new where inv1: "load_inv (ld_files st1) stack (new @ fin)" and in1: "?dep \<in> set (new @ fin)"
      and g1: "grows None (ld_files st) (ld_files st1)"
      and rest: "import_each fs root imports idx stack ds (link_to idx ?dep st1) = Some (True, st')"
    proof (cases "find_loaded (ld_files st) ?dep")
      case None
      then obtain st1 where "load_missing fs root imports stack (lm_path (ld_files st ! idx)) (n_span d) ?dep st = Some (True, st1)"
        and rest: "import_each fs root imports idx stack ds (link_to idx ?dep st1) = Some (True, st')"
        using Cons.prems(1) True out by (auto split: option.splits prod.splits if_splits)
      then have "loads stack ?dep st st1" using load_missing_loads[OF assms] by blast
      then obtain new where "load_inv (ld_files st1) stack (?dep # new @ fin)" "grows None (ld_files st) (ld_files st1)"
        using Cons.prems(2) None unfolding loads_def find_loaded_None by blast
      then show ?thesis using that[of st1 "?dep # new"] rest by simp
    next
      case (Some f)
      then have "?dep \<in> set fin" using Cons.prems(2) out find_loaded_None[of "ld_files st" ?dep] by (auto simp: load_inv_def)
      then show ?thesis using that[of st "[]"] Cons.prems True out Some grows_refl by (simp split: if_splits)
    qed
    have idx: "idx < length (ld_files st1)" "ld_files st1 ! idx = ld_files st ! idx"
      using g1 Cons.prems(3) by (auto simp: grows_def)
    note link = load_inv_link[OF inv1 idx(1) _ in1]
    let ?st2 = "link_to idx ?dep st1"
    have stk: "lm_name (ld_files st1 ! idx) \<in> set stack" using Cons.prems(4) idx by simp
    have at: "ld_files ?st2 ! idx = (ld_files st1 ! idx)\<lparr>lm_links := lm_links (ld_files st1 ! idx) @ [?dep]\<rparr>"
      "idx < length (ld_files ?st2)" using link(2)[OF stk] idx(1) by simp_all
    have g2: "grows (Some idx) (ld_files st1) (ld_files ?st2)"
      unfolding link(2)[OF stk] using idx(1) by (auto simp: grows_def nth_list_update)
    have IH: "(\<exists>more. load_inv (ld_files st') stack (more @ new @ fin)) \<and> grows (Some idx) (ld_files ?st2) (ld_files st') \<and>
      lm_module (ld_files st' ! idx) = lm_module (ld_files ?st2 ! idx) \<and>
      set (lm_links (ld_files ?st2 ! idx)) \<union> imports_of ds \<subseteq> set (lm_links (ld_files st' ! idx))"
      using Cons.IH[OF rest link(1)[OF stk] at(2)] at(1) stk by simp
    have "grows (Some idx) (ld_files st) (ld_files st')"
      using grows_trans[OF grows_trans[OF grows_weaken[OF g1] g2]] IH by blast
    moreover have "\<exists>more. load_inv (ld_files st') stack (more @ fin)" using IH append_assoc by metis
    ultimately show ?thesis using IH at(1) idx(2) dep by auto
  qed
qed

lemma load_imports_ok: "imports_ok (load_imports fs root n)"
proof (induction n)
  case 0
  then show ?case by (simp add: imports_ok_def)
next
  case (Suc n)
  show ?case
    unfolding imports_ok_def
  proof (intro allI impI, elim conjE)
    fix idx stack st st' name fin
    assume l: "load_imports fs root (Suc n) idx (stack @ [name]) st = Some (True, st')"
      and inv: "load_inv (ld_files st) (stack @ [name]) fin" and idx: "idx < length (ld_files st)" "lm_name (ld_files st ! idx) = name"
    let ?m = "luce_std_as_standard (lm_module (ld_files st ! idx))"
    let ?f = "(ld_files st ! idx)\<lparr>lm_module := ?m\<rparr>"
    let ?st = "st\<lparr>ld_files := (ld_files st)[idx := ?f]\<rparr>"
    have each: "import_each fs root (load_imports fs root n) idx (stack @ [name]) (n_body ?m) ?st = Some (True, st')"
      using l by (simp add: Let_def)
    have inv': "load_inv (ld_files ?st) (stack @ [name]) fin"
      using load_inv_update[OF inv idx(1), of ?f] stack_links[OF inv idx(1)] idx(2) by simp
    have g: "grows (Some idx) (ld_files st) (ld_files ?st)" using idx by (auto simp: grows_def nth_list_update)
    note ok = import_each_ok[OF Suc each inv']
    then show "(\<exists>new. load_inv (ld_files st') (stack @ [name]) (new @ fin)) \<and> grows (Some idx) (ld_files st) (ld_files st') \<and>
       all_linked (ld_files st' ! idx)"
      using idx grows_trans[OF g] by (auto simp: all_linked_imports)
  qed
qed

end
