(* ===== verification/OrderLaws.thy ===== *)
theory OrderLaws
  imports LoadLaws "HOL-Library.Multiset"
begin

section \<open>The order of the modules\<close>

text \<open>
  The depth-first walk over the links of the files. Where the links come from a finished load, a rank
  falls along them, so a file being visited is never met again; the walk returns, and in the reverse
  of its post order every file comes before the files it links to.
\<close>

definition targets :: "loaded_module list \<Rightarrow> nat \<Rightarrow> nat set" where
  "targets files i = {j. \<exists>l \<in> set (lm_links (files ! i)). index_of files l = Some j}"

text \<open>The post order, latest first: every file's targets are earlier.\<close>

fun later :: "(nat \<Rightarrow> nat set) \<Rightarrow> nat list \<Rightarrow> bool" where
  "later T [] = True"
| "later T (i # is) = (T i \<subseteq> set is \<and> i \<notin> set is \<and> later T is)"

definition unseen :: "bool list \<Rightarrow> nat set" where
  "unseen seen = {i. i < length seen \<and> \<not> seen ! i}"

lemma unseen_finite [simp]: "finite (unseen seen)"
  by (simp add: unseen_def)

text \<open>
  A visit that starts with the flags \<open>seen\<close> and the post order \<open>post\<close>: the files seen and not yet in
  the post order are those being visited.
\<close>

definition visit_inv :: "loaded_module list \<Rightarrow> bool list \<times> nat list \<Rightarrow> bool" where
  "visit_inv files v \<longleftrightarrow> length (fst v) = length files \<and> later (targets files) (rev (snd v)) \<and>
     (\<forall>i \<in> set (snd v). i < length files \<and> fst v ! i)"

definition visiting :: "bool list \<times> nat list \<Rightarrow> nat set" where
  "visiting v = {i. i < length (fst v) \<and> fst v ! i \<and> i \<notin> set (snd v)}"

definition visited :: "loaded_module list \<Rightarrow> bool list \<times> nat list \<Rightarrow> nat set \<Rightarrow> (bool list \<times> nat list) option \<Rightarrow> bool" where
  "visited files v goal r \<longleftrightarrow> (\<exists>v'. r = Some v' \<and> visit_inv files v' \<and> visiting v' = visiting v \<and>
     set (snd v) \<union> goal \<subseteq> set (snd v') \<and> unseen (fst v') \<subseteq> unseen (fst v))"

definition ranked :: "loaded_module list \<Rightarrow> (nat \<Rightarrow> nat) \<Rightarrow> bool" where
  "ranked files rank \<longleftrightarrow> (\<forall>i < length files. \<forall>j \<in> targets files i. j < length files \<and> rank j < rank i)"

lemma visited_trans:
  assumes "visited files v A (Some v')" "visited files v' B r"
  shows "visited files v (A \<union> B) r"
  using assms unfolding visited_def by fastforce

lemma visit_links_visited:
  assumes "\<And>j v. visit_inv files v \<Longrightarrow> j \<in> J \<Longrightarrow> (\<forall>g \<in> visiting v. rank j < rank g) \<Longrightarrow> card (unseen (fst v)) < n \<Longrightarrow>
      visited files v {j} (visit j v)"
  shows "visit_inv files v \<Longrightarrow> {j. \<exists>l \<in> set ls. index_of files l = Some j} \<subseteq> J \<Longrightarrow>
    (\<forall>g \<in> visiting v. \<forall>j \<in> J. rank j < rank g) \<Longrightarrow> card (unseen (fst v)) < n \<Longrightarrow>
    visited files v {j. \<exists>l \<in> set ls. index_of files l = Some j} (visit_links files visit ls v)"
proof (induction ls arbitrary: v)
  case Nil
  then show ?case by (simp add: visited_def)
next
  case (Cons l ls)
  show ?case
  proof (cases "index_of files l")
    case None
    then have "{j. \<exists>l \<in> set (l # ls). index_of files l = Some j} = {j. \<exists>l \<in> set ls. index_of files l = Some j}" by auto
    then show ?thesis using Cons None by simp
  next
    case (Some j)
    then have goal: "{j. \<exists>l \<in> set (l # ls). index_of files l = Some j} = {j} \<union> {j. \<exists>l \<in> set ls. index_of files l = Some j}"
      by auto
    have j: "j \<in> J" using Some Cons.prems(2) by auto
    then have "visited files v {j} (visit j v)" using Cons.prems by (intro assms) auto
    then obtain v' where v': "visit j v = Some v'" "visited files v {j} (Some v')" by (auto simp: visited_def)
    then have inv': "visit_inv files v'" "visiting v' = visiting v" "unseen (fst v') \<subseteq> unseen (fst v)"
      by (auto simp: visited_def)
    have "card (unseen (fst v')) < n" using card_mono[OF unseen_finite inv'(3)] Cons.prems(4) by linarith
    then have "visited files v' {j. \<exists>l \<in> set ls. index_of files l = Some j} (visit_links files visit ls v')"
      using Cons.prems inv' by (intro Cons.IH) auto
    then show ?thesis using visited_trans[OF v'(2)] v'(1) Some goal by simp
  qed
qed

lemma visit_dependencies_visited:
  assumes "ranked files rank"
  shows "visit_inv files v \<Longrightarrow> i < length files \<Longrightarrow> (\<forall>g \<in> visiting v. rank i < rank g) \<Longrightarrow> card (unseen (fst v)) < n \<Longrightarrow>
    visited files v {i} (visit_dependencies files n i v)"
proof (induction n arbitrary: i v)
  case (Suc n)
  obtain seen post where v: "v = (seen, post)" by (cases v)
  have len: "length seen = length files" using Suc.prems(1) v by (simp add: visit_inv_def)
  show ?case
  proof (cases "seen ! i")
    case True
    have "i \<notin> visiting v" using Suc.prems(3) by blast
    then have "i \<in> set post" using True len v Suc.prems(2) by (simp add: visiting_def)
    then show ?thesis using True v Suc.prems(1) by (simp add: visited_def)
  next
    case False
    let ?w = "(seen[i := True], post)"
    have out: "i \<notin> set post" using False Suc.prems(1) v by (auto simp: visit_inv_def)
    have inv: "visit_inv files ?w" using Suc.prems(1,2) v by (auto simp: visit_inv_def nth_list_update)
    have visiting: "visiting ?w = insert i (visiting v)"
      using len v Suc.prems(2) out by (auto simp: visiting_def nth_list_update split: if_splits)
    have unseen: "unseen (fst ?w) = unseen seen - {i}"
      using len Suc.prems(2) by (auto simp: unseen_def nth_list_update)
    have "i \<in> unseen seen" using False len Suc.prems(2) by (simp add: unseen_def)
    then have card: "card (unseen (fst ?w)) < n" using unseen Suc.prems(4) v card_Diff1_less[of "unseen seen" i] by simp
    have low: "j < length files \<and> rank j < rank i" if "j \<in> targets files i" for j
      using assms Suc.prems(2) that by (auto simp: ranked_def)
    have "visited files ?w (targets files i) (visit_links files (visit_dependencies files n) (lm_links (files ! i)) ?w)"
      unfolding targets_def
    proof (rule visit_links_visited[where J = "targets files i" and rank = rank, OF _ inv])
      fix j v assume "visit_inv files v" "j \<in> targets files i" "\<forall>g \<in> visiting v. rank j < rank g" "card (unseen (fst v)) < n"
      then show "visited files v {j} (visit_dependencies files n j v)" using Suc.IH low by blast
    next
      show "\<forall>g \<in> visiting ?w. \<forall>j \<in> targets files i. rank j < rank g"
        using low visiting Suc.prems(3) by (fastforce intro: less_trans)
    qed (use card in \<open>auto simp: targets_def\<close>)
    then obtain seen' post' where r: "visit_links files (visit_dependencies files n) (lm_links (files ! i)) ?w = Some (seen', post')"
      and inv': "visit_inv files (seen', post')" and vis': "visiting (seen', post') = visiting ?w"
      and goal: "set post \<union> targets files i \<subseteq> set post'" and un': "unseen seen' \<subseteq> unseen (fst ?w)"
      by (auto simp: visited_def)
    have i': "i \<notin> set post'" "seen' ! i" using vis' visiting by (auto simp: visiting_def)
    have "visit_inv files (seen', post' @ [i])"
      using inv' i' goal Suc.prems(2) by (auto simp: visit_inv_def)
    moreover have "visiting (seen', post' @ [i]) = visiting v"
      using vis' visiting v i' False by (auto simp: visiting_def)
    ultimately show ?thesis
      using v False r goal un' unseen by (auto simp: visited_def)
  qed
qed simp

lemma visit_all_visited:
  assumes "ranked files rank" "length files < n"
  shows "visit_inv files v \<Longrightarrow> visiting v = {} \<Longrightarrow> set is \<subseteq> {..<length files} \<Longrightarrow> visited files v (set is) (visit_all files n is v)"
proof (induction "is" arbitrary: v)
  case (Cons i "is")
  have "card (unseen (fst v)) \<le> length files"
    using Cons.prems(1) card_mono[of "{..<length files}" "unseen (fst v)"] by (auto simp: unseen_def visit_inv_def)
  then have "visited files v {i} (visit_dependencies files n i v)"
    using Cons.prems assms by (intro visit_dependencies_visited) auto
  then obtain v' where v': "visit_dependencies files n i v = Some v'" "visited files v {i} (Some v')" by (auto simp: visited_def)
  then have "visited files v' (set is) (visit_all files n is v')" using Cons by (auto simp: visited_def)
  then show ?case using visited_trans[OF v'(2)] v'(1) by simp
qed (simp add: visited_def)

text \<open>The order: the entry, then the files in reverse post order.\<close>

lemma later_filter: "later T is \<Longrightarrow> (\<And>i. i \<in> set is \<Longrightarrow> k \<notin> T i) \<Longrightarrow> later T (filter (\<lambda>i. i \<noteq> k) is)"
  by (induction "is") auto

lemma later_nth: "later T is \<Longrightarrow> p < length is \<Longrightarrow> j \<in> T (is ! p) \<Longrightarrow> \<exists>q. p < q \<and> q < length is \<and> is ! q = j"
proof (induction "is" arbitrary: p)
  case (Cons i "is")
  show ?case
  proof (cases p)
    case 0
    then have "j \<in> set is" using Cons.prems by auto
    then obtain q where "q < length is" "is ! q = j" by (auto simp: in_set_conv_nth)
    then show ?thesis using 0 by (intro exI[of _ "Suc q"]) simp
  next
    case (Suc p')
    then obtain q where "p' < q" "q < length is" "is ! q = j" using Cons by auto
    then show ?thesis using Suc by (intro exI[of _ "Suc q"]) simp
  qed
qed simp

lemma later_distinct: "later T is \<Longrightarrow> distinct is"
  by (induction "is") auto

lemma post_order:
  assumes "ranked files rank" "0 < length files" "\<And>i. i < length files \<Longrightarrow> 0 \<notin> targets files i"
  obtains seen post where "visit_all files (length files + 1) (0 # [0 ..< length files]) (replicate (length files) False, []) = Some (seen, post)"
    "later (targets files) (0 # filter (\<lambda>k. k \<noteq> 0) (rev post))" "set (0 # filter (\<lambda>k. k \<noteq> 0) (rev post)) = {..<length files}"
proof -
  let ?v = "(replicate (length files) False, [])"
  have "visit_inv files ?v" "visiting ?v = {}" by (auto simp: visit_inv_def visiting_def)
  then have "visited files ?v (set (0 # [0 ..< length files])) (visit_all files (length files + 1) (0 # [0 ..< length files]) ?v)"
    using assms by (intro visit_all_visited) auto
  then obtain seen post where r: "visit_all files (length files + 1) (0 # [0 ..< length files]) ?v = Some (seen, post)"
    and inv: "visit_inv files (seen, post)" and all: "{..<length files} \<subseteq> set post" by (fastforce simp: visited_def)
  have post: "set post = {..<length files}" using inv all by (auto simp: visit_inv_def)
  let ?r = "filter (\<lambda>k. k \<noteq> 0) (rev post)"
  have "later (targets files) ?r" using inv assms(3) post by (intro later_filter) (auto simp: visit_inv_def)
  moreover have "targets files 0 \<subseteq> set ?r"
    using assms post by (fastforce simp: ranked_def)
  ultimately have "later (targets files) (0 # ?r)" by simp
  moreover have "set (0 # ?r) = {..<length files}" using post assms(2) by auto
  ultimately show ?thesis by (rule that[OF r])
qed

section \<open>A loaded program\<close>

lemma index_of_Some: "index_of files name = Some j \<Longrightarrow> j < length files \<and> lm_name (files ! j) = name"
  by (induction files arbitrary: j) (auto split: if_splits)

lemma index_of_named: "name \<in> set (map lm_name files) \<Longrightarrow> \<exists>j. index_of files name = Some j"
  by (induction files) auto

definition finish_rank :: "string list \<Rightarrow> string \<Rightarrow> nat" where
  "finish_rank fin name = length (dropWhile (\<lambda>x. x \<noteq> name) fin)"

lemma finish_rank_le: "finish_rank fin name \<le> length fin"
  by (simp add: finish_rank_def length_dropWhile_le)

lemma finished_ranks:
  "finished files fin \<Longrightarrow> distinct fin \<Longrightarrow> f \<in> set files \<Longrightarrow> lm_name f \<in> set fin \<Longrightarrow>
    all_linked f \<and> (\<forall>l \<in> set (lm_links f). l \<in> set (tl fin) \<and> finish_rank fin l < finish_rank fin (lm_name f))"
proof (induction fin)
  case (Cons n fin)
  show ?case
  proof (cases "lm_name f = n")
    case True
    then have "set (lm_links f) \<subseteq> set fin" "all_linked f" using Cons.prems by (auto simp: links_in_def)
    moreover have "finish_rank (n # fin) l < finish_rank (n # fin) n" if "l \<in> set fin" for l
    proof -
      have "l \<noteq> n" using that Cons.prems(2) by auto
      then show ?thesis using finish_rank_le[of fin l] by (simp add: finish_rank_def)
    qed
    ultimately show ?thesis using True by auto
  next
    case False
    then have IH: "all_linked f" "\<forall>l \<in> set (lm_links f). l \<in> set (tl fin) \<and> finish_rank fin l < finish_rank fin (lm_name f)"
      using Cons by auto
    have skip: "finish_rank (n # fin) x = finish_rank fin x" if "n \<noteq> x" for x
      using that by (simp add: finish_rank_def)
    have in_fin: "l \<in> set fin \<and> n \<noteq> l" if "l \<in> set (tl fin)" for l using Cons.prems(2) that by (cases fin) auto
    have "l \<in> set (tl (n # fin)) \<and> finish_rank (n # fin) l < finish_rank (n # fin) (lm_name f)"
      if "l \<in> set (lm_links f)" for l
      using IH(2) that in_fin[of l] skip[of l] skip[of "lm_name f"] False by simp
    then show ?thesis using IH(1) by blast
  qed
qed simp

lemma loaded_ranked:
  assumes inv: "load_inv files [] fin"
  shows "ranked files (\<lambda>i. finish_rank fin (lm_name (files ! i)))"
  unfolding ranked_def
proof (intro allI impI ballI)
  fix i j assume i: "i < length files" and j: "j \<in> targets files i"
  then obtain l where l: "l \<in> set (lm_links (files ! i))" "index_of files l = Some j" by (auto simp: targets_def)
  have "lm_name (files ! i) \<in> set fin" using i load_invD(3)[OF inv] by auto
  then show "j < length files \<and> finish_rank fin (lm_name (files ! j)) < finish_rank fin (lm_name (files ! i))"
    using finished_ranks[OF load_invD(4)[OF inv] _ nth_mem[OF i]] load_invD(2)[OF inv] l index_of_Some[OF l(2)] by auto
qed

text \<open>Every import of a file is a file, and the entry is imported by none.\<close>

lemma loaded_imports:
  assumes inv: "load_inv files [] (name # fin)" and i: "i < length files"
    and d: "d \<in> set (n_body (lm_module (files ! i)))" "is_import d" "\<not> is_std_module (n_text d)"
  obtains j where "j \<in> targets files i" "j < length files" "lm_name (files ! j) = n_text d"
proof -
  have "lm_name (files ! i) \<in> set (name # fin)" using i load_invD(3)[OF inv] by auto
  then have f: "all_linked (files ! i)" "set (lm_links (files ! i)) \<subseteq> set fin"
    using finished_ranks[OF load_invD(4)[OF inv] _ nth_mem[OF i]] load_invD(2)[OF inv] by auto
  then have l: "n_text d \<in> set (lm_links (files ! i))" using d by (auto simp: all_linked_def)
  then have "n_text d \<in> set (map lm_name files)" using f(2) load_invD(3)[OF inv] by auto
  then obtain j where "index_of files (n_text d) = Some j" using index_of_named by blast
  then show ?thesis using that[of j] l index_of_Some by (auto simp: targets_def)
qed

lemma entry_not_target:
  assumes inv: "load_inv files [] (name # fin)" and e: "lm_name (files ! 0) = name" and i: "i < length files"
  shows "0 \<notin> targets files i"
proof
  assume "0 \<in> targets files i"
  then obtain l where l: "l \<in> set (lm_links (files ! i))" "index_of files l = Some 0" by (auto simp: targets_def)
  have "lm_name (files ! i) \<in> set (name # fin)" using i load_invD(3)[OF inv] by auto
  then have "l \<in> set fin"
    using finished_ranks[OF load_invD(4)[OF inv] _ nth_mem[OF i]] load_invD(2)[OF inv] l(1) by auto
  moreover have "l = name" using index_of_Some[OF l(2)] e by simp
  ultimately show False using load_invD(2)[OF inv] by simp
qed

definition in_order :: "loaded_module list \<Rightarrow> bool" where
  "in_order files \<longleftrightarrow> distinct (map lm_name files) \<and>
     (\<forall>i < length files. \<forall>d \<in> set (n_body (lm_module (files ! i))). is_import d \<and> \<not> is_std_module (n_text d) \<longrightarrow>
       (\<exists>j. i < j \<and> j < length files \<and> lm_name (files ! j) = n_text d))"

lemma order_in_order:
  assumes inv: "load_inv files [] (name # fin)" and e: "files \<noteq> []" "lm_name (files ! 0) = name"
    and order: "order_dependencies_first files = Some files'"
  shows "in_order files' \<and> files' \<noteq> [] \<and> files' ! 0 = files ! 0 \<and> mset files' = mset files"
proof (cases "length files < 3")
  case True
  then have same: "files' = files" using order by (simp add: order_dependencies_first_def)
  have "\<exists>j. i < j \<and> j < length files \<and> lm_name (files ! j) = n_text d"
    if i: "i < length files" "d \<in> set (n_body (lm_module (files ! i)))" "is_import d \<and> \<not> is_std_module (n_text d)" for i d
  proof -
    obtain j where j: "j \<in> targets files i" "j < length files" "lm_name (files ! j) = n_text d"
      using loaded_imports[OF inv i(1,2)] i(3) by blast
    have "j \<noteq> 0" using entry_not_target[OF inv e(2) i(1)] j(1) by (cases j) auto
    moreover have "j \<noteq> i" using loaded_ranked[OF inv] i(1) j(1) by (auto simp: ranked_def)
    ultimately have "i < j" using True i(1) j(2) by linarith
    then show ?thesis using j by blast
  qed
  then show ?thesis using load_invD(1)[OF inv] e same by (auto simp: in_order_def)
next
  case False
  obtain seen post where r: "visit_all files (length files + 1) (0 # [0 ..< length files]) (replicate (length files) False, []) = Some (seen, post)"
    and later: "later (targets files) (0 # filter (\<lambda>k. k \<noteq> 0) (rev post))"
    and all: "set (0 # filter (\<lambda>k. k \<noteq> 0) (rev post)) = {..<length files}"
    using post_order[OF loaded_ranked[OF inv] _ entry_not_target[OF inv e(2)]] e(1) by blast
  define ks where "ks = 0 # filter (\<lambda>k. k \<noteq> 0) (rev post)"
  have files': "files' = map (\<lambda>k. files ! k) ks" using False order r by (simp add: order_dependencies_first_def ks_def)
  note later = later[folded ks_def] and all = all[folded ks_def]
  have dist: "distinct ks" by (rule later_distinct[OF later])
  have perm: "mset ks = mset [0 ..< length files]"
    using set_eq_iff_mset_eq_distinct[OF dist distinct_upt, of 0 "length files"] all
    by (simp only: set_upt atLeast0LessThan simp_thms)
  have "map (\<lambda>k. files ! k) [0 ..< length files] = files" by (rule map_nth)
  moreover have "mset files' = mset (map (\<lambda>k. files ! k) [0 ..< length files])"
    unfolding files' mset_map perm ..
  ultimately have mset: "mset files' = mset files" by simp
  then have "mset (map lm_name files') = mset (map lm_name files)" by (simp only: mset_map)
  then have names: "distinct (map lm_name files')"
    using load_invD(1)[OF inv] mset_eq_imp_distinct_iff by blast
  have "\<exists>q. p < q \<and> q < length files' \<and> lm_name (files' ! q) = n_text d"
    if p: "p < length files'" "d \<in> set (n_body (lm_module (files' ! p)))" "is_import d \<and> \<not> is_std_module (n_text d)" for p d
  proof -
    have k: "ks ! p < length files" "files' ! p = files ! (ks ! p)" using p(1) all files' by (auto dest: nth_mem)
    then obtain j where j: "j \<in> targets files (ks ! p)" "lm_name (files ! j) = n_text d"
      using loaded_imports[OF inv k(1), of d] p(2,3) by auto
    then obtain q where "p < q" "q < length ks" "ks ! q = j" using later_nth[OF later, of p j] p(1) files' by auto
    then show ?thesis using j files' by auto
  qed
  then show ?thesis using names mset files' by (auto simp: in_order_def ks_def)
qed

lemma loaded_first:
  assumes "load_one fs (load_imports fs root n) [] entry name \<lparr>ld_files = [], ld_bag = bag\<rparr> = Some (True, st)"
  obtains fin where "load_inv (ld_files st) [] (name # fin)" "ld_files st \<noteq> []" "lm_name (ld_files st ! 0) = name"
proof -
  have "loads [] name \<lparr>ld_files = [], ld_bag = bag\<rparr> st" by (rule load_one_loads[OF load_imports_ok assms])
  moreover have "load_inv [] [] []" by (simp add: load_inv_def)
  ultimately obtain new where inv: "load_inv (ld_files st) [] (name # new)" and at: "lm_name (ld_files st ! 0) = name"
    by (auto simp: loads_def)
  have "ld_files st \<noteq> []" using load_invD(3)[OF inv] by auto
  then show ?thesis using that inv at by blast
qed

lemma loaded_program:
  assumes "load_program fs n path bag = Some (True, m, st)"
  obtains entry files name fin where "package_entry fs path = Some entry" "m = package_manifest fs path"
    "name = entry_name (mf_root m) entry" "load_inv files [] (name # fin)" "files \<noteq> []" "lm_name (files ! 0) = name"
    "order_dependencies_first files = Some (ld_files st)"
proof -
  let ?m = "package_manifest fs path"
  obtain entry st1 where e: "package_entry fs path = Some entry" "m = ?m"
    and one: "load_one fs (load_imports fs (mf_root ?m) n) [] entry (entry_name (mf_root ?m) entry) \<lparr>ld_files = [], ld_bag = bag\<rparr>
        = Some (True, st1)"
    and order: "order_dependencies_first (ld_files st1) = Some (ld_files st)"
    using assms by (auto simp: load_program_def Let_def split: option.splits if_splits)
  obtain fin where inv: "load_inv (ld_files st1) [] (entry_name (mf_root ?m) entry # fin)" "ld_files st1 \<noteq> []"
      "lm_name (ld_files st1 ! 0) = entry_name (mf_root ?m) entry"
    using loaded_first[OF one] by blast
  show ?thesis using that[OF e refl] inv order e(2) by simp
qed

text \<open>A package of one empty file.\<close>

definition empty_fs :: file_system where
  "empty_fs = \<lparr>fs_dir = (\<lambda>_. False), fs_file = (\<lambda>_. False), fs_read = (\<lambda>_. Some []), fs_std = (\<lambda>_. None), fs_platform = []\<rparr>"

definition end_of_file :: "span \<Rightarrow> token" where
  "end_of_file sp = \<lparr>tok_kind = EndOfFile, tok_span = sp, tok_text = [], tok_suffix = []\<rparr>"

lemma empty_lexed: "\<exists>sp. tokenize (fst (from_bytes path [] empty_bag)) empty_bag = Some ([end_of_file sp], empty_bag)"
  by (simp add: tokenize_def from_bytes_def scan_source.simps Let_def max_bytes_def run_loop.simps new_tokenizer_def finish_def
      at_end_def dedent_to.simps emit_def named_foreign_bom_def has_utf8_bom_def emit_at_def slice_def end_of_file_def)

lemma empty_parsed:
  "\<exists>m. parse_tokens s [end_of_file sp] empty_bag = Some (\<lparr>res_module = Some m, res_ok = True\<rparr>, empty_bag) \<and> n_body m = []"
  by (simp add: parse_tokens_def parse_module_def start_parser_def scan_layout_imports_def modify_def repeat_def module_item_def
      skip_docs_def branch_def reads_def cur_def tok_count_def at_tok_def at_any_def merge_extensions.simps State_Monad.bind_def
      State_Monad.return_def mk_def bag_empty_def empty_bag_def end_of_file_def)

text \<open>
  C6: when a program loads, its modules have distinct names, the entry is the first, and every module
  an import names (the built-in ones apart) is loaded and stands after each of its importers: walking
  the files from the back meets every module after all it imports, and no import cycle is loaded.
\<close>

theorem load_program_ordered:
  assumes "load_program fs n path bag = Some (True, m, st)"
  shows "in_order (ld_files st) \<and>
    (\<exists>entry. package_entry fs path = Some entry \<and> ld_files st \<noteq> [] \<and> lm_name (ld_files st ! 0) = entry_name (mf_root m) entry)"
proof -
  obtain entry files name fin where l: "package_entry fs path = Some entry" "name = entry_name (mf_root m) entry"
    "load_inv files [] (name # fin)" "files \<noteq> []" "lm_name (files ! 0) = name"
    "order_dependencies_first files = Some (ld_files st)"
    using loaded_program[OF assms] by metis
  show ?thesis using order_in_order[OF l(3-6)] l(1,2,5) by auto
qed

lemma load_empty_source:
  assumes "tokenize s empty_bag = Some ([end_of_file sp], empty_bag)" "src_ok s"
  shows "\<exists>st. load_source (load_imports fs root (Suc 0)) [] name s \<lparr>ld_files = [], ld_bag = empty_bag\<rparr> = Some (True, st) \<and>
    length (ld_files st) = 1"
proof -
  obtain m where "parse_tokens s [end_of_file sp] empty_bag = Some (\<lparr>res_module = Some m, res_ok = True\<rparr>, empty_bag)" "n_body m = []"
    using empty_parsed by blast
  then show ?thesis
    using assms by (cases m)
      (simp add: load_source_def Let_def luce_std_as_standard_def name_module_def bag_empty_def empty_bag_def set_left_def set_text_def
        set_body_def)
qed

lemma load_empty: "\<exists>m st. load_program empty_fs 1 ''main.lucb'' empty_bag = Some (True, m, st)"
proof -
  have "\<exists>s. from_bytes ''main.lucb'' [] empty_bag = (s, empty_bag) \<and> src_ok s"
    by (simp add: from_bytes_def scan_source.simps Let_def max_bytes_def named_foreign_bom_def has_utf8_bom_def slice_def)
  then obtain s where bytes: "from_bytes ''main.lucb'' [] empty_bag = (s, empty_bag)" "src_ok s" by blast
  obtain sp where lexed: "tokenize s empty_bag = Some ([end_of_file sp], empty_bag)"
    using empty_lexed[of "''main.lucb''"] bytes(1) by auto
  have fs: "\<not> fs_dir empty_fs p" "fs_read empty_fs p = Some []" for p by (simp_all add: empty_fs_def)
  have name: "file_names_a_module ''main.lucb''" by code_simp
  let ?name = "entry_name (mf_root (package_manifest empty_fs ''main.lucb'')) ''main.lucb''"
    and ?imports = "load_imports empty_fs (mf_root (package_manifest empty_fs ''main.lucb'')) 1"
  obtain st where st: "load_source ?imports [] ?name s \<lparr>ld_files = [], ld_bag = empty_bag\<rparr> = Some (True, st)" "length (ld_files st) = 1"
    using load_empty_source[OF lexed bytes(2)] unfolding One_nat_def by blast
  have "load_one empty_fs ?imports [] ''main.lucb'' ?name \<lparr>ld_files = [], ld_bag = empty_bag\<rparr> = Some (True, st)"
    using name bytes(1) st(1) by (simp add: load_one_def find_loaded_def load_bytes_def fs)
  moreover have "package_entry empty_fs ''main.lucb'' = Some ''main.lucb''" by (simp add: package_entry_def fs)
  ultimately show ?thesis
    using st(2) by (simp add: load_program_def Let_def order_dependencies_first_def)
qed

lemma load_program_ordered_witness:
  "\<exists>m st. load_program empty_fs 1 ''main.lucb'' empty_bag = Some (True, m, st) \<and> in_order (ld_files st)"
  using load_empty load_program_ordered by blast

end
