(* ===== verification/LoadReturns.thy ===== *)
theory LoadReturns
  imports OrderLaws ParseReturns
begin

section \<open>Loading returns\<close>

text \<open>
  The nesting of the imports is a chain of distinct modules that can be found, so a fuel of more
  than their number is never used up; and the tokenizer, the parser and the walk that orders the
  modules always return.
\<close>

definition loadable :: "source \<Rightarrow> bool" where
  "loadable s \<longleftrightarrow> (\<forall>bag. \<exists>toks bag'. tokenize s bag = Some (toks, bag') \<and> toks \<noteq> [] \<and> tok_kind (last toks) = EndOfFile)"

lemma loadable_from_bytes: "loadable (fst (from_bytes path bs bag0))"
  unfolding loadable_def
proof
  fix bag
  obtain toks bag' where "tokenize (fst (from_bytes path bs bag0)) bag = Some (toks, bag')" "stream_ok (bag_count bag) bs toks bag'"
    by (rule tokenize_cases)
  then show "\<exists>toks bag'. tokenize (fst (from_bytes path bs bag0)) bag = Some (toks, bag') \<and> toks \<noteq> [] \<and> tok_kind (last toks) = EndOfFile"
    by (auto simp: stream_ok_def)
qed

lemma tokenize_segments: "tokenize (s\<lparr>src_segments := segs\<rparr>) bag = tokenize s bag"
  by (simp add: tokenize_def new_tokenizer_def)

lemma loadable_assembled: "loadable (fst (source_assembled path paths texts bag))" if "length paths = length texts"
  using loadable_from_bytes[of path "concat (map fragment_text texts)" bag]
  by (simp add: source_assembled_fields(1)[OF that] loadable_def tokenize_segments)

definition returning :: "(nat \<Rightarrow> string list \<Rightarrow> load_step) \<Rightarrow> string list \<Rightarrow> bool" where
  "returning imports stack \<longleftrightarrow> (\<forall>idx st. imports idx stack st \<noteq> None)"

lemma load_source_returns:
  assumes "loadable s" "returning imports (stack @ [name])"
  shows "load_source imports stack name s st \<noteq> None"
proof -
  obtain toks bag where t: "tokenize s (ld_bag st) = Some (toks, bag)" "toks \<noteq> []" "tok_kind (last toks) = EndOfFile"
    using assms(1) unfolding loadable_def by blast
  have "\<exists>m bag'. parse_tokens s toks bag = Some (\<lparr>res_module = Some m, res_ok = bag_empty bag'\<rparr>, bag')"
    by (rule parse_tokens_cases[OF t(2,3), of s bag]) blast
  then obtain m bag' where p: "parse_tokens s toks bag = Some (\<lparr>res_module = Some m, res_ok = bag_empty bag'\<rparr>, bag')"
    by blast
  show ?thesis
    using assms(2)
    by (simp add: returning_def load_source_def Let_def t(1) p del: not_None_eq split: option.split prod.split)
qed

lemma load_bytes_returns:
  assumes "returning imports (stack @ [name])"
  shows "load_bytes imports stack path name bs st \<noteq> None"
proof -
  obtain s bag where s: "from_bytes path bs (ld_bag st) = (s, bag)" by fastforce
  have "loadable s" using loadable_from_bytes[of path bs "ld_bag st"] s by simp
  then show ?thesis unfolding load_bytes_def Let_def s prod.case by (rule load_source_returns[OF _ assms])
qed

lemma load_fragments_returns:
  assumes "returning imports (stack @ [name])"
  shows "load_fragments fs imports stack directory name st \<noteq> None"
proof -
  have "load_source imports stack name (fst (source_assembled directory (map fst parts) (map snd parts) bag)) st' \<noteq> None"
    for parts bag st' by (intro load_source_returns loadable_assembled assms) simp
  then have src: "load_source imports stack name s st' \<noteq> None"
    if "source_assembled directory (map fst parts) (map snd parts) bag0 = (s, bag)" for parts bag0 s bag st'
    using that by (metis fst_conv)
  show ?thesis
  proof (cases "fs_read fs (join_path directory ''ORDER'')")
    case None
    then show ?thesis by (simp add: load_fragments_def)
  next
    case (Some order)
    show ?thesis
    proof (cases "read_fragments fs directory (blank_words order [])")
      case (Inl e)
      then show ?thesis using Some by (simp add: load_fragments_def)
    next
      case (Inr parts)
      obtain s bag where s: "source_assembled directory (map fst parts) (map snd parts) (ld_bag st) = (s, bag)" by fastforce
      show ?thesis using Some Inr s src[OF s] by (simp add: load_fragments_def Let_def del: not_None_eq)
    qed
  qed
qed

lemma load_one_returns:
  assumes "returning imports (stack @ [name])"
  shows "load_one fs imports stack path name st \<noteq> None"
  using load_fragments_returns[OF assms] load_bytes_returns[OF assms]
  by (simp add: load_one_def del: not_None_eq split: option.split)

text \<open>The modules that an import can name.\<close>

definition findable :: "file_system \<Rightarrow> string \<Rightarrow> string \<Rightarrow> bool" where
  "findable fs root name \<longleftrightarrow> resolve_file fs root name \<noteq> None \<or> embedded_source fs name \<noteq> None"

lemma load_missing_returns:
  assumes "findable fs root dep \<Longrightarrow> returning imports (stack @ [dep])"
  shows "load_missing fs root imports stack here sp dep st \<noteq> None"
proof (cases "findable fs root dep")
  case True
  then have imp: "returning imports (stack @ [dep])" using assms by blast
  show ?thesis
    using load_one_returns[OF imp] load_bytes_returns[OF imp]
    by (simp add: load_missing_def del: not_None_eq split: option.split)
next
  case False
  then show ?thesis by (simp add: findable_def load_missing_def)
qed

lemma import_each_returns:
  assumes "\<And>dep. findable fs root dep \<Longrightarrow> dep \<notin> set stack \<Longrightarrow> returning imports (stack @ [dep])"
  shows "import_each fs root imports idx stack ds st \<noteq> None"
proof (induction ds arbitrary: st)
  case (Cons d ds)
  have "load_missing fs root imports stack here sp (n_text d) st \<noteq> None" if "n_text d \<notin> set stack" for here sp st
    using assms that by (intro load_missing_returns) blast
  then show ?case
    using Cons.IH by (simp del: not_None_eq split: option.split prod.split) blast
qed simp

lemma load_imports_returns:
  assumes M: "finite M" "\<And>name. findable fs root name \<Longrightarrow> name \<in> M"
  shows "card (M - set stack) < n \<Longrightarrow> returning (load_imports fs root n) stack"
proof (induction n arbitrary: stack)
  case (Suc n)
  have "returning (load_imports fs root n) (stack @ [dep])"
    if dep: "findable fs root dep" "dep \<notin> set stack" for dep
  proof (rule Suc.IH)
    have "dep \<in> M - set stack" using dep M(2) by blast
    moreover have "M - set (stack @ [dep]) = (M - set stack) - {dep}" by auto
    ultimately have "card (M - set (stack @ [dep])) < card (M - set stack)"
      using M(1) by (simp only: card_Diff1_less finite_Diff)
    then show "card (M - set (stack @ [dep])) < n" using Suc.prems by linarith
  qed
  note each = import_each_returns[of fs root stack "load_imports fs root n", OF this]
  show ?case unfolding returning_def load_imports.simps Let_def using each by blast
qed simp

lemma order_returns:
  assumes inv: "load_inv files [] (name # fin)" and e: "files \<noteq> []" "lm_name (files ! 0) = name"
  shows "order_dependencies_first files \<noteq> None"
proof -
  obtain seen post where "visit_all files (length files + 1) (0 # [0 ..< length files]) (replicate (length files) False, []) = Some (seen, post)"
    using post_order[OF loaded_ranked[OF inv] _ entry_not_target[OF inv e(2)]] e(1) by blast
  then show ?thesis by (simp add: order_dependencies_first_def)
qed

text \<open>
  C35: loading a package returns: where finitely many modules can be found and the fuel for the nesting
  of imports is more than their number, the load has a result, whatever the files hold, cyclic
  imports included.
\<close>

theorem load_program_returns:
  assumes "finite M" "{name. findable fs (mf_root (package_manifest fs path)) name} \<subseteq> M" "card M < n"
  shows "\<exists>ok m st. load_program fs n path bag = Some (ok, m, st)"
proof (cases "package_entry fs path")
  case None
  then show ?thesis by (simp add: load_program_def Let_def) blast
next
  case (Some entry)
  let ?m = "package_manifest fs path" and ?st = "\<lparr>ld_files = [], ld_bag = bag\<rparr>"
  let ?name = "entry_name (mf_root ?m) entry"
  have "card (M - set ([] @ [?name])) < n" using card_mono[OF assms(1), of "M - set ([] @ [?name])"] assms(3) by auto
  then have "returning (load_imports fs (mf_root ?m) n) ([] @ [?name])"
    using load_imports_returns[OF assms(1)] assms(2) by blast
  then have "load_one fs (load_imports fs (mf_root ?m) n) [] entry ?name ?st \<noteq> None" by (rule load_one_returns)
  then obtain ok st1 where one: "load_one fs (load_imports fs (mf_root ?m) n) [] entry ?name ?st = Some (ok, st1)" by auto
  show ?thesis
  proof (cases ok)
    case False
    then show ?thesis using Some one by (simp add: load_program_def Let_def) blast
  next
    case True
    then have "load_one fs (load_imports fs (mf_root ?m) n) [] entry ?name ?st = Some (True, st1)" using one by simp
    then obtain fin where "load_inv (ld_files st1) [] (?name # fin)" "ld_files st1 \<noteq> []" "lm_name (ld_files st1 ! 0) = ?name"
      by (rule loaded_first)
    then have "order_dependencies_first (ld_files st1) \<noteq> None" by (rule order_returns)
    then show ?thesis using Some one True by (auto simp: load_program_def Let_def)
  qed
qed

lemma load_program_returns_witness:
  "\<exists>ok m st. load_program empty_fs 2 ''main.lucb'' empty_bag = Some (ok, m, st)"
  by (rule load_program_returns[of "{''platform''}"])
    (auto simp: findable_def resolve_file_def resolve_under_def embedded_source_def empty_fs_def Let_def)

end
