(* ===== verification/RtText.thy ===== *)
theory RtText
  imports Utf8 "HOL-Library.List_Lexorder" "HOL-Library.Word"
begin

section \<open>The runtime's text\<close>

text \<open>
  The text functions of \<open>runtime/lucb_rt.c\<close>: the validator of \<open>str(bytes)\<close>, the scalar and its width
  at an offset, which the emitted loop over a text calls, the spelling of a scalar, and the comparison
  of two texts; and the loop
  \<open>for character in text\<close> as the interpreter and as the emitted C run it. Lengths and offsets are
  those of objects in memory, so their sums do not wrap.
\<close>

subsection \<open>Scalars\<close>

text \<open>The body of \<open>lb_utf8_ok\<close> is that of the interpreter's \<open>utf8_ok\<close>, statement by statement.\<close>

definition lb_utf8_ok :: "bytes option \<Rightarrow> nat \<Rightarrow> bool" where
  "lb_utf8_ok s n = (case s of None \<Rightarrow> n = 0 | Some text \<Rightarrow> utf8_ok_from text n 0)"

definition lb_check_utf8 :: "bytes option \<Rightarrow> nat \<Rightarrow> string + unit" where
  "lb_check_utf8 s n = (if \<not> lb_utf8_ok s n then Inl ''invalid_utf8'' else Inr ())"

text \<open>The continuation bytes, of which only the low six bits are read.\<close>

function scalar_continue :: "bytes \<Rightarrow> nat \<Rightarrow> nat \<Rightarrow> nat \<Rightarrow> nat \<Rightarrow> nat" where
  "scalar_continue s i k w cp =
     (if k < w then scalar_continue s i (Suc k) w (push_bit 6 cp OR (byte_value (s ! (i + k)) AND 0x3F)) else cp)"
  by pat_completeness auto
termination by (relation "measure (\<lambda>(s, i, k, w, cp). w - k)") auto

declare scalar_continue.simps [simp del]

text \<open>The scalar at byte \<open>i\<close> of a text of \<open>n\<close> bytes, and its width.\<close>

definition lb_utf8_scalar :: "bytes \<Rightarrow> nat \<Rightarrow> nat \<Rightarrow> nat \<times> nat" where
  "lb_utf8_scalar s n i =
     (let c = byte_value (s ! i);
          (w, cp) = (if 0xF0 \<le> c then (4, c AND 0x07)
                     else if 0xE0 \<le> c then (3, c AND 0x0F)
                     else if 0xC0 \<le> c then (2, c AND 0x1F)
                     else (1, c));
          w = (if n < i + w then n - i else w)
      in (scalar_continue s i 1 w cp, w))"

definition lb_utf8_encode :: "nat \<Rightarrow> bytes" where
  "lb_utf8_encode cp =
     (if cp < 0x80 then [char_of cp]
      else if cp < 0x800 then [char_of (0xC0 OR drop_bit 6 cp), char_of (0x80 OR (cp AND 0x3F))]
      else if cp < 0x10000 then
        [char_of (0xE0 OR drop_bit 12 cp), char_of (0x80 OR (drop_bit 6 cp AND 0x3F)), char_of (0x80 OR (cp AND 0x3F))]
      else
        [char_of (0xF0 OR drop_bit 18 cp), char_of (0x80 OR (drop_bit 12 cp AND 0x3F)),
         char_of (0x80 OR (drop_bit 6 cp AND 0x3F)), char_of (0x80 OR (cp AND 0x3F))])"

text \<open>The interpreter's spelling of a \<open>char\<close>, with the same branches.\<close>

definition utf8_of :: "nat \<Rightarrow> bytes" where
  "utf8_of cp =
     (if cp < 0x80 then [char_of cp]
      else if cp < 0x800 then [char_of (0xC0 OR drop_bit 6 cp), char_of (0x80 OR (cp AND 0x3F))]
      else if cp < 0x10000 then
        [char_of (0xE0 OR drop_bit 12 cp), char_of (0x80 OR (drop_bit 6 cp AND 0x3F)), char_of (0x80 OR (cp AND 0x3F))]
      else
        [char_of (0xF0 OR drop_bit 18 cp), char_of (0x80 OR (drop_bit 12 cp AND 0x3F)),
         char_of (0x80 OR (drop_bit 6 cp AND 0x3F)), char_of (0x80 OR (cp AND 0x3F))])"

lemma encoders: "lb_utf8_encode cp = utf8_encode cp" "utf8_of cp = utf8_encode cp"
  by (simp_all add: lb_utf8_encode_def utf8_of_def append_utf8_def)

subsection \<open>The loop over a text\<close>

text \<open>
  The scalars \<open>for character in text\<close> binds, in order: the emitted loop steps by the width
  \<open>lb_utf8_scalar\<close> gives, on fuel, since a width of zero would not step; the interpreter's steps by
  the width \<open>utf8_next\<close> gives, or by one where it gives zero, and its scalar is then zero.
\<close>

fun walk_emitted :: "nat \<Rightarrow> bytes \<Rightarrow> nat \<Rightarrow> nat list option" where
  "walk_emitted 0 s i = None"
| "walk_emitted (Suc fuel) s i =
     (if i < length s then
        (let (cp, w) = lb_utf8_scalar s (length s) i
         in map_option (\<lambda>cps. cp # cps) (walk_emitted fuel s (i + w)))
      else Some [])"

function walk_interpreted :: "bytes \<Rightarrow> nat \<Rightarrow> nat list" where
  "walk_interpreted s i =
     (if i < length s then
        (let (w, cp) = (case utf8_next s i of None \<Rightarrow> (0, 0) | Some r \<Rightarrow> r)
         in cp # walk_interpreted s (i + (if 0 < w then w else 1)))
      else [])"
  by pat_completeness auto
termination by (relation "measure (\<lambda>(s, i). length s - i)") auto

declare walk_interpreted.simps [simp del]

lemma scalar_continue_step:
  "k < w \<Longrightarrow> scalar_continue s i k w cp = scalar_continue s i (Suc k) w (cp * 64 + byte_value (s ! (i + k)) mod 64)"
  by (subst scalar_continue.simps) (simp add: low_masks or_bits)

lemma scalar_continue_stop [simp]: "\<not> k < w \<Longrightarrow> scalar_continue s i k w cp = cp"
  by (subst scalar_continue.simps) simp

lemma lb_utf8_scalar_next:
  assumes "utf8_next s i = Some (w, cp)"
  shows "lb_utf8_scalar s (length s) i = (cp, w)"
  using assms
proof (cases rule: utf8_next_cases)
  case one
  then show ?thesis by (simp add: lb_utf8_scalar_def)
next
  case (two a b)
  then show ?thesis by (simp add: lb_utf8_scalar_def low_masks scalar_continue_step utf8_bytes)
next
  case (three a b c)
  then show ?thesis by (simp add: lb_utf8_scalar_def low_masks scalar_continue_step utf8_bytes)
next
  case (four a b c d)
  then show ?thesis by (simp add: lb_utf8_scalar_def low_masks scalar_continue_step utf8_bytes numeral_3_eq_3)
qed

text \<open>On a valid text both loops bind its scalars, one after the other.\<close>

lemma walk_emitted_scalars:
  "list_all scalar_value cps \<Longrightarrow> drop i s = concat (map utf8_encode cps) \<Longrightarrow> i \<le> length s \<Longrightarrow>
    length cps < fuel \<Longrightarrow> walk_emitted fuel s i = Some cps \<and> walk_interpreted s i = cps"
proof (induction cps arbitrary: i fuel)
  case Nil
  then show ?case by (cases fuel) (simp_all add: walk_interpreted.simps)
next
  case (Cons cp cps)
  then have v: "scalar_value cp" and d: "drop i s = utf8_encode cp @ concat (map utf8_encode cps)" by auto
  have len: "1 \<le> length (utf8_encode cp)" using length_utf8_encode[OF v] by simp
  have i: "i < length s" using d len by (metis append_is_Nil_conv drop_all le_zero_eq list.size(3) not_less not_one_le_zero)
  have next_cp: "utf8_next s i = Some (length (utf8_encode cp), cp)"
    using codec.dec_drop[of i s] codec.dec_enc[OF v, of "[]"] d Cons.prems(3) by simp
  have "drop (i + length (utf8_encode cp)) s = concat (map utf8_encode cps)"
    using d by (metis add.commute append_eq_conv_conj drop_drop)
  moreover have "i + length (utf8_encode cp) \<le> length s" using arg_cong[OF d, of length] i by simp
  moreover obtain fuel' where fuel: "fuel = Suc fuel'" "length cps < fuel'" using Cons.prems(4) by (cases fuel) auto
  ultimately have IH: "walk_emitted fuel' s (i + length (utf8_encode cp)) = Some cps"
      "walk_interpreted s (i + length (utf8_encode cp)) = cps"
    using Cons.IH Cons.prems(1) by auto
  have "walk_interpreted s i = cp # cps"
    using i next_cp IH(2) len by (subst walk_interpreted.simps) (auto simp: Suc_le_eq)
  then show ?case using i lb_utf8_scalar_next[OF next_cp] IH(1) fuel(1) by simp
qed

lemma encoded_length: "list_all scalar_value cps \<Longrightarrow> length cps \<le> length (concat (map utf8_encode cps))"
  using length_utf8_encode by (induction cps) fastforce+

lemma walk_texts:
  assumes "lb_utf8_ok (Some s) (length s)"
  obtains cps where "walk_emitted (length s + 1) s 0 = Some cps" "walk_interpreted s 0 = cps"
    "list_all scalar_value cps" "s = concat (map utf8_encode cps)"
proof -
  have "utf8_text s" using assms utf8_ok_iff[of s] by (simp add: lb_utf8_ok_def utf8_ok_def)
  then obtain cps where cps: "list_all scalar_value cps" "s = concat (map utf8_encode cps)" by (auto simp: utf8_text_def)
  have "length cps < length s + 1" using encoded_length[OF cps(1)] cps(2) by simp
  then have "walk_emitted (length s + 1) s 0 = Some cps" "walk_interpreted s 0 = cps"
    using walk_emitted_scalars[OF cps(1), of 0 s "length s + 1"] cps(2) by simp_all
  then show ?thesis using that cps by blast
qed

text \<open>
  C40: the loop over a text that \<open>str(bytes)\<close> accepts ends, in the emitted C as in the interpreter, and
  both bind the same characters in the same order; they are scalar values, and displaying each in
  turn, by the runtime or by the interpreter, gives the text back.
\<close>

theorem text_walk_agrees:
  assumes "lb_utf8_ok (Some s) (length s)"
  shows "walk_emitted (length s + 1) s 0 = Some (walk_interpreted s 0) \<and> list_all scalar_value (walk_interpreted s 0) \<and>
    concat (map lb_utf8_encode (walk_interpreted s 0)) = s \<and> concat (map utf8_of (walk_interpreted s 0)) = s"
proof -
  have same: "map lb_utf8_encode cps = map utf8_encode cps" "map utf8_of cps = map utf8_encode cps" for cps
    using encoders by simp_all
  show ?thesis by (rule walk_texts[OF assms]) (simp only: same simp_thms)
qed

lemma text_walk_agrees_witness:
  "concat (map lb_utf8_encode (walk_interpreted (utf8_encode 233) 0)) = utf8_encode 233"
proof -
  have "lb_utf8_ok (Some (utf8_encode 233)) (length (utf8_encode 233))"
    using utf8_ok_iff[of "utf8_encode 233"]
    by (auto simp: lb_utf8_ok_def utf8_ok_def utf8_text_def scalar_value_def intro: exI[of _ "[233]"])
  then show ?thesis using text_walk_agrees by blast
qed

text \<open>A text that is not valid: the emitted loop and the interpreter part ways.\<close>

lemma invalid_walk: "walk_emitted 3 [char_of (0xFF::nat), CHR ''a''] 0 = Some [0x1E1]"
    "walk_interpreted [char_of (0xFF::nat), CHR ''a''] 0 = [0, 97]"
  by code_simp+

subsection \<open>Comparison\<close>

text \<open>\<open>memcmp\<close> compares bytes as unsigned; only the sign of its result is specified, and only that is read.\<close>

fun memcmp :: "bytes \<Rightarrow> bytes \<Rightarrow> nat \<Rightarrow> int" where
  "memcmp (x # xs) (y # ys) (Suc n) =
     (if byte_value x < byte_value y then - 1 else if byte_value y < byte_value x then 1 else memcmp xs ys n)"
| "memcmp _ _ _ = 0"

definition lb_str_compare :: "bytes \<Rightarrow> bytes \<Rightarrow> int" where
  "lb_str_compare a b =
     (let n = (if length a < length b then length a else length b);
          c = (if n = 0 then 0 else memcmp a b n)
      in if c \<noteq> 0 then (if c < 0 then - 1 else 1)
         else if length a < length b then - 1
         else if length b < length a then 1 else 0)"

text \<open>The order the entries of a directory are listed in.\<close>

definition lb_name_cmp :: "bytes \<Rightarrow> bytes \<Rightarrow> int" where
  "lb_name_cmp x y =
     (let n = (if length x < length y then length x else length y); c = memcmp x y n
      in if c \<noteq> 0 then c
         else if length x < length y then - 1
         else if length y < length x then 1 else 0)"

lemma memcmp_0 [simp]: "memcmp a b 0 = 0"
  by (cases a; cases b) simp_all

lemma memcmp_sign: "memcmp a b n \<in> {- 1, 0, 1}"
  by (induction a b n rule: memcmp.induct) auto

text \<open>The comparison is the lexicographic order of the bytes, a prefix first.\<close>

definition three_way :: "nat list \<Rightarrow> nat list \<Rightarrow> int" where
  "three_way xs ys = (if xs < ys then - 1 else if ys < xs then 1 else 0)"

lemma three_way_simps [simp]:
  "three_way [] [] = 0" "three_way [] (y # ys) = - 1" "three_way (x # xs) [] = 1"
  "three_way (x # xs) (y # ys) = (if x < y then - 1 else if y < x then 1 else three_way xs ys)"
  by (auto simp: three_way_def)

definition decided :: "int \<Rightarrow> nat \<Rightarrow> nat \<Rightarrow> int" where
  "decided c m n = (if c \<noteq> 0 then c else if m < n then - 1 else if n < m then 1 else 0)"

lemma decided_simps [simp]:
  "decided 0 0 0 = 0" "decided 0 0 (Suc n) = - 1" "decided 0 (Suc m) 0 = 1" "decided c (Suc m) (Suc n) = decided c m n"
  "decided (- 1) m n = - 1" "decided 1 m n = 1"
  by (simp_all add: decided_def)

lemma memcmp_three_way:
  "decided (memcmp a b (min (length a) (length b))) (length a) (length b) = three_way (map byte_value a) (map byte_value b)"
proof (induction a arbitrary: b)
  case Nil
  then show ?case by (cases b) simp_all
next
  case (Cons x a)
  then show ?case by (cases b) simp_all
qed

lemma lb_name_cmp_order: "lb_name_cmp a b = three_way (map byte_value a) (map byte_value b)"
proof -
  have "(if length a < length b then length a else length b) = min (length a) (length b)" by simp
  then show ?thesis using memcmp_three_way[of a b] by (simp only: lb_name_cmp_def Let_def decided_def)
qed

lemma lb_str_compare_order: "lb_str_compare a b = three_way (map byte_value a) (map byte_value b)"
proof -
  have "lb_str_compare a b = lb_name_cmp a b"
    using memcmp_sign[of a b "if length a < length b then length a else length b"]
    by (auto simp: lb_str_compare_def lb_name_cmp_def Let_def)
  then show ?thesis by (simp add: lb_name_cmp_order)
qed

end
