(* ===== verification/RtFormat.thy ===== *)
theory RtFormat
  imports RtText
begin

section \<open>Formatted text\<close>

text \<open>
  The fixed buffer of \<open>runtime/lucb_rt.c\<close> a formatted string is written to, the code the emitter
  writes around it (\<open>emit_format_call\<close>, \<open>emit_display_buf\<close> of \<open>emit/text.cpp\<close> and the formatted string
  of \<open>emit_expr\<close>), and the interpreter's \<open>eval_formatted\<close>, \<open>eval_format\<close> and \<open>show\<close>. A formatted
  string is a list of pieces: its texts, and the values of its fields by the branch their type takes.
  Floats, pointers and fields that write themselves through a sink are not pieces of this model.
\<close>

subsection \<open>The buffer\<close>

text \<open>The buffer's memory is its \<open>cap\<close> bytes; a null buffer, and a null text, are \<open>None\<close>.\<close>

record lb_fmtbuf =
  fb_data :: bytes
  fb_cap :: nat
  fb_used :: nat

definition write_at :: "bytes \<Rightarrow> nat \<Rightarrow> bytes \<Rightarrow> bytes" where
  "write_at data i s = take i data @ s @ drop (i + length s) data"

text \<open>The result is true where the C returns 1: the text does not fit.\<close>

definition lb_fmtbuf_put :: "lb_fmtbuf option \<Rightarrow> bytes option \<Rightarrow> nat \<Rightarrow> bool \<times> lb_fmtbuf option" where
  "lb_fmtbuf_put buf s n =
     (case buf of None \<Rightarrow> (True, None)
      | Some b \<Rightarrow>
          if fb_cap b < n \<or> fb_cap b - n < fb_used b then (True, Some b)
          else
            let data = (case s of None \<Rightarrow> fb_data b
                        | Some s \<Rightarrow> if 0 < n then write_at (fb_data b) (fb_used b) (take n s) else fb_data b)
            in (False, Some (b\<lparr>fb_data := data, fb_used := fb_used b + n\<rparr>)))"

text \<open>\<open>snprintf\<close> of a signed and of an unsigned 64-bit value in decimal: at most 20 characters.\<close>

definition print_i64 :: "64 word \<Rightarrow> bytes" where
  "print_i64 v = to_string_int (sint v)"

definition print_u64 :: "64 word \<Rightarrow> bytes" where
  "print_u64 v = to_string_nat (unat v)"

definition lb_fmtbuf_i64 :: "lb_fmtbuf option \<Rightarrow> 64 word \<Rightarrow> bool \<times> lb_fmtbuf option" where
  "lb_fmtbuf_i64 b v = lb_fmtbuf_put b (Some (print_i64 v)) (length (print_i64 v))"

definition lb_fmtbuf_u64 :: "lb_fmtbuf option \<Rightarrow> 64 word \<Rightarrow> bool \<times> lb_fmtbuf option" where
  "lb_fmtbuf_u64 b v = lb_fmtbuf_put b (Some (print_u64 v)) (length (print_u64 v))"

definition lb_fmtbuf_bool :: "lb_fmtbuf option \<Rightarrow> bool \<Rightarrow> bool \<times> lb_fmtbuf option" where
  "lb_fmtbuf_bool b v = lb_fmtbuf_put b (Some (if v then ''true'' else ''false'')) (if v then 4 else 5)"

definition lb_fmtbuf_char :: "lb_fmtbuf option \<Rightarrow> nat \<Rightarrow> bool \<times> lb_fmtbuf option" where
  "lb_fmtbuf_char b cp = lb_fmtbuf_put b (Some (lb_utf8_encode cp)) (length (lb_utf8_encode cp))"

text \<open>The text written, after which a zero byte is put where there is room for one.\<close>

definition lb_fmtbuf_finish :: "lb_fmtbuf option \<Rightarrow> bytes \<times> lb_fmtbuf option" where
  "lb_fmtbuf_finish buf =
     (case buf of None \<Rightarrow> ([], None)
      | Some b \<Rightarrow>
          let data = (if fb_used b < fb_cap b then (fb_data b)[fb_used b := char_of (0::nat)] else fb_data b)
          in (take (fb_used b) data, Some (b\<lparr>fb_data := data\<rparr>)))"

subsection \<open>Pieces\<close>

datatype piece =
  FormatText bytes
| BoolField bool
| CharField nat
| TextField bytes
| UnsignedField "64 word"
| SignedField "64 word"

text \<open>The call the emitter writes for a piece.\<close>

fun emit_display_buf :: "piece \<Rightarrow> lb_fmtbuf option \<Rightarrow> bool \<times> lb_fmtbuf option" where
  "emit_display_buf (FormatText s) b = lb_fmtbuf_put b (Some s) (length s)"
| "emit_display_buf (BoolField v) b = lb_fmtbuf_bool b v"
| "emit_display_buf (CharField cp) b = lb_fmtbuf_char b cp"
| "emit_display_buf (TextField s) b = lb_fmtbuf_put b (Some s) (length s)"
| "emit_display_buf (UnsignedField v) b = lb_fmtbuf_u64 b v"
| "emit_display_buf (SignedField v) b = lb_fmtbuf_i64 b v"

text \<open>What the interpreter appends for it.\<close>

fun show_value :: "piece \<Rightarrow> bytes" where
  "show_value (FormatText s) = s"
| "show_value (BoolField v) = (if v then ''true'' else ''false'')"
| "show_value (CharField cp) = utf8_of cp"
| "show_value (TextField s) = s"
| "show_value (UnsignedField v) = print_u64 v"
| "show_value (SignedField v) = print_i64 v"

subsection \<open>\<open>format\<close> into a buffer\<close>

text \<open>\<open>rn = rn || put(..)\<close>: no piece is written after one that failed.\<close>

fun put_until_failure :: "piece list \<Rightarrow> lb_fmtbuf option \<Rightarrow> bool \<times> lb_fmtbuf option" where
  "put_until_failure [] b = (False, b)"
| "put_until_failure (p # ps) b =
     (let (failed, b) = emit_display_buf p b in if failed then (True, b) else put_until_failure ps b)"

text \<open>The text, or \<open>Inl\<close> the error's message.\<close>

definition emit_format_call :: "bytes \<Rightarrow> piece list \<Rightarrow> string + bytes" where
  "emit_format_call data pieces =
     (let (failed, b) = put_until_failure pieces (Some \<lparr>fb_data = data, fb_cap = length data, fb_used = 0\<rparr>)
      in if failed then Inl ''memory.exhausted'' else Inr (fst (lb_fmtbuf_finish b)))"

definition eval_formatted :: "piece list \<Rightarrow> bytes" where
  "eval_formatted pieces = concat (map show_value pieces)"

definition eval_format :: "nat \<Rightarrow> piece list \<Rightarrow> string + bytes" where
  "eval_format cap pieces =
     (let text = eval_formatted pieces in if cap < length text then Inl ''memory.exhausted'' else Inr text)"

subsection \<open>A formatted string\<close>

text \<open>
  The formatted string of \<open>emit_expr\<close> is written to 1024 bytes, and the results of the calls are not
  read.
\<close>

fun put_all :: "piece list \<Rightarrow> lb_fmtbuf option \<Rightarrow> lb_fmtbuf option" where
  "put_all [] b = b"
| "put_all (p # ps) b = put_all ps (snd (emit_display_buf p b))"

definition emit_formatted :: "bytes \<Rightarrow> piece list \<Rightarrow> bytes" where
  "emit_formatted data pieces =
     fst (lb_fmtbuf_finish (put_all pieces (Some \<lparr>fb_data = data, fb_cap = 1024, fb_used = 0\<rparr>)))"

subsection \<open>What the buffer holds\<close>

text \<open>A buffer of \<open>cap\<close> bytes into which \<open>sofar\<close> has been written.\<close>

definition holds :: "nat \<Rightarrow> bytes \<Rightarrow> lb_fmtbuf option \<Rightarrow> bool" where
  "holds cap sofar buf \<longleftrightarrow> (\<exists>b. buf = Some b \<and> fb_cap b = cap \<and> length (fb_data b) = cap \<and> length sofar \<le> cap \<and>
     fb_used b = length sofar \<and> take (length sofar) (fb_data b) = sofar)"

lemma put_holds:
  assumes "holds cap sofar buf"
  shows "if cap < length (sofar @ s) then lb_fmtbuf_put buf (Some s) (length s) = (True, buf)
    else \<exists>b. lb_fmtbuf_put buf (Some s) (length s) = (False, b) \<and> holds cap (sofar @ s) b"
  using assms by (auto simp: holds_def lb_fmtbuf_put_def Let_def write_at_def)

lemma display_put: "emit_display_buf p b = lb_fmtbuf_put b (Some (show_value p)) (length (show_value p))"
  by (cases p) (simp_all add: lb_fmtbuf_i64_def lb_fmtbuf_u64_def lb_fmtbuf_bool_def lb_fmtbuf_char_def encoders numeral_eq_Suc)

lemma holds_finish: "holds cap sofar buf \<Longrightarrow> fst (lb_fmtbuf_finish buf) = sofar"
  by (auto simp: holds_def lb_fmtbuf_finish_def Let_def)

lemma holds_empty: "length data = cap \<Longrightarrow> holds cap [] (Some \<lparr>fb_data = data, fb_cap = cap, fb_used = 0\<rparr>)"
  by (simp add: holds_def)

lemma put_until_failure_holds:
  "holds cap sofar buf \<Longrightarrow>
    (if cap < length (sofar @ eval_formatted pieces) then fst (put_until_failure pieces buf)
     else \<exists>b. put_until_failure pieces buf = (False, b) \<and> holds cap (sofar @ eval_formatted pieces) b)"
proof (induction pieces arbitrary: sofar buf)
  case Nil
  then show ?case by (auto simp: eval_formatted_def holds_def)
next
  case (Cons p ps)
  show ?case
  proof (cases "cap < length (sofar @ show_value p)")
    case True
    then show ?thesis using put_holds[OF Cons.prems, of "show_value p"] by (auto simp: display_put eval_formatted_def)
  next
    case False
    then obtain b where "lb_fmtbuf_put buf (Some (show_value p)) (length (show_value p)) = (False, b)" "holds cap (sofar @ show_value p) b"
      using put_holds[OF Cons.prems, of "show_value p"] by auto
    then show ?thesis using Cons.IH[of "sofar @ show_value p" b] by (auto simp: display_put eval_formatted_def split: if_splits)
  qed
qed

text \<open>Where the whole text fits no piece is lost.\<close>

lemma put_all_holds:
  "holds cap sofar buf \<Longrightarrow> length (sofar @ eval_formatted pieces) \<le> cap \<Longrightarrow>
    holds cap (sofar @ eval_formatted pieces) (put_all pieces buf)"
proof (induction pieces arbitrary: sofar buf)
  case Nil
  then show ?case by (simp add: eval_formatted_def)
next
  case (Cons p ps)
  then obtain b where "lb_fmtbuf_put buf (Some (show_value p)) (length (show_value p)) = (False, b)" "holds cap (sofar @ show_value p) b"
    using put_holds[OF Cons.prems(1), of "show_value p"] by (auto simp: eval_formatted_def)
  then show ?case using Cons.IH[of "sofar @ show_value p" b] Cons.prems(2) by (simp add: display_put eval_formatted_def)
qed


text \<open>A formatted string is its text up to 1024 bytes; beyond, whole pieces are left out of its middle.\<close>

lemma formatted_short:
  "length data = 1024 \<Longrightarrow> length (eval_formatted pieces) \<le> 1024 \<Longrightarrow> emit_formatted data pieces = eval_formatted pieces"
  using put_all_holds[OF holds_empty[of data 1024], of pieces] holds_finish by (auto simp: emit_formatted_def)

lemma formatted_long_drops:
  assumes "length data = 1024"
  shows "emit_formatted data [FormatText (replicate 1025 CHR ''a''), FormatText ''b''] = ''b''"
    and "eval_formatted [FormatText (replicate 1025 CHR ''a''), FormatText ''b''] = replicate 1025 CHR ''a'' @ ''b''"
proof -
  have "emit_formatted data [FormatText (replicate 1025 CHR ''a''), FormatText ''b''] = emit_formatted data [FormatText ''b'']"
    by (simp add: emit_formatted_def lb_fmtbuf_put_def)
  then show "emit_formatted data [FormatText (replicate 1025 CHR ''a''), FormatText ''b''] = ''b''"
    using formatted_short[OF assms, of "[FormatText ''b'']"] by (simp add: eval_formatted_def)
qed (simp add: eval_formatted_def)

end
