(* ===== verification/Alloc.thy ===== *)
theory Alloc
  imports Prelude "HOL-Library.Word"
begin

unbundle bit_operations_syntax

section \<open>Allocators\<close>

text \<open>
  The three bump allocators of the program: the arena of \<open>support/arena.cpp\<close>, the fixed buffer of
  \<open>runtime/lucb_rt.c\<close>, and the fixed buffer of the interpreter in \<open>interp/memory.cpp\<close>. Sizes and
  offsets are \<open>size_t\<close>, at its width, so that their sums wrap as the code's do; an address is an
  offset in a region: the chunk of an arena, the memory of a buffer. The locale \<open>bump_allocator\<close> is
  what they promise, and gives the rest once: the blocks a run of requests is granted do not overlap.
\<close>

type_synonym size_t = "64 word"

subsection \<open>The runtime's fixed buffer\<close>

definition align_up :: "size_t \<Rightarrow> size_t \<Rightarrow> size_t" where
  "align_up n a = (if a \<le> 1 then n else (n + (a - 1)) AND NOT (a - 1))"

record lb_fixed =
  fx_cap :: size_t
  fx_used :: size_t

text \<open>The data pointer of a span: null, the sentinel 8 of an empty block, or an offset in the buffer.\<close>

datatype address = Null | Sentinel | At size_t

record lb_span =
  sp_data :: address
  sp_length :: size_t

definition no_span :: lb_span where
  "no_span = \<lparr>sp_data = Null, sp_length = 0\<rparr>"

text \<open>\<open>lb_alloc_bytes\<close> and \<open>lb_resize_bytes\<close> on an allocator of kind 1, which has a buffer.\<close>

definition lb_alloc_bytes :: "lb_fixed \<Rightarrow> size_t \<Rightarrow> size_t \<Rightarrow> lb_span \<times> lb_fixed" where
  "lb_alloc_bytes f sz align =
     (if sz = 0 then (\<lparr>sp_data = Sentinel, sp_length = 0\<rparr>, f)
      else
        let start = align_up (fx_used f) (if align < 1 then 1 else align)
        in if fx_cap f < start + sz then (no_span, f)
           else (\<lparr>sp_data = At start, sp_length = sz\<rparr>, f\<lparr>fx_used := start + sz\<rparr>))"

definition lb_resize_bytes :: "lb_fixed \<Rightarrow> lb_span \<Rightarrow> size_t \<Rightarrow> lb_span \<times> lb_fixed" where
  "lb_resize_bytes f block sz =
     (if sz = sp_length block then (block, f)
      else
        (case sp_data block of
           At start \<Rightarrow>
             if start + sp_length block = fx_used f \<and> sz \<le> fx_cap f - start
             then (\<lparr>sp_data = At start, sp_length = sz\<rparr>, f\<lparr>fx_used := start + sz\<rparr>)
             else (no_span, f)
         | _ \<Rightarrow> (no_span, f)))"

definition lb_fixed_allocate :: "lb_fixed \<Rightarrow> size_t \<Rightarrow> size_t \<Rightarrow> lb_span option \<times> lb_fixed" where
  "lb_fixed_allocate f sz align =
     (let (s, f) = lb_alloc_bytes f sz align
      in (if sz \<noteq> 0 \<and> sp_data s = Null then None else Some s, f))"

definition lb_fixed_resize :: "lb_fixed \<Rightarrow> lb_span \<Rightarrow> size_t \<Rightarrow> bool \<times> lb_fixed" where
  "lb_fixed_resize f block sz =
     (let (n, f) = lb_resize_bytes f block sz in (sp_data n \<noteq> Null \<or> sz = 0, f))"

text \<open>\<open>lb_release_bytes\<close> gives nothing back to a buffer.\<close>

definition lb_fixed_release :: "lb_fixed \<Rightarrow> lb_span \<Rightarrow> lb_fixed" where
  "lb_fixed_release f block = f"

subsection \<open>The interpreter's fixed buffers\<close>

text \<open>
  A buffer is a value of three fields, of which the second is its capacity and the third what is used;
  \<open>fb_last\<close> and its bounds are the last block granted, which \<open>free\<close> gives back.
\<close>

record fixed_buffers =
  fb_fields :: "nat \<Rightarrow> lb_fixed option"
  fb_last :: "nat option"
  fb_last_start :: size_t
  fb_last_end :: size_t

definition bump_fixed :: "nat \<Rightarrow> size_t \<Rightarrow> size_t \<Rightarrow> fixed_buffers \<Rightarrow> bool \<times> fixed_buffers" where
  "bump_fixed fb sz align st =
     (case fb_fields st fb of None \<Rightarrow> (False, st)
      | Some f \<Rightarrow>
          let align = (if align < 1 then 1 else align);
              rem = fx_used f mod align;
              start = (if rem \<noteq> 0 then fx_used f + (align - rem) else fx_used f)
          in if start + sz < start \<or> fx_cap f < start + sz then (False, st)
             else (True, st\<lparr>fb_fields := (fb_fields st)(fb \<mapsto> f\<lparr>fx_used := start + sz\<rparr>), fb_last := Some fb,
                     fb_last_start := start, fb_last_end := start + sz\<rparr>))"

text \<open>\<open>take_bytes\<close> and \<open>release_bytes\<close> on an allocator that is a fixed buffer.\<close>

definition take_bytes :: "nat \<Rightarrow> size_t \<Rightarrow> size_t \<Rightarrow> fixed_buffers \<Rightarrow> bool \<times> fixed_buffers" where
  "take_bytes fb sz align st = (if sz = 0 then (True, st) else bump_fixed fb sz align st)"

definition release_bytes :: "nat \<Rightarrow> fixed_buffers \<Rightarrow> fixed_buffers" where
  "release_bytes fb st =
     (case fb_fields st fb of None \<Rightarrow> st
      | Some f \<Rightarrow>
          if fb_last st = Some fb \<and> fx_used f = fb_last_end st
          then st\<lparr>fb_fields := (fb_fields st)(fb \<mapsto> f\<lparr>fx_used := fb_last_start st\<rparr>), fb_last := None\<rparr>
          else st)"

subsection \<open>The compiler's arena\<close>

record chunk =
  ck_size :: size_t
  ck_used :: size_t

record arena =
  ar_chunks :: "chunk list"
  ar_used :: size_t

definition k_chunk_size :: size_t where
  "k_chunk_size = 64 * 1024"

text \<open>
  The address of the block, the index of its chunk and an offset there; \<open>None\<close> is the call of \<open>abort\<close>.
\<close>

definition alloc :: "arena \<Rightarrow> size_t \<Rightarrow> size_t \<Rightarrow> ((nat \<times> size_t) \<times> arena) option" where
  "alloc a bytes align =
     (let bytes = (if bytes = 0 then 1 else bytes);
          align = (if align = 0 then 1 else align);
          chunks = ar_chunks a;
          back = last chunks;
          aligned = (ck_used back + align - 1) AND NOT (align - 1)
      in if chunks \<noteq> [] \<and> aligned + bytes \<le> ck_size back then
           Some ((length chunks - 1, aligned),
             a\<lparr>ar_chunks := butlast chunks @ [back\<lparr>ck_used := aligned + bytes\<rparr>], ar_used := ar_used a + bytes\<rparr>)
         else
           let cap = (if k_chunk_size < bytes + align then bytes + align else k_chunk_size);
               aligned = (0 + align - 1) AND NOT (align - 1)
           in if cap < aligned + bytes then None
              else Some ((length chunks, aligned),
                a\<lparr>ar_chunks := chunks @ [\<lparr>ck_size = cap, ck_used = aligned + bytes\<rparr>], ar_used := ar_used a + bytes\<rparr>))"

subsection \<open>Rounding up\<close>

lemma and_not_mask: "(x::size_t) AND NOT (mask k) = push_bit k (drop_bit k x)"
  by (rule bit_eqI) (auto simp: bit_simps)

lemma unat_and_not_mask: "unat ((x::size_t) AND NOT (mask k)) = unat x div 2 ^ k * 2 ^ k"
proof -
  have "unat x div 2 ^ k * 2 ^ k \<le> unat x" by (simp add: div_times_less_eq_dividend)
  also have small: "unat x < 2 ^ 64" using unsigned_less[of x, where ?'a = nat] by simp
  finally have "unat x div 2 ^ k * 2 ^ k < 2 ^ 64" .
  then have "take_bit 64 (unat x div 2 ^ k * 2 ^ k) = unat x div 2 ^ k * 2 ^ k" by (rule take_bit_nat_eq_self)
  then show ?thesis
    unfolding and_not_mask unsigned_push_bit_eq using take_bit_nat_eq_self[OF small] by (simp add: unsigned_drop_bit_eq push_bit_nat_def drop_bit_nat_def)
qed

lemma power_of_two_less_one: "(2 ^ k :: size_t) - 1 = mask k"
  by (simp add: mask_eq_exp_minus_1)

lemma unat_power: "k < 64 \<Longrightarrow> unat (2 ^ k :: size_t) = 2 ^ k"
  by transfer simp

text \<open>The least multiple of a power of two from a number on.\<close>

definition round_up :: "nat \<Rightarrow> nat \<Rightarrow> nat" where
  "round_up n a = (n + (a - 1)) div a * a"

lemma round_up_bounds: "0 < a \<Longrightarrow> n \<le> round_up n a \<and> round_up n a < n + a \<and> a dvd round_up n a"
proof -
  assume a: "0 < a"
  have "n \<le> (n + (a - 1)) div a * a \<and> (n + (a - 1)) div a * a < n + a"
    using a div_mult_mod_eq[of "n + (a - 1)" a] mod_less_divisor[OF a, of "n + (a - 1)"] by linarith
  then show ?thesis unfolding round_up_def by (simp only: dvd_triv_right simp_thms)
qed

lemma unat_masked:
  assumes "k < 64" "unat n + 2 ^ k < 2 ^ 64"
  shows "unat ((n + (2 ^ k - 1)) AND NOT ((2 ^ k :: size_t) - 1)) = round_up (unat n) (2 ^ k)"
proof -
  have "unat (mask k :: size_t) = 2 ^ k - 1" using assms(1)
    by (simp flip: power_of_two_less_one add: unat_sub word_le_nat_alt unat_power)
  then have "unat (n + mask k) = unat n + (2 ^ k - 1)" using assms(2) by (simp add: unat_word_ariths)
  then show ?thesis by (simp add: power_of_two_less_one unat_and_not_mask round_up_def)
qed

lemma align_up_round:
  assumes "k < 64" "unat n + 2 ^ k < 2 ^ 64"
  shows "unat (align_up n (2 ^ k)) = round_up (unat n) (2 ^ k)"
proof (cases "k = 0")
  case True
  then show ?thesis by (simp add: align_up_def round_up_def)
next
  case False
  then have "(1::nat) < 2 ^ k" using one_less_power[of "2::nat" k] by simp
  then have "\<not> (2 ^ k :: size_t) \<le> 1" using assms(1) by (simp add: word_le_nat_alt unat_power)
  then show ?thesis using unat_masked[OF assms] by (simp add: align_up_def)
qed

subsection \<open>What a bump allocator promises\<close>

record block =
  bl_region :: nat
  bl_start :: nat
  bl_size :: nat
  bl_align :: nat

text \<open>The blocks a list of requests is granted, in order; a request that fails is passed over.\<close>

type_synonym 's take_block = "'s \<Rightarrow> size_t \<Rightarrow> size_t \<Rightarrow> ((nat \<times> size_t) \<times> 's) option"

fun granted :: "'s take_block \<Rightarrow> 's \<Rightarrow> (size_t \<times> size_t) list \<Rightarrow> block list \<times> 's" where
  "granted take_from s [] = ([], s)"
| "granted take_from s ((sz, align) # rs) =
     (case take_from s sz align of
        None \<Rightarrow> granted take_from s rs
      | Some ((region, start), s') \<Rightarrow>
          (let (bs, s'') = granted take_from s' rs
           in (\<lparr>bl_region = region, bl_start = unat start, bl_size = unat sz, bl_align = unat align\<rparr> # bs, s'')))"

text \<open>Every block ends before the later ones of its region start.\<close>

fun apart :: "block list \<Rightarrow> bool" where
  "apart [] = True"
| "apart (b # bs) = ((\<forall>c \<in> set bs. bl_region c = bl_region b \<longrightarrow> bl_start b + bl_size b \<le> bl_start c) \<and> apart bs)"

locale bump_allocator =
  fixes take_from :: "'s take_block"
    and used cap :: "'s \<Rightarrow> nat \<Rightarrow> nat"
    and ok :: "'s \<Rightarrow> bool"
    and fair :: "size_t \<Rightarrow> size_t \<Rightarrow> bool"
  assumes ok_after: "ok s \<Longrightarrow> fair sz align \<Longrightarrow> take_from s sz align = Some ((r, start), s') \<Longrightarrow> ok s'"
    and block_after: "ok s \<Longrightarrow> fair sz align \<Longrightarrow> take_from s sz align = Some ((r, start), s') \<Longrightarrow>
      used s r \<le> unat start \<and> unat align dvd unat start \<and> unat start + unat sz \<le> used s' r"
    and rest_after: "ok s \<Longrightarrow> fair sz align \<Longrightarrow> take_from s sz align = Some ((r, start), s') \<Longrightarrow>
      used s q \<le> used s' q \<and> cap s q \<le> cap s' q"
    and used_cap: "ok s \<Longrightarrow> used s r \<le> cap s r"
begin

definition inside :: "'s \<Rightarrow> 's \<Rightarrow> block \<Rightarrow> bool" where
  "inside s s' b \<longleftrightarrow> used s (bl_region b) \<le> bl_start b \<and> bl_start b + bl_size b \<le> cap s' (bl_region b) \<and> bl_align b dvd bl_start b"

lemma granted_blocks:
  "ok s \<Longrightarrow> list_all (\<lambda>(sz, align). fair sz align) rs \<Longrightarrow> granted take_from s rs = (bs, s') \<Longrightarrow>
    ok s' \<and> (\<forall>q. used s q \<le> used s' q \<and> cap s q \<le> cap s' q) \<and> apart bs \<and> list_all (inside s s') bs"
proof (induction rs arbitrary: s bs)
  case (Cons r rs)
  obtain sz align where r: "r = (sz, align)" by fastforce
  show ?case
  proof (cases "take_from s sz align")
    case None
    then show ?thesis using Cons r by simp
  next
    case (Some b)
    then obtain region start s1 where t: "take_from s sz align = Some ((region, start), s1)" by (cases b) auto
    obtain cs where g: "granted take_from s1 rs = (cs, s')"
      and bs: "bs = \<lparr>bl_region = region, bl_start = unat start, bl_size = unat sz, bl_align = unat align\<rparr> # cs"
      using Cons.prems(3) r t by (auto split: prod.splits)
    have fair: "fair sz align" "list_all (\<lambda>(sz, align). fair sz align) rs" using Cons.prems(2) r by auto
    note step = block_after[OF Cons.prems(1) fair(1) t] rest_after[OF Cons.prems(1) fair(1) t]
    have IH: "ok s'" "\<And>q. used s1 q \<le> used s' q \<and> cap s1 q \<le> cap s' q" "apart cs" "list_all (inside s1 s') cs"
      using Cons.IH[OF ok_after[OF Cons.prems(1) fair(1) t] fair(2) g] by auto
    have in_cs: "list_all (inside s s') cs"
      using IH(4) step(2) by (auto simp: list_all_iff inside_def intro: order.trans)
    have "bl_start c \<ge> unat start + unat sz" if "c \<in> set cs" "bl_region c = region" for c
      using that IH(4) step(1) by (fastforce simp: list_all_iff inside_def)
    then have "apart bs" using IH(3) bs by auto
    moreover have "unat start + unat sz \<le> cap s' region"
      using step(1) IH(2)[of region] used_cap[OF IH(1), of region] by linarith
    then have "list_all (inside s s') bs" using in_cs step(1) bs by (simp add: inside_def)
    moreover have "used s q \<le> used s' q \<and> cap s q \<le> cap s' q" for q
      using step(2)[of q] IH(2)[of q] by linarith
    ultimately show ?thesis using IH(1) by blast
  qed
qed simp

lemma granted_apart:
  assumes "ok s" "list_all (\<lambda>(sz, align). fair sz align) rs"
  shows "apart (fst (granted take_from s rs)) \<and>
    (\<forall>b \<in> set (fst (granted take_from s rs)). bl_start b + bl_size b \<le> cap (snd (granted take_from s rs)) (bl_region b) \<and>
       bl_align b dvd bl_start b)"
  using granted_blocks[OF assms, of "fst (granted take_from s rs)" "snd (granted take_from s rs)"]
  by (auto simp: list_all_iff inside_def)

end

end
