(* ===== verification/AllocLaws.thy ===== *)
theory AllocLaws
  imports Alloc
begin

section \<open>The allocators keep the promise\<close>

text \<open>
  The three interpretations of \<open>bump_allocator\<close>, the agreement of the emitted program's fixed buffer
  with the interpreter's, and the requests on which they differ.
\<close>

lemma less_half: "unat (x::size_t) < 2 ^ 63 \<Longrightarrow> unat (y::size_t) < 2 ^ 63 \<Longrightarrow> unat (x + y) = unat x + unat y"
  by (simp add: unat_word_ariths)

subsection \<open>The runtime's buffer\<close>

definition fixed_take :: "lb_fixed take_block" where
  "fixed_take f sz align =
     (let (s, f') = lb_alloc_bytes f sz align
      in case sp_data s of At start \<Rightarrow> Some ((0, start), f') | _ \<Rightarrow> None)"

definition fixed_ok :: "lb_fixed \<Rightarrow> bool" where
  "fixed_ok f \<longleftrightarrow> fx_used f \<le> fx_cap f \<and> unat (fx_cap f) < 2 ^ 63"

text \<open>A request whose alignment is a power of two and which is not of the size of the address space.\<close>

definition fair_request :: "size_t \<Rightarrow> size_t \<Rightarrow> bool" where
  "fair_request sz align \<longleftrightarrow> (\<exists>k < 62. align = 2 ^ k) \<and> unat sz < 2 ^ 62"

lemma fair_requestE:
  assumes "fair_request sz align"
  obtains k where "k < 62" "align = 2 ^ k" "unat sz < 2 ^ 62" "unat align = 2 ^ k" "\<not> align < 1" "(2::nat) ^ k \<le> 2 ^ 61"
proof -
  obtain k where k: "k < 62" "align = 2 ^ k" "unat sz < 2 ^ 62" using assms by (auto simp: fair_request_def)
  then have u: "unat align = 2 ^ k" by (simp only: unat_power)
  have "(2::nat) ^ k \<le> 2 ^ 61" using k(1) by (intro power_increasing) auto
  moreover have "\<not> align < 1" using u by (simp add: word_less_nat_alt)
  ultimately show ?thesis using that k u by blast
qed

lemma fixed_take_cases:
  assumes ok: "fixed_ok f" and fair: "fair_request sz align"
  defines "start \<equiv> align_up (fx_used f) align"
  shows "unat start = round_up (unat (fx_used f)) (unat align)"
    and "unat (start + sz) = unat start + unat sz"
    and "fixed_take f sz align =
      (if sz = 0 \<or> unat (fx_cap f) < unat start + unat sz then None else Some ((0, start), f\<lparr>fx_used := start + sz\<rparr>))"
proof -
  obtain k where k: "k < 62" "align = 2 ^ k" "unat sz < 2 ^ 62" "unat align = 2 ^ k" "\<not> align < 1" "(2::nat) ^ k \<le> 2 ^ 61"
    using fair by (rule fair_requestE)
  have used: "unat (fx_used f) < 2 ^ 63" using ok by (auto simp: fixed_ok_def word_le_nat_alt)
  have "unat (fx_used f) + 2 ^ k < 2 ^ 64" using used k(6) by simp
  then show start: "unat start = round_up (unat (fx_used f)) (unat align)"
    unfolding start_def k(2) using align_up_round[of k "fx_used f"] k(1,2,4) by simp
  then have "unat start < 2 ^ 63 + 2 ^ 61"
    using round_up_bounds[of "unat align" "unat (fx_used f)"] used k(4,6) by simp
  then show sum: "unat (start + sz) = unat start + unat sz" using k(3) by (simp add: unat_word_ariths)
  show "fixed_take f sz align =
      (if sz = 0 \<or> unat (fx_cap f) < unat start + unat sz then None else Some ((0, start), f\<lparr>fx_used := start + sz\<rparr>))"
    using sum k(5) unfolding start_def
    by (simp add: fixed_take_def lb_alloc_bytes_def Let_def no_span_def word_less_nat_alt)
qed

interpretation fixed: bump_allocator fixed_take "\<lambda>f r. unat (fx_used f)" "\<lambda>f r. unat (fx_cap f)" fixed_ok fair_request
proof unfold_locales
  fix f sz align r start f' q
  assume a: "fixed_ok f" "fair_request sz align" "fixed_take f sz align = Some ((r, start), f')"
  note c = fixed_take_cases[OF a(1,2)]
  have s: "start = align_up (fx_used f) align" "f' = f\<lparr>fx_used := start + sz\<rparr>" "unat start + unat sz \<le> unat (fx_cap f)"
    using a(3) c(3) by (auto split: if_splits)
  have "0 < unat align" using a(2) by (rule fair_requestE) simp
  note b = round_up_bounds[OF this, of "unat (fx_used f)", folded c(1), folded s(1)]
  show "fixed_ok f'" using a(1) s c(2) by (simp add: fixed_ok_def word_le_nat_alt)
  show "unat (fx_used f) \<le> unat start \<and> unat align dvd unat start \<and> unat start + unat sz \<le> unat (fx_used f')"
    using b s c(2) by simp
  show "unat (fx_used f) \<le> unat (fx_used f') \<and> unat (fx_cap f) \<le> unat (fx_cap f')"
    using b s(2) c(2) s(1) by simp
next
  show "fixed_ok f \<Longrightarrow> unat (fx_used f) \<le> unat (fx_cap f)" for f by (simp add: fixed_ok_def word_le_nat_alt)
qed

subsection \<open>The interpreter's buffers\<close>

definition bump_take :: "nat \<Rightarrow> fixed_buffers take_block" where
  "bump_take fb st sz align =
     (let (ok, st') = bump_fixed fb sz align st in if ok then Some ((fb, fb_last_start st'), st') else None)"

definition buffers_ok :: "fixed_buffers \<Rightarrow> bool" where
  "buffers_ok st \<longleftrightarrow> (\<forall>fb f. fb_fields st fb = Some f \<longrightarrow> fixed_ok f)"

definition field_of :: "(lb_fixed \<Rightarrow> size_t) \<Rightarrow> fixed_buffers \<Rightarrow> nat \<Rightarrow> nat" where
  "field_of g st fb = (case fb_fields st fb of None \<Rightarrow> 0 | Some f \<Rightarrow> unat (g f))"

lemma bump_start:
  assumes used: "unat (u::size_t) < 2 ^ 63" and align: "0 < unat (a::size_t)"
  shows "unat (if u mod a \<noteq> 0 then u + (a - u mod a) else u) = round_up (unat u) (unat a)"
proof -
  define n m where "n = unat u" and "m = unat a"
  have mod: "unat (u mod a) = n mod m" by (simp add: unat_mod n_def m_def)
  have m: "0 < m" "m < 2 ^ 64" "n < 2 ^ 63" using used align unsigned_less[of a, where ?'a = nat] by (simp_all add: n_def m_def)
  show ?thesis
  proof (cases "n mod m = 0")
    case True
    then have "u mod a = 0" using mod by (simp add: unat_eq_zero)
    moreover have "round_up n m = n"
    proof -
      obtain q where q: "n = q * m" using True by (metis dvd_div_mult_self mod_0_imp_dvd)
      have "(q * m + (m - 1)) div m = q" using m(1) div_mult_self3[of m q "m - 1"] by simp
      then show ?thesis unfolding round_up_def q by (simp only:)
    qed
    ultimately show ?thesis by (simp add: n_def m_def)
  next
    case False
    then have "u mod a \<noteq> 0" using mod by (metis unat_0)
    have le: "n mod m < m" using m(1) by simp
    have pos: "0 < n mod m" "1 \<le> n" using False by (cases n; simp)+
    have "u mod a \<le> a" using mod le unfolding m_def word_le_nat_alt by simp
    then have sub: "unat (a - u mod a) = m - n mod m" unfolding m_def n_def by (subst unat_sub) (simp_all add: unat_mod)
    have split: "n = n div m * m + n mod m" by simp
    have "n + (m - n mod m) < 2 ^ 64"
    proof (cases "n < m")
      case True
      then show ?thesis using m by simp
    next
      case False
      then have "n + (m - n mod m) \<le> n + n" by linarith
      also have "\<dots> < 2 ^ 64" using m(3) by simp
      finally show ?thesis .
    qed
    then have sum: "unat (u + (a - u mod a)) = n + (m - n mod m)"
      using sub by (simp add: unat_word_ariths n_def)
    have "round_up n m = n + (m - n mod m)"
    proof -
      have "n + (m - 1) = (n div m + 1) * m + (n mod m - 1)" using split pos le by (simp add: algebra_simps)
      then have "(n + (m - 1)) div m = n div m + 1" using le by (metis add.commute div_mult_self1 div_less less_imp_diff_less m(1) add_0 less_irrefl)
      then have "round_up n m = n div m * m + m" by (simp only: round_up_def add_mult_distrib mult_1)
      then show ?thesis using split le by linarith
    qed
    then show ?thesis using sum \<open>u mod a \<noteq> 0\<close> by (simp add: n_def m_def)
  qed
qed

lemma bump_take_cases:
  assumes ok: "fixed_ok f" and f: "fb_fields st fb = Some f" and align: "0 < unat align"
  defines "start \<equiv> (if fx_used f mod align \<noteq> 0 then fx_used f + (align - fx_used f mod align) else fx_used f)"
  shows "unat start = round_up (unat (fx_used f)) (unat align)"
    and "bump_take fb st sz align =
      (if unat (fx_cap f) < unat start + unat sz then None
       else Some ((fb, start), st\<lparr>fb_fields := (fb_fields st)(fb \<mapsto> f\<lparr>fx_used := start + sz\<rparr>), fb_last := Some fb,
              fb_last_start := start, fb_last_end := start + sz\<rparr>))"
    and "unat start + unat sz \<le> unat (fx_cap f) \<Longrightarrow> unat (start + sz) = unat start + unat sz"
proof -
  have used: "unat (fx_used f) < 2 ^ 63" and cap: "unat (fx_cap f) < 2 ^ 63"
    using ok by (auto simp: fixed_ok_def word_le_nat_alt)
  show "unat start = round_up (unat (fx_used f)) (unat align)"
    unfolding start_def by (rule bump_start[OF used align])
  show "unat start + unat sz \<le> unat (fx_cap f) \<Longrightarrow> unat (start + sz) = unat start + unat sz"
    using cap by (simp add: unat_word_ariths)
  have wrap: "start + sz < start \<or> fx_cap f < start + sz \<longleftrightarrow> unat (fx_cap f) < unat start + unat sz"
  proof (cases "unat start + unat sz < 2 ^ 64")
    case True
    then have "unat (start + sz) = unat start + unat sz" by (simp add: unat_word_ariths)
    then show ?thesis by (simp add: word_less_nat_alt)
  next
    case False
    have "unat (start + sz) = unat start + unat sz - 2 ^ 64"
      using False unsigned_less[of start, where ?'a = nat] unsigned_less[of sz, where ?'a = nat]
      by (simp add: unat_word_ariths mod_if)
    then have "start + sz < start" using unsigned_less[of sz, where ?'a = nat] False by (simp add: word_less_nat_alt)
    then show ?thesis using False cap by simp
  qed
  have "\<not> align < 1" using align by (simp add: word_less_nat_alt)
  then show "bump_take fb st sz align =
      (if unat (fx_cap f) < unat start + unat sz then None
       else Some ((fb, start), st\<lparr>fb_fields := (fb_fields st)(fb \<mapsto> f\<lparr>fx_used := start + sz\<rparr>), fb_last := Some fb,
              fb_last_start := start, fb_last_end := start + sz\<rparr>))"
    using wrap[unfolded start_def] unfolding start_def by (simp add: bump_take_def bump_fixed_def f Let_def)
qed

interpretation interpreter: bump_allocator "bump_take fb" "field_of fx_used" "field_of fx_cap" buffers_ok "\<lambda>sz align. 0 < unat align" for fb
proof unfold_locales
  fix st sz align r start st' q
  assume a: "buffers_ok st" "0 < unat align" "bump_take fb st sz align = Some ((r, start), st')"
  obtain f where f: "fb_fields st fb = Some f" using a(3) by (auto simp: bump_take_def bump_fixed_def split: option.splits)
  have ok: "fixed_ok f" using a(1) f by (auto simp: buffers_ok_def)
  note c = bump_take_cases[OF ok f a(2)]
  have s: "r = fb" "unat start = round_up (unat (fx_used f)) (unat align)" "unat start + unat sz \<le> unat (fx_cap f)"
      "fb_fields st' = (fb_fields st)(fb \<mapsto> f\<lparr>fx_used := start + sz\<rparr>)"
    using a(3) c(1) c(2)[of sz] by (auto split: if_splits)
  have sum: "unat (start + sz) = unat start + unat sz" using a(3) c(2)[of sz] c(3)[of sz] by (auto split: if_splits)
  note b = round_up_bounds[OF a(2), of "unat (fx_used f)", folded s(2)]
  show "buffers_ok st'" using a(1) ok s(3,4) sum by (auto simp: buffers_ok_def fixed_ok_def word_le_nat_alt)
  show "field_of fx_used st r \<le> unat start \<and> unat align dvd unat start \<and> unat start + unat sz \<le> field_of fx_used st' r"
    using b s(1,4) f sum by (simp add: field_of_def)
  show "field_of fx_used st q \<le> field_of fx_used st' q \<and> field_of fx_cap st q \<le> field_of fx_cap st' q"
    using b s(4) f sum by (simp add: field_of_def)
next
  show "buffers_ok st \<Longrightarrow> field_of fx_used st r \<le> field_of fx_cap st r" for st r
    by (auto simp: buffers_ok_def fixed_ok_def field_of_def word_le_nat_alt split: option.split)
qed

subsection \<open>The arena\<close>

definition arena_used :: "arena \<Rightarrow> nat \<Rightarrow> nat" where
  "arena_used a i = (if i < length (ar_chunks a) then unat (ck_used (ar_chunks a ! i)) else 0)"

definition arena_cap :: "arena \<Rightarrow> nat \<Rightarrow> nat" where
  "arena_cap a i = (if i < length (ar_chunks a) then unat (ck_size (ar_chunks a ! i)) else 0)"

definition chunk_ok :: "chunk \<Rightarrow> bool" where
  "chunk_ok c \<longleftrightarrow> ck_used c \<le> ck_size c \<and> unat (ck_size c) < 2 ^ 63"

definition arena_ok :: "arena \<Rightarrow> bool" where
  "arena_ok a \<longleftrightarrow> list_all chunk_ok (ar_chunks a)"

text \<open>The two ways a request is served, in the last chunk or in a new one; it is never refused.\<close>

lemma alloc_cases:
  assumes ok: "arena_ok a" and fair: "fair_request sz align"
  obtains (bump) chunks c start where "ar_chunks a = chunks @ [c]" "unat start = round_up (unat (ck_used c)) (unat align)"
      "unat start + max 1 (unat sz) \<le> unat (ck_size c)" "chunk_ok c"
      "alloc a sz align = Some ((length chunks, start),
        a\<lparr>ar_chunks := chunks @ [c\<lparr>ck_used := start + max 1 sz\<rparr>], ar_used := ar_used a + max 1 sz\<rparr>)"
      "unat (start + max 1 sz) = unat start + max 1 (unat sz)"
  | (fresh) size0 where "max 1 (unat sz) \<le> unat size0" "unat size0 < 2 ^ 63"
      "alloc a sz align = Some ((length (ar_chunks a), 0),
        a\<lparr>ar_chunks := ar_chunks a @ [\<lparr>ck_size = size0, ck_used = max 1 sz\<rparr>], ar_used := ar_used a + max 1 sz\<rparr>)"
proof -
  obtain k where k: "k < 62" "align = 2 ^ k" "unat sz < 2 ^ 62" "unat align = 2 ^ k" "\<not> align < 1" "(2::nat) ^ k \<le> 2 ^ 61"
    using fair by (rule fair_requestE)
  define n where "n = (if sz = 0 then 1 else sz)"
  have n: "n = max 1 sz" "unat n = max 1 (unat sz)" "unat n < 2 ^ 62"
    using k(3) by (auto simp: n_def max_def word_le_nat_alt unat_eq_zero[symmetric] simp del: unat_eq_zero)
  have align: "\<not> align = 0" using k(4) by auto
  define cap where "cap = (if k_chunk_size < n + align then n + align else k_chunk_size)"
  have sum: "unat (n + align) = unat n + 2 ^ k" using n(3) k(4,6) by (simp add: unat_word_ariths)
  have cap: "unat n \<le> unat cap" "unat cap < 2 ^ 63"
    using sum n(3) k(6) by (auto simp: cap_def k_chunk_size_def word_less_nat_alt)
  have zero: "(align - 1) AND NOT (align - 1) = 0" by simp
  have new: "\<not> cap < n" using cap by (simp add: word_less_nat_alt)
  define top where "top = last (ar_chunks a)"
  define start where "start = (ck_used top + align - 1) AND NOT (align - 1)"
  have alloc: "alloc a sz align =
      (if ar_chunks a \<noteq> [] \<and> start + n \<le> ck_size top then
         Some ((length (ar_chunks a) - 1, start),
           a\<lparr>ar_chunks := butlast (ar_chunks a) @ [top\<lparr>ck_used := start + n\<rparr>], ar_used := ar_used a + n\<rparr>)
       else Some ((length (ar_chunks a), 0),
         a\<lparr>ar_chunks := ar_chunks a @ [\<lparr>ck_size = cap, ck_used = n\<rparr>], ar_used := ar_used a + n\<rparr>))"
    unfolding alloc_def Let_def n_def[symmetric] top_def[symmetric]
    by (simp only: align if_False start_def[symmetric] cap_def[symmetric] add_0 zero new)
  show thesis
  proof (cases "ar_chunks a \<noteq> [] \<and> start + n \<le> ck_size top")
    case False
    have "alloc a sz align = Some ((length (ar_chunks a), 0),
        a\<lparr>ar_chunks := ar_chunks a @ [\<lparr>ck_size = cap, ck_used = n\<rparr>], ar_used := ar_used a + n\<rparr>)"
      unfolding alloc by (simp only: False if_False)
    then show thesis using fresh[of cap] cap n(1,2) by simp
  next
    case True
    then have chunks: "ar_chunks a = butlast (ar_chunks a) @ [top]" by (simp add: top_def)
    have "top \<in> set (ar_chunks a)" using True by (simp add: top_def)
    then have c: "chunk_ok top" using ok by (simp add: arena_ok_def list_all_iff)
    then have used: "unat (ck_used top) < 2 ^ 63" by (auto simp: chunk_ok_def word_le_nat_alt)
    then have small: "unat (ck_used top) + 2 ^ k < 2 ^ 64" using k(6) by simp
    have "start = (ck_used top + (2 ^ k - 1)) AND NOT (2 ^ k - 1)" by (simp add: start_def k(2) algebra_simps)
    then have start: "unat start = round_up (unat (ck_used top)) (unat align)"
      using unat_masked[OF _ small] k(1,4) by simp
    have "unat start < 2 ^ 63 + 2 ^ 61"
      using round_up_bounds[of "unat align" "unat (ck_used top)"] used start k(4,6) by simp
    then have total: "unat (start + n) = unat start + unat n" using n(3) by (simp add: unat_word_ariths)
    have len: "length (ar_chunks a) - 1 = length (butlast (ar_chunks a))" by simp
    have "alloc a sz align = Some ((length (butlast (ar_chunks a)), start),
        a\<lparr>ar_chunks := butlast (ar_chunks a) @ [top\<lparr>ck_used := start + max 1 sz\<rparr>], ar_used := ar_used a + max 1 sz\<rparr>)"
      using alloc True n(1) len by (simp only: if_True simp_thms len)
    moreover have "unat start + max 1 (unat sz) \<le> unat (ck_size top)"
      using True total n(2) by (simp add: word_le_nat_alt)
    ultimately show thesis using bump[OF chunks start _ c] total n by simp
  qed
qed

lemma arena_ok_append: "arena_ok a \<Longrightarrow> ar_chunks a = chunks @ [c] \<Longrightarrow> chunk_ok d \<Longrightarrow> arena_ok (a\<lparr>ar_chunks := chunks @ [d], ar_used := u\<rparr>)"
  by (simp add: arena_ok_def)

interpretation arena: bump_allocator alloc arena_used arena_cap arena_ok fair_request
proof unfold_locales
  fix a sz align r start a' q
  assume a: "arena_ok a" "fair_request sz align" "alloc a sz align = Some ((r, start), a')"
  have al: "0 < unat align" using a(2) by (rule fair_requestE) simp
  show "arena_ok a'"
    using a(1,2)
  proof (cases rule: alloc_cases)
    case (bump chunks c start')
    then show ?thesis
      using a(3) arena_ok_append[OF a(1) bump(1), of "c\<lparr>ck_used := start' + max 1 sz\<rparr>"]
      by (auto simp: chunk_ok_def word_le_nat_alt)
  next
    case (fresh size0)
    have "unat (max 1 sz) = max 1 (unat sz)" by (auto simp: max_def word_le_nat_alt)
    then show ?thesis using a(1,3) fresh by (auto simp: arena_ok_def chunk_ok_def word_le_nat_alt)
  qed
  show "arena_used a r \<le> unat start \<and> unat align dvd unat start \<and> unat start + unat sz \<le> arena_used a' r"
    using a(1,2)
  proof (cases rule: alloc_cases)
    case (bump chunks c start')
    then show ?thesis
      using a(3) round_up_bounds[OF al, of "unat (ck_used c)", folded bump(2)] by (auto simp: arena_used_def)
  next
    case (fresh size0)
    have "unat sz \<le> unat (max 1 sz)" by (auto simp: max_def word_le_nat_alt)
    then show ?thesis using a(3) fresh by (auto simp: arena_used_def nth_append)
  qed
  show "arena_used a q \<le> arena_used a' q \<and> arena_cap a q \<le> arena_cap a' q"
    using a(1,2)
  proof (cases rule: alloc_cases)
    case (bump chunks c start')
    then show ?thesis
      using a(3) round_up_bounds[OF al, of "unat (ck_used c)", folded bump(2)]
      by (auto simp: arena_used_def arena_cap_def nth_append)
  next
    case (fresh size0)
    then show ?thesis using a(3) by (auto simp: arena_used_def arena_cap_def nth_append)
  qed
next
  show "arena_ok a \<Longrightarrow> arena_used a r \<le> arena_cap a r" for a r
    by (auto simp: arena_ok_def arena_used_def arena_cap_def chunk_ok_def list_all_length word_le_nat_alt)
qed

text \<open>
  C37: the blocks the compiler's arena hands out stay apart: over any sequence of requests with an
  alignment that is a power of two, from an empty arena on, every request is granted, every block lies
  inside its chunk at a multiple of its alignment, and no two blocks of a chunk overlap.
\<close>

theorem arena_blocks_apart:
  assumes "list_all (\<lambda>(sz, align). fair_request sz align) rs"
  shows "apart (fst (granted alloc \<lparr>ar_chunks = [], ar_used = 0\<rparr> rs)) \<and>
    length (fst (granted alloc \<lparr>ar_chunks = [], ar_used = 0\<rparr> rs)) = length rs \<and>
    (\<forall>b \<in> set (fst (granted alloc \<lparr>ar_chunks = [], ar_used = 0\<rparr> rs)).
       bl_start b + bl_size b \<le> arena_cap (snd (granted alloc \<lparr>ar_chunks = [], ar_used = 0\<rparr> rs)) (bl_region b) \<and>
       bl_align b dvd bl_start b)"
proof -
  have "length (fst (granted alloc a rs)) = length rs" if "arena_ok a" for a
    using assms that
  proof (induction rs arbitrary: a)
    case (Cons r rs)
    obtain sz align where r: "r = (sz, align)" "fair_request sz align" using Cons.prems(1) by auto
    have "\<exists>b a'. alloc a sz align = Some (b, a')"
      using Cons.prems(2) r(2) by (cases rule: alloc_cases) blast+
    then obtain region start a' where al: "alloc a sz align = Some ((region, start), a')" by force
    then show ?case
      using Cons.IH[of a'] Cons.prems(1) r arena.ok_after[OF Cons.prems(2) r(2) al]
      by (cases "granted alloc a' rs") simp
  qed simp
  moreover have "arena_ok \<lparr>ar_chunks = [], ar_used = 0\<rparr>" by (simp add: arena_ok_def)
  ultimately show ?thesis using arena.granted_apart[OF _ assms] by blast
qed

lemma arena_blocks_apart_witness: "length (fst (granted alloc \<lparr>ar_chunks = [], ar_used = 0\<rparr> [(24, 8), (3, 1), (8, 8)])) = 3"
proof -
  have fair: "fair_request sz 8" "fair_request sz 1" if "unat sz < 2 ^ 62" for sz
    using that by (auto simp: fair_request_def intro: exI[of _ "3::nat"] exI[of _ "0::nat"])
  show ?thesis using arena_blocks_apart[of "[(24, 8), (3, 1), (8, 8)]"] fair by simp
qed

subsection \<open>The two fixed buffers\<close>



text \<open>Where they differ. A request near the size of the address space wraps in the emitted program and is
  granted at the start of the buffer; an alignment that is no power of two gives another start; and
  what \<open>free\<close> gives back is only given back by the interpreter.\<close>

lemma huge_request_granted:
  "lb_fixed_allocate \<lparr>fx_cap = 64, fx_used = 8\<rparr> 0xFFFFFFFFFFFFFFF8 8 =
    (Some \<lparr>sp_data = At 8, sp_length = 0xFFFFFFFFFFFFFFF8\<rparr>, \<lparr>fx_cap = 64, fx_used = 0\<rparr>)"
  by code_simp

lemma huge_request_refused:
  "\<not> fst (bump_fixed 0 0xFFFFFFFFFFFFFFF8 8
      \<lparr>fb_fields = [0 \<mapsto> \<lparr>fx_cap = 64, fx_used = 8\<rparr>], fb_last = None, fb_last_start = 0, fb_last_end = 0\<rparr>)"
  by code_simp

lemma odd_alignment_differs:
  "fixed_take \<lparr>fx_cap = 64, fx_used = 2\<rparr> 4 3 = Some ((0, 4), \<lparr>fx_cap = 64, fx_used = 8\<rparr>)"
  "fb_last_start (snd (bump_fixed 0 4 3
      \<lparr>fb_fields = [0 \<mapsto> \<lparr>fx_cap = 64, fx_used = 2\<rparr>], fb_last = None, fb_last_start = 0, fb_last_end = 0\<rparr>)) = 3"
  by code_simp+

lemma released_block_differs:
  assumes "fb_fields st 0 = Some \<lparr>fx_cap = 8, fx_used = 0\<rparr>"
  shows "fst (bump_fixed 0 8 1 (release_bytes 0 (snd (bump_fixed 0 8 1 st))))"
    and "fst (lb_fixed_allocate (lb_fixed_release (snd (lb_fixed_allocate \<lparr>fx_cap = 8, fx_used = 0\<rparr> 8 1)) b) 8 1) = None"
  using assms
  by (simp_all add: bump_fixed_def release_bytes_def lb_fixed_allocate_def lb_fixed_release_def lb_alloc_bytes_def align_up_def no_span_def Let_def)

end
