(* ===== verification/EmitTypes.thy ===== *)
theory EmitTypes
  imports Cgen Containment
begin

section \<open>C type definitions\<close>

text \<open>
  \<open>emit/types.cpp\<close>: the definitions of the types of a program, each written after the types it holds
  by value. A definition is the name it defines and the lines it is written in, with what it defines
  beside them. The walk through one type is structural; entering a declaration takes a unit of fuel, and
  as none is entered while it is being written, more than the number of declarations is enough.
  Not modelled: the tables of interfaces, and the collectors, whose lists of the types a program mentions are
  arguments.
\<close>

datatype subject = DefType ty | DefResult ty | DefDecl nat

record c_def =
  cd_of :: subject
  cd_name :: string
  cd_lines :: "string list"

record type_writer =
  tw_out :: "c_def list"
  tw_arrays_done :: "ty list"
  tw_typedefs_done :: "string list"
  tw_decls_done :: "nat list"
  tw_decls_busy :: "nat list"

subsection \<open>Records\<close>

definition literal_align :: "node list \<Rightarrow> 64 word" where
  "literal_align ns =
     (case ns of [] \<Rightarrow> 0
      | n # _ \<Rightarrow>
          if n_kind n = NLiteral \<and> n_op n = IntLit then
            (let p = parse_int_literal (n_text n) in if int_ok p then int_value p else 0)
          else 0)"

definition aligned_attr :: "64 word \<Rightarrow> string" where
  "aligned_attr al =
     (if al \<noteq> 0 then '' __attribute__((aligned('' @ to_string_nat (unat al) @ '')))'' else [])"

definition type_attrs :: "type_decl \<Rightarrow> string" where
  "type_attrs d =
     (if has_flag (td_flags d) FlagPacked then '' __attribute__((packed))'' else []) @ aligned_attr (literal_align (td_type d))"

definition pad :: "nat \<Rightarrow> string \<Rightarrow> string" where
  "pad indent s = concat (replicate indent ''    '') @ s"

definition record_fields :: "type_decl \<Rightarrow> type_member list" where
  "record_fields d = filter (\<lambda>m. tm_kind m = NField) (td_body d)"

definition emit_struct :: "decls \<Rightarrow> type_decl \<Rightarrow> string list" where
  "emit_struct D st =
     [''typedef struct'' @ type_attrs st @ '' '' @ struct_ident st [] @ '' {''] @
     (if record_fields st = [] then [pad 1 ''int unused;'']
      else map (\<lambda>m. pad 1 (c_type_ref D (tm_ty m) @ '' '' @ c_field (tm_text m) @ aligned_attr (literal_align (tm_right m)) @ '';''))
        (record_fields st)) @
     [''} '' @ struct_ident st [] @ '';'', []]"

definition emit_union :: "decls \<Rightarrow> type_decl \<Rightarrow> string list" where
  "emit_union D un =
     [''typedef union '' @ struct_ident un [] @ '' {''] @
     (if record_fields un = [] then [pad 1 ''int unused;'']
      else map (\<lambda>m. pad 1 (c_type_ref D (tm_ty m) @ '' '' @ c_field (tm_text m) @ '';'')) (record_fields un)) @
     [''} '' @ struct_ident un [] @ '';'', []]"

definition payload_cases :: "type_decl \<Rightarrow> type_member list" where
  "payload_cases d = filter (\<lambda>m. tm_kind m = NEnumCase \<and> tm_params m \<noteq> []) (td_body d)"

definition emit_case :: "decls \<Rightarrow> type_member \<Rightarrow> string list" where
  "emit_case D c =
     [pad 2 ''struct {''] @
     map2 (\<lambda>t x. pad 3 (c_type_ref D t @ '' '' @ c_field x @ '';'')) (tm_params c) (tm_param_names c) @
     [pad 2 (''} '' @ c_field (tm_text c) @ '';'')]"

definition emit_enum :: "decls \<Rightarrow> type_decl \<Rightarrow> string list" where
  "emit_enum D en =
     (if is_int_enum (td_ty en) then []
      else [''typedef struct '' @ struct_ident en [] @ '' {'', pad 1 ''int32_t tag;''] @
        (if payload_cases en \<noteq> []
         then [pad 1 ''union {''] @ concat (map (emit_case D) (payload_cases en)) @ [pad 1 ''} u;''] else []) @
        [''} '' @ struct_ident en [] @ '';'', []])"

definition emit_record :: "decls \<Rightarrow> type_decl \<Rightarrow> string list" where
  "emit_record D d =
     (if td_kind d = NStruct \<or> td_kind d = NExternStruct then emit_struct D d
      else if td_kind d = NUnion \<or> td_kind d = NExternUnion then emit_union D d
      else if td_kind d = NEnum then emit_enum D d
      else [])"

subsection \<open>Definitions\<close>

definition typedef_done :: "string \<Rightarrow> type_writer \<Rightarrow> bool" where
  "typedef_done name w \<longleftrightarrow> name \<in> set (tw_typedefs_done w)"

definition write_def :: "subject \<Rightarrow> string \<Rightarrow> string list \<Rightarrow> type_writer \<Rightarrow> type_writer" where
  "write_def s name ls w = w\<lparr>tw_out := tw_out w @ [\<lparr>cd_of = s, cd_name = name, cd_lines = ls\<rparr>]\<rparr>"

text \<open>A line that defines a name, which is then done.\<close>

definition write_typedef :: "subject \<Rightarrow> string \<Rightarrow> string \<Rightarrow> type_writer \<Rightarrow> type_writer" where
  "write_typedef s name l w = (write_def s name [l] w)\<lparr>tw_typedefs_done := tw_typedefs_done w @ [name]\<rparr>"

definition array_line :: "decls \<Rightarrow> ty \<Rightarrow> string" where
  "array_line D t =
     ''typedef struct '' @ array_c_name D (Some t) @ '' { '' @ c_type_ref D (ty_elem t) @ '' d['' @
     to_string_nat (unat (ty_length t)) @ '']; } '' @ array_c_name D (Some t) @ '';''"

definition opt_line :: "decls \<Rightarrow> ty \<Rightarrow> string" where
  "opt_line D t = ''LB_OPT('' @ c_type_ref D (ty_elem t) @ '', '' @ opt_c_name D (Some t) @ '');''"

definition fail_line :: "decls \<Rightarrow> ty option \<Rightarrow> string" where
  "fail_line D payload = ''LB_RES('' @ c_type_ref D payload @ '', '' @ fail_c_name D payload @ '');''"

definition tup_line :: "decls \<Rightarrow> ty \<Rightarrow> string" where
  "tup_line D t =
     ''typedef struct '' @ tup_c_name D (Some t) @ '' {'' @
     concat (map (\<lambda>j. '' '' @ c_type_ref D (ty_args t ! j) @ '' a'' @ to_string_nat j @ '';'') [0 ..< length (ty_args t)]) @
     '' } '' @ tup_c_name D (Some t) @ '';''"

definition fn_line :: "decls \<Rightarrow> ty \<Rightarrow> string" where
  "fn_line D t =
     ''typedef '' @ (if no_value (ty_elem t) then ''void'' else c_type_ref D (ty_elem t)) @ '' (*'' @ fn_c_name D (Some t) @ '')('' @
     (if ty_args t = [] then ''void'' else joined (map (c_type_ref D) (ty_args t))) @ '');''"

definition is_record_kind :: "type_kind \<Rightarrow> bool" where
  "is_record_kind k \<longleftrightarrow> k = TyStruct \<or> k = TyUnion \<or> k = TyEnum"

type_synonym write_step = "type_writer \<Rightarrow> type_writer option"

text \<open>\<open>define_type\<close>, over \<open>define_decl\<close>; \<open>define_fail\<close> is its branch of a result.\<close>

fun define_type :: "(nat \<Rightarrow> write_step) \<Rightarrow> decls \<Rightarrow> ty option \<Rightarrow> write_step" and
    define_types :: "(nat \<Rightarrow> write_step) \<Rightarrow> decls \<Rightarrow> ty option list \<Rightarrow> write_step" where
  "define_type enter D None w = Some w"
| "define_type enter D (Some (Ty k nm dc cn el len c v nl pk al args bd)) w =
     (let t = Ty k nm dc cn el len c v nl pk al args bd in
      if k = TyParam then Some w
      else if k = TyPointer \<or> k = TySpan \<or> k = TyAtomic then
        (if of_kind (\<lambda>k. \<not> is_record_kind k) el then define_type enter D el w else Some w)
      else if k = TyArray then
        (if t \<in> set (tw_arrays_done w) then Some w
         else if typedef_done (array_c_name D (Some t)) w then Some (w\<lparr>tw_arrays_done := tw_arrays_done w @ [t]\<rparr>)
         else do {
           w \<leftarrow> define_type enter D el w;
           let w = write_typedef (DefType t) (array_c_name D (Some t)) (array_line D t) w;
           Some (w\<lparr>tw_arrays_done := tw_arrays_done w @ [t]\<rparr>)
         })
      else if k = TyOptional then do {
        w \<leftarrow> define_type enter D el w;
        if el = None \<or> of_kind (\<lambda>k. k = TyParam) el \<or> typedef_done (opt_c_name D (Some t)) w then Some w
        else Some (write_typedef (DefType t) (opt_c_name D (Some t)) (opt_line D t) w)
      }
      else if k = TyFallible then
        (if no_value el \<or> of_kind (\<lambda>k. k = TyParam) el then Some w
         else do {
           w \<leftarrow> define_type enter D el w;
           if typedef_done (fail_c_name D el) w then Some w
           else Some (write_typedef (DefResult (the el)) (fail_c_name D el) (fail_line D el) w)
         })
      else if k = TyTuple then do {
        w \<leftarrow> define_types enter D args w;
        if typedef_done (tup_c_name D (Some t)) w then Some w
        else Some (write_typedef (DefType t) (tup_c_name D (Some t)) (tup_line D t) w)
      }
      else if k = TyFunc then do {
        w \<leftarrow> define_types enter D args w;
        w \<leftarrow> define_type enter D el w;
        if typedef_done (fn_c_name D (Some t)) w then Some w
        else Some (write_typedef (DefType t) (fn_c_name D (Some t)) (fn_line D t) w)
      }
      else if is_record_kind k then (case dc of None \<Rightarrow> Some w | Some d \<Rightarrow> enter d w)
      else Some w)"
| "define_types enter D [] w = Some w"
| "define_types enter D (t # ts) w = do { w \<leftarrow> define_type enter D t w; define_types enter D ts w }"

definition define_fail :: "(nat \<Rightarrow> write_step) \<Rightarrow> decls \<Rightarrow> ty option \<Rightarrow> write_step" where
  "define_fail enter D payload w =
     (if no_value payload \<or> of_kind (\<lambda>k. k = TyParam) payload then Some w
      else do {
        w \<leftarrow> define_type enter D payload w;
        if typedef_done (fail_c_name D payload) w then Some w
        else Some (write_typedef (DefResult (the payload)) (fail_c_name D payload) (fail_line D payload) w)
      })"

text \<open>A declaration that has no definition of its own: a generic, an integer enum, a type of the runtime's.\<close>

definition undefined_decl :: "type_decl \<Rightarrow> bool" where
  "undefined_decl td \<longleftrightarrow> td_generic td \<or> (td_kind td = NEnum \<and> is_int_enum (td_ty td)) \<or> has_flag (td_flags td) FlagBuiltin"

fun define_decl :: "decls \<Rightarrow> nat \<Rightarrow> nat \<Rightarrow> write_step" where
  "define_decl D 0 d w = None"
| "define_decl D (Suc n) d w =
     (case D d of None \<Rightarrow> Some w
      | Some td \<Rightarrow>
          if undefined_decl td \<or> d \<in> set (tw_decls_done w) \<or> d \<in> set (tw_decls_busy w) then Some w
          else do {
            w \<leftarrow> define_types (define_decl D n) D (content_types D d) (w\<lparr>tw_decls_busy := tw_decls_busy w @ [d]\<rparr>);
            let w = w\<lparr>tw_decls_busy := butlast (tw_decls_busy w), tw_decls_done := tw_decls_done w @ [d]\<rparr>;
            Some (write_def (DefDecl d) (struct_ident td []) (emit_record D td) w)
          })"

text \<open>The types a program mentions, as the collectors find them.\<close>

record noted_types =
  nt_arrays :: "ty list"
  nt_tups :: "ty list"
  nt_opts :: "ty list"
  nt_fails :: "ty list"
  nt_fns :: "ty list"

fun define_decls :: "decls \<Rightarrow> nat \<Rightarrow> nat list \<Rightarrow> write_step" where
  "define_decls D n [] w = Some w"
| "define_decls D n (d # ds) w =
     (if (case D d of None \<Rightarrow> False | Some td \<Rightarrow> td_kind td \<in> {NStruct, NExternStruct, NUnion, NExternUnion, NEnum})
      then do { w \<leftarrow> define_decl D n d w; define_decls D n ds w }
      else define_decls D n ds w)"

fun define_fails :: "decls \<Rightarrow> nat \<Rightarrow> ty list \<Rightarrow> write_step" where
  "define_fails D n [] w = Some w"
| "define_fails D n (t # ts) w = do { w \<leftarrow> define_fail (define_decl D n) D (Some t) w; define_fails D n ts w }"

definition empty_writer :: type_writer where
  "empty_writer = \<lparr>tw_out = [], tw_arrays_done = [], tw_typedefs_done = [], tw_decls_done = [], tw_decls_busy = []\<rparr>"

text \<open>The definitions of a program: the declarations of its modules, in order, then the types noted.\<close>

definition emit_type_defs :: "decls \<Rightarrow> nat \<Rightarrow> nat list \<Rightarrow> noted_types \<Rightarrow> write_step" where
  "emit_type_defs D n ds noted w = do {
     let w = write_typedef (DefType (kind_ty TyUsize)) ''lb_r_usize'' ''LB_RES(size_t, lb_r_usize);'' w;
     w \<leftarrow> define_decls D n ds w;
     w \<leftarrow> define_types (define_decl D n) D (map Some (nt_arrays noted)) w;
     w \<leftarrow> define_types (define_decl D n) D (map Some (nt_tups noted)) w;
     w \<leftarrow> define_types (define_decl D n) D (map Some (nt_opts noted)) w;
     w \<leftarrow> define_fails D n (nt_fails noted) w;
     define_types (define_decl D n) D (map Some (nt_fns noted)) w
   }"

end
