(* ===== verification/EmitTypesLaws.thy ===== *)
theory EmitTypesLaws
  imports EmitTypes
begin

section \<open>The order of the definitions\<close>

text \<open>
  The names a member of a type needs defined before it, in C: a record is needed complete, a typedef is
  needed at all. Behind a pointer a record is not needed, since every record is declared ahead.
\<close>

definition nominal_name :: "decls \<Rightarrow> nat option \<Rightarrow> string set" where
  "nominal_name D dc =
     (case dc of None \<Rightarrow> {}
      | Some d \<Rightarrow> (case D d of None \<Rightarrow> {} | Some td \<Rightarrow> if undefined_decl td then {} else {struct_ident td []}))"

fun needed :: "decls \<Rightarrow> ty option \<Rightarrow> string set" where
  "needed D None = {}"
| "needed D (Some (Ty k nm dc cn el len c v nl pk al args bd)) =
     (let t = Ty k nm dc cn el len c v nl pk al args bd in
      if k = TyPointer \<or> k = TySpan then (if of_kind (\<lambda>k. \<not> is_record_kind k) el then needed D el else {})
      else if k = TyAtomic then needed D el
      else if k = TyArray then {array_c_name D (Some t)}
      else if k = TyOptional then (if el = None \<or> of_kind (\<lambda>k. k = TyParam) el then {} else {opt_c_name D (Some t)})
      else if k = TyFallible then
        (if no_value el \<or> of_kind (\<lambda>k. k = TyParam) el then {} else {fail_c_name D el})
      else if k = TyTuple then {tup_c_name D (Some t)}
      else if k = TyFunc then {fn_c_name D (Some t)}
      else if is_record_kind k then nominal_name D dc
      else {})"

text \<open>What the definition of a subject needs.\<close>

fun requires :: "decls \<Rightarrow> subject \<Rightarrow> string set" where
  "requires D (DefType (Ty k nm dc cn el len c v nl pk al args bd)) =
     (if k = TyArray \<or> k = TyOptional then needed D el
      else if k = TyTuple then \<Union> (needed D ` set args)
      else if k = TyFunc then \<Union> (needed D ` set args) \<union> needed D el
      else {})"
| "requires D (DefResult t) = needed D (Some t)"
| "requires D (DefDecl d) = \<Union> (needed D ` set (content_types D d))"

text \<open>Every definition comes after those it needs.\<close>

definition defs_ordered :: "decls \<Rightarrow> c_def list \<Rightarrow> bool" where
  "defs_ordered D ds \<longleftrightarrow> (\<forall>i < length ds. requires D (cd_of (ds ! i)) \<subseteq> cd_name ` set (take i ds))"

lemma defs_ordered_Nil [simp]: "defs_ordered D []"
  by (simp add: defs_ordered_def)

lemma defs_ordered_snoc [simp]:
  "defs_ordered D (ds @ [d]) \<longleftrightarrow> defs_ordered D ds \<and> requires D (cd_of d) \<subseteq> cd_name ` set ds"
proof
  assume a: "defs_ordered D (ds @ [d])"
  have "requires D (cd_of (ds ! i)) \<subseteq> cd_name ` set (take i ds)" if "i < length ds" for i
    using a that by (auto simp: defs_ordered_def nth_append dest!: spec[of _ i])
  moreover have "requires D (cd_of d) \<subseteq> cd_name ` set ds"
    using a by (auto simp: defs_ordered_def dest!: spec[of _ "length ds"])
  ultimately show "defs_ordered D ds \<and> requires D (cd_of d) \<subseteq> cd_name ` set ds" by (simp add: defs_ordered_def)
next
  assume a: "defs_ordered D ds \<and> requires D (cd_of d) \<subseteq> cd_name ` set ds"
  show "defs_ordered D (ds @ [d])"
    unfolding defs_ordered_def
  proof (intro allI impI)
    fix i assume "i < length (ds @ [d])"
    then consider "i < length ds" | "i = length ds" by fastforce
    then show "requires D (cd_of ((ds @ [d]) ! i)) \<subseteq> cd_name ` set (take i (ds @ [d]))"
      using a by cases (auto simp: defs_ordered_def nth_append)
  qed
qed

text \<open>The declarations the walk through a type enters, and the types it may meet an atomic record in.\<close>

fun follows :: "ty option \<Rightarrow> nat set" and follows_all :: "ty option list \<Rightarrow> nat set" where
  "follows None = {}"
| "follows (Some (Ty k nm dc cn el len c v nl pk al args bd)) =
     (if k = TyPointer \<or> k = TySpan \<or> k = TyAtomic then (if of_kind (\<lambda>k. \<not> is_record_kind k) el then follows el else {})
      else if k = TyArray \<or> k = TyOptional then follows el
      else if k = TyFallible then (if no_value el \<or> of_kind (\<lambda>k. k = TyParam) el then {} else follows el)
      else if k = TyTuple then follows_all args
      else if k = TyFunc then follows_all args \<union> follows el
      else if is_record_kind k then set_option dc
      else {})"
| "follows_all [] = {}"
| "follows_all (t # ts) = follows t \<union> follows_all ts"

definition follow_rel :: "decls \<Rightarrow> nat rel" where
  "follow_rel D = {(d, e). e \<in> follows_all (content_types D d)}"

text \<open>\<open>@T\<close> is of an integer, a \<open>bool\<close> or a pointer: the checker refuses an atomic record.\<close>

fun atomics_scalar :: "ty option \<Rightarrow> bool" and atomics_scalar_all :: "ty option list \<Rightarrow> bool" where
  "atomics_scalar None = True"
| "atomics_scalar (Some (Ty k nm dc cn el len c v nl pk al args bd)) =
     ((k = TyAtomic \<longrightarrow> of_kind (\<lambda>k. \<not> is_record_kind k) el) \<and> atomics_scalar el \<and> atomics_scalar_all args)"
| "atomics_scalar_all [] = True"
| "atomics_scalar_all (t # ts) = (atomics_scalar t \<and> atomics_scalar_all ts)"

subsection \<open>The invariant\<close>

definition defined_names :: "type_writer \<Rightarrow> string set" where
  "defined_names w = cd_name ` set (tw_out w)"

text \<open>The declarations that have been defined, in order.\<close>

fun decl_defs :: "c_def list \<Rightarrow> nat list" where
  "decl_defs [] = []"
| "decl_defs (d # ds) = (case cd_of d of DefDecl e \<Rightarrow> e # decl_defs ds | _ \<Rightarrow> decl_defs ds)"

lemma decl_defs_append [simp]: "decl_defs (xs @ ys) = decl_defs xs @ decl_defs ys"
  by (induction xs) (auto split: subject.split)

definition writer_ok :: "decls \<Rightarrow> type_writer \<Rightarrow> bool" where
  "writer_ok D w \<longleftrightarrow> defs_ordered D (tw_out w) \<and> set (tw_typedefs_done w) \<subseteq> defined_names w \<and>
     (\<forall>t \<in> set (tw_arrays_done w). array_c_name D (Some t) \<in> defined_names w) \<and>
     (\<forall>d \<in> set (tw_decls_done w). nominal_name D (Some d) \<subseteq> defined_names w) \<and>
     decl_defs (tw_out w) = tw_decls_done w \<and> distinct (tw_decls_done w @ tw_decls_busy w)"

text \<open>A step that ends in an ordered state, with more defined, the goal included, and nothing else busy.\<close>

definition writes :: "decls \<Rightarrow> string set \<Rightarrow> type_writer \<Rightarrow> type_writer \<Rightarrow> bool" where
  "writes D goal w w' \<longleftrightarrow> writer_ok D w' \<and> tw_decls_busy w' = tw_decls_busy w \<and>
     defined_names w \<subseteq> defined_names w' \<and> goal \<subseteq> defined_names w'"

lemma writes_refl: "writer_ok D w \<Longrightarrow> goal \<subseteq> defined_names w \<Longrightarrow> writes D goal w w"
  by (simp add: writes_def)

lemma writes_trans: "writes D A w w' \<Longrightarrow> writes D B w' w'' \<Longrightarrow> writes D (A \<union> B) w w''"
  unfolding writes_def by auto

lemma writes_weaken: "writes D A w w' \<Longrightarrow> B \<subseteq> A \<Longrightarrow> writes D B w w'"
  unfolding writes_def by auto

lemma writes_ok: "writes D A w w' \<Longrightarrow> writer_ok D w'"
  by (simp add: writes_def)

lemma typedef_done_defined: "writer_ok D w \<Longrightarrow> typedef_done name w \<Longrightarrow> name \<in> defined_names w"
  by (auto simp: writer_ok_def typedef_done_def)

lemma write_typedef_writes:
  assumes "writes D A w w'" "requires D s \<subseteq> A" "\<And>d. s \<noteq> DefDecl d"
  shows "writes D (insert name A) w (write_typedef s name l w')"
  using assms
  by (cases s) (auto simp: writes_def writer_ok_def write_typedef_def write_def_def defined_names_def)

lemma array_done_writes:
  "writes D A w w' \<Longrightarrow> array_c_name D (Some t) \<in> A \<Longrightarrow> writes D A w (w'\<lparr>tw_arrays_done := tw_arrays_done w' @ [t]\<rparr>)"
  by (auto simp: writes_def writer_ok_def defined_names_def)

subsection \<open>The walk\<close>

definition enter_ok :: "decls \<Rightarrow> (nat \<Rightarrow> write_step) \<Rightarrow> bool" where
  "enter_ok D enter \<longleftrightarrow> (\<forall>d w w'. enter d w = Some w' \<and> writer_ok D w \<and>
     (\<forall>b \<in> set (tw_decls_busy w). (b, d) \<in> (follow_rel D)\<^sup>+) \<longrightarrow> writes D (nominal_name D (Some d)) w w')"

definition below_busy :: "decls \<Rightarrow> nat set \<Rightarrow> type_writer \<Rightarrow> bool" where
  "below_busy D ds w \<longleftrightarrow> (\<forall>b \<in> set (tw_decls_busy w). \<forall>d \<in> ds. (b, d) \<in> (follow_rel D)\<^sup>+)"

lemma below_busy_mono: "below_busy D A w \<Longrightarrow> B \<subseteq> A \<Longrightarrow> tw_decls_busy w' = tw_decls_busy w \<Longrightarrow> below_busy D B w'"
  by (auto simp: below_busy_def)

lemma typedef_written:
  assumes "writes D A w w1" "w' = (if typedef_done name w1 then w1 else write_typedef s name l w1)"
    "writes D (insert name A) w (write_typedef s name l w1)"
  shows "writes D {name} w w'"
proof (cases "typedef_done name w1")
  case True
  then have "name \<in> defined_names w1" using typedef_done_defined writes_ok[OF assms(1)] by blast
  then show ?thesis using assms(1,2) True by (simp add: writes_def)
next
  case False
  then have "w' = write_typedef s name l w1" using assms(2) by simp
  then show ?thesis using writes_weaken[OF assms(3), of "{name}"] by simp
qed

text \<open>The branches of \<open>define_type\<close>, each with the walk through what the type holds named.\<close>

lemma define_array:
  assumes "define_type enter D (Some (Ty TyArray nm dc cn el len c v nl pk al args bd)) w = Some w'"
  defines "t \<equiv> Ty TyArray nm dc cn el len c v nl pk al args bd"
  obtains "t \<in> set (tw_arrays_done w)" "w' = w"
  | "t \<notin> set (tw_arrays_done w)" "typedef_done (array_c_name D (Some t)) w" "w' = w\<lparr>tw_arrays_done := tw_arrays_done w @ [t]\<rparr>"
  | w1 where "t \<notin> set (tw_arrays_done w)" "\<not> typedef_done (array_c_name D (Some t)) w" "define_type enter D el w = Some w1"
      "w' = (write_typedef (DefType t) (array_c_name D (Some t)) (array_line D t) w1)
        \<lparr>tw_arrays_done := tw_arrays_done (write_typedef (DefType t) (array_c_name D (Some t)) (array_line D t) w1) @ [t]\<rparr>"
  using assms by (cases "define_type enter D el w") (simp_all add: Let_def split: if_splits)

lemma define_opt:
  assumes "define_type enter D (Some (Ty TyOptional nm dc cn el len c v nl pk al args bd)) w = Some w'"
  defines "t \<equiv> Ty TyOptional nm dc cn el len c v nl pk al args bd"
  obtains w1 where "define_type enter D el w = Some w1"
    "w' = (if el = None \<or> of_kind (\<lambda>k. k = TyParam) el \<or> typedef_done (opt_c_name D (Some t)) w1 then w1
      else write_typedef (DefType t) (opt_c_name D (Some t)) (opt_line D t) w1)"
  using assms by (cases "define_type enter D el w") (simp_all add: Let_def split: if_splits)

lemma define_result:
  assumes "define_type enter D (Some (Ty TyFallible nm dc cn el len c v nl pk al args bd)) w = Some w'"
    "\<not> (no_value el \<or> of_kind (\<lambda>k. k = TyParam) el)"
  obtains w1 where "define_type enter D el w = Some w1"
    "w' = (if typedef_done (fail_c_name D el) w1 then w1
      else write_typedef (DefResult (the el)) (fail_c_name D el) (fail_line D el) w1)"
  using assms by (cases "define_type enter D el w") (simp_all add: Let_def split: if_splits)

lemma define_tup:
  assumes "define_type enter D (Some (Ty TyTuple nm dc cn el len c v nl pk al args bd)) w = Some w'"
  defines "t \<equiv> Ty TyTuple nm dc cn el len c v nl pk al args bd"
  obtains w1 where "define_types enter D args w = Some w1"
    "w' = (if typedef_done (tup_c_name D (Some t)) w1 then w1
      else write_typedef (DefType t) (tup_c_name D (Some t)) (tup_line D t) w1)"
  using assms by (cases "define_types enter D args w") (simp_all add: Let_def split: if_splits)

lemma define_fn:
  assumes "define_type enter D (Some (Ty TyFunc nm dc cn el len c v nl pk al args bd)) w = Some w'"
  defines "t \<equiv> Ty TyFunc nm dc cn el len c v nl pk al args bd"
  obtains w1 w2 where "define_types enter D args w = Some w1" "define_type enter D el w1 = Some w2"
    "w' = (if typedef_done (fn_c_name D (Some t)) w2 then w2
      else write_typedef (DefType t) (fn_c_name D (Some t)) (fn_line D t) w2)"
proof (cases "define_types enter D args w")
  case None
  then show ?thesis using assms by (simp add: Let_def)
next
  case (Some w1)
  then show ?thesis using assms that by (cases "define_type enter D el w1") (simp_all add: Let_def split: if_splits)
qed

lemma define_type_writes:
  shows "enter_ok D enter \<Longrightarrow> define_type enter D t w = Some w' \<Longrightarrow> writer_ok D w \<Longrightarrow> atomics_scalar t \<Longrightarrow>
      below_busy D (follows t) w \<Longrightarrow> writes D (needed D t) w w'"
    and "enter_ok D enter \<Longrightarrow> define_types enter D ts w = Some w' \<Longrightarrow> writer_ok D w \<Longrightarrow> atomics_scalar_all ts \<Longrightarrow>
      below_busy D (follows_all ts) w \<Longrightarrow> writes D (\<Union> (needed D ` set ts)) w w'"
proof (induction enter D t w and enter D ts w arbitrary: w' and w' rule: define_type_define_types.induct)
  case (1 enter D w)
  then show ?case by (simp add: writes_refl)
next
  case (2 enter D k nm dc cn el len c v nl pk al args bd w)
  let ?t = "Ty k nm dc cn el len c v nl pk al args bd"
  consider (param) "k = TyParam" | (ptr) "k = TyPointer \<or> k = TySpan \<or> k = TyAtomic" | (arr) "k = TyArray"
    | (opt) "k = TyOptional" | (fail) "k = TyFallible" | (tup) "k = TyTuple" | (fn) "k = TyFunc"
    | (rec) "is_record_kind k"
    | (other) "k \<notin> {TyParam, TyPointer, TySpan, TyAtomic, TyArray, TyOptional, TyFallible, TyTuple, TyFunc}" "\<not> is_record_kind k"
    by blast
  then show ?case
  proof cases
    case param
    then show ?thesis using "2.prems" by (simp add: writes_refl is_record_kind_def)
  next
    case ptr
    have not: "k \<noteq> TyParam" using ptr by auto
    show ?thesis
    proof (cases "of_kind (\<lambda>k. \<not> is_record_kind k) el")
      case True
      have run: "define_type enter D el w = Some w'" using "2.prems"(2) ptr not True by (auto simp: Let_def)
      have "follows el \<subseteq> follows (Some ?t)" using ptr True by auto
      then have "writes D (needed D el) w w'"
        using "2.IH"(1)[OF refl not ptr True "2.prems"(1) run "2.prems"(3)] "2.prems"(4,5) by (auto simp: below_busy_def)
      then show ?thesis using ptr True by auto
    next
      case False
      then have "k \<noteq> TyAtomic" using "2.prems"(4) by auto
      then show ?thesis using "2.prems"(2,3) ptr False not by (auto simp: writes_refl Let_def)
    qed
  next
    case arr
    have need: "needed D (Some ?t) = {array_c_name D (Some ?t)}" using arr by simp
    from "2.prems"(2)[unfolded arr] show ?thesis
    proof (cases rule: define_array)
      case 1
      then have "array_c_name D (Some ?t) \<in> defined_names w" using "2.prems"(3) arr unfolding writer_ok_def by blast
      then show ?thesis unfolding need 1(2) by (intro writes_refl "2.prems"(3)) simp
    next
      case 2
      have "writes D {array_c_name D (Some ?t)} w w"
        using typedef_done_defined[OF "2.prems"(3) 2(2)] "2.prems"(3) arr by (intro writes_refl) simp_all
      then show ?thesis using array_done_writes[of D _ w w ?t] need 2(3) arr by simp
    next
      case (3 w1)
      have "writes D (needed D el) w w1"
        using "2.IH"(2)[OF refl _ _ arr _ _ "2.prems"(1) 3(3) "2.prems"(3)] 3(1,2) arr "2.prems"(4,5) by simp
      then have "writes D (insert (array_c_name D (Some ?t)) (needed D el)) w
          (write_typedef (DefType ?t) (array_c_name D (Some ?t)) (array_line D ?t) w1)"
        using arr by (intro write_typedef_writes) simp_all
      then have "writes D (insert (array_c_name D (Some ?t)) (needed D el)) w w'"
        unfolding 3(4) arr by (rule array_done_writes) simp
      then show ?thesis unfolding need by (rule writes_weaken) simp
    qed
  next
    case opt
    obtain w1 where run: "define_type enter D el w = Some w1"
      and w': "w' = (if el = None \<or> of_kind (\<lambda>k. k = TyParam) el \<or> typedef_done (opt_c_name D (Some ?t)) w1 then w1
          else write_typedef (DefType ?t) (opt_c_name D (Some ?t)) (opt_line D ?t) w1)"
      using "2.prems"(2) unfolding opt by (rule define_opt)
    have w1: "writes D (needed D el) w w1"
      using "2.IH"(3)[OF refl _ _ _ opt "2.prems"(1) run "2.prems"(3)] opt "2.prems"(4,5) by simp
    have "writes D (insert (opt_c_name D (Some ?t)) (needed D el)) w
        (write_typedef (DefType ?t) (opt_c_name D (Some ?t)) (opt_line D ?t) w1)"
      using opt by (intro write_typedef_writes[OF w1]) simp_all
    note written = this
    show ?thesis
    proof (cases "el = None \<or> of_kind (\<lambda>k. k = TyParam) el")
      case True
      then have need: "needed D (Some ?t) = {}" using opt by simp
      have "w' = w1" unfolding w' by (rule if_P) (use True in blast)
      then show ?thesis unfolding need using writes_weaken[OF w1] by blast
    next
      case False
      then have need: "needed D (Some ?t) = {opt_c_name D (Some ?t)}" using opt by simp
      have "w' = (if typedef_done (opt_c_name D (Some ?t)) w1 then w1
          else write_typedef (DefType ?t) (opt_c_name D (Some ?t)) (opt_line D ?t) w1)" 
        unfolding w' using False by (intro if_cong) blast+
      then show ?thesis unfolding need by (rule typedef_written[OF w1 _ written])
    qed
  next
    case fail
    show ?thesis
    proof (cases "no_value el \<or> of_kind (\<lambda>k. k = TyParam) el")
      case True
      then show ?thesis using fail "2.prems"(2,3) by (simp add: writes_refl Let_def)
    next
      case False
      obtain w1 where run: "define_type enter D el w = Some w1"
        and w': "w' = (if typedef_done (fail_c_name D el) w1 then w1
            else write_typedef (DefResult (the el)) (fail_c_name D el) (fail_line D el) w1)"
        using "2.prems"(2) False unfolding fail by (rule define_result)
      have el: "Some (the el) = el" using False by (auto simp: no_value_def)
      have w1: "writes D (needed D el) w w1"
        using "2.IH"(4)[OF refl _ _ _ _ fail False "2.prems"(1) run "2.prems"(3)] fail False "2.prems"(4,5) by simp
      have written: "writes D (insert (fail_c_name D el) (needed D el)) w
          (write_typedef (DefResult (the el)) (fail_c_name D el) (fail_line D el) w1)"
        by (intro write_typedef_writes[OF w1]) (simp_all add: el)
      have need: "needed D (Some ?t) = {fail_c_name D el}" using fail False by simp
      show ?thesis unfolding need by (rule typedef_written[OF w1 w' written])
    qed
  next
    case tup
    obtain w1 where run: "define_types enter D args w = Some w1"
      and w': "w' = (if typedef_done (tup_c_name D (Some ?t)) w1 then w1
          else write_typedef (DefType ?t) (tup_c_name D (Some ?t)) (tup_line D ?t) w1)"
      using "2.prems"(2) unfolding tup by (rule define_tup)
    have w1: "writes D (\<Union> (needed D ` set args)) w w1"
      using "2.IH"(5)[OF refl _ _ _ _ _ tup "2.prems"(1) run "2.prems"(3)] tup "2.prems"(4,5) by simp
    have written: "writes D (insert (tup_c_name D (Some ?t)) (\<Union> (needed D ` set args))) w
        (write_typedef (DefType ?t) (tup_c_name D (Some ?t)) (tup_line D ?t) w1)"
      using tup by (intro write_typedef_writes[OF w1]) simp_all
    have need: "needed D (Some ?t) = {tup_c_name D (Some ?t)}" using tup by simp
    show ?thesis unfolding need by (rule typedef_written[OF w1 w' written])
  next
    case fn
    obtain w1 w2 where run: "define_types enter D args w = Some w1" "define_type enter D el w1 = Some w2"
      and w': "w' = (if typedef_done (fn_c_name D (Some ?t)) w2 then w2
          else write_typedef (DefType ?t) (fn_c_name D (Some ?t)) (fn_line D ?t) w2)"
      using "2.prems"(2) unfolding fn by (rule define_fn)
    have w1: "writes D (\<Union> (needed D ` set args)) w w1"
      using "2.IH"(6)[OF refl _ _ _ _ _ _ fn "2.prems"(1) run(1) "2.prems"(3)] fn "2.prems"(4,5) by (simp add: below_busy_def)
    then have "below_busy D (follows el) w1"
      using "2.prems"(5) fn by (auto simp: below_busy_def writes_def)
    then have "writes D (needed D el) w1 w2"
      using "2.IH"(7)[OF refl _ _ _ _ _ _ fn run(1) "2.prems"(1) run(2) writes_ok[OF w1]] fn "2.prems"(4) by simp
    note w2 = writes_trans[OF w1 this]
    have written: "writes D (insert (fn_c_name D (Some ?t)) (\<Union> (needed D ` set args) \<union> needed D el)) w
        (write_typedef (DefType ?t) (fn_c_name D (Some ?t)) (fn_line D ?t) w2)"
      using fn by (intro write_typedef_writes[OF w2]) simp_all
    have need: "needed D (Some ?t) = {fn_c_name D (Some ?t)}" using fn by simp
    show ?thesis unfolding need by (rule typedef_written[OF w2 w' written])
  next
    case rec
    then have k: "k \<notin> {TyParam, TyPointer, TySpan, TyAtomic, TyArray, TyOptional, TyFallible, TyTuple, TyFunc}"
      by (auto simp: is_record_kind_def)
    show ?thesis
    proof (cases dc)
      case None
      then show ?thesis using rec k "2.prems"(2,3) by (simp add: writes_refl nominal_name_def)
    next
      case (Some d)
      then have "enter d w = Some w'" "\<forall>b \<in> set (tw_decls_busy w). (b, d) \<in> (follow_rel D)\<^sup>+"
        using rec k "2.prems"(2,5) by (simp_all add: below_busy_def)
      then have "writes D (nominal_name D (Some d)) w w'" using "2.prems"(1,3) by (auto simp: enter_ok_def)
      then show ?thesis using rec k Some by simp
    qed
  next
    case other
    then show ?thesis using "2.prems"(2,3) by (simp add: writes_refl)
  qed
next
  case (3 enter D w)
  then show ?case by (simp add: writes_refl)
next
  case (4 enter D t ts w)
  obtain w1 where run: "define_type enter D t w = Some w1" "define_types enter D ts w1 = Some w'"
    using "4.prems"(2) by (cases "define_type enter D t w") simp_all
  have w1: "writes D (needed D t) w w1"
    using "4.IH"(1)[OF "4.prems"(1) run(1) "4.prems"(3)] "4.prems"(4,5) by (simp add: below_busy_def)
  then have "below_busy D (follows_all ts) w1" using "4.prems"(5) by (auto simp: below_busy_def writes_def)
  then have "writes D (\<Union> (needed D ` set ts)) w1 w'"
    using "4.IH"(2)[OF run(1) "4.prems"(1) run(2) writes_ok[OF w1]] "4.prems"(4) by simp
  then show ?case using writes_trans[OF w1] by simp
qed

lemma define_decl_cases:
  assumes "define_decl D (Suc n) d w = Some w'" "d \<notin> set (tw_decls_busy w)"
  obtains "w' = w" "nominal_name D (Some d) = {}" | "w' = w" "d \<in> set (tw_decls_done w)"
  | td w1 where "D d = Some td" "\<not> undefined_decl td" "d \<notin> set (tw_decls_done w)"
      "define_types (define_decl D n) D (content_types D d) (w\<lparr>tw_decls_busy := tw_decls_busy w @ [d]\<rparr>) = Some w1"
      "w' = write_def (DefDecl d) (struct_ident td []) (emit_record D td)
        (w1\<lparr>tw_decls_busy := butlast (tw_decls_busy w1), tw_decls_done := tw_decls_done w1 @ [d]\<rparr>)"
proof (cases "D d")
  case None
  then show thesis using assms that(1) by (simp add: nominal_name_def)
next
  case (Some td)
  consider "undefined_decl td" | "d \<in> set (tw_decls_done w)" | "\<not> undefined_decl td" "d \<notin> set (tw_decls_done w)" by blast
  then show thesis
  proof cases
    case 1
    then show thesis using assms that(1) Some by (simp add: nominal_name_def)
  next
    case 2
    then show thesis using assms that(2) Some by simp
  next
    case 3
    then show thesis
      using assms that(3)[OF Some 3] Some
      by (cases "define_types (define_decl D n) D (content_types D d) (w\<lparr>tw_decls_busy := tw_decls_busy w @ [d]\<rparr>)")
        (simp_all add: Let_def)
  qed
qed

lemma define_decl_ok:
  assumes acyc: "acyclic (follow_rel D)" and scalar: "\<And>d. atomics_scalar_all (content_types D d)"
  shows "enter_ok D (define_decl D n)"
proof (induction n)
  case 0
  then show ?case by (simp add: enter_ok_def)
next
  case (Suc n)
  show ?case
    unfolding enter_ok_def
  proof (intro allI impI, elim conjE)
    fix d w w'
    assume run: "define_decl D (Suc n) d w = Some w'" and ok: "writer_ok D w"
      and busy: "\<forall>b \<in> set (tw_decls_busy w). (b, d) \<in> (follow_rel D)\<^sup>+"
    have "d \<notin> set (tw_decls_busy w)" using busy acyc by (auto simp: acyclic_def)
    from run \<open>d \<notin> set (tw_decls_busy w)\<close> show "writes D (nominal_name D (Some d)) w w'"
    proof (cases rule: define_decl_cases)
      case 1
      then show ?thesis using writes_refl[OF ok, of "{}"] by simp
    next
      case 2
      have "nominal_name D (Some d) \<subseteq> defined_names w" using ok 2(2) unfolding writer_ok_def by blast
      then show ?thesis unfolding 2(1) by (rule writes_refl[OF ok])
    next
      case (3 td w1)
      let ?w = "w\<lparr>tw_decls_busy := tw_decls_busy w @ [d]\<rparr>"
      note w1 = 3(4) and w' = 3(5)
      have ok': "writer_ok D ?w" using ok \<open>d \<notin> set (tw_decls_busy w)\<close> 3(3) by (auto simp: writer_ok_def defined_names_def)
      have "(d, e) \<in> (follow_rel D)\<^sup>+" if "e \<in> follows_all (content_types D d)" for e
        using that by (auto simp: follow_rel_def)
      then have "below_busy D (follows_all (content_types D d)) ?w"
        using busy by (auto simp: below_busy_def intro: trancl_trans)
      then have writes: "writes D (\<Union> (needed D ` set (content_types D d))) ?w w1"
        by (rule define_type_writes(2)[OF Suc w1 ok' scalar])
      have "nominal_name D (Some d) = {struct_ident td []}" using 3(1,2) by (simp add: nominal_name_def)
      then show ?thesis
        using writes unfolding w'
        by (auto simp: writes_def writer_ok_def write_def_def defined_names_def)
    qed
  qed
qed

end
