(* ===== verification/EmitTypesReturns.thy ===== *)
theory EmitTypesReturns
  imports EmitTypesLaws
begin

section \<open>The definitions are written\<close>

text \<open>
  No declaration is entered while it is being written, so the walk returns where finitely many
  declarations are followed and the fuel is more than their number, cyclic ones included; where the
  relation of following has no cycle, the definitions are in order and complete.
\<close>

definition follow_within :: "decls \<Rightarrow> nat set \<Rightarrow> bool" where
  "follow_within D U \<longleftrightarrow> finite U \<and> (\<forall>d. follows_all (content_types D d) \<subseteq> U)"

text \<open>A step returns and leaves the busy declarations as they are.\<close>

definition returns_busy :: "type_writer \<Rightarrow> type_writer option \<Rightarrow> bool" where
  "returns_busy w r \<longleftrightarrow> (\<exists>w'. r = Some w' \<and> tw_decls_busy w' = tw_decls_busy w)"

definition enter_returns :: "nat set \<Rightarrow> nat list \<Rightarrow> (nat \<Rightarrow> write_step) \<Rightarrow> bool" where
  "enter_returns U busy enter \<longleftrightarrow> (\<forall>d \<in> U. \<forall>w. tw_decls_busy w = busy \<longrightarrow> returns_busy w (enter d w))"

lemma write_typedef_busy [simp]: "tw_decls_busy (write_typedef s name l w) = tw_decls_busy w"
  by (simp add: write_typedef_def write_def_def)

lemma returns_busyI [intro]: "r = Some w' \<Longrightarrow> tw_decls_busy w' = tw_decls_busy w \<Longrightarrow> returns_busy w r"
  by (simp add: returns_busy_def)

lemma returns_busyE:
  assumes "returns_busy w r"
  obtains w' where "r = Some w'" "tw_decls_busy w' = tw_decls_busy w"
  using assms by (auto simp: returns_busy_def)

lemma define_type_returns:
  shows "enter_returns U (tw_decls_busy w) enter \<Longrightarrow> follows t \<subseteq> U \<Longrightarrow> returns_busy w (define_type enter D t w)"
    and "enter_returns U (tw_decls_busy w) enter \<Longrightarrow> follows_all ts \<subseteq> U \<Longrightarrow> returns_busy w (define_types enter D ts w)"
proof (induction enter D t w and enter D ts w rule: define_type_define_types.induct)
  case (2 enter D k nm dc cn el len c v nl pk al args bd w)
  let ?t = "Ty k nm dc cn el len c v nl pk al args bd"
  consider (param) "k = TyParam" | (ptr) "k = TyPointer \<or> k = TySpan \<or> k = TyAtomic" | (arr) "k = TyArray"
    | (opt) "k = TyOptional" | (fail) "k = TyFallible" | (tup) "k = TyTuple" | (fn) "k = TyFunc"
    | (rec) "is_record_kind k"
    | (other) "k \<notin> {TyParam, TyPointer, TySpan, TyAtomic, TyArray, TyOptional, TyFallible, TyTuple, TyFunc}" "\<not> is_record_kind k"
    by blast
  then show ?case
  proof cases
    case ptr
    have not: "k \<noteq> TyParam" using ptr by auto
    show ?thesis
    proof (cases "of_kind (\<lambda>k. \<not> is_record_kind k) el")
      case True
      then have "returns_busy w (define_type enter D el w)"
        using "2.IH"(1)[OF refl not ptr True "2.prems"(1)] "2.prems"(2) ptr by auto
      then show ?thesis using ptr not True by (auto simp: Let_def)
    next
      case False
      then show ?thesis using ptr not by (auto simp: Let_def)
    qed
  next
    case arr
    show ?thesis
    proof (cases "?t \<in> set (tw_arrays_done w) \<or> typedef_done (array_c_name D (Some ?t)) w")
      case True
      then show ?thesis using arr by (auto simp: Let_def)
    next
      case False
      then have new: "?t \<notin> set (tw_arrays_done w)" "\<not> typedef_done (array_c_name D (Some ?t)) w" by auto
      have "returns_busy w (define_type enter D el w)"
        using "2.IH"(2)[OF refl _ _ arr new "2.prems"(1)] "2.prems"(2) arr by simp
      then show ?thesis using arr new by (elim returns_busyE) (auto simp: Let_def)
    qed
  next
    case opt
    have "returns_busy w (define_type enter D el w)"
      using "2.IH"(3)[OF refl _ _ _ opt "2.prems"(1)] "2.prems"(2) opt by simp
    then show ?thesis using opt by (elim returns_busyE) (auto simp: Let_def)
  next
    case fail
    show ?thesis
    proof (cases "no_value el \<or> of_kind (\<lambda>k. k = TyParam) el")
      case True
      then show ?thesis using fail by (auto simp: Let_def)
    next
      case False
      have "returns_busy w (define_type enter D el w)"
        using "2.IH"(4)[OF refl _ _ _ _ fail False "2.prems"(1)] "2.prems"(2) fail False by simp
      then show ?thesis using fail False by (elim returns_busyE) (auto simp: Let_def)
    qed
  next
    case tup
    have "returns_busy w (define_types enter D args w)"
      using "2.IH"(5)[OF refl _ _ _ _ _ tup "2.prems"(1)] "2.prems"(2) tup by simp
    then show ?thesis using tup by (elim returns_busyE) (auto simp: Let_def)
  next
    case fn
    have "returns_busy w (define_types enter D args w)"
      using "2.IH"(6)[OF refl _ _ _ _ _ _ fn "2.prems"(1)] "2.prems"(2) fn by simp
    then obtain w1 where w1: "define_types enter D args w = Some w1" "tw_decls_busy w1 = tw_decls_busy w"
      by (rule returns_busyE)
    have "returns_busy w1 (define_type enter D el w1)"
      using "2.IH"(7)[OF refl _ _ _ _ _ _ fn w1(1)] "2.prems" w1(2) fn by simp
    then show ?thesis using fn w1 by (elim returns_busyE) (auto simp: Let_def)
  next
    case rec
    then have k: "k \<notin> {TyParam, TyPointer, TySpan, TyAtomic, TyArray, TyOptional, TyFallible, TyTuple, TyFunc}"
      by (auto simp: is_record_kind_def)
    then show ?thesis using rec "2.prems" by (auto simp: enter_returns_def split: option.split)
  qed auto
next
  case (4 enter D t ts w)
  have "returns_busy w (define_type enter D t w)" using "4.IH"(1)[OF "4.prems"(1)] "4.prems"(2) by simp
  then obtain w1 where w1: "define_type enter D t w = Some w1" "tw_decls_busy w1 = tw_decls_busy w" by (rule returns_busyE)
  have "returns_busy w1 (define_types enter D ts w1)"
    using "4.IH"(2)[OF w1(1)] "4.prems" w1(2) by simp
  then show ?case using w1 by (elim returns_busyE) auto
qed auto

lemma define_decl_returns:
  assumes "follow_within D U"
  shows "card (U - set busy) < n \<Longrightarrow> enter_returns U busy (define_decl D n)"
proof (induction n arbitrary: busy)
  case (Suc n)
  show ?case
    unfolding enter_returns_def
  proof (intro ballI allI impI)
    fix d and w :: type_writer assume d: "d \<in> U" and w: "tw_decls_busy w = busy"
    let ?w = "w\<lparr>tw_decls_busy := tw_decls_busy w @ [d]\<rparr>"
    show "returns_busy w (define_decl D (Suc n) d w)"
    proof (cases "D d")
      case (Some td)
      show ?thesis
      proof (cases "undefined_decl td \<or> d \<in> set (tw_decls_done w) \<or> d \<in> set (tw_decls_busy w)")
        case True
        then show ?thesis using Some by auto
      next
        case False
        have "U - set (busy @ [d]) = (U - set busy) - {d}" by auto
        moreover have "d \<in> U - set busy" using d w False by auto
        moreover have "finite (U - set busy)" using assms by (auto simp: follow_within_def)
        ultimately have "card (U - set (busy @ [d])) < card (U - set busy)" by (simp only: card_Diff1_less)
        then have "enter_returns U (tw_decls_busy ?w) (define_decl D n)" using Suc w by simp
        then have "returns_busy ?w (define_types (define_decl D n) D (content_types D d) ?w)"
          using assms by (intro define_type_returns(2)) (auto simp: follow_within_def)
        then show ?thesis using Some False by (elim returns_busyE) (auto simp: Let_def write_def_def)
      qed
    qed auto
  qed
qed simp

subsection \<open>The definitions of a program\<close>

text \<open>The types noted, as the references that are walked: a payload noted as failing is its result.\<close>

definition mentioned :: "noted_types \<Rightarrow> ty option list" where
  "mentioned noted = map Some (nt_arrays noted) @ map Some (nt_tups noted) @ map Some (nt_opts noted) @
     map (\<lambda>t. wrapper_ty TyFallible (Some t)) (nt_fails noted) @ map Some (nt_fns noted)"

definition record_decl :: "decls \<Rightarrow> nat \<Rightarrow> bool" where
  "record_decl D d \<longleftrightarrow>
     (case D d of None \<Rightarrow> False | Some td \<Rightarrow> td_kind td \<in> {NStruct, NExternStruct, NUnion, NExternUnion, NEnum})"

lemma define_types_append:
  "define_types enter D (xs @ ys) = (\<lambda>w. Option.bind (define_types enter D xs w) (define_types enter D ys))"
proof (induction xs)
  case (Cons t xs)
  show ?case by (rule ext) (simp add: Cons)
qed (rule ext, simp)

lemma define_fail_as_type: "define_fail enter D t = define_type enter D (wrapper_ty TyFallible t)"
  by (rule ext) (simp add: define_fail_def wrapper_ty_def Let_def)

lemma define_fails_as_types:
  "define_fails D n ts = define_types (define_decl D n) D (map (\<lambda>t. wrapper_ty TyFallible (Some t)) ts)"
proof (induction ts)
  case (Cons t ts)
  show ?case by (rule ext) (simp add: Cons define_fail_as_type)
qed (rule ext, simp)

lemma emit_type_defs_walk:
  "emit_type_defs D n ds noted w =
     Option.bind (define_decls D n ds (write_typedef (DefType (kind_ty TyUsize)) ''lb_r_usize'' ''LB_RES(size_t, lb_r_usize);'' w))
       (define_types (define_decl D n) D (mentioned noted))"
  by (simp add: emit_type_defs_def mentioned_def define_types_append define_fails_as_types Let_def)

definition settled :: "decls \<Rightarrow> type_writer \<Rightarrow> bool" where
  "settled D w \<longleftrightarrow> writer_ok D w \<and> tw_decls_busy w = []"

lemma first_settled: "settled D (write_typedef (DefType (kind_ty TyUsize)) name l empty_writer)"
  by (simp add: settled_def writer_ok_def write_typedef_def write_def_def empty_writer_def kind_ty_def defined_names_def
      defs_ordered_def)

lemma define_types_settled:
  assumes "enter_ok D enter" "enter_returns U [] enter" "settled D w" "follows_all ts \<subseteq> U" "atomics_scalar_all ts"
  obtains w' where "define_types enter D ts w = Some w'" "writes D (\<Union> (needed D ` set ts)) w w'" "settled D w'"
proof -
  have "returns_busy w (define_types enter D ts w)"
    using assms(2,3,4) by (intro define_type_returns(2)) (simp_all add: settled_def)
  then obtain w' where run: "define_types enter D ts w = Some w'" by (rule returns_busyE)
  have "writes D (\<Union> (needed D ` set ts)) w w'"
    using assms(3) by (intro define_type_writes(2)[OF assms(1) run _ assms(5)]) (simp_all add: settled_def below_busy_def)
  moreover from this have "settled D w'" using assms(3) by (simp add: writes_def settled_def)
  ultimately show thesis using that run by blast
qed

lemma define_decls_settled:
  assumes "enter_ok D (define_decl D n)" "enter_returns U [] (define_decl D n)"
  shows "settled D w \<Longrightarrow> set ds \<subseteq> U \<Longrightarrow>
    \<exists>w'. define_decls D n ds w = Some w' \<and> writes D (\<Union>d \<in> {d \<in> set ds. record_decl D d}. nominal_name D (Some d)) w w'"
proof (induction ds arbitrary: w)
  case Nil
  then show ?case by (simp add: settled_def writes_refl)
next
  case (Cons d ds)
  let ?goal = "\<lambda>ds. \<Union>d \<in> {d \<in> set ds. record_decl D d}. nominal_name D (Some d)"
  show ?case
  proof (cases "record_decl D d")
    case True
    have "returns_busy w (define_decl D n d w)"
      using assms(2) Cons.prems by (auto simp: enter_returns_def settled_def)
    then obtain w1 where w1: "define_decl D n d w = Some w1" by (rule returns_busyE)
    have d: "writes D (nominal_name D (Some d)) w w1"
      using assms(1) w1 Cons.prems(1) by (simp add: enter_ok_def settled_def)
    then have "settled D w1" using Cons.prems(1) by (simp add: writes_def settled_def)
    then obtain w' where w': "define_decls D n ds w1 = Some w'" "writes D (?goal ds) w1 w'"
      using Cons.IH[of w1] Cons.prems(2) by auto
    have "?goal (d # ds) = nominal_name D (Some d) \<union> ?goal ds" using True by auto
    then have "writes D (?goal (d # ds)) w w'" using writes_trans[OF d w'(2)] by (simp only:)
    moreover have "define_decls D n (d # ds) w = Some w'" using True w1 w'(1) by (simp add: record_decl_def)
    ultimately show ?thesis by blast
  next
    case False
    then have "?goal (d # ds) = ?goal ds" by auto
    moreover have "define_decls D n (d # ds) w = define_decls D n ds w" using False by (simp add: record_decl_def)
    ultimately show ?thesis using Cons.IH[OF Cons.prems(1)] Cons.prems(2) by simp
  qed
qed


definition held_struct :: decls where
  "held_struct = [0 \<mapsto> plain_struct [plain_field ''b'' (wrapper_ty TyOptional (struct_ty 1))],
     1 \<mapsto> (plain_struct [plain_field ''a'' (Some (kind_ty TyI32))])\<lparr>td_text := ''T''\<rparr>]"

lemma held_struct_contents:
  "content_types held_struct e =
     (if e = 0 then [wrapper_ty TyOptional (struct_ty 1)] else if e = 1 then [Some (kind_ty TyI32)] else [])"
  by (simp add: content_types_def held_struct_def plain_struct_def plain_field_def member_types_def)

lemma held_struct_follows: "follow_rel held_struct = {(0, 1)}"
  by (auto simp: follow_rel_def held_struct_contents struct_ty_def wrapper_ty_def kind_ty_def is_record_kind_def split: if_splits)

definition noted_result :: noted_types where
  "noted_result = \<lparr>nt_arrays = [], nt_tups = [], nt_opts = [], nt_fails = [the (struct_ty 0)], nt_fns = []\<rparr>"


text \<open>
  The cycle need not be one of containment: a span of an optional of the record itself passes the containment check, and
  the typedef of the optional, which holds the record, is written before the record.
\<close>

definition kids_struct :: decls where
  "kids_struct = [0 \<mapsto> plain_struct [plain_field ''kids'' (wrapper_ty TySpan (wrapper_ty TyOptional (struct_ty 0)))]]"

lemma optional_before_its_record:
  "contains_by_value kids_struct 2 (wrapper_ty TySpan (wrapper_ty TyOptional (struct_ty 0))) 0 = Some False"
  "map_option (map cd_of \<circ> tw_out) (define_decl kids_struct 2 0 empty_writer) =
     Some [DefType (the (wrapper_ty TyOptional (struct_ty 0))), DefDecl 0]"
  "requires kids_struct (DefType (the (wrapper_ty TyOptional (struct_ty 0)))) = {struct_ident (the (kids_struct 0)) []}"
  by (simp_all add: kids_struct_def contains_by_value_def wrapper_ty_def struct_ty_def plain_struct_def plain_field_def
      undefined_decl_def content_types_def member_types_def is_record_kind_def nominal_name_def empty_writer_def
      typedef_done_def write_typedef_def write_def_def Let_def numeral_2_eq_2 has_flag_def of_kind_def no_value_def)

end
