(* ===== verification/Spec2Isabelle.thy ===== *)
theory Spec2Isabelle
  imports FloatText Driver OracleC Sync StructLaws LoadReturns RtFormat AllocLaws EmitTypesReturns
begin

text \<open>
  The seed compiler of Luce, and the runtime the programs it builds are linked with. \<open>lucb\<close> reads the
  modules of a package, tokenizes and parses each, checks them together, and then either interprets the
  program or writes it as one C file for the host's compiler. This development follows that path: each
  theory names the files it models, under \<open>src/\<close>, and its definitions have the names of their functions.

  \<^bold>\<open>Text.\<close> \<open>Prelude\<close> holds the string operations and the fact collections all share. \<open>Diagnostics\<close>
  (\<open>support/diagnostics.cpp\<close>) is the bag of errors and warnings; \<open>Utf8\<close> the decoder and the encoder, joined by
  the locale \<open>utf8_codec\<close>; \<open>Source\<close> (\<open>source/source.cpp\<close>) the encoding gate, positions, directives and the
  assembly of a module from fragments. A source is accepted exactly when its text is admissible, and
  positions count the newlines and the scalars before a byte.

  \<^bold>\<open>Tokens.\<close> \<open>Token\<close> (\<open>lex/token.cpp\<close>) has the kinds and the keyword table. \<open>lex/lexer.cpp\<close> is in \<open>LexState\<close>
  (the record of class \<open>Tokenizer\<close>, and the operations that move its cursor, under the locale \<open>cursor_op\<close>),
  \<open>Symbols\<close> (maximal munch) and \<open>LexOps\<close> (everything that emits a token). \<open>LexInv\<close> states the invariant and
  \<open>LexRun\<close> proves that every operation keeps it and moves on: the tokenizer returns on every source, its
  indents are balanced, its brackets are nested where it reports no error, and every token lies in the
  source.

  \<^bold>\<open>Literals.\<close> \<open>Literal\<close> (\<open>support/literal.cpp\<close>) parses integers, characters and texts. \<open>Big\<close>, \<open>Decimal\<close>,
  \<open>Rounding\<close>, \<open>DecimalProof\<close> and \<open>FloatText\<close> are \<open>support/decimal.cpp\<close>: big integers as lists of limbs under the
  locale \<open>big_number\<close>, the conversion of a decimal, its specification as the nearest value, the proof that
  it meets it at any length, and the text of a float literal.

  \<^bold>\<open>Trees.\<close> \<open>Ast\<close> (\<open>parse/ast.cpp\<close>) has the nodes and the dump. \<open>ParseState\<close>, \<open>ParseAhead\<close>, \<open>ParseExpr\<close>, \<open>ParseStmt\<close>,
  \<open>ParseDecl\<close> and \<open>ParseModule\<close> are the parser, in the state monad, a production a definition. \<open>ParseLaws\<close>,
  \<open>ParseSound\<close>, \<open>ParseTotal\<close> and \<open>ParseReturns\<close> give every production its contract (forward within the
  stream, nothing of the nesting lost, diagnostics only added), tie the recursion under the locale
  \<open>productions_at\<close>, and conclude that the parser returns a module on every stream of the tokenizer.
  \<open>Driver\<close> (\<open>main.cpp\<close>) puts these together as \<open>lucb dump\<close>.

  \<^bold>\<open>Packages.\<close> \<open>Package\<close> and \<open>Load\<close> (\<open>pkg/package.cpp\<close>) are the manifest, the search for a module and the loading
  of its imports. \<open>LoadLaws\<close> and \<open>OrderLaws\<close> show that no cycle of imports is loaded and that the order of
  the modules follows the imports; \<open>LoadReturns\<close> that loading returns.

  \<^bold>\<open>Types.\<close> \<open>Types\<close> (\<open>check/type.cpp\<close>) has the types and their predicates, \<open>Containment\<close> (\<open>check/check.cpp\<close>) the
  check that no record contains itself, \<open>Layout\<close>, \<open>LayoutLaws\<close> and \<open>StructLaws\<close> the sizes, alignments and
  offsets, which the check makes computable.

  \<^bold>\<open>Integers, twice.\<close> \<open>RtInt\<close> and \<open>RtIntLaws\<close> are the runtime's arithmetic (\<open>runtime/lucb_rt.c\<close>), \<open>IntOps\<close> the
  interpreter's (\<open>interp/ops.cpp\<close>), \<open>Cgen\<close> and \<open>EmitOps\<close> what the emitter writes for an operator
  (\<open>emit/cgen.cpp\<close>, \<open>emit/expr.cpp\<close>, \<open>emit/stmt.cpp\<close>). \<open>OracleC\<close> shows that the interpreter and the emitted call are
  the same function, and where they are not.

  \<^bold>\<open>Text and memory, twice.\<close> \<open>RtText\<close> and \<open>RtFormat\<close> do the same for loops over a text and for formatted text;
  \<open>Alloc\<close> and \<open>AllocLaws\<close> for the fixed buffer, which with the compiler's own arena is an interpretation of
  the locale \<open>bump_allocator\<close>. \<open>Sync\<close> runs any number of threads over the runtime's mutex, condition, once
  and semaphore, one atomic access a step, under the locale \<open>token_protocol\<close>.

  \<^bold>\<open>Definitions of types.\<close> \<open>EmitTypes\<close> (\<open>emit/types.cpp\<close>) writes the type definitions of the C file,
  \<open>EmitTypesLaws\<close> shows each comes after those it needs, and \<open>EmitTypesReturns\<close> that all of them are written.

  \<^bold>\<open>Recursion that is not structural.\<close> The tokenizer's loops are partial functions, shown to return. The parser
  has eight levels of its productions for each token and eight more, since every eighth call takes a
  token. The containment check, the layouts and the type definitions take a unit of fuel to enter a
  declaration: more than the number of declarations is enough, as none is entered twice at a time. Loading
  takes one for each nested import, and the modules on the way are distinct.

  \<^bold>\<open>Numbers.\<close> Integers of the program that is compiled, bit patterns, hashes and the sizes of allocators are
  words at their width. Counters of bytes, lines, tokens and digits are naturals: a source has at most
  64 MiB. Layouts are integers, with the casts of the code written out.

  \<^bold>\<open>Not modelled.\<close> The checker beyond types, containment and layout works on a tree that it rewrites in place;
  with it the interpreter's values with parts and the C text of calls and control flow are left out. The
  file system and the embedded standard modules are parameters of \<open>Load\<close>, and so are the lists of types the
  emitter's collectors find. Processes, files, threads as the host starts them, the printing of floats and
  the host's C compiler are outside: they call the operating system or the C library.
\<close>

end
